(* ===== verification/Neon_Prelude.thy ===== *)
theory Neon_Prelude
  imports Main "HOL-Library.Word" "HOL-Library.Code_Target_Nat"
begin

text \<open>
  The prelude of the development: the machine integers of the Rust sources, the
  state-and-error programs in which the stateful handlers are written, the preservation
  calculus for them, and the fixed-width byte encodings shared by the wire formats.
\<close>

unbundle bit_operations_syntax

section \<open>Machine integers\<close>

type_synonym u8 = "8 word"
type_synonym u16 = "16 word"
type_synonym u32 = "32 word"
type_synonym u64 = "64 word"

type_synonym bytes = "u8 list"

text \<open>
  Rust's checked, saturating and overflowing operations. \<open>None\<close> is the overflow.
\<close>

definition checked_add :: "'w::len word \<Rightarrow> 'w word \<Rightarrow> 'w word option" where
  "checked_add a b = (if unat a + unat b < 2 ^ LENGTH('w) then Some (a + b) else None)"

definition checked_sub :: "'w::len word \<Rightarrow> 'w word \<Rightarrow> 'w word option" where
  "checked_sub a b = (if b \<le> a then Some (a - b) else None)"

definition saturating_sub :: "'w::len word \<Rightarrow> 'w word \<Rightarrow> 'w word" where
  "saturating_sub a b = (if b \<le> a then a - b else 0)"

definition overflowing_add :: "'w::len word \<Rightarrow> 'w word \<Rightarrow> 'w word \<times> bool" where
  "overflowing_add a b = (a + b, 2 ^ LENGTH('w) \<le> unat a + unat b)"

named_theorems word_nat
  \<comment> \<open>facts that move an operation on words to the natural numbers\<close>

lemma checked_add_Some [word_nat]:
  "checked_add a b = Some c \<longleftrightarrow> c = a + b \<and> unat c = unat a + unat b"
  for a b c :: "'w::len word"
proof (cases "unat a + unat b < 2 ^ LENGTH('w)")
  case True
  then have "unat (a + b) = unat a + unat b"
    by (rule unat_add_lem [THEN iffD1])
  with True show ?thesis by (auto simp: checked_add_def)
next
  case False
  then have "unat (a + b) \<noteq> unat a + unat b"
    by (metis unsigned_less)
  with False show ?thesis by (auto simp: checked_add_def)
qed

lemma checked_add_ge:
  "checked_add a b = Some c \<Longrightarrow> a \<le> c"
  for a b c :: "'w::len word"
  by (auto simp: checked_add_Some word_le_nat_alt)

lemma checked_sub_Some [word_nat]:
  "checked_sub a b = Some c \<longleftrightarrow> b \<le> a \<and> c = a - b"
  by (auto simp: checked_sub_def)

lemma unat_sub_le: "b \<le> a \<Longrightarrow> unat (a - b) = unat a - unat b"
  for a b :: "'w::len word"
  by (simp add: unat_sub)

lemma checked_sub_unat:
  "checked_sub a b = Some c \<Longrightarrow> unat c = unat a - unat b"
  by (auto simp: checked_sub_Some unat_sub_le)

lemma saturating_sub_unat [word_nat]:
  "unat (saturating_sub a b) = unat a - unat b"
  by (auto simp: saturating_sub_def unat_sub_le word_le_nat_alt)

lemma and_not_mask_eq: "x AND NOT (mask n) = x - take_bit n x"
  for x :: "'w::len word"
proof -
  have "NOT x AND take_bit n x = 0"
    by (simp add: bit_eq_iff bit_simps)
  then have "x - take_bit n x = x AND NOT (take_bit n x)"
    by (rule disjunctive_diff_eq_and_not)
  also have "\<dots> = x AND NOT (mask n)"
    by (auto simp: bit_eq_iff bit_simps)
  finally show ?thesis by simp
qed

lemma unat_take_bit: "unat (take_bit n x) = unat x mod 2 ^ n"
  by (simp only: unsigned_take_bit_eq take_bit_nat_def)

lemma unat_and_not_mask [word_nat]: "unat (x AND NOT (mask n)) = unat x - unat x mod 2 ^ n"
  for x :: "'w::len word"
proof -
  have "take_bit n x \<le> x"
    by (simp add: word_le_nat_alt unat_take_bit)
  then show ?thesis
    by (simp add: and_not_mask_eq unat_sub_le unat_take_bit)
qed

lemma unat_drop_bit [word_nat]: "unat (drop_bit n x) = unat x div 2 ^ n"
proof -
  have "unat (drop_bit n x) = drop_bit n (unat x)"
    by (simp add: unsigned_drop_bit_eq take_bit_nat_eq_self)
  then show ?thesis by (simp only: drop_bit_nat_def)
qed

text \<open>Two halves of a word, put together by a shift and an \<open>or\<close>.\<close>

lemma push_or_halves:
  "push_bit n (drop_bit n x) OR take_bit n x = x" for x :: "'w::len word"
  by (auto simp: bit_eq_iff bit_simps)

section \<open>Programs with a state and an error\<close>

text \<open>
  A fallible method with a mutable receiver is a function from the state to the result
  and the new state. An early return with an error keeps the state reached so far, as the
  \<open>?\<close> operator of the source does: nothing is rolled back.
\<close>

type_synonym ('s, 'e, 'a) prog = "'s \<Rightarrow> ('e + 'a) \<times> 's"

definition ret :: "'a \<Rightarrow> ('s, 'e, 'a) prog" where
  "ret x s = (Inr x, s)"

definition throw :: "'e \<Rightarrow> ('s, 'e, 'a) prog" where
  "throw e s = (Inl e, s)"

definition andthen :: "('s, 'e, 'a) prog \<Rightarrow> ('a \<Rightarrow> ('s, 'e, 'b) prog) \<Rightarrow> ('s, 'e, 'b) prog" where
  "andthen m f s = (case m s of (Inl e, t) \<Rightarrow> (Inl e, t) | (Inr x, t) \<Rightarrow> f x t)"

definition reads :: "('s \<Rightarrow> 'a) \<Rightarrow> ('s, 'e, 'a) prog" where
  "reads f s = (Inr (f s), s)"

definition modify :: "('s \<Rightarrow> 's) \<Rightarrow> ('s, 'e, unit) prog" where
  "modify f s = (Inr (), f s)"

definition ensure :: "bool \<Rightarrow> 'e \<Rightarrow> ('s, 'e, unit) prog" where
  "ensure b e = (if b then ret () else throw e)"

definition whenp :: "bool \<Rightarrow> ('s, 'e, unit) prog \<Rightarrow> ('s, 'e, unit) prog" where
  "whenp b m = (if b then m else ret ())"

definition of_option :: "'e \<Rightarrow> 'a option \<Rightarrow> ('s, 'e, 'a) prog" where
  "of_option e x = (case x of None \<Rightarrow> throw e | Some a \<Rightarrow> ret a)"

text \<open>Running a method of a field: the field is updated, errors are translated.\<close>

definition zoom :: "('s \<Rightarrow> 't) \<Rightarrow> ('t \<Rightarrow> 's \<Rightarrow> 's) \<Rightarrow> ('d \<Rightarrow> 'e) \<Rightarrow> ('t, 'd, 'a) prog \<Rightarrow> ('s, 'e, 'a) prog" where
  "zoom get put err m s =
     (case m (get s) of (Inl e, t) \<Rightarrow> (Inl (err e), put t s) | (Inr x, t) \<Rightarrow> (Inr x, put t s))"

text \<open>\<open>if let Ok(x) = m\<close>: an error is dropped, what it has changed is kept.\<close>

definition attempt :: "('s, 'e, 'a) prog \<Rightarrow> ('s, 'd, 'a option) prog" where
  "attempt m s = (case m s of (Inl e, t) \<Rightarrow> (Inr None, t) | (Inr x, t) \<Rightarrow> (Inr (Some x), t))"

text \<open>\<open>m.or_else(h)\<close>\<close>

definition or_else :: "('s, 'e, 'a) prog \<Rightarrow> ('e \<Rightarrow> ('s, 'd, 'a) prog) \<Rightarrow> ('s, 'd, 'a) prog" where
  "or_else m h s = (case m s of (Inl e, t) \<Rightarrow> h e t | (Inr x, t) \<Rightarrow> (Inr x, t))"

lemmas prog_defs = ret_def throw_def andthen_def reads_def modify_def ensure_def whenp_def
  of_option_def zoom_def attempt_def or_else_def

subsection \<open>Weakest preconditions\<close>

text \<open>
  \<open>wp m Q E s\<close>: from \<open>s\<close>, a normal return of \<open>m\<close> satisfies \<open>Q\<close> and an early return
  with an error satisfies \<open>E\<close>. The collection \<open>wp\<close> unfolds it through the program
  constructors; the operations of a component add their own rules by \<open>wp_cons\<close>.
\<close>

definition wp ::
  "('s, 'e, 'a) prog \<Rightarrow> ('a \<Rightarrow> 's \<Rightarrow> bool) \<Rightarrow> ('e \<Rightarrow> 's \<Rightarrow> bool) \<Rightarrow> 's \<Rightarrow> bool" where
  "wp m Q E s = (case m s of (Inl e, t) \<Rightarrow> E e t | (Inr x, t) \<Rightarrow> Q x t)"

named_theorems wp
  \<comment> \<open>preconditions of the program constructors\<close>

lemma wp_ret [wp]: "wp (ret x) Q E = Q x"
  by (rule ext) (simp add: wp_def ret_def)

lemma wp_throw [wp]: "wp (throw e) Q E = E e"
  by (rule ext) (simp add: wp_def throw_def)

lemma wp_reads [wp]: "wp (reads f) Q E = (\<lambda>s. Q (f s) s)"
  by (rule ext) (simp add: wp_def reads_def)

lemma wp_modify [wp]: "wp (modify f) Q E = (\<lambda>s. Q () (f s))"
  by (rule ext) (simp add: wp_def modify_def)

lemma wp_ensure [wp]: "wp (ensure b e) Q E = (if b then Q () else E e)"
  by (simp add: ensure_def wp_ret wp_throw)

lemma wp_whenp [wp]: "wp (whenp b m) Q E = (if b then wp m Q E else Q ())"
  by (simp add: whenp_def wp_ret)

lemma wp_of_option [wp]:
  "wp (of_option e x) Q E = (case x of None \<Rightarrow> E e | Some a \<Rightarrow> Q a)"
  by (simp add: of_option_def wp_ret wp_throw split: option.split)

lemma wp_if [wp]: "wp (if b then m else n) Q E = (if b then wp m Q E else wp n Q E)"
  by simp

lemma wp_andthen [wp]: "wp (andthen m f) Q E = wp m (\<lambda>x. wp (f x) Q E) E"
  by (rule ext) (auto simp: wp_def andthen_def split: prod.split sum.split)

lemma wp_zoom [wp]:
  "wp (zoom get put err m) Q E =
     (\<lambda>s. wp m (\<lambda>x t. Q x (put t s)) (\<lambda>e t. E (err e) (put t s)) (get s))"
  by (rule ext) (auto simp: wp_def zoom_def split: prod.split sum.split)

lemma wp_attempt [wp]: "wp (attempt m) Q E = wp m (\<lambda>x. Q (Some x)) (\<lambda>_. Q None)"
  by (rule ext) (auto simp: wp_def attempt_def split: prod.split sum.split)

lemma wp_or_else [wp]: "wp (or_else m h) Q E = wp m Q (\<lambda>e. wp (h e) Q E)"
  by (rule ext) (auto simp: wp_def or_else_def split: prod.split sum.split)

lemma wp_cons:
  assumes "wp m Q' E' s"
      and "\<And>x t. Q' x t \<Longrightarrow> Q x t" and "\<And>e t. E' e t \<Longrightarrow> E e t"
  shows "wp m Q E s"
  using assms by (auto simp: wp_def split: prod.splits sum.splits)

lemma wp_conj: "wp m Q E s \<Longrightarrow> wp m Q' E' s \<Longrightarrow>
    wp m (\<lambda>x t. Q x t \<and> Q' x t) (\<lambda>e t. E e t \<and> E' e t) s"
  by (auto simp: wp_def split: prod.splits sum.splits)

lemma wp_Inr: "wp m Q E s \<Longrightarrow> m s = (Inr x, t) \<Longrightarrow> Q x t"
  by (simp add: wp_def)

lemma wp_Inl: "wp m Q E s \<Longrightarrow> m s = (Inl e, t) \<Longrightarrow> E e t"
  by (simp add: wp_def)

lemma wpI:
  "(\<And>x t. m s = (Inr x, t) \<Longrightarrow> Q x t) \<Longrightarrow> (\<And>e t. m s = (Inl e, t) \<Longrightarrow> E e t) \<Longrightarrow> wp m Q E s"
  by (auto simp: wp_def split: prod.split sum.split)

lemma wp_snd: "wp m (\<lambda>_. P) (\<lambda>_. P) s \<longleftrightarrow> P (snd (m s))"
  by (auto simp: wp_def split: prod.split sum.split)

lemma andthen_ret [simp]: "andthen (ret x) f = f x"
  by (rule ext) (simp add: andthen_def ret_def)

lemma andthen_reads [simp]: "andthen (reads g) f s = f (g s) s"
  by (simp add: andthen_def reads_def)

lemma andthen_modify [simp]: "andthen (modify g) f s = f () (g s)"
  by (simp add: andthen_def modify_def)

lemma andthen_throw [simp]: "andthen (throw e) f = throw e"
  by (rule ext) (simp add: andthen_def throw_def)

lemma andthen_eq_Inr:
  "andthen m f s = (Inr y, u) \<longleftrightarrow> (\<exists>x t. m s = (Inr x, t) \<and> f x t = (Inr y, u))"
  by (auto simp: andthen_def split: prod.split sum.split)

lemma andthen_eq_Inl:
  "andthen m f s = (Inl e, u) \<longleftrightarrow>
     m s = (Inl e, u) \<or> (\<exists>x t. m s = (Inr x, t) \<and> f x t = (Inl e, u))"
  by (auto simp: andthen_def split: prod.split sum.split)

end
