(* ===== verification/Membership.thy ===== *)
theory Membership
  imports Neon_Prelude
begin

text \<open>
  Safekeeper membership (libs/safekeeper_api/src/membership.rs): generations, member sets
  without duplicate node ids, and (possibly joint) configurations.
\<close>

type_synonym node_id = u64
type_synonym sk_generation = u32

definition INVALID_GENERATION :: sk_generation where
  "INVALID_GENERATION = 0"

definition INITIAL_GENERATION :: sk_generation where
  "INITIAL_GENERATION = 1"

definition generation_previous :: "sk_generation \<Rightarrow> sk_generation option" where
  "generation_previous g = checked_sub g 1"

definition generation_next :: "sk_generation \<Rightarrow> sk_generation" where
  "generation_next g = g + 1"

record safekeeper_id =
  sk_id :: node_id
  sk_host :: bytes
  sk_pg_port :: u16

record member_set =
  members_m :: "safekeeper_id list"

datatype membership_error = DuplicateId | AlreadyMember node_id

definition member_set_empty :: member_set where
  "member_set_empty = \<lparr>members_m = []\<rparr>"

definition member_set_new :: "safekeeper_id list \<Rightarrow> membership_error + member_set" where
  "member_set_new ms =
     (if card (sk_id ` set ms) \<noteq> length ms then Inl DuplicateId else Inr \<lparr>members_m = ms\<rparr>)"

definition member_set_contains :: "member_set \<Rightarrow> node_id \<Rightarrow> bool" where
  "member_set_contains ms i \<longleftrightarrow> list_ex (\<lambda>m. sk_id m = i) (members_m ms)"

definition member_set_add :: "member_set \<Rightarrow> safekeeper_id \<Rightarrow> membership_error + member_set" where
  "member_set_add ms sk =
     (if member_set_contains ms (sk_id sk) then Inl (AlreadyMember (sk_id sk))
      else Inr (ms\<lparr>members_m := members_m ms @ [sk]\<rparr>))"

record configuration =
  conf_generation :: sk_generation
  conf_members :: member_set
  conf_new_members :: "member_set option"

definition configuration_empty :: configuration where
  "configuration_empty =
     \<lparr>conf_generation = INVALID_GENERATION, conf_members = member_set_empty, conf_new_members = None\<rparr>"

definition configuration_new :: "member_set \<Rightarrow> configuration" where
  "configuration_new ms =
     \<lparr>conf_generation = INITIAL_GENERATION, conf_members = ms, conf_new_members = None\<rparr>"

definition configuration_contains :: "configuration \<Rightarrow> node_id \<Rightarrow> bool" where
  "configuration_contains c i \<longleftrightarrow>
     member_set_contains (conf_members c) i
     \<or> (case conf_new_members c of None \<Rightarrow> False | Some m \<Rightarrow> member_set_contains m i)"

section \<open>Member sets hold distinct ids\<close>

definition member_set_ok :: "member_set \<Rightarrow> bool" where
  "member_set_ok ms \<longleftrightarrow> distinct (map sk_id (members_m ms))"

definition configuration_ok :: "configuration \<Rightarrow> bool" where
  "configuration_ok c \<longleftrightarrow>
     member_set_ok (conf_members c)
     \<and> (case conf_new_members c of None \<Rightarrow> True | Some m \<Rightarrow> member_set_ok m)"

lemma member_set_contains_iff:
  "member_set_contains ms i \<longleftrightarrow> i \<in> sk_id ` set (members_m ms)"
  by (auto simp: member_set_contains_def list_ex_iff)

lemma member_set_empty_ok [simp]: "member_set_ok member_set_empty"
  by (simp add: member_set_ok_def member_set_empty_def)

lemma member_set_new_iff:
  "member_set_new ms = Inr s \<longleftrightarrow> s = \<lparr>members_m = ms\<rparr> \<and> member_set_ok s"
proof -
  have "card (sk_id ` set ms) = length ms \<longleftrightarrow> distinct (map sk_id ms)"
    using card_distinct [of "map sk_id ms"] distinct_card [of "map sk_id ms"] by auto
  then show ?thesis by (auto simp: member_set_new_def member_set_ok_def)
qed

lemma member_set_add_ok:
  "member_set_ok ms \<Longrightarrow> member_set_add ms sk = Inr ms' \<Longrightarrow> member_set_ok ms'"
  by (auto simp: member_set_add_def member_set_ok_def member_set_contains_iff split: if_splits)

text \<open>Adding the members of a valid set one by one rebuilds it.\<close>

fun member_set_add_all :: "member_set \<Rightarrow> safekeeper_id list \<Rightarrow> membership_error + member_set" where
  "member_set_add_all ms [] = Inr ms"
| "member_set_add_all ms (sk # sks) =
     (case member_set_add ms sk of Inl e \<Rightarrow> Inl e | Inr ms' \<Rightarrow> member_set_add_all ms' sks)"

lemma member_set_add_all_distinct:
  assumes "distinct (map sk_id (members_m ms @ sks))"
  shows "member_set_add_all ms sks = Inr (ms\<lparr>members_m := members_m ms @ sks\<rparr>)"
  using assms
proof (induction sks arbitrary: ms)
  case Nil
  then show ?case by simp
next
  case (Cons sk sks)
  then have "member_set_add ms sk = Inr (ms\<lparr>members_m := members_m ms @ [sk]\<rparr>)"
    by (auto simp: member_set_add_def member_set_contains_iff)
  with Cons show ?case by simp
qed

end
