(* ===== verification/Text_Format.thy ===== *)
theory Text_Format
  imports Neon_Prelude
begin

text \<open>
  The part of Rust's standard formatting and parsing that the sources use for log
  positions, file names and keys: \<open>{:X}\<close>, \<open>{:x}\<close>, zero padding to a width,
  \<open>from_str_radix(_, 16)\<close>, \<open>str::split\<close> and \<open>str::trim\<close>. Strings are lists
  of ASCII characters.
\<close>

section \<open>Printing\<close>

definition hex_char_upper :: "nat \<Rightarrow> char" where
  "hex_char_upper d = (if d < 10 then char_of (48 + d) else char_of (55 + d))"

definition hex_char_lower :: "nat \<Rightarrow> char" where
  "hex_char_lower d = (if d < 10 then char_of (48 + d) else char_of (87 + d))"

fun hex_digits :: "(nat \<Rightarrow> char) \<Rightarrow> nat \<Rightarrow> string" where
  "hex_digits f n = (if n < 16 then [f n] else hex_digits f (n div 16) @ [f (n mod 16)])"

declare hex_digits.simps [simp del]

definition zero_pad :: "nat \<Rightarrow> string \<Rightarrow> string" where
  "zero_pad w s = replicate (w - length s) (CHR ''0'') @ s"

definition hex_upper :: "nat \<Rightarrow> string" where
  "hex_upper n = hex_digits hex_char_upper n"

definition hex_upper_pad :: "nat \<Rightarrow> nat \<Rightarrow> string" where
  "hex_upper_pad w n = zero_pad w (hex_digits hex_char_upper n)"

definition hex_lower_pad :: "nat \<Rightarrow> nat \<Rightarrow> string" where
  "hex_lower_pad w n = zero_pad w (hex_digits hex_char_lower n)"

section \<open>Parsing\<close>

text \<open>\<open>char::to_digit(16)\<close>\<close>

definition hex_val :: "char \<Rightarrow> nat option" where
  "hex_val c = (let n = of_char c in
     if 48 \<le> n \<and> n \<le> 57 then Some (n - 48)
     else if 65 \<le> n \<and> n \<le> 70 then Some (n - 55)
     else if 97 \<le> n \<and> n \<le> 102 then Some (n - 87)
     else None)"

text \<open>The digit loop of \<open>from_str_radix\<close>: an invalid digit or an overflow is an error.\<close>

fun hex_acc :: "nat \<Rightarrow> nat \<Rightarrow> string \<Rightarrow> nat option" where
  "hex_acc lim a [] = Some a"
| "hex_acc lim a (c # cs) =
     (case hex_val c of None \<Rightarrow> None
      | Some d \<Rightarrow> (if 16 * a + d < lim then hex_acc lim (16 * a + d) cs else None))"

text \<open>
  \<open>uN::from_str_radix(s, 16)\<close> with \<open>lim = 2 ^ N\<close>: the empty string and a lone sign are
  errors, one leading plus is skipped, a minus is an invalid digit.
\<close>

definition from_str_radix16 :: "nat \<Rightarrow> string \<Rightarrow> nat option" where
  "from_str_radix16 lim s =
     (case s of [] \<Rightarrow> None
      | c # cs \<Rightarrow>
          if cs = [] \<and> (c = CHR ''+'' \<or> c = CHR ''-'') then None
          else if c = CHR ''+'' then hex_acc lim 0 cs
          else hex_acc lim 0 s)"

text \<open>\<open>str::split(c)\<close>: the pieces between the separators, at least one.\<close>

fun split_on :: "char \<Rightarrow> string \<Rightarrow> string list" where
  "split_on sep [] = [[]]"
| "split_on sep (c # cs) =
     (if c = sep then [] # split_on sep cs
      else (case split_on sep cs of [] \<Rightarrow> [[c]] | p # ps \<Rightarrow> (c # p) # ps))"

definition is_space :: "char \<Rightarrow> bool" where
  "is_space c \<longleftrightarrow> (let n = (of_char c :: nat) in n = 32 \<or> 9 \<le> n \<and> n \<le> 13)"

definition trim :: "string \<Rightarrow> string" where
  "trim s = rev (dropWhile is_space (rev (dropWhile is_space s)))"

definition is_ascii_hexdigit :: "char \<Rightarrow> bool" where
  "is_ascii_hexdigit c \<longleftrightarrow> hex_val c \<noteq> None"

section \<open>Printing then parsing\<close>

text \<open>An interface for a digit alphabet: the law both alphabets satisfy.\<close>

locale hex_alphabet =
  fixes digit :: "nat \<Rightarrow> char"
  assumes hex_val_digit: "d < 16 \<Longrightarrow> hex_val (digit d) = Some d"
begin

lemma digit_not_sign: "d < 16 \<Longrightarrow> digit d \<noteq> CHR ''+'' \<and> digit d \<noteq> CHR ''-''"
proof -
  assume "d < 16"
  then have "hex_val (digit d) \<noteq> None" by (simp add: hex_val_digit)
  moreover have "hex_val (CHR ''+'') = None" and "hex_val (CHR ''-'') = None"
    by (simp_all add: hex_val_def Let_def)
  ultimately show ?thesis by metis
qed

lemma digits_not_Nil: "hex_digits digit n \<noteq> []"
  by (subst hex_digits.simps) simp

lemma digits_hex: "c \<in> set (hex_digits digit n) \<Longrightarrow> \<exists>d<16. c = digit d"
proof (induction n rule: less_induct)
  case (less n)
  show ?case
  proof (cases "n < 16")
    case True
    with less.prems have "c = digit n" by (simp add: hex_digits.simps [of _ n])
    with True show ?thesis by blast
  next
    case False
    then have lt: "n div 16 < n" by simp
    from False less.prems have "c \<in> set (hex_digits digit (n div 16)) \<or> c = digit (n mod 16)"
      by (simp add: hex_digits.simps [of _ n]) blast
    with less.IH [OF lt] show ?thesis by (metis mod_less_divisor zero_less_numeral)
  qed
qed

lemma hex_acc_append:
  "hex_acc lim a (s @ t) = (case hex_acc lim a s of None \<Rightarrow> None | Some b \<Rightarrow> hex_acc lim b t)"
  by (induction s arbitrary: a) (auto split: option.split)

lemma hex_acc_digits: "n < lim \<Longrightarrow> hex_acc lim 0 (hex_digits digit n) = Some n"
proof (induction n rule: less_induct)
  case (less n)
  show ?case
  proof (cases "n < 16")
    case True
    with less.prems show ?thesis
      by (simp add: hex_digits.simps [of _ n] hex_val_digit)
  next
    case False
    then have "n div 16 < n" and "n div 16 < lim" using less.prems by auto
    with less.IH have "hex_acc lim 0 (hex_digits digit (n div 16)) = Some (n div 16)"
      by blast
    with False less.prems show ?thesis
      by (simp add: hex_digits.simps [of _ n] hex_acc_append hex_val_digit)
  qed
qed

lemma hex_val_zero: "hex_val (CHR ''0'') = Some 0"
  by (simp add: hex_val_def)

lemma hex_acc_zeros: "0 < lim \<Longrightarrow> hex_acc lim 0 (replicate k (CHR ''0'') @ s) = hex_acc lim 0 s"
  by (induction k) (auto simp: hex_val_zero)

lemma radix_digits: "n < lim \<Longrightarrow> from_str_radix16 lim (hex_digits digit n) = Some n"
proof -
  assume n: "n < lim"
  obtain c cs where s: "hex_digits digit n = c # cs"
    using digits_not_Nil by (cases "hex_digits digit n") auto
  then have "c \<in> set (hex_digits digit n)" by simp
  then obtain d where "d < 16" and "c = digit d" using digits_hex by blast
  then have "c \<noteq> CHR ''+''" and "c \<noteq> CHR ''-''" using digit_not_sign [of d] by simp_all
  with s n hex_acc_digits [of n lim] show ?thesis by (simp add: from_str_radix16_def)
qed

lemma radix_padded:
  assumes "n < lim"
  shows "from_str_radix16 lim (zero_pad w (hex_digits digit n)) = Some n"
proof (cases "w - length (hex_digits digit n)")
  case 0
  with assms show ?thesis by (simp add: zero_pad_def radix_digits)
next
  case (Suc k)
  let ?s = "replicate k (CHR ''0'') @ hex_digits digit n"
  have "?s \<noteq> []" by (simp add: digits_not_Nil)
  moreover have "hex_acc lim 0 (CHR ''0'' # ?s) = Some n"
    using assms hex_acc_zeros [of lim "Suc k"] hex_acc_digits [of n lim] by simp
  ultimately show ?thesis
    using Suc by (simp add: zero_pad_def from_str_radix16_def del: hex_acc.simps)
qed

lemma length_digits: "0 < w \<Longrightarrow> n < 16 ^ w \<Longrightarrow> length (hex_digits digit n) \<le> w"
proof (induction w arbitrary: n)
  case 0
  then show ?case by simp
next
  case (Suc w)
  show ?case
  proof (cases "n < 16")
    case True
    then show ?thesis by (simp add: hex_digits.simps [of _ n])
  next
    case False
    with Suc.prems have "0 < w" by (cases w) auto
    moreover from Suc.prems have "n div 16 < 16 ^ w" by (simp add: less_mult_imp_div_less)
    ultimately have "length (hex_digits digit (n div 16)) \<le> w" by (rule Suc.IH)
    with False show ?thesis by (simp add: hex_digits.simps [of _ n])
  qed
qed

lemma length_padded:
  "0 < w \<Longrightarrow> n < 16 ^ w \<Longrightarrow> length (zero_pad w (hex_digits digit n)) = w"
  using length_digits [of w n] by (simp add: zero_pad_def)

lemma padded_hexdigits: "c \<in> set (zero_pad w (hex_digits digit n)) \<Longrightarrow> is_ascii_hexdigit c"
  by (auto simp: zero_pad_def is_ascii_hexdigit_def hex_val_zero hex_val_digit dest!: digits_hex)

lemma digits_hexdigits: "c \<in> set (hex_digits digit n) \<Longrightarrow> is_ascii_hexdigit c"
  by (auto simp: is_ascii_hexdigit_def hex_val_digit dest!: digits_hex)

end

interpretation upper: hex_alphabet hex_char_upper
  by unfold_locales (auto simp: hex_char_upper_def hex_val_def of_char_of take_bit_nat_def)

interpretation lower: hex_alphabet hex_char_lower
  by unfold_locales (auto simp: hex_char_lower_def hex_val_def of_char_of take_bit_nat_def)

lemma hexdigit_plain:
  "is_ascii_hexdigit c \<Longrightarrow> \<not> is_space c \<and> c \<noteq> CHR ''/'' \<and> c \<noteq> CHR ''-'' \<and> c \<noteq> CHR ''_''"
  by (auto simp: is_ascii_hexdigit_def hex_val_def is_space_def Let_def split: if_splits)

lemma split_on_no_sep: "sep \<notin> set s \<Longrightarrow> split_on sep s = [s]"
  by (induction s) auto

lemma split_on_append:
  "sep \<notin> set s \<Longrightarrow> split_on sep (s @ sep # t) = s # split_on sep t"
  by (induction s) auto

lemma trim_id:
  assumes "s \<noteq> []" and "\<And>c. c \<in> set s \<Longrightarrow> \<not> is_space c"
  shows "trim s = s"
proof -
  have "dropWhile is_space s = s" if "\<And>c. c \<in> set s \<Longrightarrow> \<not> is_space c" for s
    using that by (cases s) auto
  from this [OF assms(2)] this [of "rev s"] assms(2) show ?thesis
    by (simp add: trim_def)
qed

end
