(* ===== verification/Lsn.thy ===== *)
theory Lsn
  imports Text_Format
begin

text \<open>
  Log sequence numbers (libs/utils/src/lsn.rs): the newtype over u64, its segment and
  block arithmetic, alignment, and its textual form \<open>X/X\<close>. Operations written with
  plain \<open>+\<close> and \<open>-\<close> on u64 wrap around, as they do in the release profile; the
  \<open>Add\<close> instance of Lsn is checked and its overflow is \<open>None\<close> (a panic). A segment size
  is never zero where these are called: \<open>TimelinePersistentState::new\<close> refuses it.
\<close>

type_synonym lsn = u64

section \<open>Operations\<close>

definition XLOG_BLCKSZ :: u64 where
  "XLOG_BLCKSZ = 8192"

definition WAL_SEGMENT_SIZE :: u64 where
  "WAL_SEGMENT_SIZE = 16 * 1024 * 1024"

definition lsn_invalid :: lsn where
  "lsn_invalid = 0"

definition lsn_checked_sub :: "lsn \<Rightarrow> u64 \<Rightarrow> lsn option" where
  "lsn_checked_sub l n = checked_sub l n"

definition lsn_saturating_sub :: "lsn \<Rightarrow> u64 \<Rightarrow> lsn" where
  "lsn_saturating_sub l n = saturating_sub l n"

definition widening_sub :: "lsn \<Rightarrow> u64 \<Rightarrow> int" where
  "widening_sub l n = uint l - uint n"

definition segment_offset :: "lsn \<Rightarrow> u64 \<Rightarrow> u64" where
  "segment_offset l seg_sz = l mod seg_sz"

definition segment_lsn :: "lsn \<Rightarrow> u64 \<Rightarrow> lsn" where
  "segment_lsn l seg_sz = l - l mod seg_sz"

definition segment_number :: "lsn \<Rightarrow> u64 \<Rightarrow> u64" where
  "segment_number l seg_sz = l div seg_sz"

definition block_offset :: "lsn \<Rightarrow> u64" where
  "block_offset l = l mod XLOG_BLCKSZ"

definition page_lsn :: "lsn \<Rightarrow> lsn" where
  "page_lsn l = l - block_offset l"

definition page_offset_in_segment :: "lsn \<Rightarrow> u64 \<Rightarrow> u64" where
  "page_offset_in_segment l seg_sz = (l - block_offset l) - segment_lsn l seg_sz"

definition remaining_in_block :: "lsn \<Rightarrow> u64" where
  "remaining_in_block l = XLOG_BLCKSZ - l mod XLOG_BLCKSZ"

definition calc_padding :: "lsn \<Rightarrow> u64 \<Rightarrow> u64" where
  "calc_padding l sz = (sz - l) mod sz"

definition align :: "lsn \<Rightarrow> lsn" where
  "align l = (l + 7) AND (NOT 7)"

definition is_aligned :: "lsn \<Rightarrow> bool" where
  "is_aligned l \<longleftrightarrow> l = align l"

definition is_valid :: "lsn \<Rightarrow> bool" where
  "is_valid l \<longleftrightarrow> l \<noteq> lsn_invalid"

definition lsn_add :: "lsn \<Rightarrow> u64 \<Rightarrow> lsn option" where
  "lsn_add l n = checked_add l n"

datatype lsn_parse_error = LsnParseError

definition lsn_from_hex :: "string \<Rightarrow> lsn_parse_error + lsn" where
  "lsn_from_hex s =
     (case from_str_radix16 (2 ^ 64) s of None \<Rightarrow> Inl LsnParseError | Some n \<Rightarrow> Inr (of_nat n))"

definition lsn_from_str :: "string \<Rightarrow> lsn_parse_error + lsn" where
  "lsn_from_str s =
     (case split_on (CHR ''/'') (trim s) of
        [left, right] \<Rightarrow>
          (case from_str_radix16 (2 ^ 32) left of None \<Rightarrow> Inl LsnParseError
           | Some left_num \<Rightarrow>
               (case from_str_radix16 (2 ^ 32) right of None \<Rightarrow> Inl LsnParseError
                | Some right_num \<Rightarrow> Inr (push_bit 32 (of_nat left_num) OR of_nat right_num)))
      | _ \<Rightarrow> Inl LsnParseError)"

definition lsn_display :: "lsn \<Rightarrow> string" where
  "lsn_display l = hex_upper (unat (drop_bit 32 l)) @ CHR ''/'' # hex_upper (unat (l AND 0xffffffff))"

section \<open>Segments\<close>

named_theorems lsn_defs
lemmas [lsn_defs] = segment_offset_def segment_lsn_def segment_number_def block_offset_def
  page_lsn_def page_offset_in_segment_def remaining_in_block_def

lemma unat_segment_offset [word_nat]: "unat (segment_offset l sz) = unat l mod unat sz"
  by (simp add: segment_offset_def unat_mod_distrib)

lemma unat_segment_number [word_nat]: "unat (segment_number l sz) = unat l div unat sz"
  by (simp add: segment_number_def unat_div_distrib)

lemma segment_lsn_le: "l mod sz \<le> l" for l sz :: u64
  by (simp add: word_le_nat_alt unat_mod_distrib)

lemma unat_segment_lsn [word_nat]: "unat (segment_lsn l sz) = unat l - unat l mod unat sz"
  by (simp add: segment_lsn_def unat_sub_le segment_lsn_le unat_mod_distrib)

lemma segment_decompose:
  "unat l = unat (segment_number l sz) * unat sz + unat (segment_offset l sz)"
  by (simp add: word_nat)

lemma segment_offset_less: "0 < sz \<Longrightarrow> segment_offset l sz < sz"
  by (simp add: word_less_nat_alt word_nat)

lemma remaining_in_block_bounds:
  "0 < remaining_in_block l \<and> unat (remaining_in_block l) \<le> 8192"
proof -
  have "unat (l mod XLOG_BLCKSZ) < 8192"
    by (simp add: XLOG_BLCKSZ_def unat_mod_distrib)
  moreover from this have "l mod XLOG_BLCKSZ \<le> XLOG_BLCKSZ"
    by (simp add: word_le_nat_alt XLOG_BLCKSZ_def)
  ultimately have "unat (remaining_in_block l) = 8192 - unat (l mod XLOG_BLCKSZ)"
    by (simp add: remaining_in_block_def unat_sub_le) (simp add: XLOG_BLCKSZ_def)
  with \<open>unat (l mod XLOG_BLCKSZ) < 8192\<close> show ?thesis
    by (simp add: word_less_nat_alt)
qed

section \<open>Alignment\<close>

lemma align_mask: "align l = (l + 7) AND NOT (mask 3)"
  by (simp add: align_def mask_eq_exp_minus_1)

lemma unat_align:
  assumes "unat l + 7 < 2 ^ 64"
  shows "unat (align l) = (unat l + 7) div 8 * 8"
proof -
  have "unat (l + 7) = unat l + 7"
    using assms by (simp add: unat_word_ariths)
  then show ?thesis
    by (simp add: align_mask unat_and_not_mask minus_mod_eq_div_mult)
qed

text \<open>
  \<open>align\<close> rounds up to the next multiple of eight, unless the addition overflows.
\<close>

lemma align_rounds_up:
  assumes "unat l + 7 < 2 ^ 64"
  shows "8 dvd unat (align l) \<and> unat l \<le> unat (align l) \<and> unat (align l) < unat l + 8"
  unfolding unat_align [OF assms] by presburger

lemma align_ge: "unat l + 7 < 2 ^ 64 \<Longrightarrow> l \<le> align l"
  using align_rounds_up [of l] by (simp add: word_le_nat_alt)

text \<open>\<open>calc_padding\<close> subtracts first and reduces second, which needs \<open>sz\<close> to divide \<open>2 ^ 64\<close>.\<close>

lemma calc_padding_aligns:
  assumes "unat sz = 2 ^ k"
  shows "unat sz dvd unat l + unat (calc_padding l sz) \<and> unat (calc_padding l sz) < unat sz"
proof
  have k: "k \<le> 64"
  proof (rule ccontr)
    assume "\<not> k \<le> 64"
    then have "(2::nat) ^ 64 < 2 ^ k" by (intro power_strict_increasing) simp_all
    with assms unsigned_less [of sz, where 'a = nat] show False by simp
  qed
  have sz: "uint sz = 2 ^ k"
    using assms by (metis of_nat_numeral of_nat_power of_nat_unat)
  have "uint (calc_padding l sz) = (uint sz - uint l) mod 2 ^ 64 mod 2 ^ k"
    by (simp add: calc_padding_def uint_mod_distrib uint_word_ariths sz)
  also have "\<dots> = (uint sz - uint l) mod 2 ^ k"
    by (rule mod_mod_cancel) (use k in \<open>rule le_imp_power_dvd\<close>)
  also have "\<dots> = (- uint l) mod 2 ^ k"
    by (simp add: sz mod_simps flip: mod_diff_left_eq)
  finally have "(uint l + uint (calc_padding l sz)) mod 2 ^ k = 0"
    by (simp add: mod_simps)
  then have "int (unat sz) dvd int (unat l + unat (calc_padding l sz))"
    by (simp add: assms dvd_eq_mod_eq_0)
  then show "unat sz dvd unat l + unat (calc_padding l sz)"
    by (simp only: of_nat_dvd_iff)
  show "unat (calc_padding l sz) < unat sz"
    by (simp add: calc_padding_def unat_mod_distrib assms)
qed

section \<open>Textual form\<close>

lemma unat_halves: "unat (drop_bit 32 l) < 2 ^ 32" "unat (l AND 0xffffffff) < 2 ^ 32" for l :: lsn
proof -
  have "unat l < 2 ^ 64" using unsigned_less [of l, where 'a = nat] by simp
  then show "unat (drop_bit 32 l) < 2 ^ 32"
    by (simp add: unat_drop_bit less_mult_imp_div_less)
  have "l AND 0xffffffff = take_bit 32 l"
    by (simp add: take_bit_eq_mask mask_eq_exp_minus_1)
  then show "unat (l AND 0xffffffff) < 2 ^ 32"
    by (simp add: unat_take_bit)
qed

lemma lsn_roundtrip: "lsn_from_str (lsn_display l) = Inr l"
proof -
  let ?hi = "unat (drop_bit 32 l)" and ?lo = "unat (l AND 0xffffffff)"
  have plain: "\<not> is_space c \<and> c \<noteq> CHR ''/''" if "c \<in> set (hex_upper n)" for c n
    using that upper.digits_hexdigits hexdigit_plain by (auto simp: hex_upper_def)
  have "trim (lsn_display l) = lsn_display l"
  proof (rule trim_id)
    show "lsn_display l \<noteq> []" by (simp add: lsn_display_def)
    show "\<not> is_space c" if "c \<in> set (lsn_display l)" for c
      using that plain by (auto simp: lsn_display_def is_space_def)
  qed
  moreover have "split_on (CHR ''/'') (lsn_display l) = [hex_upper ?hi, hex_upper ?lo]"
  proof -
    have "CHR ''/'' \<notin> set (hex_upper n)" for n using plain by blast
    then show ?thesis by (simp add: lsn_display_def split_on_append split_on_no_sep)
  qed
  moreover have "from_str_radix16 (2 ^ 32) (hex_upper ?hi) = Some ?hi"
    and "from_str_radix16 (2 ^ 32) (hex_upper ?lo) = Some ?lo"
    using unat_halves by (simp_all only: hex_upper_def upper.radix_digits)
  moreover have "push_bit 32 (drop_bit 32 l) OR (l AND 0xffffffff) = l"
    using push_or_halves [of 32 l] by (simp add: take_bit_eq_mask mask_eq_exp_minus_1)
  ultimately show ?thesis by (simp add: lsn_from_str_def)
qed

end
