(* ===== verification/Term_History.thy ===== *)
theory Term_History
  imports Lsn
begin

text \<open>
  Histories of term switches (TermLsn, TermHistory and AcceptorState of
  safekeeper/src/safekeeper.rs): truncation at a position and the search for the point
  where the history of a proposer and that of a safekeeper diverge.
\<close>

type_synonym sk_term = u64

definition INITIAL_TERM :: sk_term where
  "INITIAL_TERM = 0"

record term_lsn =
  tl_term :: sk_term
  tl_lsn :: lsn

type_synonym term_history = "term_lsn list"

fun up_to :: "term_history \<Rightarrow> lsn \<Rightarrow> term_history" where
  "up_to [] l = []"
| "up_to (e # es) l = (if l < tl_lsn e then [] else e # up_to es l)"

datatype th_panic =
    HistoryBeyondWalEnd \<comment> \<open>the safekeeper's history ends above its WAL\<close>
  | SameTermDifferentLsn sk_term \<comment> \<open>one term with two start positions\<close>

text \<open>The loop that walks both histories while the terms agree.\<close>

fun last_common_idx ::
  "nat \<Rightarrow> nat option \<Rightarrow> term_history \<Rightarrow> term_history \<Rightarrow> th_panic + nat option" where
  "last_common_idx i acc (p # ps) (s # ss) =
     (if tl_term p \<noteq> tl_term s then Inr acc
      else if tl_lsn p \<noteq> tl_lsn s then Inl (SameTermDifferentLsn (tl_term p))
      else last_common_idx (Suc i) (Some i) ps ss)"
| "last_common_idx i acc _ _ = Inr acc"

definition find_highest_common_point ::
  "term_history \<Rightarrow> term_history \<Rightarrow> lsn \<Rightarrow> th_panic + term_lsn option" where
  "find_highest_common_point prop_th sk_th sk_wal_end =
     (if sk_th \<noteq> [] \<and> \<not> tl_lsn (last sk_th) \<le> sk_wal_end then Inl HistoryBeyondWalEnd
      else (case last_common_idx 0 None prop_th sk_th of
          Inl e \<Rightarrow> Inl e
        | Inr None \<Rightarrow> Inr None
        | Inr (Some i) \<Rightarrow>
            (if i = length prop_th - 1
             then Inr (Some \<lparr>tl_term = tl_term (prop_th ! i), tl_lsn = sk_wal_end\<rparr>)
             else
               (let prop_common_term_end = tl_lsn (prop_th ! (i + 1));
                    sk_common_term_end =
                      (if i + 1 < length sk_th then tl_lsn (sk_th ! (i + 1)) else sk_wal_end)
                in Inr (Some \<lparr>tl_term = tl_term (prop_th ! i),
                              tl_lsn = min prop_common_term_end sk_common_term_end\<rparr>)))))"

record acceptor_state =
  as_term :: sk_term
  as_term_history :: term_history

definition get_last_log_term :: "acceptor_state \<Rightarrow> lsn \<Rightarrow> sk_term" where
  "get_last_log_term a flush_lsn =
     (case up_to (as_term_history a) flush_lsn of [] \<Rightarrow> 0 | es \<Rightarrow> tl_term (last es))"

section \<open>Specification\<close>

text \<open>
  A history is well formed when terms strictly increase and positions do not decrease.
  \<open>term_at th x\<close> is the term the log entry at position \<open>x\<close> was written in.
\<close>

definition th_wf :: "term_history \<Rightarrow> bool" where
  "th_wf th \<longleftrightarrow> sorted_wrt (<) (map tl_term th) \<and> sorted (map tl_lsn th)"

definition term_at :: "term_history \<Rightarrow> lsn \<Rightarrow> sk_term option" where
  "term_at th x = (case up_to th x of [] \<Rightarrow> None | es \<Rightarrow> Some (tl_term (last es)))"

text \<open>
  Two histories of one timeline are compatible when a term they share has the same past
  in both: the history of a term is fixed by the proposer elected with it.
\<close>

definition th_compatible :: "term_history \<Rightarrow> term_history \<Rightarrow> bool" where
  "th_compatible p s \<longleftrightarrow>
     (\<forall>i < length p. \<forall>j < length s.
        tl_term (p ! i) = tl_term (s ! j) \<longrightarrow> take (Suc i) p = take (Suc j) s)"

section \<open>Truncation\<close>

lemma up_to_takeWhile: "up_to th x = takeWhile (\<lambda>e. tl_lsn e \<le> x) th"
  by (induction th) auto

lemma up_to_prefix: "\<exists>zs. th = up_to th x @ zs"
  by (metis up_to_takeWhile takeWhile_dropWhile_id)

lemma set_up_to: "set (up_to th x) \<subseteq> set th"
  by (auto simp: up_to_takeWhile dest: set_takeWhileD)

lemma up_to_lsn: "e \<in> set (up_to th x) \<Longrightarrow> tl_lsn e \<le> x"
  by (auto simp: up_to_takeWhile dest: set_takeWhileD)

lemma last_up_to_le: "up_to th x \<noteq> [] \<Longrightarrow> tl_lsn (last (up_to th x)) \<le> x"
  by (rule up_to_lsn [OF last_in_set])

lemma up_to_all: "(\<And>e. e \<in> set th \<Longrightarrow> tl_lsn e \<le> x) \<Longrightarrow> up_to th x = th"
  by (simp add: up_to_takeWhile)

lemma up_to_up_to: "up_to (up_to th x) y = up_to th (min x y)"
  by (induction th) (auto simp: min_less_iff_disj)

lemma sorted_wrt_takeWhile: "sorted_wrt R xs \<Longrightarrow> sorted_wrt R (takeWhile P xs)"
  by (metis sorted_wrt_append takeWhile_dropWhile_id)

lemma th_wf_append:
  "th_wf (xs @ ys) \<longleftrightarrow> th_wf xs \<and> th_wf ys
     \<and> (\<forall>x \<in> set xs. \<forall>y \<in> set ys. tl_term x < tl_term y \<and> tl_lsn x \<le> tl_lsn y)"
  by (auto simp: th_wf_def sorted_wrt_append sorted_append)

lemma th_wf_hd_le:
  assumes "th_wf (xs @ ys)" and "y \<in> set ys"
  shows "tl_lsn (hd ys) \<le> tl_lsn y"
proof -
  have "th_wf ys" using assms(1) by (simp add: th_wf_append)
  then show ?thesis using assms(2) by (cases ys) (auto simp: th_wf_def)
qed

lemma th_wf_up_to: "th_wf th \<Longrightarrow> th_wf (up_to th x)"
  by (metis th_wf_append up_to_prefix)

lemma up_to_append:
  "up_to (xs @ ys) x = (if up_to xs x = xs then xs @ up_to ys x else up_to xs x)"
  by (induction xs) auto

lemma up_to_before:
  assumes "\<And>e. e \<in> set ys \<Longrightarrow> x < tl_lsn e"
  shows "up_to (xs @ ys) x = up_to xs x"
proof -
  have "up_to ys x = []" using assms by (cases ys) auto
  then show ?thesis by (simp add: up_to_append)
qed

lemma term_at_before:
  "(\<And>e. e \<in> set ys \<Longrightarrow> x < tl_lsn e) \<Longrightarrow> term_at (xs @ ys) x = term_at xs x"
  by (simp add: term_at_def up_to_before)

lemma term_at_alt:
  "term_at th x = (if up_to th x = [] then None else Some (tl_term (last (up_to th x))))"
  by (simp add: term_at_def split: list.split)

lemma term_at_in:
  assumes "term_at th x = Some t"
  shows "t \<in> tl_term ` set th"
proof -
  have "up_to th x \<noteq> []" and t: "t = tl_term (last (up_to th x))"
    using assms by (simp_all add: term_at_alt split: if_splits)
  then have "last (up_to th x) \<in> set th"
    using set_up_to [of th x] last_in_set [of "up_to th x"] by blast
  then show ?thesis using t by simp
qed

text \<open>A position at or above the start of the second part is in a term of that part.\<close>

lemma term_at_after:
  assumes "th_wf (xs @ y # ys)" and "tl_lsn y \<le> x"
  shows "\<exists>t. term_at (xs @ y # ys) x = Some t \<and> t \<in> tl_term ` set (y # ys)"
proof -
  have "tl_lsn e \<le> x" if "e \<in> set xs" for e
    using assms that by (auto simp: th_wf_append intro: order_trans)
  then have "up_to (xs @ y # ys) x = xs @ y # up_to ys x"
    using assms(2) by (simp add: up_to_append up_to_all)
  moreover have "last (y # up_to ys x) \<in> set (y # up_to ys x)"
    by (rule last_in_set) simp
  then have "last (y # up_to ys x) \<in> set (y # ys)"
    using set_up_to [of ys x] unfolding set_simps by blast
  then have "tl_term (last (y # up_to ys x)) \<in> tl_term ` set (y # ys)" by (rule imageI)
  ultimately show ?thesis by (simp add: term_at_alt del: last.simps)
qed

lemma term_at_append_mem:
  assumes "th_wf (xs @ ys)" and "ys \<noteq> []" and "tl_lsn (hd ys) \<le> x"
  shows "\<exists>t. term_at (xs @ ys) x = Some t \<and> t \<in> tl_term ` set ys"
  using assms term_at_after [of xs "hd ys" "tl ys" x] by simp

section \<open>The highest common point\<close>

lemma longest_common_prefix:
  "\<exists>c p' s'. p = c @ p' \<and> s = c @ s' \<and> (p' = [] \<or> s' = [] \<or> hd p' \<noteq> hd s')"
proof (induction p arbitrary: s)
  case (Cons a p)
  show ?case
  proof (cases "s \<noteq> [] \<and> hd s = a")
    case True
    then obtain ss where s: "s = a # ss" by (cases s) auto
    from Cons.IH [of ss] obtain c p' s' where
      "p = c @ p'" "ss = c @ s'" "p' = [] \<or> s' = [] \<or> hd p' \<noteq> hd s'" by blast
    then show ?thesis using s by (metis append_Cons)
  next
    case False
    then show ?thesis by (metis append_Nil list.sel(1))
  qed
qed simp

lemma last_common_idx_prefix:
  assumes "p' = [] \<or> s' = [] \<or> tl_term (hd p') \<noteq> tl_term (hd s')"
  shows "last_common_idx i acc (c @ p') (c @ s') =
           Inr (if c = [] then acc else Some (i + length c - 1))"
proof (induction c arbitrary: i acc)
  case Nil
  then show ?case using assms by (cases p'; cases s') auto
qed simp

lemma find_highest_common_point_prefix:
  assumes "p' = [] \<or> s' = [] \<or> tl_term (hd p') \<noteq> tl_term (hd s')"
      and "c @ s' \<noteq> [] \<Longrightarrow> tl_lsn (last (c @ s')) \<le> e"
  shows "find_highest_common_point (c @ p') (c @ s') e =
     Inr (if c = [] then None
          else Some \<lparr>tl_term = tl_term (last c),
                     tl_lsn = if p' = [] then e
                              else min (tl_lsn (hd p')) (if s' = [] then e else tl_lsn (hd s'))\<rparr>)"
proof (cases "c = []")
  case True
  then show ?thesis
    using assms last_common_idx_prefix [OF assms(1), of 0 None c]
    by (auto simp: find_highest_common_point_def)
next
  case False
  then obtain n where n: "length c = Suc n" by (cases c) auto
  then have "(c @ p') ! n = last c" "(c @ p') ! Suc n = p' ! 0" "(c @ s') ! Suc n = s' ! 0"
    using False by (simp_all add: nth_append last_conv_nth)
  moreover from this have "c ! n = last c" using n by (simp add: nth_append)
  ultimately show ?thesis
    using False n assms(2) last_common_idx_prefix [OF assms(1), of 0 None c]
    by (simp add: find_highest_common_point_def hd_conv_nth)
qed

text \<open>
  The common prefix of compatible histories ends where their terms part for good: no term
  after it occurs in both.
\<close>

lemma compatible_suffixes_disjoint:
  assumes "th_compatible (c @ p') (c @ s')" and "th_wf (c @ p')" and "th_wf (c @ s')"
      and div: "p' = [] \<or> s' = [] \<or> hd p' \<noteq> hd s'"
  shows "tl_term ` set p' \<inter> tl_term ` set (c @ s') = {}"
    and "tl_term ` set s' \<inter> tl_term ` set (c @ p') = {}"
proof -
  have *: False if "a \<in> set p'" "b \<in> set s'" "tl_term a = tl_term b" for a b
  proof -
    obtain i where i: "i < length p'" "p' ! i = a"
      using \<open>a \<in> set p'\<close> by (auto simp: in_set_conv_nth)
    obtain j where j: "j < length s'" "s' ! j = b"
      using \<open>b \<in> set s'\<close> by (auto simp: in_set_conv_nth)
    have "tl_term ((c @ p') ! (length c + i)) = tl_term ((c @ s') ! (length c + j))"
      using i j that(3) by simp
    then have "take (Suc (length c + i)) (c @ p') = take (Suc (length c + j)) (c @ s')"
      using assms(1) i(1) j(1) unfolding th_compatible_def
      by (metis length_append nat_add_left_cancel_less)
    then have "take (Suc i) p' = take (Suc j) s'" by (simp add: Suc_diff_le)
    then have "hd p' = hd s'"
      by (metis hd_take zero_less_Suc)
    then show False using div i j by auto
  qed
  show "tl_term ` set p' \<inter> tl_term ` set (c @ s') = {}"
    using * assms(2) by (fastforce simp: th_wf_append)
  show "tl_term ` set s' \<inter> tl_term ` set (c @ p') = {}"
    using * assms(3) by (fastforce simp: th_wf_append)
qed

definition highest_common_point ::
  "term_history \<Rightarrow> term_history \<Rightarrow> lsn \<Rightarrow> term_lsn option \<Rightarrow> bool" where
  "highest_common_point p s e r \<longleftrightarrow>
     (case r of
        None \<Rightarrow> tl_term ` set p \<inter> tl_term ` set s = {}
      | Some c \<Rightarrow>
          tl_lsn c \<le> e
          \<and> tl_term c \<in> tl_term ` set p \<inter> tl_term ` set s
          \<and> (\<forall>t \<in> tl_term ` set p \<inter> tl_term ` set s. t \<le> tl_term c)
          \<and> (\<forall>x < tl_lsn c. term_at p x = term_at s x)
          \<and> (\<forall>x. tl_lsn c \<le> x \<and> x < e \<longrightarrow> term_at p x \<noteq> term_at s x))"

lemma highest_common_point_prefix:
  assumes wfp: "th_wf (c @ p')" and wfs: "th_wf (c @ s')"
      and dp: "tl_term ` set p' \<inter> tl_term ` set (c @ s') = {}"
      and ds: "tl_term ` set s' \<inter> tl_term ` set (c @ p') = {}"
      and lead: "p' = [] \<Longrightarrow> s' = []" and c: "c \<noteq> []"
      and e: "tl_lsn (last (c @ s')) \<le> e"
      and l: "l = (if p' = [] then e
                   else min (tl_lsn (hd p')) (if s' = [] then e else tl_lsn (hd s')))"
  shows "highest_common_point (c @ p') (c @ s') e (Some \<lparr>tl_term = tl_term (last c), tl_lsn = l\<rparr>)"
proof -
  have le: "tl_lsn y \<le> e" if "y \<in> set (c @ s')" for y
  proof -
    have "c @ s' = butlast (c @ s') @ [last (c @ s')]" using c by simp
    with wfs have "th_wf (butlast (c @ s') @ [last (c @ s')])" by simp
    moreover from \<open>c @ s' = _\<close> that
    have "y \<in> set (butlast (c @ s')) \<or> y = last (c @ s')"
      by (metis Un_iff empty_iff list.set(1) set_ConsD set_append)
    ultimately show ?thesis using e by (auto simp: th_wf_append intro: order_trans)
  qed
  then have "l \<le> e" using l by (cases s') (auto simp: min_le_iff_disj)
  moreover have "tl_term y \<le> tl_term (last c)" if "y \<in> set c" for y
  proof -
    have "c = butlast c @ [last c]" using c by simp
    moreover have "th_wf c" using wfp by (simp add: th_wf_append)
    ultimately show ?thesis
      using that by (metis Un_iff empty_iff less_imp_le list.set(1) order_refl set_ConsD
          set_append th_wf_append list.set_intros(1))
  qed
  then have "\<forall>t \<in> tl_term ` set (c @ p') \<inter> tl_term ` set (c @ s'). t \<le> tl_term (last c)"
    using dp ds by auto
  moreover have "term_at (c @ p') x = term_at (c @ s') x" if "x < l" for x
  proof -
    have "x < tl_lsn y" if "y \<in> set p'" for y
      using th_wf_hd_le [OF wfp that] \<open>x < l\<close> that l by (auto split: if_splits)
    moreover have "x < tl_lsn y" if "y \<in> set s'" for y
      using th_wf_hd_le [OF wfs that] \<open>x < l\<close> that l lead by (auto split: if_splits)
    ultimately show ?thesis by (simp add: term_at_before)
  qed
  moreover have "term_at (c @ p') x \<noteq> term_at (c @ s') x" if x: "l \<le> x" "x < e" for x
  proof (cases "p' \<noteq> [] \<and> tl_lsn (hd p') \<le> x")
    case True
    then obtain t where "term_at (c @ p') x = Some t" "t \<in> tl_term ` set p'"
      using term_at_append_mem [OF wfp] by blast
    then show ?thesis using dp term_at_in [of "c @ s'" x t] by auto
  next
    case False
    then have "s' \<noteq> [] \<and> tl_lsn (hd s') \<le> x"
      using x l by (auto simp: min_def split: if_splits)
    then obtain t where "term_at (c @ s') x = Some t" "t \<in> tl_term ` set s'"
      using term_at_append_mem [OF wfs] by blast
    then show ?thesis using ds term_at_in [of "c @ p'" x t] by auto
  qed
  ultimately show ?thesis using c by (simp add: highest_common_point_def)
qed

text \<open>
  C7: for well-formed compatible histories, with no term of the safekeeper above the last
  term of the proposer and no switch of the safekeeper above its WAL end, the search
  does not panic and returns the highest common point: nothing when the histories share no
  term, and otherwise the last shared term and the position up to which both logs were
  written in the same terms and from which on, up to the end of the safekeeper's WAL, they
  differ everywhere.
\<close>

theorem find_highest_common_point_correct:
  assumes wf: "th_wf p" "th_wf s" and comp: "th_compatible p s"
      and lead: "\<forall>x \<in> set s. p \<noteq> [] \<and> tl_term x \<le> tl_term (last p)"
      and wal_end: "s \<noteq> [] \<Longrightarrow> tl_lsn (last s) \<le> e"
  shows "\<exists>r. find_highest_common_point p s e = Inr r \<and> highest_common_point p s e r"
proof -
  obtain c p' s' where p: "p = c @ p'" and s: "s = c @ s'"
      and div: "p' = [] \<or> s' = [] \<or> hd p' \<noteq> hd s'"
    using longest_common_prefix by blast
  note disj = compatible_suffixes_disjoint [OF comp [unfolded p s] wf [unfolded p s] div]
  have lead': "s' = []" if "p' = []"
  proof (cases s')
    case (Cons a as)
    then have "c \<noteq> []" and "tl_term a \<le> tl_term (last c)" using lead that by (auto simp: p s)
    moreover have "tl_term (last c) < tl_term a"
      using wf(2) Cons \<open>c \<noteq> []\<close> by (simp add: s th_wf_append)
    ultimately show ?thesis by simp
  qed
  have div': "p' = [] \<or> s' = [] \<or> tl_term (hd p') \<noteq> tl_term (hd s')"
    using disj(1) by (cases p'; cases s') auto
  note eval = find_highest_common_point_prefix [OF div' wal_end [unfolded s]]
  show ?thesis
  proof (cases "c = []")
    case True
    then show ?thesis using eval disj(1) by (simp add: p s highest_common_point_def)
  next
    case False
    then have "tl_lsn (last (c @ s')) \<le> e" using wal_end s by simp
    from highest_common_point_prefix [OF wf [unfolded p s] disj lead' False this refl]
    show ?thesis using eval False unfolding p s by simp
  qed
qed

theorem find_highest_common_point_correct_witness:
  "\<exists>r. find_highest_common_point
      [\<lparr>tl_term = 1, tl_lsn = 10\<rparr>, \<lparr>tl_term = 2, tl_lsn = 30\<rparr>, \<lparr>tl_term = 4, tl_lsn = 50\<rparr>]
      [\<lparr>tl_term = 1, tl_lsn = 10\<rparr>, \<lparr>tl_term = 3, tl_lsn = 40\<rparr>] 60 = Inr r
     \<and> highest_common_point
      [\<lparr>tl_term = 1, tl_lsn = 10\<rparr>, \<lparr>tl_term = 2, tl_lsn = 30\<rparr>, \<lparr>tl_term = 4, tl_lsn = 50\<rparr>]
      [\<lparr>tl_term = 1, tl_lsn = 10\<rparr>, \<lparr>tl_term = 3, tl_lsn = 40\<rparr>] 60 r"
  by (rule find_highest_common_point_correct)
     (simp_all add: th_wf_def th_compatible_def less_Suc_eq)

end
