(* ===== verification/Pg_Version.thy ===== *)
theory Pg_Version
  imports Neon_Prelude
begin

text \<open>
  PostgreSQL versions (libs/postgres_versioninfo/src/lib.rs): the supported major versions
  and full version numbers, with the conversions between them.
\<close>

datatype pg_major_version = PG14 | PG15 | PG16 | PG17

type_synonym pg_version_id = u32

definition PG_VERSION_UNKNOWN :: pg_version_id where
  "PG_VERSION_UNKNOWN = 0"

text \<open>\<open>None\<close> is the panic on an invalid number.\<close>

definition from_full_pg_version :: "u32 \<Rightarrow> pg_version_id option" where
  "from_full_pg_version version =
     (if version = 0 then Some version
      else if 140000 \<le> version \<and> version < 180000 then Some version
      else None)"

fun major_version_num :: "pg_major_version \<Rightarrow> u32" where
  "major_version_num PG14 = 14"
| "major_version_num PG15 = 15"
| "major_version_num PG16 = 16"
| "major_version_num PG17 = 17"

fun versionfile_string :: "pg_major_version \<Rightarrow> string" where
  "versionfile_string PG14 = ''14''"
| "versionfile_string PG15 = ''15''"
| "versionfile_string PG16 = ''16'' @ [CHR 0x0A]"
| "versionfile_string PG17 = ''17'' @ [CHR 0x0A]"

fun v_str :: "pg_major_version \<Rightarrow> string" where
  "v_str PG14 = ''v14''"
| "v_str PG15 = ''v15''"
| "v_str PG16 = ''v16''"
| "v_str PG17 = ''v17''"

definition pg_major_versions_all :: "pg_major_version list" where
  "pg_major_versions_all = [PG14, PG15, PG16, PG17]"

definition major_try_from :: "pg_version_id \<Rightarrow> pg_major_version option" where
  "major_try_from value =
     (let m = value div 10000 in
      if m = 14 then Some PG14
      else if m = 15 then Some PG15
      else if m = 16 then Some PG16
      else if m = 17 then Some PG17
      else None)"

definition version_id_from_major :: "pg_major_version \<Rightarrow> pg_version_id" where
  "version_id_from_major value = major_version_num value * 10000"

definition major_from_str :: "string \<Rightarrow> pg_major_version option" where
  "major_from_str s =
     (if s = ''14'' then Some PG14
      else if s = ''15'' then Some PG15
      else if s = ''16'' then Some PG16
      else if s = ''17'' then Some PG17
      else None)"

lemma major_roundtrip [simp]: "major_try_from (version_id_from_major m) = Some m"
  by (cases m) (simp_all add: major_try_from_def version_id_from_major_def Let_def)

lemma unknown_has_no_major [simp]: "major_try_from PG_VERSION_UNKNOWN = None"
  by (simp add: major_try_from_def PG_VERSION_UNKNOWN_def)

text \<open>The full versions accepted by \<open>from_full_pg_version\<close> are those with a major version.\<close>

lemma from_full_has_major:
  assumes "v \<noteq> PG_VERSION_UNKNOWN"
  shows "from_full_pg_version v = Some v \<longleftrightarrow> major_try_from v \<noteq> None"
proof -
  have "v div 10000 = k \<longleftrightarrow> unat v div 10000 = unat k" for k :: u32
    by (simp add: word_unat_eq_iff unat_div_distrib)
  then have "major_try_from v \<noteq> None \<longleftrightarrow> unat v div 10000 \<in> {14, 15, 16, 17}"
    by (simp add: major_try_from_def Let_def)
  also have "\<dots> \<longleftrightarrow> 140000 \<le> unat v \<and> unat v < 180000" by auto
  finally show ?thesis
    using assms by (simp add: from_full_pg_version_def PG_VERSION_UNKNOWN_def word_le_nat_alt
        word_less_nat_alt)
qed

end
