(* ===== verification/Filesystem.thy ===== *)
theory Filesystem
  imports Neon_Prelude "HOL-Library.AList"
begin

text \<open>
  The part of the file system the safekeeper relies on: a directory of named files with
  the operations of tokio::fs it calls, what fsync of a file and of the directory
  guarantees after a crash, and the durable rename of libs/utils/src/crashsafe.rs.

  Files are inodes, so that an open handle keeps denoting the same file when its name
  changes. Every operation draws from a list of faults: a fault makes it fail, and a
  failing write may have written a prefix. A crash may undo the changes of the directory
  that were not followed by an fsync of it, in the order they were made, and may replace
  the bytes of a file written since its last fsync.
\<close>

section \<open>State\<close>

type_synonym inode = nat

record fs_file =
  f_data :: bytes
  f_dirty :: "(nat \<times> nat) list" \<comment> \<open>ranges written since the last fsync\<close>
  f_resized :: bool

datatype fault = NoFault | Fault nat

type_synonym dir = "(string \<times> inode) list"

record fs =
  fs_dir :: dir
  fs_pending :: "dir list" \<comment> \<open>earlier directories a crash may bring back\<close>
  fs_files :: "fs_file list"
  fs_faults :: "fault list"

datatype io_error = IoFault | NotFound

definition fs_empty :: "fault list \<Rightarrow> fs" where
  "fs_empty faults = \<lparr>fs_dir = [], fs_pending = [], fs_files = [], fs_faults = faults\<rparr>"

definition lookup_file :: "fs \<Rightarrow> string \<Rightarrow> fs_file option" where
  "lookup_file s name = (case map_of (fs_dir s) name of
       None \<Rightarrow> None | Some i \<Rightarrow> (if i < length (fs_files s) then Some (fs_files s ! i) else None))"

section \<open>Operations\<close>

definition draw :: "(fs, io_error, nat option) prog" where
  "draw s = (case fs_faults s of
       [] \<Rightarrow> (Inr None, s)
     | f # fs \<Rightarrow> (Inr (case f of NoFault \<Rightarrow> None | Fault n \<Rightarrow> Some n), s\<lparr>fs_faults := fs\<rparr>))"

definition io_try :: "(fs, io_error, 'a) prog \<Rightarrow> (fs, io_error, 'a) prog" where
  "io_try m = andthen draw (\<lambda>f. case f of None \<Rightarrow> m | Some n \<Rightarrow> throw IoFault)"

definition splice :: "nat \<Rightarrow> bytes \<Rightarrow> bytes \<Rightarrow> bytes" where
  "splice pos new old =
     take pos old @ replicate (pos - length old) 0 @ new @ drop (pos + length new) old"

definition put_bytes :: "nat \<Rightarrow> bytes \<Rightarrow> fs_file \<Rightarrow> fs_file" where
  "put_bytes pos new f = f\<lparr>
     f_data := splice pos new (f_data f),
     f_dirty := (min pos (length (f_data f)), pos + length new) # f_dirty f,
     f_resized := f_resized f \<or> length (f_data f) < pos + length new\<rparr>"

definition resize :: "nat \<Rightarrow> fs_file \<Rightarrow> fs_file" where
  "resize n f = f\<lparr>
     f_data := take n (f_data f) @ replicate (n - length (f_data f)) 0,
     f_dirty := (min n (length (f_data f)), max n (length (f_data f))) # f_dirty f,
     f_resized := f_resized f \<or> n \<noteq> length (f_data f)\<rparr>"

definition clean :: "fs_file \<Rightarrow> fs_file" where
  "clean f = f\<lparr>f_dirty := [], f_resized := False\<rparr>"

definition upd_file :: "inode \<Rightarrow> (fs_file \<Rightarrow> fs_file) \<Rightarrow> fs \<Rightarrow> fs" where
  "upd_file i g s = s\<lparr>fs_files := (fs_files s)[i := g (fs_files s ! i)]\<rparr>"

definition set_dir :: "dir \<Rightarrow> fs \<Rightarrow> fs" where
  "set_dir d s = s\<lparr>fs_dir := d, fs_pending := fs_dir s # fs_pending s\<rparr>"

text \<open>File::create: opens the file truncated, or makes a new empty one.\<close>

definition file_create :: "string \<Rightarrow> (fs, io_error, inode) prog" where
  "file_create name = io_try (\<lambda>s.
     case map_of (fs_dir s) name of
       Some i \<Rightarrow> (Inr i, upd_file i (resize 0) s)
     | None \<Rightarrow> (let i = length (fs_files s) in
         (Inr i, set_dir (AList.update name i (fs_dir s))
           (s\<lparr>fs_files := fs_files s @ [\<lparr>f_data = [], f_dirty = [], f_resized = True\<rparr>]\<rparr>))))"

definition file_open :: "string \<Rightarrow> (fs, io_error, inode) prog" where
  "file_open name = io_try (andthen (reads (\<lambda>s. map_of (fs_dir s) name)) (of_option NotFound))"

definition file_write :: "inode \<Rightarrow> nat \<Rightarrow> bytes \<Rightarrow> (fs, io_error, unit) prog" where
  "file_write i pos data = andthen draw (\<lambda>f. case f of
       None \<Rightarrow> modify (upd_file i (put_bytes pos data))
     | Some n \<Rightarrow> andthen (modify (upd_file i (put_bytes pos (take n data)))) (\<lambda>_. throw IoFault))"

definition file_flush :: "inode \<Rightarrow> (fs, io_error, unit) prog" where
  "file_flush i = io_try (ret ())"

definition file_seek :: "inode \<Rightarrow> (fs, io_error, unit) prog" where
  "file_seek i = io_try (ret ())"

definition file_set_len :: "inode \<Rightarrow> nat \<Rightarrow> (fs, io_error, unit) prog" where
  "file_set_len i n = io_try (modify (upd_file i (resize n)))"

definition file_sync :: "inode \<Rightarrow> (fs, io_error, unit) prog" where
  "file_sync i = io_try (modify (upd_file i clean))"

definition dir_sync :: "(fs, io_error, unit) prog" where
  "dir_sync = io_try (modify (\<lambda>s. s\<lparr>fs_pending := []\<rparr>))"

definition file_rename :: "string \<Rightarrow> string \<Rightarrow> (fs, io_error, unit) prog" where
  "file_rename a b = io_try (andthen (reads (\<lambda>s. map_of (fs_dir s) a)) (\<lambda>r.
     andthen (of_option NotFound r) (\<lambda>i.
       modify (\<lambda>s. set_dir (AList.update b i (AList.delete a (fs_dir s))) s))))"

definition file_remove :: "string \<Rightarrow> (fs, io_error, unit) prog" where
  "file_remove a = io_try (andthen (reads (\<lambda>s. map_of (fs_dir s) a)) (\<lambda>r.
     andthen (of_option NotFound r) (\<lambda>i. modify (\<lambda>s. set_dir (AList.delete a (fs_dir s)) s))))"

text \<open>fsync_async, fsync_async_opt and durable_rename of libs/utils/src/crashsafe.rs.\<close>

definition fsync_async :: "string \<Rightarrow> (fs, io_error, unit) prog" where
  "fsync_async name = andthen (file_open name) file_sync"

definition fsync_async_opt :: "string \<Rightarrow> bool \<Rightarrow> (fs, io_error, unit) prog" where
  "fsync_async_opt name do_fsync = whenp do_fsync (fsync_async name)"

definition durable_rename :: "string \<Rightarrow> string \<Rightarrow> bool \<Rightarrow> (fs, io_error, unit) prog" where
  "durable_rename old_path new_path do_fsync =
     andthen (fsync_async_opt old_path do_fsync) (\<lambda>_.
     andthen (file_rename old_path new_path) (\<lambda>_.
     whenp do_fsync dir_sync))"

section \<open>Crashes\<close>

definition dirty_at :: "fs_file \<Rightarrow> nat \<Rightarrow> bool" where
  "dirty_at f k \<longleftrightarrow> list_ex (\<lambda>r. fst r \<le> k \<and> k < snd r) (f_dirty f)"

definition crash_file :: "fs_file \<Rightarrow> fs_file \<Rightarrow> bool" where
  "crash_file f g \<longleftrightarrow>
     (\<not> f_resized f \<longrightarrow> length (f_data g) = length (f_data f))
     \<and> (\<forall>k < min (length (f_data f)) (length (f_data g)).
          \<not> dirty_at f k \<longrightarrow> f_data g ! k = f_data f ! k)"

definition is_clean :: "fs_file \<Rightarrow> bool" where
  "is_clean f \<longleftrightarrow> f_dirty f = [] \<and> \<not> f_resized f"

definition crashed :: "fs \<Rightarrow> fs \<Rightarrow> bool" where
  "crashed s t \<longleftrightarrow>
     fs_dir t \<in> set (fs_dir s # fs_pending s) \<and> fs_pending t = []
     \<and> list_all2 crash_file (fs_files s) (fs_files t) \<and> list_all is_clean (fs_files t)"

definition fs_dirs :: "fs \<Rightarrow> dir set" where
  "fs_dirs s = set (fs_dir s # fs_pending s)"

text \<open>Every name of the directory and of its pending versions denotes a file.\<close>

definition fs_ok :: "fs \<Rightarrow> bool" where
  "fs_ok s \<longleftrightarrow> (\<forall>d \<in> fs_dirs s. \<forall>n i. map_of d n = Some i \<longrightarrow> i < length (fs_files s))"

section \<open>Rules\<close>

lemma wp_draw:
  assumes "\<And>f fl. Q f (s\<lparr>fs_faults := fl\<rparr>)"
  shows "wp draw Q E s"
proof (cases "fs_faults s")
  case Nil
  have "Q None (s\<lparr>fs_faults := fs_faults s\<rparr>)" by (rule assms)
  then have "Q None s" by simp
  then show ?thesis using Nil by (simp add: wp_def draw_def)
next
  case (Cons a list)
  then show ?thesis using assms by (simp add: wp_def draw_def)
qed

lemma wp_io_try:
  assumes "\<And>fl. wp m Q E (s\<lparr>fs_faults := fl\<rparr>)" and "\<And>fl. E IoFault (s\<lparr>fs_faults := fl\<rparr>)"
  shows "wp (io_try m) Q E s"
  unfolding io_try_def wp_andthen
  by (rule wp_draw) (auto simp: assms wp split: option.split)

lemma wp_file_create:
  assumes "\<And>fl i. map_of (fs_dir s) name = Some i \<Longrightarrow>
             Q i (upd_file i (resize 0) (s\<lparr>fs_faults := fl\<rparr>))"
      and "\<And>fl. map_of (fs_dir s) name = None \<Longrightarrow>
             Q (length (fs_files s))
               (set_dir (AList.update name (length (fs_files s)) (fs_dir s))
                 (s\<lparr>fs_faults := fl,
                    fs_files := fs_files s @ [\<lparr>f_data = [], f_dirty = [], f_resized = True\<rparr>]\<rparr>))"
      and "\<And>fl. E IoFault (s\<lparr>fs_faults := fl\<rparr>)"
  shows "wp (file_create name) Q E s"
  unfolding file_create_def
  by (rule wp_io_try) (use assms in \<open>auto simp: wp_def Let_def split: option.split\<close>)

lemma wp_file_open:
  assumes "\<And>fl i. map_of (fs_dir s) name = Some i \<Longrightarrow> Q i (s\<lparr>fs_faults := fl\<rparr>)"
      and "\<And>fl e. e = NotFound \<longrightarrow> map_of (fs_dir s) name = None \<Longrightarrow> E e (s\<lparr>fs_faults := fl\<rparr>)"
  shows "wp (file_open name) Q E s"
  unfolding file_open_def
  by (rule wp_io_try) (use assms in \<open>auto simp: wp split: option.split\<close>)

lemma wp_file_write:
  assumes "\<And>fl. Q () (upd_file i (put_bytes pos data) (s\<lparr>fs_faults := fl\<rparr>))"
      and "\<And>fl n. E IoFault (upd_file i (put_bytes pos (take n data)) (s\<lparr>fs_faults := fl\<rparr>))"
  shows "wp (file_write i pos data) Q E s"
  unfolding file_write_def wp_andthen
  by (rule wp_draw) (use assms in \<open>auto simp: wp split: option.split\<close>)

lemma wp_file_set_len:
  assumes "\<And>fl. Q () (upd_file i (resize n) (s\<lparr>fs_faults := fl\<rparr>))"
      and "\<And>fl. E IoFault (s\<lparr>fs_faults := fl\<rparr>)"
  shows "wp (file_set_len i n) Q E s"
  unfolding file_set_len_def by (rule wp_io_try) (simp_all add: assms wp)

lemma wp_file_sync:
  assumes "\<And>fl. Q () (upd_file i clean (s\<lparr>fs_faults := fl\<rparr>))"
      and "\<And>fl. E IoFault (s\<lparr>fs_faults := fl\<rparr>)"
  shows "wp (file_sync i) Q E s"
  unfolding file_sync_def by (rule wp_io_try) (simp_all add: assms wp)

lemma wp_dir_sync:
  assumes "\<And>fl. Q () (s\<lparr>fs_faults := fl, fs_pending := []\<rparr>)"
      and "\<And>fl. E IoFault (s\<lparr>fs_faults := fl\<rparr>)"
  shows "wp dir_sync Q E s"
  unfolding dir_sync_def by (rule wp_io_try) (simp_all add: assms wp)

lemma wp_file_flush:
  assumes "\<And>fl. Q () (s\<lparr>fs_faults := fl\<rparr>)" and "\<And>fl. E IoFault (s\<lparr>fs_faults := fl\<rparr>)"
  shows "wp (file_flush i) Q E s" and "wp (file_seek i) Q E s"
  unfolding file_flush_def file_seek_def by (rule wp_io_try; simp add: assms wp)+

lemma wp_file_rename:
  assumes "\<And>fl i. map_of (fs_dir s) a = Some i \<Longrightarrow>
             Q () (set_dir (AList.update b i (AList.delete a (fs_dir s))) (s\<lparr>fs_faults := fl\<rparr>))"
      and "\<And>fl e. E e (s\<lparr>fs_faults := fl\<rparr>)"
  shows "wp (file_rename a b) Q E s"
  unfolding file_rename_def
  by (rule wp_io_try) (use assms in \<open>auto simp: wp set_dir_def split: option.split\<close>)

lemma wp_file_remove:
  assumes "\<And>fl i. map_of (fs_dir s) a = Some i \<Longrightarrow>
             Q () (set_dir (AList.delete a (fs_dir s)) (s\<lparr>fs_faults := fl\<rparr>))"
      and "\<And>fl e. E e (s\<lparr>fs_faults := fl\<rparr>)"
  shows "wp (file_remove a) Q E s"
  unfolding file_remove_def
  by (rule wp_io_try) (use assms in \<open>auto simp: wp set_dir_def split: option.split\<close>)

lemma crash_file_clean:
  assumes "is_clean f" and "crash_file f g"
  shows "f_data g = f_data f"
  using assms by (intro nth_equalityI) (auto simp: is_clean_def crash_file_def dirty_at_def)

lemma is_clean_clean [simp]: "is_clean (clean f)"
  by (simp add: is_clean_def clean_def)

lemma f_data_clean [simp]: "f_data (clean f) = f_data f"
  by (simp add: clean_def)

lemma f_data_put_bytes [simp]: "f_data (put_bytes pos new f) = splice pos new (f_data f)"
  by (simp add: put_bytes_def)

lemma f_data_resize_0 [simp]: "f_data (resize 0 f) = []"
  by (simp add: resize_def)

lemma splice_Nil [simp]: "splice 0 new [] = new"
  by (simp add: splice_def)

lemma upd_file_simps [simp]:
  "fs_dir (upd_file i g s) = fs_dir s" "fs_pending (upd_file i g s) = fs_pending s"
  "fs_files (upd_file i g s) = (fs_files s)[i := g (fs_files s ! i)]"
  "fs_dirs (upd_file i g s) = fs_dirs s"
  by (simp_all add: upd_file_def fs_dirs_def)

lemma set_dir_simps [simp]:
  "fs_dir (set_dir d s) = d" "fs_pending (set_dir d s) = fs_dir s # fs_pending s"
  "fs_files (set_dir d s) = fs_files s" "fs_dirs (set_dir d s) = insert d (fs_dirs s)"
  by (auto simp: set_dir_def fs_dirs_def)

lemma fs_faults_out [simp]:
  "upd_file i g (s\<lparr>fs_faults := fl\<rparr>) = (upd_file i g s)\<lparr>fs_faults := fl\<rparr>"
  "set_dir d (s\<lparr>fs_faults := fl\<rparr>) = (set_dir d s)\<lparr>fs_faults := fl\<rparr>"
  by (simp_all add: upd_file_def set_dir_def)

lemma fs_dirs_simps [simp]:
  "fs_dirs (s\<lparr>fs_faults := fl\<rparr>) = fs_dirs s" "fs_dirs (s\<lparr>fs_files := fi\<rparr>) = fs_dirs s"
  "fs_dirs (s\<lparr>fs_pending := []\<rparr>) = {fs_dir s}"
  by (simp_all add: fs_dirs_def)

lemma fs_dir_in_dirs [simp, intro!]: "fs_dir s \<in> fs_dirs s"
  by (simp add: fs_dirs_def)

end
