(* ===== verification/Sk_State.thy ===== *)
theory Sk_State
  imports Membership Term_History Pg_Version Filesystem
begin

text \<open>
  The state of a timeline on a safekeeper (safekeeper/src/state.rs): the persistent part,
  the in-memory layer over it and the transactional updates, over any storage of the
  control file. The storage is the interface \<open>control_storage\<close>.
\<close>

section \<open>Data\<close>

type_synonym tl_id = bytes \<comment> \<open>TenantId and TimelineId, 16 bytes\<close>
type_synonym pg_uuid = bytes
type_synonym system_id = u64
type_synonym system_time = nat \<comment> \<open>since UNIX_EPOCH\<close>

record server_info =
  si_pg_version :: pg_version_id
  si_system_id :: system_id
  si_wal_seg_size :: u32

datatype upload_status = InProgress | Uploaded | Deleting

record partial_remote_segment =
  prs_status :: upload_status
  prs_name :: string
  prs_commit_lsn :: lsn
  prs_flush_lsn :: lsn
  prs_term :: sk_term

datatype eviction_state = Present | Offloaded lsn

record timeline_persistent_state =
  ps_tenant_id :: tl_id
  ps_timeline_id :: tl_id
  ps_mconf :: configuration
  ps_acceptor_state :: acceptor_state
  ps_server :: server_info
  ps_proposer_uuid :: pg_uuid
  ps_timeline_start_lsn :: lsn
  ps_local_start_lsn :: lsn
  ps_commit_lsn :: lsn
  ps_backup_lsn :: lsn
  ps_peer_horizon_lsn :: lsn
  ps_remote_consistent_lsn :: lsn
  ps_partial_backup :: "partial_remote_segment list"
  ps_eviction_state :: eviction_state
  ps_creation_ts :: system_time

type_synonym pers_state = timeline_persistent_state

record timeline_mem_state =
  ms_commit_lsn :: lsn
  ms_backup_lsn :: lsn
  ms_peer_horizon_lsn :: lsn
  ms_remote_consistent_lsn :: lsn
  ms_proposer_uuid :: pg_uuid

datatype timeline_create_error =
    UninitializedWalSegSize
  | UninitializedPgVersion
  | CommitBelowStart lsn lsn

text \<open>TimelinePersistentState::new; \<open>now\<close> is what the clock returns.\<close>

definition pers_state_new ::
  "tl_id \<times> tl_id \<Rightarrow> configuration \<Rightarrow> server_info \<Rightarrow> lsn \<Rightarrow> lsn \<Rightarrow> system_time
     \<Rightarrow> timeline_create_error + pers_state" where
  "pers_state_new ttid mconf server start_lsn commit_lsn now =
     (if si_wal_seg_size server = 0 then Inl UninitializedWalSegSize
      else if si_pg_version server = PG_VERSION_UNKNOWN then Inl UninitializedPgVersion
      else if commit_lsn < start_lsn then Inl (CommitBelowStart commit_lsn start_lsn)
      else
        (let term_history =
               (if commit_lsn \<noteq> lsn_invalid
                then [\<lparr>tl_term = INITIAL_TERM, tl_lsn = start_lsn\<rparr>] else [])
         in Inr \<lparr>
           ps_tenant_id = fst ttid, ps_timeline_id = snd ttid,
           ps_mconf = mconf,
           ps_acceptor_state = \<lparr>as_term = INITIAL_TERM, as_term_history = term_history\<rparr>,
           ps_server = server,
           ps_proposer_uuid = replicate 16 0,
           ps_timeline_start_lsn = start_lsn,
           ps_local_start_lsn = start_lsn,
           ps_commit_lsn = commit_lsn,
           ps_backup_lsn = start_lsn,
           ps_peer_horizon_lsn = start_lsn,
           ps_remote_consistent_lsn = 0,
           ps_partial_backup = [],
           ps_eviction_state = Present,
           ps_creation_ts = now\<rparr>))"

text \<open>The storage of the control file: the trait Storage of control_file.rs.\<close>

datatype ctrl_error = CtrlIo io_error | CtrlSer

record 'c ctrl_ops =
  ctrl_state :: "'c \<Rightarrow> pers_state"
  ctrl_persist :: "pers_state \<Rightarrow> ('c, ctrl_error, unit) prog"

record 'c timeline_state =
  ts_inmem :: timeline_mem_state
  ts_pers :: 'c

section \<open>Operations\<close>

definition mem_of :: "pers_state \<Rightarrow> timeline_mem_state" where
  "mem_of s = \<lparr>ms_commit_lsn = ps_commit_lsn s, ms_backup_lsn = ps_backup_lsn s,
     ms_peer_horizon_lsn = ps_peer_horizon_lsn s,
     ms_remote_consistent_lsn = ps_remote_consistent_lsn s,
     ms_proposer_uuid = ps_proposer_uuid s\<rparr>"

definition timeline_state_new :: "'c ctrl_ops \<Rightarrow> 'c \<Rightarrow> 'c timeline_state" where
  "timeline_state_new ops c = \<lparr>ts_inmem = mem_of (ctrl_state ops c), ts_pers = c\<rparr>"

text \<open>Deref of a TimelineState is the persistent state.\<close>

definition ts_state :: "'c ctrl_ops \<Rightarrow> 'c timeline_state \<Rightarrow> pers_state" where
  "ts_state ops t = ctrl_state ops (ts_pers t)"

definition start_change :: "'c ctrl_ops \<Rightarrow> 'c timeline_state \<Rightarrow> pers_state" where
  "start_change ops t = (ts_state ops t)\<lparr>
     ps_commit_lsn := ms_commit_lsn (ts_inmem t),
     ps_backup_lsn := ms_backup_lsn (ts_inmem t),
     ps_peer_horizon_lsn := ms_peer_horizon_lsn (ts_inmem t),
     ps_remote_consistent_lsn := ms_remote_consistent_lsn (ts_inmem t),
     ps_proposer_uuid := ms_proposer_uuid (ts_inmem t)\<rparr>"

definition finish_change ::
  "'c ctrl_ops \<Rightarrow> pers_state \<Rightarrow> ('c timeline_state, ctrl_error, unit) prog" where
  "finish_change ops s =
     andthen (reads (ts_state ops)) (\<lambda>cur.
     andthen (whenp (s \<noteq> cur)
       (zoom ts_pers (\<lambda>c t. t\<lparr>ts_pers := c\<rparr>) id (ctrl_persist ops s))) (\<lambda>_.
     modify (\<lambda>t. t\<lparr>ts_inmem := mem_of s\<rparr>)))"

definition ts_flush :: "'c ctrl_ops \<Rightarrow> ('c timeline_state, ctrl_error, unit) prog" where
  "ts_flush ops = andthen (reads (start_change ops)) (finish_change ops)"

text \<open>The answer is the term before and after.\<close>

definition term_bump ::
  "'c ctrl_ops \<Rightarrow> sk_term option \<Rightarrow> ('c timeline_state, ctrl_error, sk_term \<times> sk_term) prog" where
  "term_bump ops to =
     andthen (reads (\<lambda>t. as_term (ps_acceptor_state (ts_state ops t)))) (\<lambda>before.
     andthen (reads (start_change ops)) (\<lambda>state.
     let old = as_term (ps_acceptor_state state);
         new = (case to of Some x \<Rightarrow> max old x | None \<Rightarrow> old + 1)
     in andthen (whenp (old < new)
          (finish_change ops
            (state\<lparr>ps_acceptor_state := (ps_acceptor_state state)\<lparr>as_term := new\<rparr>\<rparr>))) (\<lambda>_.
        reads (\<lambda>t. (before, as_term (ps_acceptor_state (ts_state ops t)))))))"

definition membership_switch ::
  "'c ctrl_ops \<Rightarrow> configuration
     \<Rightarrow> ('c timeline_state, ctrl_error, configuration \<times> configuration) prog" where
  "membership_switch ops to =
     andthen (reads (\<lambda>t. ps_mconf (ts_state ops t))) (\<lambda>before.
     andthen (if conf_generation to \<le> conf_generation before then ret ()
        else andthen (reads (start_change ops)) (\<lambda>state.
          finish_change ops (state\<lparr>ps_mconf := to\<rparr>))) (\<lambda>_.
     reads (\<lambda>t. (before, ps_mconf (ts_state ops t)))))"

lemmas ts_defs = start_change_def finish_change_def ts_flush_def term_bump_def membership_switch_def

section \<open>The storage interface\<close>

text \<open>
  What the in-memory layer relies on: a persist either installs the new state, in memory
  and on disk, or fails and leaves the memory alone, while the disk holds the old or the
  new state. \<open>durable c S\<close> says that a restart after a crash at this point loads a state
  of \<open>S\<close>; \<open>restored s\<close> is the state loaded from the file written for \<open>s\<close>, which is \<open>s\<close> except
  for the two fields that the format used without a membership configuration lacks.
\<close>

locale control_storage =
  fixes ops :: "'c ctrl_ops"
    and restored :: "pers_state \<Rightarrow> pers_state"
    and durable :: "'c \<Rightarrow> pers_state set \<Rightarrow> bool"
  assumes restored: "restored s = (if conf_generation (ps_mconf s) = INVALID_GENERATION
              then s\<lparr>ps_mconf := configuration_empty, ps_creation_ts := 0\<rparr> else s)"
      and durable_mono: "durable c S \<Longrightarrow> S \<subseteq> T \<Longrightarrow> durable c T"
      and persist: "durable c S \<Longrightarrow>
        wp (ctrl_persist ops s)
          (\<lambda>_ c'. ctrl_state ops c' = s \<and> durable c' {restored s})
          (\<lambda>_ c'. ctrl_state ops c' = ctrl_state ops c \<and> durable c' (insert (restored s) S)) c"
begin

text \<open>
  A change is atomic: it is applied to memory and disk, or neither the persistent state
  nor the in-memory layer has changed.
\<close>

lemma finish_change_wp:
  assumes "durable (ts_pers t) S"
  shows "wp (finish_change ops s)
           (\<lambda>_ t'. ts_state ops t' = s \<and> ts_inmem t' = mem_of s
              \<and> durable (ts_pers t') (if s = ts_state ops t then S else {restored s}))
           (\<lambda>_ t'. ts_state ops t' = ts_state ops t \<and> ts_inmem t' = ts_inmem t
              \<and> durable (ts_pers t') (insert (restored s) S)) t"
proof (cases "s = ts_state ops t")
  case True
  then show ?thesis using assms(1) by (simp add: finish_change_def wp ts_state_def)
next
  case False
  then show ?thesis
    unfolding finish_change_def
    by (simp add: wp) (rule wp_cons [OF persist [OF assms]], auto simp: ts_state_def)
qed

lemma restored_simps [simp]:
  "ps_acceptor_state (restored s) = ps_acceptor_state s"
  "ps_commit_lsn (restored s) = ps_commit_lsn s"
  "ps_timeline_start_lsn (restored s) = ps_timeline_start_lsn s"
  "ps_server (restored s) = ps_server s"
  "ps_tenant_id (restored s) = ps_tenant_id s"
  "ps_timeline_id (restored s) = ps_timeline_id s"
  "conf_generation (ps_mconf (restored s)) = conf_generation (ps_mconf s)"
  by (simp_all add: restored configuration_empty_def)

end

lemma mem_of_start_change [simp]: "mem_of (start_change ops t) = ts_inmem t"
  by (simp add: mem_of_def start_change_def)

lemma start_change_simps [simp]:
  "ps_acceptor_state (start_change ops t) = ps_acceptor_state (ts_state ops t)"
  "ps_mconf (start_change ops t) = ps_mconf (ts_state ops t)"
  "ps_server (start_change ops t) = ps_server (ts_state ops t)"
  "ps_tenant_id (start_change ops t) = ps_tenant_id (ts_state ops t)"
  "ps_timeline_id (start_change ops t) = ps_timeline_id (ts_state ops t)"
  "ps_timeline_start_lsn (start_change ops t) = ps_timeline_start_lsn (ts_state ops t)"
  "ps_local_start_lsn (start_change ops t) = ps_local_start_lsn (ts_state ops t)"
  "ps_commit_lsn (start_change ops t) = ms_commit_lsn (ts_inmem t)"
  "ps_peer_horizon_lsn (start_change ops t) = ms_peer_horizon_lsn (ts_inmem t)"
  by (simp_all add: start_change_def)

end
