(* ===== verification/Sk_Messages.thy ===== *)
theory Sk_Messages
  imports Sk_State
begin

text \<open>
  The messages between a proposer (the compute) and an acceptor (the safekeeper), as the
  safekeeper sees them (safekeeper/src/safekeeper.rs, libs/safekeeper_api/src/models.rs).
\<close>

section \<open>Proposer to acceptor\<close>

record proposer_greeting =
  pg_tenant_id :: tl_id
  pg_timeline_id :: tl_id
  pg_mconf :: configuration
  pg_pg_version :: pg_version_id
  pg_system_id :: system_id
  pg_wal_seg_size :: u32

record vote_request =
  vr_generation :: sk_generation
  vr_term :: sk_term

record proposer_elected =
  pe_generation :: sk_generation
  pe_term :: sk_term
  pe_start_streaming_at :: lsn
  pe_term_history :: term_history

record append_request_header =
  ah_generation :: sk_generation
  ah_term :: sk_term
  ah_begin_lsn :: lsn
  ah_end_lsn :: lsn
  ah_commit_lsn :: lsn
  ah_truncate_lsn :: lsn

record append_request =
  ar_h :: append_request_header
  ar_wal_data :: bytes

datatype proposer_acceptor_message =
    Greeting proposer_greeting
  | VoteRequest vote_request
  | Elected proposer_elected
  | AppendRequest append_request
  | NoFlushAppendRequest append_request
  | FlushWAL

section \<open>Acceptor to proposer\<close>

record hot_standby_feedback =
  hs_ts :: u64 \<comment> \<open>an i64 as its bit pattern\<close>
  hs_xmin :: u64
  hs_catalog_xmin :: u64

definition hs_feedback_empty :: hot_standby_feedback where
  "hs_feedback_empty = \<lparr>hs_ts = 0, hs_xmin = 0, hs_catalog_xmin = 0\<rparr>"

record pageserver_feedback =
  pf_current_timeline_size :: u64
  pf_last_received_lsn :: lsn
  pf_disk_consistent_lsn :: lsn
  pf_remote_consistent_lsn :: lsn
  pf_replytime :: int \<comment> \<open>nanoseconds since PG_EPOCH\<close>
  pf_shard_number :: u32
  pf_corruption_detected :: bool

record acceptor_greeting =
  ag_node_id :: node_id
  ag_mconf :: configuration
  ag_term :: sk_term

record vote_response =
  vp_generation :: sk_generation
  vp_term :: sk_term
  vp_vote_given :: bool
  vp_flush_lsn :: lsn
  vp_truncate_lsn :: lsn
  vp_term_history :: term_history

record append_response =
  ap_generation :: sk_generation
  ap_term :: sk_term
  ap_flush_lsn :: lsn
  ap_commit_lsn :: lsn
  ap_hs_feedback :: hot_standby_feedback
  ap_pageserver_feedback :: "pageserver_feedback option"

definition append_response_term_only :: "sk_generation \<Rightarrow> sk_term \<Rightarrow> append_response" where
  "append_response_term_only g t = \<lparr>ap_generation = g, ap_term = t, ap_flush_lsn = 0,
     ap_commit_lsn = 0, ap_hs_feedback = hs_feedback_empty, ap_pageserver_feedback = None\<rparr>"

datatype acceptor_proposer_message =
    AGreeting acceptor_greeting
  | AVoteResponse vote_response
  | AAppendResponse append_response

end
