(* ===== verification/Byte_Codec.thy ===== *)
theory Byte_Codec
  imports Neon_Prelude
begin

text \<open>
  Fixed-width integers as bytes, in both byte orders, as the standard library and the
  bytes crate read and write them, with the reads that fail when the buffer is short.
\<close>

fun le_nat :: "bytes \<Rightarrow> nat" where
  "le_nat [] = 0"
| "le_nat (b # bs) = unat b + 256 * le_nat bs"

fun le_bytes :: "nat \<Rightarrow> nat \<Rightarrow> bytes" where
  "le_bytes 0 x = []"
| "le_bytes (Suc n) x = word_of_nat (x mod 256) # le_bytes n (x div 256)"

definition put_le :: "nat \<Rightarrow> 'w::len word \<Rightarrow> bytes" where
  "put_le n x = le_bytes n (unat x)"

definition put_be :: "nat \<Rightarrow> 'w::len word \<Rightarrow> bytes" where
  "put_be n x = rev (le_bytes n (unat x))"

definition of_le :: "bytes \<Rightarrow> 'w::len word" where
  "of_le bs = word_of_nat (le_nat bs)"

definition of_be :: "bytes \<Rightarrow> 'w::len word" where
  "of_be bs = word_of_nat (le_nat (rev bs))"

text \<open>Reading from the front of a buffer: the value and the rest, if there are enough bytes.\<close>

definition get_le :: "nat \<Rightarrow> bytes \<Rightarrow> ('w::len word \<times> bytes) option" where
  "get_le n bs = (if length bs < n then None else Some (of_le (take n bs), drop n bs))"

definition get_be :: "nat \<Rightarrow> bytes \<Rightarrow> ('w::len word \<times> bytes) option" where
  "get_be n bs = (if length bs < n then None else Some (of_be (take n bs), drop n bs))"

lemma length_le_bytes [simp]: "length (le_bytes n x) = n"
  by (induction n arbitrary: x) auto

lemma length_put_le [simp]: "length (put_le n x) = n"
  by (simp add: put_le_def)

lemma length_put_be [simp]: "length (put_be n x) = n"
  by (simp add: put_be_def)

lemma le_nat_le_bytes: "le_nat (le_bytes n x) = x mod 256 ^ n"
proof (induction n arbitrary: x)
  case (Suc n)
  have "unat (word_of_nat (x mod 256) :: u8) = x mod 256"
    by (simp add: unat_of_nat)
  then show ?case
    using Suc mod_mult2_eq [of x 256 "256 ^ n"] by simp
qed simp

lemma le_nat_less: "le_nat bs < 256 ^ length bs"
proof (induction bs)
  case (Cons b bs)
  have "unat b < 256" using unsigned_less [of b, where 'a = nat] by simp
  with Cons show ?case by simp
qed simp

lemma le_bytes_le_nat: "n = length bs \<Longrightarrow> le_bytes n (le_nat bs) = bs"
proof (induction bs arbitrary: n)
  case (Cons b bs)
  have "unat b < 256" using unsigned_less [of b, where 'a = nat] by simp
  with Cons show ?case by (simp add: word_of_nat_eq_iff)
qed simp

lemma unat_less_256: "unat x < 256 ^ n" if "LENGTH('w) \<le> 8 * n" for x :: "'w::len word"
proof -
  have "unat x < 2 ^ LENGTH('w)" by (rule unsigned_less)
  also have "\<dots> \<le> 2 ^ (8 * n)" using that by (rule power_increasing) simp
  also have "\<dots> = 256 ^ n" by (simp add: power_mult)
  finally show ?thesis .
qed

lemma le_nat_put_le: "LENGTH('w) \<le> 8 * n \<Longrightarrow> le_nat (put_le n x) = unat x" for x :: "'w::len word"
  by (simp add: put_le_def le_nat_le_bytes unat_less_256)

lemma of_le_put_le [simp]: "LENGTH('w) \<le> 8 * n \<Longrightarrow> of_le (put_le n x) = x" for x :: "'w::len word"
  by (simp add: of_le_def le_nat_put_le)

lemma of_be_put_be [simp]: "LENGTH('w) \<le> 8 * n \<Longrightarrow> of_be (put_be n x) = x" for x :: "'w::len word"
  by (simp add: of_be_def put_be_def le_nat_le_bytes unat_less_256)

lemma get_le_put [simp]:
  "LENGTH('w) \<le> 8 * n \<Longrightarrow> get_le n (put_le n x @ rest) = Some (x, rest)" for x :: "'w::len word"
  by (simp add: get_le_def)

lemma get_be_put [simp]:
  "LENGTH('w) \<le> 8 * n \<Longrightarrow> get_be n (put_be n x @ rest) = Some (x, rest)" for x :: "'w::len word"
  by (simp add: get_be_def)

lemma get_be_short: "length bs < n \<Longrightarrow> get_be n bs = None"
  by (simp add: get_be_def)

lemma get_le_Some_length: "get_le n bs = Some (x, r) \<Longrightarrow> length bs = n + length r"
  by (auto simp: get_le_def split: if_splits)

lemma get_be_Some_length: "get_be n bs = Some (x, r) \<Longrightarrow> length bs = n + length r"
  by (auto simp: get_be_def split: if_splits)

lemma put_be_byte: "put_be 1 x = [x]" for x :: u8
  using unsigned_less [of x, where 'a = nat] by (simp add: put_be_def del: unsigned_less)

text \<open>Decoders run on their encodings, for simplification along a message.\<close>

named_theorems wire

end
