(* ===== verification/Xlog_Utils.thy ===== *)
theory Xlog_Utils
  imports Lsn Byte_Codec
begin

text \<open>
  WAL files and headers (libs/postgres_ffi/src/xlog_utils.rs and lib.rs): names of segment
  files, the first segment of a timeline, and the transaction counters of a checkpoint.
\<close>

unbundle bit_operations_syntax

section \<open>Constants\<close>

type_synonym xlog_segno = u64
type_synonym timeline_id = u32

definition XLOG_FNAME_LEN :: nat where
  "XLOG_FNAME_LEN = 24"

definition XLP_FIRST_IS_CONTRECORD :: u16 where
  "XLP_FIRST_IS_CONTRECORD = 1"

definition XLP_LONG_HEADER :: u16 where
  "XLP_LONG_HEADER = 2"

definition XLOG_RECORD_CRC_OFFS :: nat where
  "XLOG_RECORD_CRC_OFFS = 4 + 4 + 8 + 1 + 1 + 2"

definition XLOG_SWITCH :: u8 where
  "XLOG_SWITCH = 0x40"

definition RM_XLOG_ID :: u8 where
  "RM_XLOG_ID = 0"

definition PG_TLI :: timeline_id where
  "PG_TLI = 1"

definition XID_CHECKPOINT_INTERVAL :: u32 where
  "XID_CHECKPOINT_INTERVAL = 1024"

definition FIRST_NORMAL_TRANSACTION_ID :: u32 where
  "FIRST_NORMAL_TRANSACTION_ID = 3"

section \<open>Names of segment files\<close>

definition XLogSegmentsPerXLogId :: "u64 \<Rightarrow> xlog_segno" where
  "XLogSegmentsPerXLogId wal_segsz_bytes = 0x100000000 div wal_segsz_bytes"

definition XLogSegNoOffsetToRecPtr :: "xlog_segno \<Rightarrow> u32 \<Rightarrow> u64 \<Rightarrow> u64" where
  "XLogSegNoOffsetToRecPtr segno offset wal_segsz_bytes = segno * wal_segsz_bytes + ucast offset"

definition XLogFileName :: "timeline_id \<Rightarrow> xlog_segno \<Rightarrow> u64 \<Rightarrow> string" where
  "XLogFileName tli logSegNo wal_segsz_bytes =
     hex_upper_pad 8 (unat tli)
     @ hex_upper_pad 8 (unat (logSegNo div XLogSegmentsPerXLogId wal_segsz_bytes))
     @ hex_upper_pad 8 (unat (logSegNo mod XLogSegmentsPerXLogId wal_segsz_bytes))"

datatype fname_error = FnamePanic | FnameParse

definition XLogFromFileName :: "string \<Rightarrow> u64 \<Rightarrow> fname_error + (xlog_segno \<times> timeline_id)" where
  "XLogFromFileName fname wal_seg_size =
     (if length fname < 8 then Inl FnamePanic
      else case from_str_radix16 (2 ^ 32) (take 8 fname) of
        None \<Rightarrow> Inl FnameParse
      | Some tli \<Rightarrow>
          if length fname < 16 then Inl FnamePanic
          else case from_str_radix16 (2 ^ 32) (take 8 (drop 8 fname)) of
            None \<Rightarrow> Inl FnameParse
          | Some log \<Rightarrow>
              if length fname < 24 then Inl FnamePanic
              else case from_str_radix16 (2 ^ 32) (take 8 (drop 16 fname)) of
                None \<Rightarrow> Inl FnameParse
              | Some seg \<Rightarrow>
                  Inr (of_nat log * XLogSegmentsPerXLogId wal_seg_size + of_nat seg, of_nat tli))"

definition IsXLogFileName :: "string \<Rightarrow> bool" where
  "IsXLogFileName fname \<longleftrightarrow> length fname = XLOG_FNAME_LEN \<and> list_all is_ascii_hexdigit fname"

definition partial_suffix :: string where
  "partial_suffix = ''.partial''"

definition IsPartialXLogFileName :: "string \<Rightarrow> bool" where
  "IsPartialXLogFileName fname \<longleftrightarrow>
     8 \<le> length fname \<and> drop (length fname - 8) fname = partial_suffix
     \<and> IsXLogFileName (take (length fname - 8) fname)"

text \<open>wal_file_paths of safekeeper/src/wal_storage.rs, inside the timeline directory.\<close>

definition wal_file_paths :: "xlog_segno \<Rightarrow> u64 \<Rightarrow> string \<times> string" where
  "wal_file_paths segno wal_seg_size =
     (let wal_file_name = XLogFileName PG_TLI segno wal_seg_size
      in (wal_file_name, wal_file_name @ partial_suffix))"

section \<open>Page headers and records\<close>

record xlog_page_header =
  xlp_magic :: u16
  xlp_info :: u16
  xlp_tli :: u32
  xlp_pageaddr :: u64
  xlp_rem_len :: u32

record xlog_long_page_header =
  xlp_std :: xlog_page_header
  xlp_sysid :: u64
  xlp_seg_size :: u32
  xlp_xlog_blcksz :: u32

record xlog_record =
  xl_tot_len :: u32
  xl_xid :: u32
  xl_prev :: u64
  xl_info :: u8
  xl_rmid :: u8
  xl_crc :: u32

definition is_xlog_switch_record :: "xlog_record \<Rightarrow> bool" where
  "is_xlog_switch_record r \<longleftrightarrow> xl_info r = XLOG_SWITCH \<and> xl_rmid r = RM_XLOG_ID"

text \<open>
  What comes with the PostgreSQL headers of a major version: the sizes of the structures,
  the page magic, and their bincode (de)serialisers, with the CRC-32C of a record.
\<close>

record pg_bindings =
  XLOG_PAGE_MAGIC :: u16
  XLOG_SIZE_OF_XLOG_SHORT_PHD :: nat
  XLOG_SIZE_OF_XLOG_LONG_PHD :: nat
  XLOG_SIZE_OF_XLOG_RECORD :: nat
  short_phd_des :: "bytes \<Rightarrow> xlog_page_header option"
  long_phd_des :: "bytes \<Rightarrow> xlog_long_page_header option"
  xlog_record_des :: "bytes \<Rightarrow> xlog_record option"
  short_phd_ser :: "xlog_page_header \<Rightarrow> bytes option"
  long_phd_ser :: "xlog_long_page_header \<Rightarrow> bytes option"
  crc32c_append :: "u32 \<Rightarrow> bytes \<Rightarrow> u32"

definition normalize_lsn :: "pg_bindings \<Rightarrow> lsn \<Rightarrow> u64 \<Rightarrow> lsn option" where
  "normalize_lsn pg l seg_sz =
     (if l mod XLOG_BLCKSZ = 0 then
        (let hdr_size = (if l mod seg_sz = 0 then XLOG_SIZE_OF_XLOG_LONG_PHD pg
                         else XLOG_SIZE_OF_XLOG_SHORT_PHD pg)
         in lsn_add l (of_nat hdr_size))
      else Some (align l))"

datatype segment_error = SegmentPanic | SegmentSer

text \<open>\<open>copy_from_slice\<close> into a buffer; out of range it panics.\<close>

definition copy_into :: "nat \<Rightarrow> bytes \<Rightarrow> bytes \<Rightarrow> bytes option" where
  "copy_into off src dst =
     (if length dst < off + length src then None
      else Some (take off dst @ src @ drop (off + length src) dst))"

definition zero_fill :: "nat \<Rightarrow> bytes \<Rightarrow> bytes" where
  "zero_fill n b = take n b @ replicate (n - length b) 0"

definition generate_wal_segment ::
  "pg_bindings \<Rightarrow> xlog_segno \<Rightarrow> u64 \<Rightarrow> lsn \<Rightarrow> segment_error + bytes" where
  "generate_wal_segment pg segno system_id l =
     (if segno \<noteq> segment_number l WAL_SEGMENT_SIZE then Inl SegmentPanic
      else
       (let pageaddr = XLogSegNoOffsetToRecPtr segno 0 WAL_SEGMENT_SIZE;
            page_off = block_offset l;
            seg_off = unat (segment_offset l WAL_SEGMENT_SIZE);
            first_page_only = seg_off < unat XLOG_BLCKSZ
        in if first_page_only \<and> seg_off > 0 \<and> seg_off < XLOG_SIZE_OF_XLOG_LONG_PHD pg
           then Inl SegmentPanic
           else
            (let (shdr_rem_len, infoflags) =
                   (if first_page_only \<and> seg_off > 0
                    then (seg_off - XLOG_SIZE_OF_XLOG_LONG_PHD pg, XLP_FIRST_IS_CONTRECORD)
                    else (0, 0));
                 hdr = \<lparr>xlp_std = \<lparr>xlp_magic = XLOG_PAGE_MAGIC pg,
                          xlp_info = XLP_LONG_HEADER OR infoflags, xlp_tli = PG_TLI,
                          xlp_pageaddr = pageaddr, xlp_rem_len = of_nat shdr_rem_len\<rparr>,
                        xlp_sysid = system_id, xlp_seg_size = ucast WAL_SEGMENT_SIZE,
                        xlp_xlog_blcksz = ucast XLOG_BLCKSZ\<rparr>
             in case long_phd_ser pg hdr of
                  None \<Rightarrow> Inl SegmentSer
                | Some hdr_bytes \<Rightarrow>
                    (let seg_buf = zero_fill (unat WAL_SEGMENT_SIZE) hdr_bytes
                     in if first_page_only then Inr seg_buf
                        else if page_off > 0 \<and> unat page_off < XLOG_SIZE_OF_XLOG_SHORT_PHD pg
                        then Inl SegmentPanic
                        else
                         (let off = unat (page_offset_in_segment l WAL_SEGMENT_SIZE);
                              (rem_len, info) =
                                (if page_off > 0
                                 then (ucast (page_off
                                          - of_nat (XLOG_SIZE_OF_XLOG_SHORT_PHD pg)),
                                       XLP_FIRST_IS_CONTRECORD)
                                 else (0, 0));
                              header = \<lparr>xlp_magic = XLOG_PAGE_MAGIC pg, xlp_info = info,
                                 xlp_tli = PG_TLI, xlp_pageaddr = page_lsn l,
                                 xlp_rem_len = rem_len\<rparr>
                          in case short_phd_ser pg header of
                               None \<Rightarrow> Inl SegmentSer
                             | Some hdr_bytes \<Rightarrow>
                                 (case copy_into off hdr_bytes seg_buf of
                                    None \<Rightarrow> Inl SegmentPanic
                                  | Some b \<Rightarrow> Inr b))))))"

section \<open>Counters of a checkpoint\<close>

text \<open>The new counter, and whether it was updated.\<close>

definition update_next_xid :: "u64 \<Rightarrow> u32 \<Rightarrow> bool \<times> u64" where
  "update_next_xid full_xid xid =
     (let new_xid0 = max (xid + 1) FIRST_NORMAL_TRANSACTION_ID;
          new_xid = (new_xid0 + (XID_CHECKPOINT_INTERVAL - 1))
                      AND NOT (XID_CHECKPOINT_INTERVAL - 1);
          old_xid = ucast full_xid :: u32
      in if 0 < sint (new_xid - old_xid) then
           (let epoch0 = drop_bit 32 full_xid;
                epoch = (if new_xid < old_xid then epoch0 + 1 else epoch0);
                nextXid = push_bit 32 epoch OR ucast new_xid
            in if nextXid \<noteq> full_xid then (True, nextXid) else (False, full_xid))
         else (False, full_xid))"

definition update_next_multixid :: "u32 \<times> u32 \<Rightarrow> u32 \<Rightarrow> u32 \<Rightarrow> bool \<times> u32 \<times> u32" where
  "update_next_multixid next multi_xid multi_offset =
     (let (nextMulti, nextMultiOffset) = next;
          m1 = 0 < sint (multi_xid - nextMulti);
          m2 = 0 < sint (multi_offset - nextMultiOffset)
      in (m1 \<or> m2, if m1 then multi_xid else nextMulti,
                    if m2 then multi_offset else nextMultiOffset))"

definition transaction_id_is_normal :: "u32 \<Rightarrow> bool" where
  "transaction_id_is_normal xid = (xid > FIRST_NORMAL_TRANSACTION_ID)"

definition transaction_id_precedes :: "u32 \<Rightarrow> u32 \<Rightarrow> bool" where
  "transaction_id_precedes id1 id2 =
     (if \<not> transaction_id_is_normal id1 \<or> \<not> transaction_id_is_normal id2 then id1 < id2
      else sint (id1 - id2) < 0)"

text \<open>The position in a page header, whose halves are swapped; a short page panics.\<close>

definition page_is_new :: "bytes \<Rightarrow> bool option" where
  "page_is_new pg = (if length pg < 16 then None else Some (pg ! 14 = 0 \<and> pg ! 15 = 0))"

definition page_get_lsn :: "bytes \<Rightarrow> lsn option" where
  "page_get_lsn pg = (if length pg < 8 then None
     else Some (push_bit 32 (ucast (of_le (take 4 pg) :: u32))
                OR ucast (of_le (take 4 (drop 4 pg)) :: u32)))"

definition page_set_lsn :: "bytes \<Rightarrow> lsn \<Rightarrow> bytes option" where
  "page_set_lsn pg l = (if length pg < 8 then None
     else Some (put_le 4 (ucast (drop_bit 32 l) :: u32) @ put_le 4 (ucast l :: u32) @ drop 8 pg))"

section \<open>Round trips of names\<close>

lemma unat_segments_per_id:
  assumes "0 < sz" and "unat sz \<le> 2 ^ 32"
  shows "unat (XLogSegmentsPerXLogId sz) = 2 ^ 32 div unat sz"
    and "0 < unat (XLogSegmentsPerXLogId sz)" and "unat (XLogSegmentsPerXLogId sz) \<le> 2 ^ 32"
proof -
  show *: "unat (XLogSegmentsPerXLogId sz) = 2 ^ 32 div unat sz"
    by (simp add: XLogSegmentsPerXLogId_def unat_div_distrib)
  have "0 < unat sz" using assms(1) by (simp add: word_less_nat_alt)
  then show "0 < unat (XLogSegmentsPerXLogId sz)"
    using assms(2) unfolding * by (simp add: div_greater_zero_iff)
  show "unat (XLogSegmentsPerXLogId sz) \<le> 2 ^ 32" unfolding * by simp
qed

lemma segment_name_parts:
  assumes "0 < sz" and "unat sz \<le> 2 ^ 32"
      and "unat segno < 2 ^ 32 * unat (XLogSegmentsPerXLogId sz)"
  shows "unat (segno div XLogSegmentsPerXLogId sz) < 16 ^ 8"
    and "unat (segno mod XLogSegmentsPerXLogId sz) < 16 ^ 8"
  using unat_segments_per_id [OF assms(1,2)] assms(3)
  by (simp_all add: unat_div_distrib unat_mod_distrib less_mult_imp_div_less
      order_less_le_trans [OF mod_less_divisor])

lemma unat_tli_less: "unat (tli :: timeline_id) < 16 ^ 8"
  using unsigned_less [of tli, where 'a = nat] by simp

lemma length_hex8: "n < 16 ^ 8 \<Longrightarrow> length (hex_upper_pad 8 n) = 8"
  by (simp add: hex_upper_pad_def upper.length_padded)

lemma radix_hex8: "n < 16 ^ 8 \<Longrightarrow> from_str_radix16 4294967296 (hex_upper_pad 8 n) = Some n"
  by (simp add: hex_upper_pad_def upper.radix_padded)

lemma XLogFileName_is:
  assumes "0 < sz" and "unat sz \<le> 2 ^ 32"
      and "unat segno < 2 ^ 32 * unat (XLogSegmentsPerXLogId sz)"
  shows "IsXLogFileName (XLogFileName tli segno sz)"
    and "IsPartialXLogFileName (XLogFileName tli segno sz @ partial_suffix)"
proof -
  have len: "length (XLogFileName tli segno sz) = 24"
    using segment_name_parts [OF assms] unat_tli_less [of tli]
    by (simp add: XLogFileName_def length_hex8)
  then show "IsXLogFileName (XLogFileName tli segno sz)"
    by (auto simp: IsXLogFileName_def XLOG_FNAME_LEN_def list_all_iff XLogFileName_def
        hex_upper_pad_def dest: upper.padded_hexdigits)
  then show "IsPartialXLogFileName (XLogFileName tli segno sz @ partial_suffix)"
    using len by (simp add: IsPartialXLogFileName_def partial_suffix_def)
qed

text \<open>A suffix after the name is ignored.\<close>

lemma XLogFromFileName_append:
  assumes "0 < sz" and "unat sz \<le> 2 ^ 32"
      and "unat segno < 2 ^ 32 * unat (XLogSegmentsPerXLogId sz)"
  shows "XLogFromFileName (XLogFileName tli segno sz @ suffix) sz = Inr (segno, tli)"
proof -
  note parts = segment_name_parts [OF assms]
  have "of_nat (unat (segno div XLogSegmentsPerXLogId sz)) * XLogSegmentsPerXLogId sz
          + of_nat (unat (segno mod XLogSegmentsPerXLogId sz)) = segno"
    by (simp add: div_mult_mod_eq)
  then show ?thesis
    using parts unat_tli_less [of tli]
    by (simp add: XLogFromFileName_def XLogFileName_def length_hex8 radix_hex8)
qed

lemma XLogFileName_inj:
  assumes "0 < sz" and "unat sz \<le> 2 ^ 32"
      and "unat a < 2 ^ 32 * unat (XLogSegmentsPerXLogId sz)"
      and "unat b < 2 ^ 32 * unat (XLogSegmentsPerXLogId sz)"
      and "XLogFileName tli a sz @ s = XLogFileName tli b sz @ t"
  shows "a = b \<and> s = t"
proof -
  have "a = b"
    using XLogFromFileName_append [OF assms(1-3), of tli s]
      XLogFromFileName_append [OF assms(1,2,4), of tli t] assms(5) by simp
  then show ?thesis using assms(5) by simp
qed

section \<open>Transaction counters\<close>

lemma unat_push_or:
  assumes "unat e < 2 ^ 32"
  shows "unat (push_bit 32 e OR ucast (x :: u32) :: u64) = unat e * 2 ^ 32 + unat x"
proof -
  have "push_bit 32 e AND ucast x = (0 :: u64)"
    by (rule bit_word_eqI) (auto simp: bit_simps dest: bit_imp_le_length)
  then have "push_bit 32 e OR ucast x = push_bit 32 e + ucast x"
    by (simp add: disjunctive_add_eq_or)
  moreover have "unat (push_bit 32 e) = unat e * 2 ^ 32"
    using assms by (simp add: push_bit_eq_mult unat_word_ariths)
  moreover have x: "unat x < 2 ^ 32" using unsigned_less [of x, where 'a = nat] by simp
  moreover have "unat (ucast x :: u64) = unat x"
    using x by (simp add: unsigned_ucast_eq take_bit_nat_eq_self)
  ultimately show ?thesis
    using assms by (simp add: unat_word_ariths)
qed

text \<open>The candidate is above the transaction, by at most the interval.\<close>

definition xid_candidate :: "u32 \<Rightarrow> u32" where
  "xid_candidate xid =
     (max (xid + 1) FIRST_NORMAL_TRANSACTION_ID + (XID_CHECKPOINT_INTERVAL - 1))
       AND NOT (XID_CHECKPOINT_INTERVAL - 1)"

definition xid_distance :: "u64 \<Rightarrow> u32 \<Rightarrow> nat" where
  "xid_distance full_xid xid = unat (xid_candidate xid - ucast full_xid)"

lemma candidate_mask: "xid_candidate xid = (max (xid + 1) 3 + 1023) AND NOT (mask 10)"
  by (simp add: xid_candidate_def FIRST_NORMAL_TRANSACTION_ID_def XID_CHECKPOINT_INTERVAL_def
      mask_eq_exp_minus_1)

lemma unat_candidate:
  "unat (xid_candidate xid) = (max (unat (xid + 1)) 3 + 1023) mod 2 ^ 32 div 1024 * 1024"
proof -
  have "unat (max (xid + 1) 3) = max (unat (xid + 1)) 3"
    by (simp add: max_def word_le_nat_alt)
  then have "unat (max (xid + 1) 3 + 1023) = (max (unat (xid + 1)) 3 + 1023) mod 2 ^ 32"
    by (simp add: unat_word_ariths)
  then show ?thesis
    unfolding candidate_mask unat_and_not_mask by (simp add: minus_mod_eq_div_mult)
qed

lemma unat_sub_u32:
  "unat (a - b) = (if unat b \<le> unat a then unat a - unat b else unat a + 2 ^ 32 - unat b)"
  for a b :: u32
  by (simp add: unat_sub_if')

lemma candidate_above:
  "0 < unat (xid_candidate xid - xid) \<and> unat (xid_candidate xid - xid) \<le> 1026
   \<and> 1024 dvd unat (xid_candidate xid)"
proof -
  have x: "unat xid < 2 ^ 32" using unsigned_less [of xid, where 'a = nat] by simp
  have x1: "unat (xid + 1) = (if unat xid = 2 ^ 32 - 1 then 0 else unat xid + 1)"
    using x by (simp add: unat_word_ariths)
  define n where "n = max (unat (xid + 1)) 3"
  have c: "unat (xid_candidate xid) = (n + 1023) mod 2 ^ 32 div 1024 * 1024"
    unfolding n_def by (rule unat_candidate)
  consider "unat xid = 2 ^ 32 - 1" "n = 3" | "unat xid < 3" "n = 3"
    | "2 < unat xid" "unat xid < 2 ^ 32 - 1" "n = unat xid + 1"
    using x x1 by (cases "unat xid < 3") (auto simp: n_def max_def split: if_splits)
  then show ?thesis
  proof cases
    case 3
    show ?thesis
    proof (cases "n + 1023 < 2 ^ 32")
      case True
      moreover have "(n + 1023) div 1024 * 1024 + (n + 1023) mod 1024 = n + 1023"
        by (rule div_mult_mod_eq)
      moreover have "(n + 1023) mod 1024 < 1024" by simp
      ultimately have "n \<le> (n + 1023) div 1024 * 1024" "(n + 1023) div 1024 * 1024 \<le> n + 1023"
        by linarith+
      then show ?thesis using 3 True by (simp add: unat_sub_u32 c)
    next
      case False
      then have "(n + 1023) mod 2 ^ 32 = n + 1023 - 2 ^ 32" using 3(2,3)
        by (subst le_mod_geq) auto
      then have "(n + 1023) mod 2 ^ 32 div 1024 = 0" using 3(2,3) by (intro div_less) linarith
      then show ?thesis using 3 False by (simp add: unat_sub_u32 c)
    qed
  qed (simp_all add: unat_sub_u32 c)
qed

lemma sint_pos_iff: "0 < sint d \<longleftrightarrow> 0 < unat d \<and> unat d < 2 ^ 31" for d :: u32
proof -
  define u where "u = uint d"
  have u: "0 \<le> u" "u < 2 ^ 32"
    using unsigned_less [of d, where 'a = int] by (simp_all add: u_def)
  have "sint d = (u + 2 ^ 31) mod 2 ^ 32 - 2 ^ 31"
    using int_word_sint [of u, where 'a = 32] by (simp add: u_def)
  also have "\<dots> = (if u < 2 ^ 31 then u else u - 2 ^ 32)"
  proof (cases "u < 2 ^ 31")
    case True
    then show ?thesis using u by simp
  next
    case False
    have "(u + 2 ^ 31) mod 2 ^ 32 = (u - 2 ^ 31) mod 2 ^ 32"
      using mod_add_self2 [of "u - 2 ^ 31" "2 ^ 32 :: int"] by (simp add: add.commute)
    then show ?thesis using u False by simp
  qed
  moreover have "u = int (unat d)" by (simp add: u_def)
  ultimately show ?thesis using u by (auto simp del: of_nat_unat split: if_splits)
qed

text \<open>
  C30: \<open>update_next_xid\<close> advances the 64-bit counter by the distance, modulo \<open>2 ^ 32\<close>, from
  its low half to the aligned successor of the transaction id, exactly when that distance
  is positive as a signed number, carrying into the epoch on wrap-around; otherwise it
  leaves the counter alone and reports no update.
\<close>

theorem update_next_xid_advances:
  assumes epoch: "unat full + 2 ^ 32 < 2 ^ 64"
  shows "update_next_xid full xid =
           (if 0 < xid_distance full xid \<and> xid_distance full xid < 2 ^ 31
            then (True, full + of_nat (xid_distance full xid)) else (False, full))
         \<and> (0 < xid_distance full xid \<and> xid_distance full xid < 2 ^ 31 \<longrightarrow>
              unat (full + of_nat (xid_distance full xid)) = unat full + xid_distance full xid
              \<and> (ucast (full + of_nat (xid_distance full xid)) :: u32) = xid_candidate xid)"
proof -
  define d where "d = xid_distance full xid"
  define n o' e where "n = unat (xid_candidate xid)" and "o' = unat (ucast full :: u32)"
    and "e = unat (drop_bit 32 full)"
  have o': "o' = unat full mod 2 ^ 32" and e: "e = unat full div 2 ^ 32"
    by (simp_all add: o'_def e_def unsigned_ucast_eq take_bit_nat_def unat_drop_bit)
  have full: "unat full = e * 2 ^ 32 + o'" by (simp add: o' e)
  have less: "n < 2 ^ 32" "o' < 2 ^ 32"
    using unsigned_less [of "xid_candidate xid", where 'a = nat] by (simp_all add: n_def o')
  have e1: "e + 1 < 2 ^ 32" using epoch full by simp
  have d: "d = (if o' \<le> n then n - o' else n + 2 ^ 32 - o')"
    by (simp add: d_def xid_distance_def unat_sub_u32 n_def o'_def)
  have sint: "0 < sint (xid_candidate xid - ucast full) \<longleftrightarrow> 0 < d \<and> d < 2 ^ 31"
    by (simp only: sint_pos_iff d_def xid_distance_def)
  let ?e = "if xid_candidate xid < ucast full then drop_bit 32 full + 1 else drop_bit 32 full"
  have "unat (drop_bit 32 full + 1) = e + 1"
    using e1 by (simp add: e_def unat_word_ariths)
  then have ue: "unat ?e = (if n < o' then e + 1 else e)"
    by (simp add: word_less_nat_alt n_def o'_def e_def)
  then have nxt: "unat (push_bit 32 ?e OR ucast (xid_candidate xid) :: u64) = unat full + d"
    using e1 less unat_push_or [of ?e "xid_candidate xid"]
    by (simp add: full d n_def [symmetric])
  have sum: "unat (full + of_nat d) = unat full + d" if "d < 2 ^ 31"
    using that epoch by (simp add: unat_word_ariths unat_of_nat)
  then have eq: "push_bit 32 ?e OR ucast (xid_candidate xid) = full + of_nat d" if "d < 2 ^ 31"
    using nxt that by (simp add: word_unat_eq_iff)
  have low: "(ucast (full + of_nat d) :: u32) = xid_candidate xid" if "d < 2 ^ 31"
    using that sum less by (simp add: word_unat_eq_iff unsigned_ucast_eq take_bit_nat_def
        n_def [symmetric] full d split: if_splits)
  show ?thesis
    using sint sum eq low unfolding d_def [symmetric]
    by (auto simp: update_next_xid_def xid_candidate_def [symmetric] Let_def word_unat_eq_iff)
qed

theorem update_next_xid_advances_witness:
  "update_next_xid 0x1FFFFFF00 0xFFFFFFFE = (True, 0x200000000)"
proof -
  have "xid_distance 0x1FFFFFF00 0xFFFFFFFE = 0x100" by code_simp
  moreover have "unat (0x1FFFFFF00 :: u64) = 0x1FFFFFF00" by simp
  ultimately show ?thesis using update_next_xid_advances [of "0x1FFFFFF00" "0xFFFFFFFE"] by simp
qed

text \<open>
  C29: a segment number is recovered from the file names of the segment, complete and
  partial, and each name is recognised as what it is: for every segment size up to 4 GiB
  and every segment below the end of the name space.
\<close>

theorem segment_name_roundtrip:
  assumes "0 < sz" and "unat sz \<le> 2 ^ 32"
      and "unat segno < 2 ^ 32 * unat (XLogSegmentsPerXLogId sz)"
  shows "XLogFromFileName (fst (wal_file_paths segno sz)) sz = Inr (segno, PG_TLI)
         \<and> XLogFromFileName (snd (wal_file_paths segno sz)) sz = Inr (segno, PG_TLI)
         \<and> IsXLogFileName (fst (wal_file_paths segno sz))
         \<and> IsPartialXLogFileName (snd (wal_file_paths segno sz))"
  using XLogFromFileName_append [OF assms, of PG_TLI "[]"]
    XLogFromFileName_append [OF assms, of PG_TLI partial_suffix] XLogFileName_is [OF assms]
  by (simp add: wal_file_paths_def Let_def)

theorem segment_name_roundtrip_witness:
  "wal_file_paths 0x1FF 16777216 = (''0000000100000001000000FF'', ''0000000100000001000000FF.partial'')
   \<and> XLogFromFileName (fst (wal_file_paths 0x1FF 16777216)) 16777216 = Inr (0x1FF, PG_TLI)"
proof -
  have "unat (XLogSegmentsPerXLogId 16777216) = 256" by code_simp
  then have "XLogFromFileName (fst (wal_file_paths 0x1FF 16777216)) 16777216 = Inr (0x1FF, PG_TLI)"
    using segment_name_roundtrip [of 16777216 "0x1FF"] by simp
  moreover have "wal_file_paths 0x1FF 16777216
      = (''0000000100000001000000FF'', ''0000000100000001000000FF.partial'')" by code_simp
  ultimately show ?thesis by simp
qed

text \<open>The position written into a page header is the one read back, and nothing else of the page changes.\<close>

lemma page_lsn_roundtrip:
  assumes "8 \<le> length pg"
  shows "\<exists>pg'. page_set_lsn pg l = Some pg' \<and> page_get_lsn pg' = Some l
           \<and> length pg' = length pg \<and> drop 8 pg' = drop 8 pg"
proof -
  have "push_bit 32 (ucast (ucast (drop_bit 32 l) :: u32)) OR ucast (ucast l :: u32) = l"
    by (rule bit_word_eqI) (auto simp: bit_simps)
  then show ?thesis using assms by (simp add: page_set_lsn_def page_get_lsn_def)
qed

end
