(* ===== verification/Waldecoder.thy ===== *)
theory Waldecoder
  imports Xlog_Utils Pg_Version
begin

text \<open>
  The WAL stream decoder (libs/postgres_ffi/src/waldecoder_handler.rs and the module
  waldecoder of lib.rs): a state machine that finds the record boundaries in a stream of
  WAL pages and reassembles records that cross pages. Bytes are fed in pieces; polling
  returns the next record, asks for more input, or fails.
\<close>

unbundle bit_operations_syntax

section \<open>State\<close>

datatype wd_state =
    WaitingForRecord
  | ReassemblingRecord bytes u32 \<comment> \<open>recordbuf and contlen, which is not zero\<close>
  | SkippingEverything lsn

record wal_stream_decoder =
  wd_lsn :: lsn
  wd_pg_version :: pg_major_version
  wd_inputbuf :: bytes
  wd_state :: wd_state

datatype wd_msg =
    LongHeaderDes | HeaderDes | BadPageMagic u16 | BadPageAddr u64 | UnexpectedContrecord
  | UnexpectedRemLen u32 | MissingContrecord | WrongRemLen u32 | InvalidTotLen u32
  | RecordDes | CrcMismatch | WdPanic

type_synonym wd_error = "wd_msg \<times> lsn"
type_synonym decoder = wal_stream_decoder

definition decoder_new :: "lsn \<Rightarrow> pg_major_version \<Rightarrow> decoder" where
  "decoder_new l v =
     \<lparr>wd_lsn = l, wd_pg_version = v, wd_inputbuf = [], wd_state = WaitingForRecord\<rparr>"

text \<open>The addition panics on overflow: \<open>None\<close>.\<close>

definition available :: "decoder \<Rightarrow> lsn option" where
  "available d = lsn_add (wd_lsn d) (of_nat (length (wd_inputbuf d)))"

definition feed_bytes :: "bytes \<Rightarrow> decoder \<Rightarrow> decoder" where
  "feed_bytes buf d = d\<lparr>wd_inputbuf := wd_inputbuf d @ buf\<rparr>"

section \<open>Page headers\<close>

definition validate_page_header :: "pg_bindings \<Rightarrow> decoder \<Rightarrow> xlog_page_header \<Rightarrow> wd_msg option" where
  "validate_page_header pg d hdr =
     (if xlp_magic hdr \<noteq> XLOG_PAGE_MAGIC pg then Some (BadPageMagic (xlp_magic hdr))
      else if xlp_pageaddr hdr \<noteq> wd_lsn d then Some (BadPageAddr (xlp_pageaddr hdr))
      else (case wd_state d of
          WaitingForRecord \<Rightarrow>
            if xlp_info hdr AND XLP_FIRST_IS_CONTRECORD \<noteq> 0 then Some UnexpectedContrecord
            else if xlp_rem_len hdr \<noteq> 0 then Some (UnexpectedRemLen (xlp_rem_len hdr))
            else None
        | ReassemblingRecord recordbuf contlen \<Rightarrow>
            if xlp_info hdr AND XLP_FIRST_IS_CONTRECORD = 0 then Some MissingContrecord
            else if xlp_rem_len hdr \<noteq> contlen then Some (WrongRemLen (xlp_rem_len hdr))
            else None
        | SkippingEverything skip_until_lsn \<Rightarrow> Some WdPanic))"

datatype wd_step =
    StContinue
  | StNeedMore
  | StComplete lsn bytes
  | StFail wd_error

text \<open>Consuming \<open>n\<close> bytes of input; the position panics on overflow.\<close>

definition consume :: "nat \<Rightarrow> decoder \<Rightarrow> decoder option" where
  "consume n d = map_option (\<lambda>l. d\<lparr>wd_lsn := l, wd_inputbuf := drop n (wd_inputbuf d)\<rparr>)
     (lsn_add (wd_lsn d) (of_nat n))"

text \<open>
  One header: too little input, or its bytes are taken and the header is checked; the
  position moves only behind a valid one.
\<close>

definition read_header ::
  "pg_bindings \<Rightarrow> nat \<Rightarrow> (bytes \<Rightarrow> xlog_page_header option) \<Rightarrow> wd_msg \<Rightarrow> decoder \<Rightarrow> wd_step \<times> decoder" where
  "read_header pg sz des des_err d =
     (if length (wd_inputbuf d) < sz then (StNeedMore, d)
      else
        (let d1 = d\<lparr>wd_inputbuf := drop sz (wd_inputbuf d)\<rparr>
         in case des (take sz (wd_inputbuf d)) of
              None \<Rightarrow> (StFail (des_err, wd_lsn d), d1)
            | Some hdr \<Rightarrow>
                (case validate_page_header pg d hdr of
                   Some msg \<Rightarrow> (StFail (msg, wd_lsn d), d1)
                 | None \<Rightarrow>
                     (case consume sz d of
                        None \<Rightarrow> (StFail (WdPanic, wd_lsn d), d1)
                      | Some d2 \<Rightarrow> (StContinue, d2)))))"

definition page_boundary :: "pg_bindings \<Rightarrow> decoder \<Rightarrow> wd_step \<times> decoder" where
  "page_boundary pg d =
     (case wd_state d of
        SkippingEverything skip_until_lsn \<Rightarrow> (StContinue, d)
      | _ \<Rightarrow>
          if segment_offset (wd_lsn d) WAL_SEGMENT_SIZE = 0 then
            read_header pg (XLOG_SIZE_OF_XLOG_LONG_PHD pg)
              (\<lambda>b. map_option xlp_std (long_phd_des pg b)) LongHeaderDes d
          else if block_offset (wd_lsn d) = 0 then
            read_header pg (XLOG_SIZE_OF_XLOG_SHORT_PHD pg) (short_phd_des pg) HeaderDes d
          else (StContinue, d))"

section \<open>Records\<close>

definition complete_record :: "pg_bindings \<Rightarrow> bytes \<Rightarrow> decoder \<Rightarrow> wd_step \<times> decoder" where
  "complete_record pg recordbuf d =
     (if length recordbuf < XLOG_SIZE_OF_XLOG_RECORD pg then (StFail (WdPanic, wd_lsn d), d)
      else case xlog_record_des pg (take (XLOG_SIZE_OF_XLOG_RECORD pg) recordbuf) of
        None \<Rightarrow> (StFail (RecordDes, wd_lsn d), d)
      | Some xlogrec \<Rightarrow>
          if length recordbuf < XLOG_RECORD_CRC_OFFS + 4 then (StFail (WdPanic, wd_lsn d), d)
          else
            (let crc1 = crc32c_append pg 0 (drop (XLOG_RECORD_CRC_OFFS + 4) recordbuf);
                 crc2 = crc32c_append pg crc1 (take XLOG_RECORD_CRC_OFFS recordbuf)
             in if crc2 \<noteq> xl_crc xlogrec then (StFail (CrcMismatch, wd_lsn d), d)
                else
                  (case (if is_xlog_switch_record xlogrec
                         then lsn_add (wd_lsn d) (calc_padding (wd_lsn d) WAL_SEGMENT_SIZE)
                         else Some (align (wd_lsn d))) of
                     None \<Rightarrow> (StFail (WdPanic, wd_lsn d), d)
                   | Some next_lsn \<Rightarrow>
                       (StComplete next_lsn recordbuf,
                        d\<lparr>wd_state := SkippingEverything next_lsn\<rparr>))))"

definition page_contents :: "pg_bindings \<Rightarrow> decoder \<Rightarrow> wd_step \<times> decoder" where
  "page_contents pg d =
     (case wd_state d of
        WaitingForRecord \<Rightarrow>
          if length (wd_inputbuf d) < 4 then (StNeedMore, d)
          else
            (let xl_tot_len = of_le (take 4 (wd_inputbuf d)) :: u32
             in if unat xl_tot_len < XLOG_SIZE_OF_XLOG_RECORD pg
                then (StFail (InvalidTotLen xl_tot_len, wd_lsn d), d)
                else if unat xl_tot_len \<le> length (wd_inputbuf d)
                  \<and> unat xl_tot_len \<le> unat (remaining_in_block (wd_lsn d)) then
                  (case consume (unat xl_tot_len) d of
                     None \<Rightarrow> (StFail (WdPanic, wd_lsn d), d)
                   | Some d1 \<Rightarrow>
                       complete_record pg (take (unat xl_tot_len) (wd_inputbuf d)) d1)
                else if xl_tot_len = 0 then (StFail (WdPanic, wd_lsn d), d)
                else (StContinue, d\<lparr>wd_state := ReassemblingRecord [] xl_tot_len\<rparr>))
      | ReassemblingRecord recordbuf contlen \<Rightarrow>
          (let n = min (unat contlen) (unat (remaining_in_block (wd_lsn d)))
           in if length (wd_inputbuf d) < n then (StNeedMore, d)
              else case consume n d of
                None \<Rightarrow> (StFail (WdPanic, wd_lsn d), d)
              | Some d1 \<Rightarrow>
                  (let recordbuf' = recordbuf @ take n (wd_inputbuf d)
                   in if unat contlen - n = 0
                      then complete_record pg recordbuf'
                             (d1\<lparr>wd_state := ReassemblingRecord [] contlen\<rparr>)
                      else (StContinue, d1\<lparr>wd_state :=
                              ReassemblingRecord recordbuf' (contlen - of_nat n)\<rparr>)))
      | SkippingEverything skip_until_lsn \<Rightarrow>
          if skip_until_lsn < wd_lsn d then (StFail (WdPanic, wd_lsn d), d)
          else
            (let n = unat (skip_until_lsn - wd_lsn d)
             in if length (wd_inputbuf d) < n then (StNeedMore, d)
                else (case consume n d of
                    None \<Rightarrow> (StFail (WdPanic, wd_lsn d), d)
                  | Some d1 \<Rightarrow> (StContinue, d1\<lparr>wd_state := WaitingForRecord\<rparr>))))"

text \<open>One round of the loop of poll_decode_internal.\<close>

definition decode_step :: "pg_bindings \<Rightarrow> decoder \<Rightarrow> wd_step \<times> decoder" where
  "decode_step pg d =
     (case page_boundary pg d of
        (StContinue, d1) \<Rightarrow> page_contents pg d1
      | r \<Rightarrow> r)"

section \<open>Progress\<close>

fun wd_rank :: "wd_state \<Rightarrow> nat" where
  "wd_rank (ReassemblingRecord b c) = 0"
| "wd_rank WaitingForRecord = 1"
| "wd_rank (SkippingEverything l) = 2"

lemma consume_Some:
  "consume n d = Some d' \<Longrightarrow>
     d' = d\<lparr>wd_lsn := wd_lsn d + of_nat n, wd_inputbuf := drop n (wd_inputbuf d)\<rparr>"
  by (auto simp: consume_def lsn_add_def checked_add_Some)

lemma remaining_pos: "0 < unat (remaining_in_block l)"
  using remaining_in_block_bounds [of l] by (simp add: word_less_nat_alt)

lemma read_header_continue:
  "read_header pg n des e d = (StContinue, d') \<Longrightarrow>
     wd_state d' = wd_state d \<and> wd_pg_version d' = wd_pg_version d
     \<and> wd_inputbuf d' = drop n (wd_inputbuf d) \<and> n \<le> length (wd_inputbuf d)
     \<and> consume n d = Some d'"
  by (auto simp: read_header_def Let_def dest: consume_Some split: if_splits option.splits)

lemma page_boundary_continue:
  "page_boundary pg d = (StContinue, d') \<Longrightarrow>
     wd_state d' = wd_state d \<and> wd_pg_version d' = wd_pg_version d
     \<and> length (wd_inputbuf d') \<le> length (wd_inputbuf d)"
  by (auto simp: page_boundary_def split: wd_state.splits if_splits dest: read_header_continue)

lemma complete_not_continue: "complete_record pg b d \<noteq> (StContinue, d')"
  by (auto simp: complete_record_def Let_def split: if_splits option.splits)

lemma page_contents_continue:
  assumes "page_contents pg d = (StContinue, d')"
  shows "wd_pg_version d' = wd_pg_version d \<and>
     (length (wd_inputbuf d') < length (wd_inputbuf d)
      \<or> length (wd_inputbuf d') = length (wd_inputbuf d)
        \<and> wd_rank (wd_state d') < wd_rank (wd_state d))"
proof (cases "wd_state d")
  case (ReassemblingRecord recordbuf contlen)
  then show ?thesis
    using assms remaining_pos [of "wd_lsn d"]
    by (auto simp: page_contents_def Let_def complete_not_continue min_def dest!: consume_Some
        split: if_splits option.splits)
qed (use assms in \<open>auto simp: page_contents_def Let_def complete_not_continue dest!: consume_Some
        split: if_splits option.splits\<close>)

lemma decode_step_continue:
  assumes "decode_step pg d = (StContinue, d')"
  shows "wd_pg_version d' = wd_pg_version d \<and>
     (length (wd_inputbuf d') < length (wd_inputbuf d)
      \<or> length (wd_inputbuf d') = length (wd_inputbuf d)
        \<and> wd_rank (wd_state d') < wd_rank (wd_state d))"
  using assms by (fastforce simp: decode_step_def split: prod.splits wd_step.splits
      dest: page_boundary_continue page_contents_continue)

section \<open>Polling\<close>

text \<open>
  The loop ends: every round consumes input or moves on from skipping to waiting to
  reassembling. \<open>pgs\<close> are the bindings of each major version.
\<close>

function poll_decode ::
  "(pg_major_version \<Rightarrow> pg_bindings) \<Rightarrow> decoder \<Rightarrow> (wd_error + (lsn \<times> bytes) option) \<times> decoder" where
  "poll_decode pgs d =
     (case decode_step (pgs (wd_pg_version d)) d of
        (StContinue, d') \<Rightarrow> poll_decode pgs d'
      | (StNeedMore, d') \<Rightarrow> (Inr None, d')
      | (StComplete l r, d') \<Rightarrow> (Inr (Some (l, r)), d')
      | (StFail e, d') \<Rightarrow> (Inl e, d'))"
  by pat_completeness auto

termination
  by (relation "measures [\<lambda>(pgs, d). length (wd_inputbuf d), \<lambda>(pgs, d). wd_rank (wd_state d)]")
     (auto dest: decode_step_continue [OF sym])

declare poll_decode.simps [simp del]

text \<open>
  \<open>while let Some((lsn, rec)) = decoder.poll_decode()?\<close> with the body \<open>f\<close>. A round that
  takes a record from no input would repeat forever; \<open>DrainStuck\<close> marks it.
\<close>

datatype drain_end = Drained | DrainFail wd_error | DrainStuck

function drain ::
  "(pg_major_version \<Rightarrow> pg_bindings) \<Rightarrow> (lsn \<Rightarrow> bytes \<Rightarrow> 's \<Rightarrow> 's) \<Rightarrow> decoder \<Rightarrow> 's
     \<Rightarrow> drain_end \<times> decoder \<times> 's" where
  "drain pgs f d s =
     (case poll_decode pgs d of
        (Inl e, d') \<Rightarrow> (DrainFail e, d', s)
      | (Inr None, d') \<Rightarrow> (Drained, d', s)
      | (Inr (Some (l, r)), d') \<Rightarrow>
          if length (wd_inputbuf d') < length (wd_inputbuf d) then drain pgs f d' (f l r s)
          else (DrainStuck, d', f l r s))"
  by pat_completeness auto

termination
  by (relation "measure (\<lambda>(pgs, f, d, s). length (wd_inputbuf d))") auto

declare drain.simps [simp del]

section \<open>Positions\<close>

text \<open>
  \<open>wd_floor\<close> is the position no later record can end at or below, \<open>wd_pos\<close> the position
  behind the input. All positions are kept away from the end of the 64-bit range.
\<close>

definition wd_floor :: "decoder \<Rightarrow> lsn" where
  "wd_floor d = (case wd_state d of SkippingEverything l \<Rightarrow> l | _ \<Rightarrow> wd_lsn d)"

definition wd_pos :: "decoder \<Rightarrow> nat" where
  "wd_pos d = unat (wd_lsn d) + length (wd_inputbuf d)"

definition LSN_LIMIT :: nat where
  "LSN_LIMIT = 2 ^ 64 - 8"

text \<open>The end of the segment a position is in, or the position if it starts one.\<close>

definition seg_up :: "nat \<Rightarrow> nat" where
  "seg_up n = (n + 16777215) div 16777216 * 16777216"

definition wd_ok :: "decoder \<Rightarrow> bool" where
  "wd_ok d \<longleftrightarrow> wd_pos d \<le> LSN_LIMIT \<and>
     (case wd_state d of
        WaitingForRecord \<Rightarrow> True
      | ReassemblingRecord recordbuf contlen \<Rightarrow> contlen \<noteq> 0
      | SkippingEverything l \<Rightarrow> wd_lsn d \<le> l)"

definition step_ok :: "decoder \<Rightarrow> wd_step \<Rightarrow> decoder \<Rightarrow> bool" where
  "step_ok d r d' \<longleftrightarrow>
     wd_ok d' \<and> wd_floor d \<le> wd_floor d' \<and> wd_pos d' \<le> wd_pos d
     \<and> wd_pg_version d' = wd_pg_version d
     \<and> length (wd_inputbuf d') \<le> length (wd_inputbuf d)
     \<and> (case r of
          StComplete l b \<Rightarrow> wd_pos d' = wd_pos d \<and> wd_floor d < l \<and> wd_floor d' = l
            \<and> unat l \<le> seg_up (wd_pos d)
            \<and> length (wd_inputbuf d') < length (wd_inputbuf d)
        | StFail e \<Rightarrow> wd_pos d' = wd_pos d \<or> unat (wd_floor d') \<le> wd_pos d
        | _ \<Rightarrow> wd_pos d' = wd_pos d)"

lemma consume_ok:
  assumes "n \<le> length (wd_inputbuf d)" and "wd_pos d \<le> LSN_LIMIT"
  obtains d' where "consume n d = Some d'"
    and "d' = d\<lparr>wd_lsn := wd_lsn d + of_nat n, wd_inputbuf := drop n (wd_inputbuf d)\<rparr>"
    and "unat (wd_lsn d') = unat (wd_lsn d) + n" and "wd_pos d' = wd_pos d"
    and "wd_lsn d \<le> wd_lsn d'"
proof -
  have sum: "unat (wd_lsn d) + n < 2 ^ 64"
    using assms by (simp add: wd_pos_def LSN_LIMIT_def)
  then have n: "unat (of_nat n :: u64) = n" by (simp add: unat_of_nat)
  have u: "unat (wd_lsn d + of_nat n) = unat (wd_lsn d) + n"
    using sum n by (simp add: unat_word_ariths)
  have "lsn_add (wd_lsn d) (of_nat n) = Some (wd_lsn d + of_nat n)"
    using sum n by (simp add: lsn_add_def checked_add_def)
  then show thesis
    using that assms(1) u by (simp add: consume_def wd_pos_def word_le_nat_alt)
qed

lemma read_header_ok:
  assumes "wd_ok d" and "read_header pg n des e d = (r, d')"
      and "\<forall>l. wd_state d \<noteq> SkippingEverything l"
  shows "step_ok d r d'"
proof (cases "length (wd_inputbuf d) < n")
  case True
  then show ?thesis using assms by (auto simp: read_header_def step_ok_def)
next
  case False
  then obtain d2 where d2: "consume n d = Some d2"
      "d2 = d\<lparr>wd_lsn := wd_lsn d + of_nat n, wd_inputbuf := drop n (wd_inputbuf d)\<rparr>"
      "wd_pos d2 = wd_pos d" "wd_lsn d \<le> wd_lsn d2"
    using consume_ok [of n d] assms(1) by (auto simp: wd_ok_def)
  have d2_ok: "step_ok d StContinue d2"
    using d2 assms(1,3) by (auto simp: step_ok_def wd_ok_def wd_floor_def split: wd_state.splits)
  have "step_ok d (StFail x) (d\<lparr>wd_inputbuf := drop n (wd_inputbuf d)\<rparr>)" for x
    using assms(1,3) by (auto simp: step_ok_def wd_ok_def wd_floor_def wd_pos_def
        split: wd_state.splits)
  then show ?thesis
    using assms(2) False d2(1) d2_ok
    by (auto simp: read_header_def Let_def split: option.splits)
qed

lemma step_ok_refl: "wd_ok d \<Longrightarrow> step_ok d StContinue d"
  by (simp add: step_ok_def)

lemma page_boundary_ok:
  assumes "wd_ok d" and "page_boundary pg d = (r, d')"
  shows "step_ok d r d' \<and> (\<forall>l b. r \<noteq> StComplete l b)"
proof -
  have "read_header pg n des e d \<noteq> (StComplete l b, d')" for n des e l b
    by (auto simp: read_header_def Let_def split: if_splits option.splits)
  then show ?thesis
    using assms step_ok_refl [OF assms(1)] read_header_ok [OF assms(1)]
    by (auto simp: page_boundary_def split: wd_state.splits if_splits)
qed

text \<open>\<open>advanced d d1\<close>: a part of a record has been taken from the input of \<open>d\<close>.\<close>

definition advanced :: "decoder \<Rightarrow> decoder \<Rightarrow> bool" where
  "advanced d d1 \<longleftrightarrow>
     wd_ok d1 \<and> wd_floor d = wd_lsn d \<and> wd_lsn d < wd_lsn d1 \<and> wd_floor d1 = wd_lsn d1
     \<and> wd_pos d1 = wd_pos d \<and> wd_pg_version d1 = wd_pg_version d
     \<and> length (wd_inputbuf d1) < length (wd_inputbuf d)"

lemma advancedI:
  assumes "wd_ok d" and "0 < n" and "n \<le> length (wd_inputbuf d)"
      and "\<forall>l. wd_state d \<noteq> SkippingEverything l" and "consume n d = Some d1"
  shows "advanced d d1"
proof -
  have "wd_pos d \<le> LSN_LIMIT" using assms(1) by (simp add: wd_ok_def)
  from consume_ok [OF assms(3) this] obtain d' where "consume n d = Some d'"
    "d' = d\<lparr>wd_lsn := wd_lsn d + of_nat n, wd_inputbuf := drop n (wd_inputbuf d)\<rparr>"
    "unat (wd_lsn d') = unat (wd_lsn d) + n" "wd_pos d' = wd_pos d" .
  then show ?thesis
    using assms by (auto simp: advanced_def wd_ok_def wd_floor_def word_less_nat_alt
        split: wd_state.splits)
qed

lemma advanced_state:
  "advanced d d1 \<Longrightarrow> c \<noteq> 0 \<Longrightarrow> advanced d (d1\<lparr>wd_state := ReassemblingRecord b c\<rparr>)"
  by (auto simp: advanced_def wd_ok_def wd_floor_def wd_pos_def)

lemma advanced_step_ok: "advanced d d1 \<Longrightarrow> step_ok d StContinue d1 \<and> step_ok d (StFail e) d1"
  by (auto simp: advanced_def step_ok_def)

lemma seg_up_bounds: "n \<le> seg_up n" "seg_up n < n + 16777216" "16777216 dvd seg_up n"
proof -
  have "(n + 16777215) div 16777216 * 16777216 + (n + 16777215) mod 16777216 = n + 16777215"
    by (rule div_mult_mod_eq)
  moreover have "(n + 16777215) mod 16777216 < 16777216" by simp
  ultimately show "n \<le> seg_up n" "seg_up n < n + 16777216" unfolding seg_up_def by linarith+
  show "16777216 dvd seg_up n" by (simp add: seg_up_def)
qed

lemma seg_up_mono: "m \<le> n \<Longrightarrow> seg_up m \<le> seg_up n"
  by (simp add: seg_up_def div_le_mono)

lemma seg_up_least: "16777216 dvd k \<Longrightarrow> n \<le> k \<Longrightarrow> seg_up n \<le> k"
proof -
  assume "16777216 dvd k" "n \<le> k"
  then obtain q where k: "k = 16777216 * q" by (auto elim: dvdE)
  have "(n + 16777215) div 16777216 \<le> (16777216 * q + 16777215) div 16777216"
    using \<open>n \<le> k\<close> k by (intro div_le_mono) simp
  then show ?thesis by (simp add: seg_up_def k)
qed

lemma align_le_seg_up:
  assumes "unat l + 7 < 2 ^ 64"
  shows "unat (align l) \<le> seg_up (unat l)"
proof -
  have "8 dvd seg_up (unat l)" using seg_up_bounds(3) by (rule dvd_trans [rotated]) simp
  then obtain q where q: "seg_up (unat l) = 8 * q" by (auto elim: dvdE)
  have "(unat l + 7) div 8 \<le> (8 * q + 7) div 8"
    using seg_up_bounds(1) [of "unat l"] q by (intro div_le_mono) simp
  then show ?thesis by (simp add: unat_align [OF assms] q)
qed

lemma padding_le_seg_up:
  assumes "lsn_add l (calc_padding l WAL_SEGMENT_SIZE) = Some k"
  shows "unat k \<le> seg_up (unat l)"
proof -
  have sz: "unat WAL_SEGMENT_SIZE = 2 ^ 24" by (simp add: WAL_SEGMENT_SIZE_def)
  have k: "unat k = unat l + unat (calc_padding l WAL_SEGMENT_SIZE)"
    using assms by (auto simp: lsn_add_def checked_add_Some)
  obtain p q where pq: "unat k = 16777216 * p" "seg_up (unat l) = 16777216 * q"
    using calc_padding_aligns [OF sz, of l] seg_up_bounds(3) [of "unat l"] k sz
    by (auto elim!: dvdE)
  have "unat k < unat l + 16777216"
    using calc_padding_aligns [OF sz, of l] k sz by simp
  then have "unat k < seg_up (unat l) + 16777216"
    using seg_up_bounds(1) [of "unat l"] by linarith
  then have "16777216 * p < 16777216 * (q + 1)" unfolding pq by simp
  then have "p < q + 1" using mult_less_cancel1 [of 16777216 p "q + 1"] by blast
  then show ?thesis by (simp add: pq)
qed

lemma complete_record_ok:
  assumes adv: "advanced d d1" and "complete_record pg b d1 = (r, d')"
  shows "step_ok d r d'"
proof -
  have pos: "unat (wd_lsn d1) \<le> wd_pos d" using adv by (simp add: advanced_def wd_pos_def)
  have limit: "unat (wd_lsn d1) + 7 < 2 ^ 64"
    using adv by (auto simp: advanced_def wd_ok_def wd_pos_def LSN_LIMIT_def)
  have "step_ok d (StComplete l b) (d1\<lparr>wd_state := SkippingEverything l\<rparr>)"
    if "wd_lsn d1 \<le> l" "unat l \<le> seg_up (unat (wd_lsn d1))" for l
    using adv that order_trans [OF that(2) seg_up_mono [OF pos]]
    by (auto simp: step_ok_def advanced_def wd_ok_def wd_floor_def wd_pos_def
        dest: order_less_le_trans)
  moreover have "wd_lsn d1 \<le> align (wd_lsn d1)" using limit by (rule align_ge)
  moreover have "wd_lsn d1 \<le> l" if "lsn_add (wd_lsn d1) p = Some l" for p l
    using that by (auto simp: lsn_add_def dest: checked_add_ge)
  moreover note align_le_seg_up [OF limit] padding_le_seg_up
  ultimately show ?thesis
    using assms(2) advanced_step_ok [OF adv]
    by (auto simp: complete_record_def Let_def split: if_splits option.splits)
qed

lemma page_contents_ok:
  assumes ok: "wd_ok d" and size: "0 < XLOG_SIZE_OF_XLOG_RECORD pg"
      and step: "page_contents pg d = (r, d')"
  shows "step_ok d r d'"
proof -
  have same: "step_ok d StNeedMore d" "step_ok d (StFail e) d" for e
    using ok by (auto simp: step_ok_def)
  show ?thesis
  proof (cases "wd_state d")
    case WaitingForRecord
    have reas: "step_ok d StContinue (d\<lparr>wd_state := ReassemblingRecord [] c\<rparr>)" if "c \<noteq> 0" for c
      using ok WaitingForRecord that by (auto simp: step_ok_def wd_ok_def wd_floor_def wd_pos_def)
    show ?thesis
      using step same reas complete_record_ok size WaitingForRecord
        advancedI [OF ok, of "unat (of_le (take 4 (wd_inputbuf d)) :: u32)"]
      by (auto simp: page_contents_def Let_def split: if_splits option.splits)
  next
    case (ReassemblingRecord recordbuf contlen)
    define n where "n = min (unat contlen) (unat (remaining_in_block (wd_lsn d)))"
    have c: "contlen \<noteq> 0" using ok ReassemblingRecord by (simp add: wd_ok_def)
    then have n: "0 < n" using remaining_pos by (simp add: unat_gt_0 n_def)
    have "n \<le> unat contlen" by (simp add: n_def)
    then have n32: "n < 2 ^ 32" using unsigned_less [of contlen, where 'a = nat] by simp
    have rest: "contlen - of_nat n \<noteq> 0" if "unat contlen - n \<noteq> 0"
      using that n32 by (auto simp: unat_of_nat)
    have full: "complete_record pg b (d1\<lparr>wd_state := ReassemblingRecord [] contlen\<rparr>) = (r, d')
        \<Longrightarrow> advanced d d1 \<Longrightarrow> step_ok d r d'" for b d1
      by (rule complete_record_ok [OF advanced_state [OF _ c]])
    have part: "step_ok d StContinue (d1\<lparr>wd_state := ReassemblingRecord b (contlen - of_nat n)\<rparr>)"
      if "advanced d d1" "unat contlen - n \<noteq> 0" for b d1
      using advanced_step_ok [OF advanced_state [OF that(1) rest [OF that(2)]]] by simp
    have "(if length (wd_inputbuf d) < n then (StNeedMore, d)
           else case consume n d of
                None \<Rightarrow> (StFail (WdPanic, wd_lsn d), d)
              | Some d1 \<Rightarrow>
                  if unat contlen - n = 0
                  then complete_record pg (recordbuf @ take n (wd_inputbuf d))
                         (d1\<lparr>wd_state := ReassemblingRecord [] contlen\<rparr>)
                  else (StContinue, d1\<lparr>wd_state := ReassemblingRecord
                          (recordbuf @ take n (wd_inputbuf d)) (contlen - of_nat n)\<rparr>)) = (r, d')"
      using step ReassemblingRecord unfolding page_contents_def n_def
      by (simp only: wd_state.case Let_def)
    then show ?thesis
      using same(1) same(2) ReassemblingRecord advancedI [OF ok n]
      by (auto split: if_splits option.splits intro: full part)
  next
    case (SkippingEverything l)
    then have l: "wd_lsn d \<le> l" using ok by (simp add: wd_ok_def)
    have "step_ok d StContinue (d1\<lparr>wd_state := WaitingForRecord\<rparr>)"
      if "unat (l - wd_lsn d) \<le> length (wd_inputbuf d)" "consume (unat (l - wd_lsn d)) d = Some d1"
      for d1
    proof -
      have "wd_pos d \<le> LSN_LIMIT" using ok by (simp add: wd_ok_def)
      from consume_ok [OF that(1) this] obtain d' where d': "consume (unat (l - wd_lsn d)) d = Some d'"
        "d' = d\<lparr>wd_lsn := wd_lsn d + of_nat (unat (l - wd_lsn d)),
                wd_inputbuf := drop (unat (l - wd_lsn d)) (wd_inputbuf d)\<rparr>"
        "wd_pos d' = wd_pos d" .
      then have "wd_lsn d' = l" by simp
      then show ?thesis
        using that(2) d' ok SkippingEverything
        by (auto simp: step_ok_def wd_ok_def wd_floor_def wd_pos_def)
    qed
    then show ?thesis
      using step same SkippingEverything l
      by (auto simp: page_contents_def Let_def split: if_splits option.splits)
  qed
qed

lemma step_ok_trans: "step_ok d StContinue d1 \<Longrightarrow> step_ok d1 r d' \<Longrightarrow> step_ok d r d'"
  by (auto simp: step_ok_def split: wd_step.splits)

lemma decode_step_ok:
  assumes "wd_ok d" and "0 < XLOG_SIZE_OF_XLOG_RECORD pg" and "decode_step pg d = (r, d')"
  shows "step_ok d r d'"
proof -
  obtain q d1 where q: "page_boundary pg d = (q, d1)" by force
  from page_boundary_ok [OF assms(1) q] have ok: "step_ok d q d1" by blast
  show ?thesis
  proof (cases "q = StContinue")
    case True
    have "wd_ok d1" using ok by (simp add: step_ok_def)
    moreover have "page_contents pg d1 = (r, d')" using assms(3) q True by (simp add: decode_step_def)
    ultimately have "step_ok d1 r d'" using assms(2) by (blast intro: page_contents_ok)
    then show ?thesis using ok True step_ok_trans by blast
  next
    case False
    then show ?thesis using ok q assms(3) by (auto simp: decode_step_def split: wd_step.splits)
  qed
qed

text \<open>The outcome of a poll as that of a step.\<close>

fun poll_step :: "wd_error + (lsn \<times> bytes) option \<Rightarrow> wd_step" where
  "poll_step (Inl e) = StFail e"
| "poll_step (Inr None) = StNeedMore"
| "poll_step (Inr (Some (l, b))) = StComplete l b"

lemma poll_decode_ok:
  assumes "wd_ok d" and "\<And>v. 0 < XLOG_SIZE_OF_XLOG_RECORD (pgs v)"
      and "poll_decode pgs d = (r, d')"
  shows "step_ok d (poll_step r) d'"
  using assms
proof (induction pgs d rule: poll_decode.induct)
  case (1 pgs d)
  obtain q d1 where q: "decode_step (pgs (wd_pg_version d)) d = (q, d1)" by force
  from decode_step_ok [OF 1(2) 1(3) q] have ok: "step_ok d q d1" .
  show ?case
  proof (cases q)
    case StContinue
    have "wd_ok d1" using ok by (simp add: step_ok_def)
    moreover have "poll_decode pgs d1 = (r, d')"
      using 1(4) q StContinue by (simp add: poll_decode.simps [of pgs d])
    ultimately have "step_ok d1 (poll_step r) d'"
      using 1(1) [OF q [symmetric] StContinue] 1(3) by simp
    then show ?thesis using ok StContinue step_ok_trans by blast
  qed (use 1(4) q ok in \<open>auto simp: poll_decode.simps [of pgs d]\<close>)
qed

text \<open>
  Draining: an invariant \<open>I\<close> of the consumer that every record above the last position
  carries over holds at the end, at a position not above the floor of the decoder.
\<close>

lemma drain_ok:
  assumes "wd_ok d" and "\<And>v. 0 < XLOG_SIZE_OF_XLOG_RECORD (pgs v)"
      and "drain pgs f d s = (r, d', s')"
      and "I l s" and "l \<le> wd_floor d"
      and "wd_pos d = n"
      and "\<And>l l' b s. I l s \<Longrightarrow> l < l' \<Longrightarrow> unat l' \<le> seg_up n \<Longrightarrow> I l' (f l' b s)"
  shows "r \<noteq> DrainStuck \<and> wd_ok d' \<and> wd_pos d' \<le> wd_pos d
     \<and> wd_pg_version d' = wd_pg_version d
     \<and> (wd_pos d' = wd_pos d \<or> r \<noteq> Drained \<and> unat (wd_floor d') \<le> wd_pos d)
     \<and> (\<exists>l'. I l' s' \<and> l' \<le> wd_floor d')"
  using assms
proof (induction pgs f d s arbitrary: l rule: drain.induct)
  case (1 pgs f d s)
  obtain q d1 where q: "poll_decode pgs d = (q, d1)" by force
  from poll_decode_ok [OF 1(2) 1(3) q] have ok: "step_ok d (poll_step q) d1" .
  show ?case
  proof (cases "\<exists>k b. q = Inr (Some (k, b))")
    case True
    then obtain k b where k: "q = Inr (Some (k, b))" by blast
    have facts: "length (wd_inputbuf d1) < length (wd_inputbuf d)" "wd_ok d1" "wd_pos d1 = wd_pos d"
      "wd_floor d < k" "wd_floor d1 = k" "wd_pg_version d1 = wd_pg_version d"
      "unat k \<le> seg_up (wd_pos d)"
      using ok k by (auto simp: step_ok_def)
    have rest: "drain pgs f d1 (f k b s) = (r, d', s')"
      using 1(4) q k facts(1) by (simp add: drain.simps [of pgs f d s])
    have "l < k" using 1(6) facts(4) by simp
    then have k': "I k (f k b s)" using 1(5,8) facts(7) 1(7) by blast
    have "wd_pos d1 = n" using facts(3) 1(7) by simp
    from 1(1) [OF q [symmetric] k refl refl facts(1,2) 1(3) rest k' _ this 1(8)] facts
    show ?thesis by simp
  next
    case False
    then show ?thesis
      using 1(4-6) q ok
      by (cases q) (auto simp: drain.simps [of pgs f d s] step_ok_def intro: order_trans
          split: option.splits)
  qed
qed

section \<open>Input in pieces\<close>

text \<open>
  Feeding more bytes commutes with every round that did not run out of input. The sizes of
  the page headers are those of PostgreSQL structures: not empty and below a block.
\<close>

definition headers_ok :: "pg_bindings \<Rightarrow> bool" where
  "headers_ok pg \<longleftrightarrow>
     XLOG_SIZE_OF_XLOG_SHORT_PHD pg \<in> {0 <..< 8192} \<and> XLOG_SIZE_OF_XLOG_LONG_PHD pg \<in> {0 <..< 8192}"

lemma feed_simps [simp]:
  "wd_lsn (feed_bytes b d) = wd_lsn d" "wd_state (feed_bytes b d) = wd_state d"
  "wd_pg_version (feed_bytes b d) = wd_pg_version d"
  "wd_inputbuf (feed_bytes b d) = wd_inputbuf d @ b"
  by (simp_all add: feed_bytes_def)

lemma feed_state: "(feed_bytes b d)\<lparr>wd_state := x\<rparr> = feed_bytes b (d\<lparr>wd_state := x\<rparr>)"
  by (simp add: feed_bytes_def)

lemma feed_feed: "feed_bytes b (feed_bytes a d) = feed_bytes (a @ b) d"
  by (simp add: feed_bytes_def)

lemma consume_feed:
  "n \<le> length (wd_inputbuf d) \<Longrightarrow>
     consume n (feed_bytes b d) = map_option (feed_bytes b) (consume n d)"
  by (auto simp: consume_def feed_bytes_def option.map_comp comp_def intro!: option.map_cong)

lemma validate_feed: "validate_page_header pg (feed_bytes b d) hdr = validate_page_header pg d hdr"
  by (simp add: validate_page_header_def cong: wd_state.case_cong)

lemma read_header_feed:
  "read_header pg n des e d = (StContinue, d') \<Longrightarrow>
     read_header pg n des e (feed_bytes b d) = (StContinue, feed_bytes b d')"
  by (auto simp: read_header_def Let_def validate_feed consume_feed split: if_splits option.splits)

lemma page_boundary_feed:
  "page_boundary pg d = (StContinue, d') \<Longrightarrow>
     page_boundary pg (feed_bytes b d) = (StContinue, feed_bytes b d')"
  by (auto simp: page_boundary_def read_header_feed split: wd_state.splits if_splits)

lemma complete_record_feed:
  "complete_record pg r d = (x, d') \<Longrightarrow>
     complete_record pg r (feed_bytes b d) = (x, feed_bytes b d')"
  by (auto simp: complete_record_def Let_def feed_state split: if_splits option.splits)

text \<open>After a header the position is inside a block.\<close>

lemma block_offset_behind:
  assumes "block_offset l = 0" and "lsn_add l (of_nat n) = Some l'" and "n \<in> {0 <..< 8192}"
  shows "block_offset l' \<noteq> 0"
proof -
  have "unat l mod 8192 = 0"
    using arg_cong [OF assms(1), of unat]
    by (simp add: unat_mod_distrib XLOG_BLCKSZ_def block_offset_def)
  moreover have "unat l' = unat l + n"
    using assms(2,3) by (auto simp: lsn_add_def checked_add_Some unat_of_nat)
  ultimately have n: "unat (block_offset l') = n"
    using assms(3)
    by (simp add: unat_mod_distrib XLOG_BLCKSZ_def block_offset_def mod_add_eq [symmetric])
  show ?thesis
  proof
    assume "block_offset l' = 0"
    from n [unfolded this] show False using assms(3) by simp
  qed
qed

lemma segment_start_block: "segment_offset l WAL_SEGMENT_SIZE = 0 \<Longrightarrow> block_offset l = 0"
proof -
  assume "segment_offset l WAL_SEGMENT_SIZE = 0"
  then have "unat l mod 16777216 = 0"
    by (simp add: segment_offset_def WAL_SEGMENT_SIZE_def word_unat_eq_iff unat_mod_distrib)
  then have "16777216 dvd unat l" by (rule mod_0_imp_dvd)
  moreover have "(8192 :: nat) dvd 16777216" by simp
  ultimately have "8192 dvd unat l" by (rule dvd_trans [rotated])
  then have "unat l mod 8192 = 0" by (rule dvd_imp_mod_0)
  then show ?thesis
    by (simp add: word_unat_eq_iff unat_mod_distrib XLOG_BLCKSZ_def block_offset_def)
qed

lemma page_boundary_inside:
  "block_offset (wd_lsn d) \<noteq> 0 \<Longrightarrow> page_boundary pg d = (StContinue, d)"
  using segment_start_block [of "wd_lsn d"] by (auto simp: page_boundary_def split: wd_state.splits)

lemma page_boundary_inside_after:
  assumes hd: "headers_ok pg" and "page_boundary pg d = (StContinue, d')"
      and "\<forall>l. wd_state d \<noteq> SkippingEverything l"
  shows "block_offset (wd_lsn d') \<noteq> 0"
proof -
  have step: "block_offset (wd_lsn d') \<noteq> 0"
    if "consume n d = Some d'" "n \<in> {0 <..< 8192}" "block_offset (wd_lsn d) = 0" for n
    using that block_offset_behind [of "wd_lsn d" n "wd_lsn d'"] by (auto simp: consume_def)
  show ?thesis
    using assms step segment_start_block [of "wd_lsn d"]
    by (fastforce simp: page_boundary_def headers_ok_def
        split: wd_state.splits if_splits dest: read_header_continue)
qed

lemma page_boundary_idem:
  assumes "headers_ok pg" and "page_boundary pg d = (StContinue, d')"
  shows "page_boundary pg (feed_bytes b d') = (StContinue, feed_bytes b d')"
proof (cases "\<exists>l. wd_state d = SkippingEverything l")
  case True
  then show ?thesis using assms(2) by (auto simp: page_boundary_def)
next
  case False
  then show ?thesis
    using page_boundary_inside_after [OF assms] by (simp add: page_boundary_inside)
qed

text \<open>
  With more input the fast path for a record within a page may be taken where it was not
  before; the next round of the slow path has the same outcome.
\<close>

lemma fast_path_reassemble:
  assumes "wd_state d = WaitingForRecord" and "4 \<le> length (wd_inputbuf d)"
      and "t = (of_le (take 4 (wd_inputbuf d)) :: u32)" and "XLOG_SIZE_OF_XLOG_RECORD pg \<le> unat t"
      and "unat t \<le> length (wd_inputbuf d)" and "unat t \<le> unat (remaining_in_block (wd_lsn d))"
      and "t \<noteq> 0"
  shows "page_contents pg (d\<lparr>wd_state := ReassemblingRecord [] t\<rparr>) =
           (case consume (unat t) d of
              None \<Rightarrow> (StFail (WdPanic, wd_lsn d), d\<lparr>wd_state := ReassemblingRecord [] t\<rparr>)
            | Some d1 \<Rightarrow> complete_record pg (take (unat t) (wd_inputbuf d))
                          (d1\<lparr>wd_state := ReassemblingRecord [] t\<rparr>))"
  using assms by (auto simp: page_contents_def Let_def min_def consume_def split: option.splits)

definition poll_eq ::
  "(wd_error + 'a) \<times> decoder \<Rightarrow> (wd_error + 'a) \<times> decoder \<Rightarrow> bool" where
  "poll_eq p q \<longleftrightarrow> fst p = fst q \<and> (isl (fst p) \<or> snd p = snd q)"

lemma poll_eq_refl [simp]: "poll_eq p p"
  by (simp add: poll_eq_def)

lemma poll_eq_trans: "poll_eq p q \<Longrightarrow> poll_eq q r \<Longrightarrow> poll_eq p r"
  by (auto simp: poll_eq_def)

definition step_eq :: "wd_step \<times> decoder \<Rightarrow> wd_step \<times> decoder \<Rightarrow> bool" where
  "step_eq p q \<longleftrightarrow> fst p = fst q \<and>
     (case fst p of StFail e \<Rightarrow> True | StComplete l r \<Rightarrow> snd p = snd q | _ \<Rightarrow> False)"

lemma complete_record_eq:
  "step_eq (complete_record pg r d) (complete_record pg r (d\<lparr>wd_state := x\<rparr>))"
  by (auto simp: step_eq_def complete_record_def Let_def split: option.splits if_splits)

lemma waiting_fast:
  assumes "wd_state d = WaitingForRecord" and "4 \<le> length (wd_inputbuf d)"
      and "t = (of_le (take 4 (wd_inputbuf d)) :: u32)" and "XLOG_SIZE_OF_XLOG_RECORD pg \<le> unat t"
      and "t \<noteq> 0"
  shows "page_contents pg d = (StContinue, d\<lparr>wd_state := ReassemblingRecord [] t\<rparr>)
         \<or> step_eq (page_contents pg d) (page_contents pg (d\<lparr>wd_state := ReassemblingRecord [] t\<rparr>))"
proof (cases "unat t \<le> length (wd_inputbuf d) \<and> unat t \<le> unat (remaining_in_block (wd_lsn d))")
  case True
  show ?thesis
  proof (cases "consume (unat t) d")
    case None
    then show ?thesis
      using fast_path_reassemble [OF assms(1-4)] True assms
      by (simp add: page_contents_def Let_def step_eq_def)
  next
    case (Some d1)
    then have "page_contents pg (d\<lparr>wd_state := ReassemblingRecord [] t\<rparr>)
        = complete_record pg (take (unat t) (wd_inputbuf d)) (d1\<lparr>wd_state := ReassemblingRecord [] t\<rparr>)"
      using fast_path_reassemble [OF assms(1-4)] True assms(5) by simp
    moreover have "page_contents pg d = complete_record pg (take (unat t) (wd_inputbuf d)) d1"
      using assms True Some by (simp add: page_contents_def Let_def)
    ultimately show ?thesis using complete_record_eq by simp
  qed
next
  case False
  then show ?thesis using assms by (auto simp: page_contents_def Let_def)
qed

lemma page_contents_feed:
  assumes "page_contents pg d = (q, d')" and "q \<noteq> StNeedMore" and "\<forall>e. q \<noteq> StFail e"
  shows "page_contents pg (feed_bytes b d) = (q, feed_bytes b d')
         \<or> (q = StContinue \<and> (\<exists>t. d' = d\<lparr>wd_state := ReassemblingRecord [] t\<rparr>)
            \<and> wd_state d = WaitingForRecord
            \<and> step_eq (page_contents pg (feed_bytes b d)) (page_contents pg (feed_bytes b d')))"
proof (cases "wd_state d")
  case WaitingForRecord
  define t :: u32 where "t = of_le (take 4 (wd_inputbuf d))"
  have len: "4 \<le> length (wd_inputbuf d)" and sz: "XLOG_SIZE_OF_XLOG_RECORD pg \<le> unat t"
    using assms WaitingForRecord
    by (auto simp: page_contents_def Let_def t_def split: if_splits)
  have t: "t = of_le (take 4 (wd_inputbuf (feed_bytes b d)))" using len by (simp add: t_def)
  show ?thesis
  proof (cases "q = StContinue")
    case True
    then have d': "d' = d\<lparr>wd_state := ReassemblingRecord [] t\<rparr>" and "t \<noteq> 0"
      using assms WaitingForRecord by (auto simp: page_contents_def Let_def t_def
          complete_not_continue split: if_splits option.splits)
    then show ?thesis
      using waiting_fast [of "feed_bytes b d" t pg] True WaitingForRecord len sz t
      by (auto simp: feed_state)
  next
    case False
    then obtain d1 where "unat t \<le> length (wd_inputbuf d)"
        "unat t \<le> unat (remaining_in_block (wd_lsn d))" "consume (unat t) d = Some d1"
        "complete_record pg (take (unat t) (wd_inputbuf d)) d1 = (q, d')"
      using assms WaitingForRecord by (auto simp: page_contents_def Let_def t_def
          split: if_splits option.splits)
    then show ?thesis
      using WaitingForRecord len sz t
      by (simp add: page_contents_def Let_def consume_feed complete_record_feed)
  qed
next
  case (ReassemblingRecord recordbuf contlen)
  then show ?thesis
    using assms by (auto simp: page_contents_def Let_def consume_feed feed_state
        complete_record_feed split: if_splits option.splits)
next
  case (SkippingEverything l)
  then show ?thesis
    using assms by (auto simp: page_contents_def Let_def consume_feed feed_state
        split: if_splits option.splits)
qed

lemma decode_step_feed:
  assumes hd: "headers_ok pg" and step: "decode_step pg d = (q, d')" and "\<forall>e. q \<noteq> StFail e"
  shows "decode_step pg (feed_bytes b d) = (q, feed_bytes b d') \<and> q \<noteq> StNeedMore
         \<or> q = StContinue \<and> step_eq (decode_step pg (feed_bytes b d)) (decode_step pg (feed_bytes b d'))
         \<or> q = StNeedMore \<and> decode_step pg (feed_bytes b d) = decode_step pg (feed_bytes b d')"
proof -
  obtain q1 d1 where q1: "page_boundary pg d = (q1, d1)" by force
  show ?thesis
  proof (cases "q1 = StContinue")
    case False
    then have "q1 = StNeedMore \<and> q = StNeedMore \<and> d' = d"
      using step q1 assms(3)
      by (auto simp: decode_step_def page_boundary_def read_header_def Let_def
          split: wd_step.splits wd_state.splits if_splits option.splits)
    then show ?thesis by simp
  next
    case True
    have c: "page_contents pg d1 = (q, d')" using step q1 True by (simp add: decode_step_def)
    have fd: "decode_step pg (feed_bytes b d) = page_contents pg (feed_bytes b d1)"
      using page_boundary_feed [of pg d d1 b] q1 True by (simp add: decode_step_def)
    show ?thesis
    proof (cases "q = StNeedMore")
      case need: True
      then have "d' = d1" using c by (auto simp: page_contents_def Let_def complete_record_def
            split: wd_state.splits if_splits option.splits)
      moreover have "decode_step pg (feed_bytes b d1) = page_contents pg (feed_bytes b d1)"
        using page_boundary_idem [OF hd, of d d1 b] q1 True by (simp add: decode_step_def)
      ultimately show ?thesis using need fd by simp
    next
      case False
      consider "page_contents pg (feed_bytes b d1) = (q, feed_bytes b d')"
        | t where "q = StContinue" "d' = d1\<lparr>wd_state := ReassemblingRecord [] t\<rparr>"
            "wd_state d1 = WaitingForRecord"
            "step_eq (page_contents pg (feed_bytes b d1)) (page_contents pg (feed_bytes b d'))"
        using page_contents_feed [OF c False assms(3)] by blast
      then show ?thesis
      proof cases
        case 1
        then show ?thesis using fd False by simp
      next
        case 2
        have "wd_state d = WaitingForRecord"
          using 2(3) page_boundary_continue [of pg d d1] q1 True by simp
        then have "block_offset (wd_lsn (feed_bytes b d')) \<noteq> 0"
          using page_boundary_inside_after [OF hd, of d d1] q1 True 2(2) by simp
        then have "decode_step pg (feed_bytes b d') = page_contents pg (feed_bytes b d')"
          by (simp add: decode_step_def page_boundary_inside)
        then show ?thesis using 2 fd by simp
      qed
    qed
  qed
qed

lemma page_boundary_version: "page_boundary pg d = (q, d') \<Longrightarrow> wd_pg_version d' = wd_pg_version d"
  by (auto simp: page_boundary_def read_header_def Let_def dest!: consume_Some
      split: wd_state.splits if_splits option.splits)

lemma page_contents_version: "page_contents pg d = (q, d') \<Longrightarrow> wd_pg_version d' = wd_pg_version d"
  by (auto simp: page_contents_def complete_record_def Let_def dest!: consume_Some
      split: wd_state.splits if_splits option.splits)

lemma decode_step_version: "decode_step pg d = (q, d') \<Longrightarrow> wd_pg_version d' = wd_pg_version d"
  by (auto simp: decode_step_def split: prod.splits wd_step.splits
      dest!: page_boundary_version page_contents_version)

lemma poll_decode_feed:
  assumes "\<And>v. headers_ok (pgs v)" and "poll_decode pgs d = (Inr r, d')"
  shows "poll_eq (poll_decode pgs (feed_bytes b d))
           (case r of None \<Rightarrow> poll_decode pgs (feed_bytes b d')
            | Some x \<Rightarrow> (Inr (Some x), feed_bytes b d'))"
  using assms
proof (induction pgs d rule: poll_decode.induct)
  case (1 pgs d)
  let ?pg = "pgs (wd_pg_version d)"
  obtain q d1 where q: "decode_step ?pg d = (q, d1)" by force
  have nofail: "\<forall>e. q \<noteq> StFail e" using 1(3) q by (auto simp: poll_decode.simps [of pgs d])
  note step = decode_step_feed [OF 1(2) q nofail, of b]
  have ver: "wd_pg_version d1 = wd_pg_version d" if "q = StContinue"
    using decode_step_continue q that by blast
  show ?case
  proof (cases q)
    case StContinue
    have "poll_decode pgs d1 = (Inr r, d')"
      using 1(3) q StContinue by (simp add: poll_decode.simps [of pgs d])
    note IH = 1(1) [OF q [symmetric] StContinue 1(2) this]
    have "poll_eq (poll_decode pgs (feed_bytes b d)) (poll_decode pgs (feed_bytes b d1))"
      using step StContinue ver
      by (auto simp: poll_decode.simps [of pgs "feed_bytes b d"] step_eq_def poll_eq_def
          poll_decode.simps [of pgs "feed_bytes b d1"] split: wd_step.splits prod.splits)
    then show ?thesis using IH poll_eq_trans by blast
  next
    case StNeedMore
    then have "r = None" "d' = d1" using 1(3) q by (auto simp: poll_decode.simps [of pgs d])
    moreover have "wd_pg_version d1 = wd_pg_version d"
      using q by (rule decode_step_version)
    ultimately show ?thesis
      using step StNeedMore by (simp add: poll_decode.simps [of pgs "feed_bytes b d"]
          poll_decode.simps [of pgs "feed_bytes b d1"])
  next
    case (StComplete l rec)
    then show ?thesis
      using 1(3) q step by (auto simp: poll_decode.simps [of pgs d]
          poll_decode.simps [of pgs "feed_bytes b d"])
  next
    case (StFail e)
    then show ?thesis using nofail by blast
  qed
qed

lemma wd_ok_feed:
  assumes "wd_ok d" and "wd_pos d + length b \<le> LSN_LIMIT"
  shows "wd_ok (feed_bytes b d)" and "wd_pos (feed_bytes b d) = wd_pos d + length b"
  using assms by (auto simp: wd_ok_def wd_pos_def split: wd_state.splits)

definition drain_eq :: "drain_end \<times> decoder \<times> 's \<Rightarrow> drain_end \<times> decoder \<times> 's \<Rightarrow> bool" where
  "drain_eq x y \<longleftrightarrow> fst x = fst y \<and> snd (snd x) = snd (snd y)
     \<and> (fst x = Drained \<longrightarrow> fst (snd x) = fst (snd y))"

lemma drain_eqI:
  assumes "\<And>v. 0 < XLOG_SIZE_OF_XLOG_RECORD (pgs v)" and "wd_ok d" and "wd_ok d'"
      and eq: "poll_eq (poll_decode pgs d) (poll_decode pgs d')"
  shows "drain_eq (drain pgs f d s) (drain pgs f d' s)"
proof -
  obtain r e where e: "poll_decode pgs d = (r, e)" by force
  obtain r' e' where e': "poll_decode pgs d' = (r', e')" by force
  note ok = poll_decode_ok [OF assms(2,1) e] poll_decode_ok [OF assms(3,1) e']
  show ?thesis
  proof (cases "\<exists>l b. r = Inr (Some (l, b))")
    case True
    then obtain l b where r: "r = Inr (Some (l, b))" by blast
    then have "r' = r" "e' = e" using eq e e' by (auto simp: poll_eq_def)
    moreover have "length (wd_inputbuf e) < length (wd_inputbuf d)"
      "length (wd_inputbuf e) < length (wd_inputbuf d')"
      using ok r calculation by (auto simp: step_ok_def)
    ultimately show ?thesis
      using e e' r by (simp add: drain.simps [of pgs f d] drain.simps [of pgs f d'] drain_eq_def)
  next
    case False
    then show ?thesis
      using eq e e' by (cases r) (auto simp: drain.simps [of pgs f d] drain.simps [of pgs f d']
          drain_eq_def poll_eq_def split: option.splits)
  qed
qed

lemma drain_eq_trans: "drain_eq x y \<Longrightarrow> drain_eq y z \<Longrightarrow> drain_eq x z"
  by (auto simp: drain_eq_def)

lemma drain_feed:
  assumes "\<And>v. headers_ok (pgs v)" and "\<And>v. 0 < XLOG_SIZE_OF_XLOG_RECORD (pgs v)"
      and "wd_ok d" and "wd_pos d + length b \<le> LSN_LIMIT"
      and "drain pgs f d s = (Drained, d', s')"
  shows "drain_eq (drain pgs f (feed_bytes b d) s) (drain pgs f (feed_bytes b d') s')"
  using assms
proof (induction pgs f d s rule: drain.induct)
  case (1 pgs f d s)
  obtain r d1 where r: "poll_decode pgs d = (r, d1)" by force
  then obtain x where x: "r = Inr x"
    using 1(6) by (cases r) (auto simp: drain.simps [of pgs f d s])
  have ok: "step_ok d (poll_step r) d1" by (rule poll_decode_ok [OF 1(4,3) r])
  note fd = poll_decode_feed [OF 1(2) r [unfolded x], of b]
  note ok_fd = wd_ok_feed [OF 1(4,5)]
  have ok1: "wd_ok d1" "wd_pos d1 = wd_pos d"
    using ok x by (auto simp: step_ok_def split: option.splits wd_step.splits)
      (cases x; auto)+
  note ok1_fd = wd_ok_feed [OF ok1(1), of b]
  show ?case
  proof (cases x)
    case None
    then have "d' = d1" "s' = s" using 1(6) r x by (auto simp: drain.simps [of pgs f d s])
    then show ?thesis
      using drain_eqI [OF 1(3) ok_fd(1) ok1_fd(1)] fd None ok1 1(5) by simp
  next
    case (Some lb)
    obtain l rec where lb: "lb = (l, rec)" by force
    have shrink: "length (wd_inputbuf d1) < length (wd_inputbuf d)"
      using ok x Some lb by (simp add: step_ok_def)
    have rest: "drain pgs f d1 (f l rec s) = (Drained, d', s')"
      using 1(6) r x Some lb shrink by (simp add: drain.simps [of pgs f d s])
    have "poll_decode pgs (feed_bytes b d) = (Inr (Some (l, rec)), feed_bytes b d1)"
      using fd Some lb by (auto simp: poll_eq_def prod_eq_iff)
    then have "drain pgs f (feed_bytes b d) s = drain pgs f (feed_bytes b d1) (f l rec s)"
      using shrink by (simp add: drain.simps [of pgs f "feed_bytes b d" s])
    then show ?thesis
      using 1(1) [OF r [symmetric] x Some lb [symmetric] shrink 1(2,3) ok1(1) _ rest] ok1(2) 1(5)
      by simp
  qed
qed

section \<open>Properties\<close>

definition decode_records ::
  "(pg_major_version \<Rightarrow> pg_bindings) \<Rightarrow> decoder \<Rightarrow> drain_end \<times> decoder \<times> (lsn \<times> bytes) list" where
  "decode_records pgs d = drain pgs (\<lambda>l b acc. acc @ [(l, b)]) d []"

text \<open>
  C27: the records found in a stream do not depend on how it is cut into pieces. Polling
  until more input is needed, feeding the rest and polling on gives the same records to
  the consumer, the same failure if there is one, and the same state of the decoder, as
  feeding everything at once.
\<close>

theorem decode_in_pieces:
  assumes "\<And>v. headers_ok (pgs v)" and "\<And>v. 0 < XLOG_SIZE_OF_XLOG_RECORD (pgs v)"
      and "wd_ok d" and "wd_pos d + length a + length b \<le> LSN_LIMIT"
      and "drain pgs f (feed_bytes a d) s = (Drained, d', s')"
  shows "drain_eq (drain pgs f (feed_bytes (a @ b) d) s) (drain pgs f (feed_bytes b d') s')"
  using drain_feed [OF assms(1,2) wd_ok_feed(1) [OF assms(3)] _ assms(5), of b]
    wd_ok_feed(2) [OF assms(3), of a] assms(4) by (simp add: feed_feed)

text \<open>
  C28: decoding ends, with the input used up or a failure, and the records come at strictly
  increasing positions, all above the position the decoder was waiting at.
\<close>

theorem decode_records_increasing:
  assumes "\<And>v. 0 < XLOG_SIZE_OF_XLOG_RECORD (pgs v)" and "wd_ok d"
  shows "\<exists>r d' recs. decode_records pgs d = (r, d', recs) \<and> r \<noteq> DrainStuck
           \<and> sorted_wrt (<) (map fst recs)
           \<and> (\<forall>(l, b) \<in> set recs. wd_floor d < l \<and> l \<le> wd_floor d')"
proof -
  obtain r d' recs where r: "decode_records pgs d = (r, d', recs)"
    by (metis prod_cases3)
  define I where "I l acc \<longleftrightarrow> sorted_wrt (<) (map fst acc) \<and> wd_floor d \<le> l
      \<and> (\<forall>(k, b) \<in> set acc. wd_floor d < k \<and> k \<le> l)" for l and acc :: "(lsn \<times> bytes) list"
  have step: "I l' (acc @ [(l', b)])" if "I l acc" "l < l'" for l l' b acc
    using that by (fastforce simp: I_def sorted_wrt_append)
  have "I (wd_floor d) []" by (simp add: I_def)
  note res = drain_ok [where I = I, OF assms(2,1) r [unfolded decode_records_def] this order_refl refl]
  have "r \<noteq> DrainStuck \<and> (\<exists>l'. I l' recs \<and> l' \<le> wd_floor d')"
    using res step by (metis (no_types, lifting))
  then obtain l' where "r \<noteq> DrainStuck" "I l' recs" "l' \<le> wd_floor d'" by blast
  then show ?thesis using r by (fastforce simp: I_def)
qed

end
