(* ===== verification/Wal_Storage.thy ===== *)
theory Wal_Storage
  imports Waldecoder Sk_State
begin

text \<open>
  The WAL of a timeline on a safekeeper (safekeeper/src/wal_storage.rs): segment files,
  the last one partial, written and flushed separately, with the positions of the last
  complete record written and flushed. PhysicalStorage works on the model of the file
  system; the trait Storage is the interface \<open>wal_storage\<close>.
\<close>

section \<open>State\<close>

datatype wal_error =
    WalIo io_error
  | WriteRewrites lsn lsn
  | WriteGap lsn lsn
  | PendingTruncation
  | WalDecode wd_error
  | UnflushedNoFile
  | TruncateNonWritten lsn lsn
  | SegmentName fname_error
  | SegmentGeneration segment_error
  | FlushBelowCommit lsn lsn
  | WalPanic
  | WalDiverges

record phys_storage =
  pst_fs :: fs \<comment> \<open>the timeline directory\<close>
  pst_no_sync :: bool
  pst_wal_seg_size :: u64
  pst_pg_version :: pg_version_id
  pst_system_id :: u64
  pst_write_lsn :: lsn
  pst_write_record_lsn :: lsn
  pst_flush_lsn :: lsn
  pst_flush_record_lsn :: lsn
  pst_decoder :: decoder
  pst_file :: "(inode \<times> nat) option" \<comment> \<open>open file and its position\<close>
  pst_pending_wal_truncation :: bool

type_synonym 'a wal_prog = "(phys_storage, wal_error, 'a) prog"

definition in_fs :: "(fs, io_error, 'a) prog \<Rightarrow> 'a wal_prog" where
  "in_fs = zoom pst_fs (\<lambda>f w. w\<lparr>pst_fs := f\<rparr>) WalIo"

section \<open>Segment files\<close>

definition fsync_file :: "inode \<Rightarrow> unit wal_prog" where
  "fsync_file i = andthen (reads pst_no_sync) (\<lambda>no_sync. whenp (\<not> no_sync) (in_fs (file_sync i)))"

definition fdatasync_file :: "inode \<Rightarrow> unit wal_prog" where
  "fdatasync_file i = andthen (reads pst_no_sync) (\<lambda>no_sync. whenp (\<not> no_sync) (in_fs (file_sync i)))"

definition ignore_not_found :: "io_error \<Rightarrow> (fs, io_error, unit) prog" where
  "ignore_not_found e = (if e = NotFound then ret () else throw e)"

definition WAL_TMP :: string where
  "WAL_TMP = ''waltmp''"

text \<open>The new partial segment is filled with zeros under another name and renamed.\<close>

definition create_segment :: "string \<Rightarrow> inode wal_prog" where
  "create_segment wal_file_partial_path =
     andthen (in_fs (file_create WAL_TMP)) (\<lambda>file.
     andthen (reads pst_wal_seg_size) (\<lambda>sz.
     andthen (in_fs (file_set_len file (unat sz))) (\<lambda>_.
     andthen (reads pst_no_sync) (\<lambda>no_sync.
     andthen (or_else (in_fs (durable_rename WAL_TMP wal_file_partial_path (\<not> no_sync))) (\<lambda>e.
         andthen (in_fs (or_else (file_remove wal_file_partial_path) ignore_not_found)) (\<lambda>_.
         throw e))) (\<lambda>_.
     ret file)))))"

definition open_or_create :: "xlog_segno \<Rightarrow> (inode \<times> bool) wal_prog" where
  "open_or_create segno =
     andthen (reads (\<lambda>w. wal_file_paths segno (pst_wal_seg_size w))) (\<lambda>paths.
     andthen (attempt (in_fs (file_open (fst paths)))) (\<lambda>full.
     case full of
       Some file \<Rightarrow> ret (file, False)
     | None \<Rightarrow>
         andthen (attempt (in_fs (file_open (snd paths)))) (\<lambda>partial.
         case partial of
           Some file \<Rightarrow> ret (file, True)
         | None \<Rightarrow>
             andthen (create_segment (snd paths)) (\<lambda>file. ret (file, True)))))"

text \<open>self.file.take()\<close>

definition take_file :: "(inode \<times> nat) option wal_prog" where
  "take_file = andthen (reads pst_file) (\<lambda>f. andthen (modify (\<lambda>w. w\<lparr>pst_file := None\<rparr>)) (\<lambda>_. ret f))"

definition write_in_segment :: "xlog_segno \<Rightarrow> nat \<Rightarrow> bytes \<Rightarrow> bool wal_prog" where
  "write_in_segment segno xlogoff buf =
     andthen take_file (\<lambda>cached.
     andthen (case cached of
         Some file \<Rightarrow> ret file
       | None \<Rightarrow>
           andthen (open_or_create segno) (\<lambda>opened.
           andthen (ensure (snd opened) WalPanic) (\<lambda>_.
           andthen (in_fs (file_seek (fst opened))) (\<lambda>_.
           ret (fst opened, xlogoff))))) (\<lambda>file.
     andthen (in_fs (file_write (fst file) (snd file) buf)) (\<lambda>_.
     andthen (in_fs (file_flush (fst file))) (\<lambda>_.
     andthen (reads pst_wal_seg_size) (\<lambda>sz.
     if xlogoff + length buf = unat sz then
       andthen (fdatasync_file (fst file)) (\<lambda>_.
       andthen (in_fs (file_rename (snd (wal_file_paths segno sz)) (fst (wal_file_paths segno sz)))) (\<lambda>_.
       ret True))
     else
       andthen (modify (\<lambda>w. w\<lparr>pst_file := Some (fst file, snd file + length buf)\<rparr>)) (\<lambda>_.
       ret False))))))"

text \<open>
  The loop of write_exact: one piece per segment. A segment size of zero is a division by
  zero.
\<close>

function write_segments :: "bytes \<Rightarrow> unit wal_prog" where
  "write_segments buf w =
     (if buf = [] then (Inr (), w)
      else if pst_wal_seg_size w = 0 then (Inl WalPanic, w)
      else
        (let xlogoff = unat (segment_offset (pst_write_lsn w) (pst_wal_seg_size w));
             segno = segment_number (pst_write_lsn w) (pst_wal_seg_size w);
             bytes_write = (if xlogoff + length buf > unat (pst_wal_seg_size w)
                            then unat (pst_wal_seg_size w) - xlogoff else length buf)
         in case write_in_segment segno xlogoff (take bytes_write buf) w of
              (Inl e, w1) \<Rightarrow> (Inl e, w1)
            | (Inr flushed, w1) \<Rightarrow>
                (case lsn_add (pst_write_lsn w1) (of_nat bytes_write) of
                   None \<Rightarrow> (Inl WalPanic, w1)
                 | Some l \<Rightarrow>
                     (let w2 = w1\<lparr>pst_write_lsn := l\<rparr>;
                          w3 = (if flushed then w2\<lparr>pst_flush_lsn := l\<rparr> else w2)
                      in write_segments (drop bytes_write buf) w3))))"
  by pat_completeness auto

termination
proof (relation "measure (\<lambda>(buf, w). length buf)", goal_cases)
  case (2 buf w xlogoff segno bytes_write r w1 flushed l w2 w3)
  have "unat (segment_offset (pst_write_lsn w) (pst_wal_seg_size w)) < unat (pst_wal_seg_size w)"
    using 2(2) segment_offset_less [of "pst_wal_seg_size w"]
    by (simp add: word_less_nat_alt word_neq_0_conv)
  then show ?case using 2(1,3,5) by auto
qed simp

declare write_segments.simps [simp del]

definition write_exact :: "lsn \<Rightarrow> bytes \<Rightarrow> unit wal_prog" where
  "write_exact pos buf =
     andthen (reads pst_write_lsn) (\<lambda>write_lsn.
     andthen (whenp (write_lsn \<noteq> pos)
       (andthen take_file (\<lambda>f.
        andthen (case f of None \<Rightarrow> ret () | Some file \<Rightarrow> fdatasync_file (fst file)) (\<lambda>_.
        modify (\<lambda>w. w\<lparr>pst_write_lsn := pos\<rparr>))))) (\<lambda>_.
     write_segments buf))"

section \<open>Removal of segments\<close>

definition remove_entry :: "u64 \<Rightarrow> (xlog_segno \<Rightarrow> bool) \<Rightarrow> string \<Rightarrow> (fs, wal_error, unit) prog" where
  "remove_entry wal_seg_size remove_predicate fname =
     (if \<not> IsXLogFileName fname \<and> \<not> IsPartialXLogFileName fname then ret ()
      else case XLogFromFileName fname wal_seg_size of
        Inl e \<Rightarrow> throw (SegmentName e)
      | Inr (segno, _) \<Rightarrow>
          whenp (remove_predicate segno) (zoom id (\<lambda>f _. f) WalIo (file_remove fname)))"

fun remove_entries ::
  "u64 \<Rightarrow> (xlog_segno \<Rightarrow> bool) \<Rightarrow> string list \<Rightarrow> (fs, wal_error, unit) prog" where
  "remove_entries sz p [] = zoom id (\<lambda>f _. f) WalIo (io_try (ret ()))"
| "remove_entries sz p (n # ns) =
     andthen (zoom id (\<lambda>f _. f) WalIo (io_try (ret ()))) (\<lambda>_.
     andthen (remove_entry sz p n) (\<lambda>_. remove_entries sz p ns))"

definition remove_segments_from_disk ::
  "u64 \<Rightarrow> (xlog_segno \<Rightarrow> bool) \<Rightarrow> (fs, wal_error, unit) prog" where
  "remove_segments_from_disk wal_seg_size remove_predicate =
     andthen (zoom id (\<lambda>f _. f) WalIo (io_try (reads (\<lambda>f. map fst (fs_dir f))))) (\<lambda>names.
     remove_entries wal_seg_size remove_predicate names)"

definition in_dir_fs :: "(fs, wal_error, 'a) prog \<Rightarrow> 'a wal_prog" where
  "in_dir_fs = zoom pst_fs (\<lambda>f w. w\<lparr>pst_fs := f\<rparr>) id"

section \<open>The storage operations\<close>

definition initialize_first_segment ::
  "(pg_major_version \<Rightarrow> pg_bindings) \<Rightarrow> lsn \<Rightarrow> unit wal_prog" where
  "initialize_first_segment pgs init_lsn =
     andthen (reads pst_wal_seg_size) (\<lambda>sz.
     andthen (ensure (sz \<noteq> 0) WalPanic) (\<lambda>_.
     let segno = segment_number init_lsn sz in
     andthen (open_or_create segno) (\<lambda>opened.
     andthen (reads (\<lambda>w. major_try_from (pst_pg_version w))) (\<lambda>v.
     andthen (of_option WalPanic v) (\<lambda>major_pg_version.
     andthen (reads pst_system_id) (\<lambda>system_id.
     case generate_wal_segment (pgs major_pg_version) segno system_id init_lsn of
       Inl e \<Rightarrow> throw (SegmentGeneration e)
     | Inr wal_seg \<Rightarrow>
         andthen (in_fs (file_seek (fst opened))) (\<lambda>_.
         andthen (in_fs (file_write (fst opened) 0 wal_seg)) (\<lambda>_.
         in_fs (file_flush (fst opened))))))))))"

text \<open>The body of the loop over the decoded records.\<close>

definition note_record :: "lsn \<Rightarrow> bytes \<Rightarrow> phys_storage \<Rightarrow> phys_storage" where
  "note_record l rec w =
     (let w1 = w\<lparr>pst_write_record_lsn := l\<rparr>
      in if l \<le> pst_flush_lsn w1 then w1\<lparr>pst_flush_record_lsn := l\<rparr> else w1)"

definition drain_records :: "(pg_major_version \<Rightarrow> pg_bindings) \<Rightarrow> unit wal_prog" where
  "drain_records pgs w =
     (case drain pgs note_record (pst_decoder w) w of
        (Drained, d, w') \<Rightarrow> (Inr (), w'\<lparr>pst_decoder := d\<rparr>)
      | (DrainFail e, d, w') \<Rightarrow> (Inl (WalDecode e), w'\<lparr>pst_decoder := d\<rparr>)
      | (DrainStuck, d, w') \<Rightarrow> (Inl WalDiverges, w'\<lparr>pst_decoder := d\<rparr>))"

text \<open>The part of write_wal behind the write: find the ends of the records written.\<close>

definition ingest_wal ::
  "(pg_major_version \<Rightarrow> pg_bindings) \<Rightarrow> lsn \<Rightarrow> bytes \<Rightarrow> unit wal_prog" where
  "ingest_wal pgs startpos buf =
     andthen (reads (\<lambda>w. available (pst_decoder w))) (\<lambda>a.
     andthen (of_option WalPanic a) (\<lambda>avail.
     andthen (whenp (avail \<noteq> startpos)
       (modify (\<lambda>w. w\<lparr>pst_decoder := decoder_new startpos (wd_pg_version (pst_decoder w))\<rparr>))) (\<lambda>_.
     andthen (modify (\<lambda>w. w\<lparr>pst_decoder := feed_bytes buf (pst_decoder w)\<rparr>)) (\<lambda>_.
     andthen (modify (\<lambda>w. if pst_write_record_lsn w \<le> pst_flush_lsn w
                        then w\<lparr>pst_flush_record_lsn := pst_write_record_lsn w\<rparr> else w)) (\<lambda>_.
     drain_records pgs)))))"

definition write_wal ::
  "(pg_major_version \<Rightarrow> pg_bindings) \<Rightarrow> lsn \<Rightarrow> bytes \<Rightarrow> unit wal_prog" where
  "write_wal pgs startpos buf =
     andthen (reads pst_write_lsn) (\<lambda>write_lsn.
     andthen (ensure (\<not> startpos < write_lsn) (WriteRewrites write_lsn startpos)) (\<lambda>_.
     andthen (ensure (\<not> (write_lsn < startpos \<and> write_lsn \<noteq> 0)) (WriteGap write_lsn startpos)) (\<lambda>_.
     andthen (reads pst_pending_wal_truncation) (\<lambda>pending.
     andthen (ensure (\<not> pending) PendingTruncation) (\<lambda>_.
     andthen (write_exact startpos buf) (\<lambda>_.
     ingest_wal pgs startpos buf))))))"

definition flush_wal :: "unit wal_prog" where
  "flush_wal =
     andthen (reads (\<lambda>w. pst_flush_record_lsn w = pst_write_record_lsn w)) (\<lambda>flushed.
     if flushed then ret ()
     else
       andthen take_file (\<lambda>f.
       andthen (case f of
           Some unflushed_file \<Rightarrow>
             andthen (fdatasync_file (fst unflushed_file)) (\<lambda>_.
             modify (\<lambda>w. w\<lparr>pst_file := Some unflushed_file\<rparr>))
         | None \<Rightarrow> throw UnflushedNoFile) (\<lambda>_.
       modify (\<lambda>w. w\<lparr>pst_flush_lsn := pst_write_lsn w,
                     pst_flush_record_lsn := pst_write_record_lsn w\<rparr>))))"

text \<open>The part of truncate_wal that works on the files, after the positions are reset.\<close>

definition truncate_segments :: "lsn \<Rightarrow> unit wal_prog" where
  "truncate_segments end_pos =
     andthen take_file (\<lambda>f.
     andthen (case f of None \<Rightarrow> ret () | Some unflushed_file \<Rightarrow> fdatasync_file (fst unflushed_file)) (\<lambda>_.
     andthen (reads pst_wal_seg_size) (\<lambda>sz.
     andthen (ensure (sz \<noteq> 0) WalPanic) (\<lambda>_.
     let xlogoff = segment_offset end_pos sz;
         segno = segment_number end_pos sz in
     andthen (in_dir_fs (remove_segments_from_disk sz (\<lambda>x. x > segno))) (\<lambda>_.
     andthen (open_or_create segno) (\<lambda>opened.
     andthen (in_fs (file_set_len (fst opened) (unat xlogoff))) (\<lambda>_.
     andthen (in_fs (file_set_len (fst opened) (unat sz))) (\<lambda>_.
     andthen (fsync_file (fst opened)) (\<lambda>_.
     whenp (\<not> snd opened)
       (in_fs (file_rename (fst (wal_file_paths segno sz)) (snd (wal_file_paths segno sz)))))))))))))"

definition truncate_wal :: "lsn \<Rightarrow> unit wal_prog" where
  "truncate_wal end_pos =
     andthen (reads pst_write_record_lsn) (\<lambda>write_record_lsn.
     andthen (ensure (\<not> (write_record_lsn \<noteq> 0 \<and> write_record_lsn < end_pos))
       (TruncateNonWritten write_record_lsn end_pos)) (\<lambda>_.
     andthen (reads (\<lambda>w. \<not> pst_pending_wal_truncation w \<and> end_pos = pst_write_lsn w
                       \<and> end_pos = pst_flush_record_lsn w)) (\<lambda>quick_exit.
     if quick_exit then ret ()
     else
       andthen (modify (\<lambda>w. w\<lparr>pst_pending_wal_truncation := True, pst_write_lsn := end_pos,
          pst_flush_lsn := end_pos, pst_write_record_lsn := end_pos,
          pst_flush_record_lsn := end_pos\<rparr>)) (\<lambda>_.
       andthen (truncate_segments end_pos) (\<lambda>_.
       modify (\<lambda>w. w\<lparr>pst_pending_wal_truncation := False\<rparr>))))))"

definition remove_up_to :: "xlog_segno \<Rightarrow> unit wal_prog" where
  "remove_up_to segno_up_to =
     andthen (reads pst_wal_seg_size) (\<lambda>sz.
     in_dir_fs (remove_segments_from_disk sz (\<lambda>x. x \<le> segno_up_to)))"

definition wal_close :: "unit wal_prog" where
  "wal_close = modify (\<lambda>w. w\<lparr>pst_file := None\<rparr>)"

text \<open>The trait Storage, as SafeKeeper uses it.\<close>

record 'w wal_ops =
  wal_write_lsn :: "'w \<Rightarrow> lsn"
  wal_flush_lsn :: "'w \<Rightarrow> lsn"
  wal_initialize_first_segment :: "lsn \<Rightarrow> ('w, wal_error, unit) prog"
  wal_write_wal :: "lsn \<Rightarrow> bytes \<Rightarrow> ('w, wal_error, unit) prog"
  wal_truncate_wal :: "lsn \<Rightarrow> ('w, wal_error, unit) prog"
  wal_flush_wal :: "('w, wal_error, unit) prog"

definition phys_wal_ops :: "(pg_major_version \<Rightarrow> pg_bindings) \<Rightarrow> phys_storage wal_ops" where
  "phys_wal_ops pgs = \<lparr>
     wal_write_lsn = pst_write_lsn,
     wal_flush_lsn = pst_flush_record_lsn,
     wal_initialize_first_segment = initialize_first_segment pgs,
     wal_write_wal = write_wal pgs,
     wal_truncate_wal = truncate_wal,
     wal_flush_wal = flush_wal\<rparr>"

section \<open>The end of the WAL on disk\<close>

definition open_wal_segment :: "string \<Rightarrow> (fs, io_error, inode option) prog" where
  "open_wal_segment seg_file_path =
     or_else (andthen (file_open (seg_file_path @ partial_suffix)) (\<lambda>i. ret (Some i))) (\<lambda>e.
       if e = NotFound then
         or_else (andthen (file_open seg_file_path) (\<lambda>i. ret (Some i))) (\<lambda>e.
           if e = NotFound then ret None else throw e)
       else throw e)"

definition file_read :: "inode \<Rightarrow> nat \<Rightarrow> nat \<Rightarrow> (fs, io_error, bytes) prog" where
  "file_read i pos n = io_try (reads (\<lambda>s. take n (drop pos (f_data (fs_files s ! i)))))"

lemma file_read_length: "file_read i pos n s = (Inr b, t) \<Longrightarrow> length b \<le> n"
  by (auto simp: file_read_def io_try_def prog_defs split: option.splits prod.splits sum.splits)

definition read_rank :: "u64 \<Rightarrow> (inode \<times> nat \<times> xlog_segno) option \<Rightarrow> lsn \<Rightarrow> nat" where
  "read_rank sz opened curr_lsn =
     (case opened of
        None \<Rightarrow> 1
      | Some (_, _, segno) \<Rightarrow> if segno = segment_number curr_lsn sz then 0 else 2)"

lemma lsn_add_progress:
  assumes "lsn_add l (of_nat n) = Some l'" "0 < n" "n \<le> 8192"
  shows "unat l' = unat l + n"
  using assms by (auto simp: lsn_add_def checked_add_Some unat_of_nat)

text \<open>
  Both loops of find_end_of_wal: \<open>None\<close> opens the segment of the current position, \<open>Some\<close>
  reads on in the open one.
\<close>

function find_end_loop ::
  "(pg_major_version \<Rightarrow> pg_bindings) \<Rightarrow> u64 \<Rightarrow> (inode \<times> nat \<times> xlog_segno) option
     \<Rightarrow> lsn \<Rightarrow> decoder \<Rightarrow> lsn \<Rightarrow> (fs, wal_error, lsn) prog" where
  "find_end_loop pgs sz None curr_lsn d result s =
     (let segno = segment_number curr_lsn sz
      in case open_wal_segment (XLogFileName PG_TLI segno sz) s of
           (Inl e, s1) \<Rightarrow> (Inl (WalIo e), s1)
         | (Inr None, s1) \<Rightarrow> (Inr result, s1)
         | (Inr (Some i), s1) \<Rightarrow>
             (case file_seek i s1 of
                (Inl e, s2) \<Rightarrow> (Inl (WalIo e), s2)
              | (Inr _, s2) \<Rightarrow>
                  find_end_loop pgs sz (Some (i, unat (segment_offset curr_lsn sz), segno))
                    curr_lsn d result s2))"
| "find_end_loop pgs sz (Some (i, pos, segno)) curr_lsn d result s =
     (if segment_number curr_lsn sz \<noteq> segno then find_end_loop pgs sz None curr_lsn d result s
      else case file_read i pos (unat XLOG_BLCKSZ) s of
        (Inl e, s1) \<Rightarrow> (Inl (WalIo e), s1)
      | (Inr buf, s1) \<Rightarrow>
          if buf = [] then (Inr result, s1)
          else case lsn_add curr_lsn (of_nat (length buf)) of
            None \<Rightarrow> (Inl WalPanic, s1)
          | Some curr_lsn' \<Rightarrow>
              (case drain pgs (\<lambda>l b r. l) (feed_bytes buf d) result of
                 (DrainFail e, d', result') \<Rightarrow> (Inr result', s1)
               | (DrainStuck, d', result') \<Rightarrow> (Inl WalDiverges, s1)
               | (Drained, d', result') \<Rightarrow>
                   find_end_loop pgs sz (Some (i, pos + length buf, segno)) curr_lsn' d' result' s1))"
  by pat_completeness auto

termination
proof (relation "measures [\<lambda>(pgs, sz, opened, curr, d, r, s). 2 ^ 64 - unat curr,
                           \<lambda>(pgs, sz, opened, curr, d, r, s). read_rank sz opened curr]", goal_cases)
  case (4 pgs sz i pos segno curr d r s x s1 buf curr' y d' z r')
  then have "file_read i pos 8192 s = (Inr buf, s1)" "0 < length buf"
    by (auto simp: XLOG_BLCKSZ_def)
  then have "length buf \<le> 8192" "0 < length buf"
    using file_read_length by auto
  then have "unat curr' = unat curr + length buf"
    using 4 lsn_add_progress by metis
  moreover have "unat curr' < 2 ^ 64"
    using unsigned_less [of curr', where 'a = nat] by simp
  ultimately have "2 ^ 64 - unat curr' < 2 ^ 64 - unat curr"
    using \<open>0 < length buf\<close> by linarith
  then show ?case
    by simp
qed (auto simp: read_rank_def)

text \<open>Each version of the server's bindings has its own copy, with MY_PGVERSION.\<close>

definition find_end_of_wal ::
  "(pg_major_version \<Rightarrow> pg_bindings) \<Rightarrow> pg_major_version \<Rightarrow> u64 \<Rightarrow> lsn \<Rightarrow> (fs, wal_error, lsn) prog" where
  "find_end_of_wal pgs my_pgversion wal_seg_size start_lsn =
     andthen (ensure (wal_seg_size \<noteq> 0) WalPanic) (\<lambda>_.
     find_end_loop pgs wal_seg_size None start_lsn (decoder_new start_lsn my_pgversion) start_lsn)"

definition physical_storage_new ::
  "(pg_major_version \<Rightarrow> pg_bindings) \<Rightarrow> timeline_persistent_state \<Rightarrow> bool
     \<Rightarrow> (fs, wal_error, phys_storage) prog" where
  "physical_storage_new pgs state no_sync =
     (let wal_seg_size = ucast (si_wal_seg_size (ps_server state)) in
      andthen (if ps_commit_lsn state = 0 then ret 0
        else andthen (of_option WalPanic (major_try_from (si_pg_version (ps_server state)))) (\<lambda>version.
             find_end_of_wal pgs version wal_seg_size (ps_commit_lsn state))) (\<lambda>write_lsn.
      let flush_lsn = write_lsn in
      andthen (ensure (\<not> flush_lsn < ps_commit_lsn state)
        (FlushBelowCommit flush_lsn (ps_commit_lsn state))) (\<lambda>_.
      andthen (of_option WalPanic (major_try_from (si_pg_version (ps_server state)))) (\<lambda>version.
      andthen (reads id) (\<lambda>f.
      ret \<lparr>pst_fs = f, pst_no_sync = no_sync, pst_wal_seg_size = wal_seg_size,
           pst_pg_version = si_pg_version (ps_server state),
           pst_system_id = si_system_id (ps_server state),
           pst_write_lsn = write_lsn, pst_write_record_lsn = write_lsn,
           pst_flush_lsn = flush_lsn, pst_flush_record_lsn = flush_lsn,
           pst_decoder = decoder_new write_lsn version,
           pst_file = None, pst_pending_wal_truncation = True\<rparr>)))))"

end
