(* ===== verification/Wal_Positions.thy ===== *)
theory Wal_Positions
  imports Wal_Storage
begin

text \<open>
  The positions PhysicalStorage reports. The interface \<open>wal_storage\<close> is what SafeKeeper
  relies on: the flushed position moves back by truncation only, whatever I/O fails.
  \<open>wal_ok\<close> is the invariant that gives it.
\<close>

locale wal_storage =
  fixes ops :: "'w wal_ops"
    and ok :: "'w \<Rightarrow> bool"
  assumes init_wp: "ok w \<Longrightarrow>
      wp (wal_initialize_first_segment ops l)
        (\<lambda>_ t. ok t \<and> wal_flush_lsn ops t = wal_flush_lsn ops w)
        (\<lambda>_ t. ok t \<and> wal_flush_lsn ops t = wal_flush_lsn ops w) w"
    and write_wp: "ok w \<Longrightarrow> unat pos + length buf \<le> LSN_LIMIT \<Longrightarrow>
      wp (wal_write_wal ops pos buf)
        (\<lambda>_ t. ok t \<and> wal_flush_lsn ops w \<le> wal_flush_lsn ops t)
        (\<lambda>_ t. ok t \<and> wal_flush_lsn ops w \<le> wal_flush_lsn ops t) w"
    and flush_wp: "ok w \<Longrightarrow>
      wp (wal_flush_wal ops)
        (\<lambda>_ t. ok t \<and> wal_flush_lsn ops w \<le> wal_flush_lsn ops t)
        (\<lambda>_ t. ok t \<and> wal_flush_lsn ops w \<le> wal_flush_lsn ops t) w"
    and truncate_wp: "ok w \<Longrightarrow> p \<noteq> 0 \<Longrightarrow> unat p \<le> LSN_LIMIT \<Longrightarrow>
      wp (wal_truncate_wal ops p)
        (\<lambda>_ t. ok t \<and> wal_flush_lsn ops t = p)
        (\<lambda>_ t. ok t \<and> (wal_flush_lsn ops t = wal_flush_lsn ops w \<or> wal_flush_lsn ops t = p)) w"

section \<open>Operations that only touch files\<close>

definition sans_io :: "phys_storage \<Rightarrow> phys_storage" where
  "sans_io w = w\<lparr>pst_fs := fs_empty [], pst_file := None\<rparr>"

definition io_only :: "'a wal_prog \<Rightarrow> bool" where
  "io_only m \<longleftrightarrow> (\<forall>w. sans_io (snd (m w)) = sans_io w)"

named_theorems io_only
  \<comment> \<open>programs that leave the positions alone\<close>

lemma sans_io_upd [simp]:
  "sans_io (w\<lparr>pst_fs := f\<rparr>) = sans_io w" "sans_io (w\<lparr>pst_file := x\<rparr>) = sans_io w"
  by (simp_all add: sans_io_def)

lemma io_only_ret [io_only]: "io_only (ret x)"
  by (simp add: io_only_def ret_def)

lemma io_only_throw [io_only]: "io_only (throw e)"
  by (simp add: io_only_def throw_def)

lemma io_only_reads [io_only]: "io_only (reads f)"
  by (simp add: io_only_def reads_def)

lemma io_only_ensure [io_only]: "io_only (ensure b e)"
  by (simp add: io_only_def ensure_def ret_def throw_def)

lemma io_only_of_option [io_only]: "io_only (of_option e x)"
  by (simp add: io_only_def of_option_def ret_def throw_def split: option.split)

lemma wp_io_only:
  "io_only m \<Longrightarrow> wp m (\<lambda>_ t. sans_io t = sans_io w) (\<lambda>_ t. sans_io t = sans_io w) w"
  unfolding wp_snd by (simp add: io_only_def)

lemma io_onlyI:
  "(\<And>w. wp m (\<lambda>_ t. sans_io t = sans_io w) (\<lambda>_ t. sans_io t = sans_io w) w) \<Longrightarrow> io_only m"
  unfolding wp_snd by (simp add: io_only_def)

lemma io_only_andthen [io_only]:
  assumes "io_only m" and "\<And>x. io_only (f x)"
  shows "io_only (andthen m f)"
proof (rule io_onlyI)
  fix w
  have "wp (f x) (\<lambda>_ t. sans_io t = sans_io w) (\<lambda>_ t. sans_io t = sans_io w) v"
    if "sans_io v = sans_io w" for x v
    using wp_io_only [OF assms(2), of x v] that by simp
  then show "wp (andthen m f) (\<lambda>_ t. sans_io t = sans_io w) (\<lambda>_ t. sans_io t = sans_io w) w"
    unfolding wp by (rule wp_cons [OF wp_io_only [OF assms(1), of w]])
qed

lemma io_only_whenp [io_only]: "io_only m \<Longrightarrow> io_only (whenp b m)"
  by (simp add: whenp_def io_only_ret)

lemma io_only_if [io_only]: "io_only m \<Longrightarrow> io_only n \<Longrightarrow> io_only (if b then m else n)"
  by simp

lemma io_only_attempt [io_only]: "io_only m \<Longrightarrow> io_only (attempt m)"
  by (rule io_onlyI) (auto simp: wp intro: wp_cons [OF wp_io_only])

lemma io_only_or_else [io_only]:
  assumes "io_only m" and "\<And>e. io_only (h e)"
  shows "io_only (or_else m h)"
proof (rule io_onlyI)
  fix w
  have "wp (h e) (\<lambda>_ t. sans_io t = sans_io w) (\<lambda>_ t. sans_io t = sans_io w) v"
    if "sans_io v = sans_io w" for e v
    using wp_io_only [OF assms(2), of e v] that by simp
  then show "wp (or_else m h) (\<lambda>_ t. sans_io t = sans_io w) (\<lambda>_ t. sans_io t = sans_io w) w"
    unfolding wp by (auto intro: wp_cons [OF wp_io_only [OF assms(1), of w]])
qed

lemma io_only_option [io_only]:
  "io_only m \<Longrightarrow> (\<And>x. io_only (f x)) \<Longrightarrow> io_only (case x of None \<Rightarrow> m | Some x \<Rightarrow> f x)"
  by (cases x) simp_all

lemma io_only_set_file [io_only]: "io_only (modify (\<lambda>w. w\<lparr>pst_file := f w\<rparr>))"
  by (simp add: io_only_def modify_def)

lemma io_only_in_fs [io_only]: "io_only (in_fs m)" "io_only (in_dir_fs p)"
  by (auto simp: io_only_def in_fs_def in_dir_fs_def zoom_def split: prod.split sum.split)

lemma io_only_segments [io_only]:
  "io_only (fsync_file i)" "io_only (fdatasync_file i)" "io_only take_file"
  "io_only (open_or_create segno)"
  unfolding fsync_file_def fdatasync_file_def take_file_def open_or_create_def create_segment_def
  by (intro io_only)+

lemma io_only_write_in_segment [io_only]: "io_only (write_in_segment segno off buf)"
  unfolding write_in_segment_def by (intro io_only)

lemma io_only_initialize [io_only]: "io_only (initialize_first_segment pgs l)"
  unfolding initialize_first_segment_def Let_def
  by (intro io_only) (auto split: sum.split intro!: io_only)

section \<open>Writing\<close>

definition sans_write :: "phys_storage \<Rightarrow> phys_storage" where
  "sans_write w = (sans_io w)\<lparr>pst_write_lsn := 0, pst_flush_lsn := 0\<rparr>"

lemma sans_io_fields:
  assumes "sans_io t = sans_io w"
  shows "pst_write_lsn t = pst_write_lsn w" "pst_wal_seg_size t = pst_wal_seg_size w"
    "sans_write t = sans_write w" "pst_flush_record_lsn t = pst_flush_record_lsn w"
proof -
  have "pst_write_lsn (sans_io t) = pst_write_lsn (sans_io w)"
    "pst_wal_seg_size (sans_io t) = pst_wal_seg_size (sans_io w)"
    "pst_flush_record_lsn (sans_io t) = pst_flush_record_lsn (sans_io w)"
    using assms by simp_all
  then show "pst_write_lsn t = pst_write_lsn w" "pst_wal_seg_size t = pst_wal_seg_size w"
    "pst_flush_record_lsn t = pst_flush_record_lsn w"
    by (simp_all add: sans_io_def)
  show "sans_write t = sans_write w" using assms by (simp add: sans_write_def)
qed

lemma sans_write_upd [simp]:
  "sans_write (w\<lparr>pst_write_lsn := l\<rparr>) = sans_write w"
  "sans_write (w\<lparr>pst_flush_lsn := l\<rparr>) = sans_write w"
  by (simp_all add: sans_write_def sans_io_def)

text \<open>How far a write of \<open>n\<close> bytes got: \<open>l'\<close> is where it stopped.\<close>

definition written_to :: "lsn \<Rightarrow> nat \<Rightarrow> bool \<Rightarrow> lsn \<Rightarrow> bool" where
  "written_to l n fin l' \<longleftrightarrow>
     (if fin then unat l' = unat l + n
      else l' = l \<or> seg_up (unat l) \<le> unat l' \<and> unat l' \<le> unat l + n)"

lemma segment_end:
  assumes "sz = WAL_SEGMENT_SIZE" and "unat l' = unat l + (unat sz - unat (segment_offset l sz))"
  shows "seg_up (unat l) \<le> unat l'" and "seg_up (unat l') = unat l'"
proof -
  have off: "unat (segment_offset l sz) = unat l mod 16777216"
    by (simp add: segment_offset_def unat_mod_distrib assms(1) WAL_SEGMENT_SIZE_def)
  have "unat l' = unat l + (16777216 - unat l mod 16777216)"
    using assms(2) unfolding off by (simp add: assms(1) WAL_SEGMENT_SIZE_def)
  then have "unat l' = unat l div 16777216 * 16777216 + 16777216"
    using div_mult_mod_eq [of "unat l" 16777216] mod_less_divisor [of 16777216 "unat l"]
    by linarith
  then have dvd: "16777216 dvd unat l'" by simp
  moreover have "unat l \<le> unat l'" using assms(2) by simp
  ultimately show "seg_up (unat l) \<le> unat l'" by (rule seg_up_least)
  show "seg_up (unat l') = unat l'"
    using seg_up_least [OF dvd order_refl] seg_up_bounds(1) [of "unat l'"] by simp
qed

lemma write_segments_wp:
  assumes "pst_wal_seg_size w = WAL_SEGMENT_SIZE" and "unat (pst_write_lsn w) + length buf \<le> LSN_LIMIT"
  shows "wp (write_segments buf)
     (\<lambda>_ t. sans_write t = sans_write w \<and> written_to (pst_write_lsn w) (length buf) True (pst_write_lsn t))
     (\<lambda>_ t. sans_write t = sans_write w \<and> written_to (pst_write_lsn w) (length buf) False (pst_write_lsn t)) w"
  using assms
proof (induction buf w rule: write_segments.induct)
  case (1 buf w)
  define off where "off = unat (segment_offset (pst_write_lsn w) (pst_wal_seg_size w))"
  define segno where "segno = segment_number (pst_write_lsn w) (pst_wal_seg_size w)"
  define n where "n = (if off + length buf > unat (pst_wal_seg_size w)
                       then unat (pst_wal_seg_size w) - off else length buf)"
  have sz: "pst_wal_seg_size w \<noteq> 0" by (simp add: 1(2) WAL_SEGMENT_SIZE_def)
  have n: "n \<le> length buf" by (auto simp: n_def)
  show ?case
  proof (cases "buf = []")
    case True
    then show ?thesis by (simp add: wp_def write_segments.simps written_to_def)
  next
    case False
    obtain r w1 where step: "write_in_segment segno off (take n buf) w = (r, w1)" by force
    have io: "sans_io w1 = sans_io w"
      using io_only_write_in_segment step by (metis io_only_def snd_conv)
    note [simp] = sans_io_fields [OF io]
    have unfold: "write_segments buf w = (case r of Inl e \<Rightarrow> (Inl e, w1) | Inr flushed \<Rightarrow>
                (case lsn_add (pst_write_lsn w1) (of_nat n) of
                   None \<Rightarrow> (Inl WalPanic, w1)
                 | Some l \<Rightarrow>
                     (let w2 = w1\<lparr>pst_write_lsn := l\<rparr>;
                          w3 = (if flushed then w2\<lparr>pst_flush_lsn := l\<rparr> else w2)
                      in write_segments (drop n buf) w3)))"
      unfolding write_segments.simps [of buf w] Let_def off_def [symmetric] segno_def [symmetric]
        n_def [symmetric] step
      using False sz by (simp only: if_False prod.case)
    show ?thesis
    proof (cases r)
      case (Inl e)
      then show ?thesis by (simp add: wp_def unfold written_to_def)
    next
      case (Inr flushed)
      have lim: "unat (pst_write_lsn w) + n < 2 ^ 64"
        using 1(3) n by (simp add: LSN_LIMIT_def)
      define l where "l = pst_write_lsn w + of_nat n"
      have l: "unat l = unat (pst_write_lsn w) + n" "lsn_add (pst_write_lsn w) (of_nat n) = Some l"
        using lim by (auto simp: l_def lsn_add_def checked_add_def unat_word_ariths unat_of_nat)
      define w3 where "w3 = (if flushed then w1\<lparr>pst_write_lsn := l, pst_flush_lsn := l\<rparr>
                             else w1\<lparr>pst_write_lsn := l\<rparr>)"
      have w3: "pst_wal_seg_size w3 = WAL_SEGMENT_SIZE" "pst_write_lsn w3 = l"
        "sans_write w3 = sans_write w"
        using 1(2) by (auto simp: w3_def)
      have "wp (write_segments (drop n buf))
         (\<lambda>_ t. sans_write t = sans_write w \<and> written_to l (length buf - n) True (pst_write_lsn t))
         (\<lambda>_ t. sans_write t = sans_write w \<and> written_to l (length buf - n) False (pst_write_lsn t)) w3"
        using 1(1) [OF False sz off_def segno_def n_def step [symmetric] Inr,
            of l "w1\<lparr>pst_write_lsn := l\<rparr>" w3, unfolded w3] l n 1(3)
        by (auto simp: w3_def)
      moreover have "written_to (pst_write_lsn w) (length buf) True l'"
        if "written_to l (length buf - n) True l'" for l'
        using that l n by (auto simp: written_to_def)
      moreover have "written_to (pst_write_lsn w) (length buf) False l'"
        if "written_to l (length buf - n) False l'" "drop n buf \<noteq> []" for l'
      proof -
        have "n = unat (pst_wal_seg_size w) - off"
          using that(2) by (simp add: n_def split: if_splits)
        from segment_end [OF 1(2), of l "pst_write_lsn w"] this
        have "seg_up (unat (pst_write_lsn w)) \<le> unat l" "seg_up (unat l) = unat l"
          using l off_def by simp_all
        then show ?thesis using that l n by (auto simp: written_to_def)
      qed
      moreover have "fst (write_segments (drop n buf) w3) = Inr ()" if "drop n buf = []"
        unfolding that by (simp add: write_segments.simps)
      moreover have "write_segments buf w = write_segments (drop n buf) w3"
        using l Inr by (simp add: unfold w3_def Let_def)
      ultimately show ?thesis
        by (cases "drop n buf = []") (auto simp: wp_def split: prod.splits sum.splits)
    qed
  qed
qed

section \<open>The invariant\<close>

text \<open>
  The last written record ends at or before the next one the decoder can find, and at or
  before the write position unless the decoder is at that position (a segment switch). No
  record has been written while all positions are zero.
\<close>

definition wal_ok :: "phys_storage \<Rightarrow> bool" where
  "wal_ok w \<longleftrightarrow>
     pst_wal_seg_size w = WAL_SEGMENT_SIZE
     \<and> wd_ok (pst_decoder w)
     \<and> unat (pst_write_lsn w) \<le> LSN_LIMIT
     \<and> pst_flush_record_lsn w \<le> pst_write_record_lsn w
     \<and> (pst_write_record_lsn w \<le> wd_floor (pst_decoder w) \<or> wd_pos (pst_decoder w) = 0)
     \<and> (wd_pos (pst_decoder w) = unat (pst_write_lsn w) \<or> pst_write_record_lsn w \<le> pst_write_lsn w)
     \<and> unat (pst_write_record_lsn w) \<le> seg_up (unat (pst_write_lsn w))
     \<and> (pst_write_lsn w = 0 \<longrightarrow> pst_write_record_lsn w = 0)
     \<and> (pst_write_record_lsn w = 0 \<longrightarrow>
          pst_pending_wal_truncation w \<and> wd_pos (pst_decoder w) = 0 \<and> pst_write_lsn w = 0)"

lemma wal_ok_sans_io: "wal_ok (sans_io w) = wal_ok w"
  by (simp add: wal_ok_def sans_io_def)

lemma wal_ok_io:
  assumes "sans_io t = sans_io w" and "wal_ok w"
  shows "wal_ok t" "pst_flush_record_lsn t = pst_flush_record_lsn w"
    "pst_write_record_lsn t = pst_write_record_lsn w"
proof -
  show "wal_ok t" using assms wal_ok_sans_io by metis
  have "pst_write_record_lsn (sans_io t) = pst_write_record_lsn (sans_io w)"
    using assms(1) by simp
  then show "pst_write_record_lsn t = pst_write_record_lsn w" by (simp add: sans_io_def)
qed (rule sans_io_fields [OF assms(1)])

lemma wp_andthen_io:
  assumes "io_only m" and "sans_io w = b"
      and "\<And>x t. sans_io t = b \<Longrightarrow> wp (f x) Q E t"
      and "\<And>e t. sans_io t = b \<Longrightarrow> E e t"
  shows "wp (andthen m f) Q E w"
  unfolding wp_andthen
  by (rule wp_cons [OF wp_io_only [OF assms(1)]]) (simp_all add: assms)

lemma initialize_wp:
  assumes "wal_ok w"
  shows "wp (initialize_first_segment pgs l)
     (\<lambda>_ t. wal_ok t \<and> pst_flush_record_lsn t = pst_flush_record_lsn w)
     (\<lambda>_ t. wal_ok t \<and> pst_flush_record_lsn t = pst_flush_record_lsn w) w"
  by (rule wp_cons [OF wp_io_only [OF io_only_initialize]]) (auto dest: wal_ok_io [OF _ assms])

lemma flush_wal_wp:
  assumes "wal_ok w"
  shows "wp flush_wal
     (\<lambda>_ t. wal_ok t \<and> pst_flush_record_lsn w \<le> pst_flush_record_lsn t
        \<and> pst_flush_record_lsn t = pst_write_record_lsn t)
     (\<lambda>_ t. wal_ok t \<and> pst_flush_record_lsn t = pst_flush_record_lsn w) w"
proof (cases "pst_flush_record_lsn w = pst_write_record_lsn w")
  case True
  then show ?thesis using assms by (simp add: flush_wal_def wp)
next
  case False
  have fin: "wal_ok (v\<lparr>pst_flush_lsn := pst_write_lsn v, pst_flush_record_lsn := pst_write_record_lsn v\<rparr>)
      \<and> pst_flush_record_lsn w \<le> pst_write_record_lsn v" if "sans_io v = sans_io w" for v
    using wal_ok_io [OF that assms] by (auto simp: wal_ok_def)
  show ?thesis
    unfolding flush_wal_def wp_andthen [of "reads _"] wp_reads if_not_P [OF False]
    by (intro wp_andthen_io [where b = "sans_io w"] io_only conjI refl)
       (auto simp: wp fin dest: wal_ok_io [OF _ assms])
qed

lemma io_only_truncate_segments [io_only]: "io_only (truncate_segments p)"
  unfolding truncate_segments_def Let_def by (intro io_only)

lemma truncate_wal_wp:
  assumes "wal_ok w" and "p \<noteq> 0" and "unat p \<le> LSN_LIMIT"
  shows "wp (truncate_wal p)
     (\<lambda>_ t. wal_ok t \<and> pst_flush_record_lsn t = p)
     (\<lambda>_ t. wal_ok t \<and> (pst_flush_record_lsn t = pst_flush_record_lsn w \<or> pst_flush_record_lsn t = p)) w"
proof -
  define b where "b = w\<lparr>pst_pending_wal_truncation := True, pst_write_lsn := p, pst_flush_lsn := p,
      pst_write_record_lsn := p, pst_flush_record_lsn := p\<rparr>"
  have b: "wal_ok b" if "\<not> (pst_write_record_lsn w \<noteq> 0 \<and> pst_write_record_lsn w < p)"
    using assms that seg_up_bounds(1) [of "unat p"] by (auto simp: wal_ok_def b_def not_less)
  have fin: "wal_ok (v\<lparr>pst_pending_wal_truncation := False\<rparr>) \<and> wal_ok v \<and> pst_flush_record_lsn v = p"
    if "sans_io v = sans_io b" "wal_ok b" for v
    using wal_ok_io [OF that] assms(2) by (auto simp: wal_ok_def b_def)
  have "wp (truncate_segments p)
      (\<lambda>_ v. wal_ok (v\<lparr>pst_pending_wal_truncation := False\<rparr>) \<and> pst_flush_record_lsn v = p)
      (\<lambda>_ t. wal_ok t \<and> (pst_flush_record_lsn t = pst_flush_record_lsn w \<or> pst_flush_record_lsn t = p)) b"
    if "wal_ok b"
    by (rule wp_cons [OF wp_io_only [OF io_only_truncate_segments]]) (auto dest: fin [OF _ that])
  then show ?thesis
    using assms(1) b by (auto simp: truncate_wal_def wp b_def)
qed

text \<open>The decoder is at the write position and the last record is behind it.\<close>

definition ready :: "phys_storage \<Rightarrow> bool" where
  "ready w \<longleftrightarrow>
     pst_wal_seg_size w = WAL_SEGMENT_SIZE \<and> wd_ok (pst_decoder w)
     \<and> wd_pos (pst_decoder w) = unat (pst_write_lsn w)
     \<and> pst_flush_record_lsn w \<le> pst_write_record_lsn w
     \<and> pst_write_record_lsn w \<le> wd_floor (pst_decoder w)
     \<and> unat (pst_write_record_lsn w) \<le> seg_up (unat (pst_write_lsn w))
     \<and> pst_write_record_lsn w \<noteq> 0 \<and> pst_write_lsn w \<noteq> 0"

lemma drain_records_wp:
  assumes "ready w" and "\<And>v. 0 < XLOG_SIZE_OF_XLOG_RECORD (pgs v)"
  shows "wp (drain_records pgs)
     (\<lambda>_ t. wal_ok t \<and> pst_flush_record_lsn w \<le> pst_flush_record_lsn t)
     (\<lambda>_ t. wal_ok t \<and> pst_flush_record_lsn w \<le> pst_flush_record_lsn t) w"
proof -
  define n where "n = wd_pos (pst_decoder w)"
  define I where "I l v \<longleftrightarrow> (\<exists>r f. v = w\<lparr>pst_write_record_lsn := r, pst_flush_record_lsn := f\<rparr>
     \<and> pst_flush_record_lsn w \<le> f \<and> f \<le> r \<and> pst_write_record_lsn w \<le> r \<and> r \<le> l
     \<and> unat r \<le> seg_up n)" for l v
  obtain r d t where dr: "drain pgs note_record (pst_decoder w) w = (r, d, t)"
    by (metis prod_cases3)
  have "I (pst_write_record_lsn w) w"
    using assms(1) unfolding I_def ready_def n_def
    by (intro exI [of _ "pst_write_record_lsn w"] exI [of _ "pst_flush_record_lsn w"]) auto
  moreover have "I l' (note_record l' b v)" if "I l v" "l < l'" "unat l' \<le> seg_up n" for l l' b v
  proof -
    from that(1) obtain r f where v: "v = w\<lparr>pst_write_record_lsn := r, pst_flush_record_lsn := f\<rparr>"
      "pst_flush_record_lsn w \<le> f" "f \<le> r" "pst_write_record_lsn w \<le> r" "r \<le> l"
      by (auto simp: I_def)
    have "f \<le> l'" "pst_flush_record_lsn w \<le> l'" "pst_write_record_lsn w \<le> l'"
      using v that(2) by order+
    then show ?thesis
      using v(1,2) that(3) unfolding I_def note_record_def
      by (intro exI [of _ l'] exI [of _ "if l' \<le> pst_flush_lsn w then l' else f"]) auto
  qed
  ultimately obtain l' where d: "r \<noteq> DrainStuck" "wd_ok d" "l' \<le> wd_floor d" "I l' t"
    "wd_pos d = n \<or> r \<noteq> Drained \<and> unat (wd_floor d) \<le> n"
    using drain_ok [OF _ assms(2) dr, of I "pst_write_record_lsn w" n] assms(1)
    by (auto simp: ready_def n_def)
  from d(4) obtain wr fr where t: "t = w\<lparr>pst_write_record_lsn := wr, pst_flush_record_lsn := fr\<rparr>"
    "pst_flush_record_lsn w \<le> fr" "fr \<le> wr" "pst_write_record_lsn w \<le> wr" "wr \<le> l'"
    "unat wr \<le> seg_up n"
    by (auto simp: I_def)
  have nz: "wr \<noteq> 0" using t(4) assms(1) by (auto simp: ready_def)
  have "wd_pos d = n \<or> wr \<le> pst_write_lsn w"
    using d(3,5) t(5) assms(1) by (auto simp: ready_def n_def word_le_nat_alt)
  moreover have "unat (pst_write_lsn w) \<le> LSN_LIMIT"
    using assms(1) by (auto simp: ready_def wd_ok_def)
  ultimately have "wal_ok (t\<lparr>pst_decoder := d\<rparr>)"
    using assms(1) d t nz by (auto simp: wal_ok_def ready_def n_def intro: order_trans)
  then show ?thesis
    using t(1,2) by (auto simp: wp_def drain_records_def dr split: drain_end.split)
qed

lemma sans_write_fields:
  assumes "sans_write t = sans_write w"
  shows "pst_decoder t = pst_decoder w" "pst_write_record_lsn t = pst_write_record_lsn w"
    "pst_flush_record_lsn t = pst_flush_record_lsn w" "pst_wal_seg_size t = pst_wal_seg_size w"
    "pst_pending_wal_truncation t = pst_pending_wal_truncation w"
  using arg_cong [OF assms, of pst_decoder] arg_cong [OF assms, of pst_write_record_lsn]
    arg_cong [OF assms, of pst_flush_record_lsn] arg_cong [OF assms, of pst_wal_seg_size]
    arg_cong [OF assms, of pst_pending_wal_truncation]
  by (simp_all add: sans_write_def sans_io_def)

lemma wal_ok_part_written:
  assumes "wal_ok w" and "sans_write t = sans_write w" and "pst_write_lsn w \<noteq> 0"
      and "written_to (pst_write_lsn w) n False (pst_write_lsn t)"
      and "unat (pst_write_lsn w) + n \<le> LSN_LIMIT"
  shows "wal_ok t" "pst_flush_record_lsn t = pst_flush_record_lsn w"
proof -
  note [simp] = sans_write_fields [OF assms(2)]
  show "pst_flush_record_lsn t = pst_flush_record_lsn w" by simp
  show "wal_ok t"
  proof (cases "pst_write_lsn t = pst_write_lsn w")
    case True
    then show ?thesis using assms(1) by (simp add: wal_ok_def)
  next
    case False
    then have up: "seg_up (unat (pst_write_lsn w)) \<le> unat (pst_write_lsn t)"
      "unat (pst_write_lsn t) \<le> LSN_LIMIT"
      using assms(4,5) by (auto simp: written_to_def)
    then have "unat (pst_write_record_lsn w) \<le> unat (pst_write_lsn t)"
      using assms(1) by (auto simp: wal_ok_def)
    moreover have "pst_write_lsn t \<noteq> 0"
      using up(1) seg_up_bounds(1) [of "unat (pst_write_lsn w)"] assms(3) by (auto simp: unat_eq_0)
    ultimately show ?thesis
      using assms(1,3) up(2) seg_up_bounds(1) [of "unat (pst_write_lsn t)"]
      by (auto simp: wal_ok_def word_le_nat_alt)
  qed
qed

lemma available_pos: "wd_ok d \<Longrightarrow> \<exists>a. available d = Some a \<and> unat a = wd_pos d"
  by (auto simp: wd_ok_def available_def lsn_add_def checked_add_def wd_pos_def LSN_LIMIT_def
      unat_of_nat unat_word_ariths)

text \<open>Restarting the decoder where needed and feeding it makes the storage ready.\<close>

lemma ready_feed:
  assumes ok: "wal_ok w" and same: "sans_write t = sans_write w"
      and rec: "pst_write_record_lsn w \<noteq> 0"
      and len: "unat (pst_write_lsn w) + length buf \<le> LSN_LIMIT"
      and pos: "unat (pst_write_lsn t) = unat (pst_write_lsn w) + length buf"
      and d: "d = (if wd_pos (pst_decoder w) \<noteq> unat (pst_write_lsn w)
                   then decoder_new (pst_write_lsn w) v else pst_decoder w)"
  shows "ready (t\<lparr>pst_decoder := feed_bytes buf d\<rparr>)"
proof -
  note [simp] = sans_write_fields [OF same]
  have nz: "pst_write_lsn w \<noteq> 0" "unat (pst_write_lsn w) \<noteq> 0"
    using ok rec by (auto simp: wal_ok_def unat_eq_0)
  have d_ok: "wd_ok d" "wd_pos d = unat (pst_write_lsn w)" "pst_write_record_lsn w \<le> wd_floor d"
    using ok len nz by (auto simp: d wal_ok_def wd_ok_def wd_pos_def decoder_new_def wd_floor_def)
  have floor: "wd_floor (feed_bytes buf d) = wd_floor d"
    by (simp add: wd_floor_def split: wd_state.split)
  have "unat (pst_write_record_lsn w) \<le> seg_up (unat (pst_write_lsn t))"
    using ok seg_up_mono [of "unat (pst_write_lsn w)" "unat (pst_write_lsn t)"] pos
    by (auto simp: wal_ok_def)
  moreover have "pst_write_lsn t \<noteq> 0" using pos nz by auto
  ultimately show ?thesis
    using ok d_ok rec wd_ok_feed [OF d_ok(1), of buf] len pos
    by (auto simp: ready_def floor wal_ok_def)
qed

lemma ingest_wal_wp:
  assumes ok: "wal_ok w" and same: "sans_write t = sans_write w"
      and rec: "pst_write_record_lsn w \<noteq> 0"
      and len: "unat (pst_write_lsn w) + length buf \<le> LSN_LIMIT"
      and pos: "unat (pst_write_lsn t) = unat (pst_write_lsn w) + length buf"
      and pgs: "\<And>v. 0 < XLOG_SIZE_OF_XLOG_RECORD (pgs v)"
  shows "wp (ingest_wal pgs (pst_write_lsn w) buf)
     (\<lambda>_ t. wal_ok t \<and> pst_flush_record_lsn w \<le> pst_flush_record_lsn t)
     (\<lambda>_ t. wal_ok t \<and> pst_flush_record_lsn w \<le> pst_flush_record_lsn t) t"
proof -
  note fields = sans_write_fields [OF same]
  obtain a where a: "available (pst_decoder w) = Some a" "unat a = wd_pos (pst_decoder w)"
    using ok available_pos by (auto simp: wal_ok_def)
  then have a_pos: "wd_pos (pst_decoder w) \<noteq> unat (pst_write_lsn w) \<longleftrightarrow> a \<noteq> pst_write_lsn w"
    by (metis word_unat_eq_iff)
  define d where "d = (if a \<noteq> pst_write_lsn w
      then decoder_new (pst_write_lsn w) (wd_pg_version (pst_decoder w)) else pst_decoder w)"
  define v where "v = t\<lparr>pst_decoder := feed_bytes buf d\<rparr>"
  have v: "ready v" "pst_flush_record_lsn v = pst_flush_record_lsn w"
    unfolding v_def using fields by (auto simp: d_def a_pos intro!: ready_feed [OF ok same rec len pos])
  define u where "u = (if pst_write_record_lsn v \<le> pst_flush_lsn v
                        then v\<lparr>pst_flush_record_lsn := pst_write_record_lsn v\<rparr> else v)"
  have u: "ready u" "pst_flush_record_lsn w \<le> pst_flush_record_lsn u"
    using v by (auto simp: u_def ready_def)
  have "wp (drain_records pgs)
     (\<lambda>_ t. wal_ok t \<and> pst_flush_record_lsn w \<le> pst_flush_record_lsn t)
     (\<lambda>_ t. wal_ok t \<and> pst_flush_record_lsn w \<le> pst_flush_record_lsn t) u"
    by (rule wp_cons [OF drain_records_wp [OF u(1) pgs]]) (auto intro: order_trans [OF u(2)])
  then show ?thesis
    by (auto simp: ingest_wal_def wp fields a u_def v_def d_def split: if_split_asm)
qed

lemma write_wal_wp:
  assumes ok: "wal_ok w" and len: "unat pos + length buf \<le> LSN_LIMIT"
      and pgs: "\<And>v. 0 < XLOG_SIZE_OF_XLOG_RECORD (pgs v)"
  shows "wp (write_wal pgs pos buf)
     (\<lambda>_ t. wal_ok t \<and> pst_flush_record_lsn w \<le> pst_flush_record_lsn t)
     (\<lambda>_ t. wal_ok t \<and> pst_flush_record_lsn w \<le> pst_flush_record_lsn t) w"
proof (cases "pos = pst_write_lsn w \<and> \<not> pst_pending_wal_truncation w")
  case False
  have "pst_pending_wal_truncation w \<or> pst_write_lsn w \<noteq> 0" using ok by (auto simp: wal_ok_def)
  then show ?thesis using False ok by (auto simp: write_wal_def wp)
next
  case True
  then have rec: "pst_write_record_lsn w \<noteq> 0" "pst_write_lsn w \<noteq> 0" and
    sz: "pst_wal_seg_size w = WAL_SEGMENT_SIZE"
    using ok by (auto simp: wal_ok_def)
  have len': "unat (pst_write_lsn w) + length buf \<le> LSN_LIMIT" using len True by simp
  have "wp (write_segments buf)
     (\<lambda>_. wp (ingest_wal pgs (pst_write_lsn w) buf)
       (\<lambda>_ t. wal_ok t \<and> pst_flush_record_lsn w \<le> pst_flush_record_lsn t)
       (\<lambda>_ t. wal_ok t \<and> pst_flush_record_lsn w \<le> pst_flush_record_lsn t))
     (\<lambda>_ t. wal_ok t \<and> pst_flush_record_lsn w \<le> pst_flush_record_lsn t) w"
  proof (rule wp_cons [OF write_segments_wp [OF sz len']])
    fix x t
    assume "sans_write t = sans_write w
      \<and> written_to (pst_write_lsn w) (length buf) True (pst_write_lsn t)"
    then show "wp (ingest_wal pgs (pst_write_lsn w) buf)
       (\<lambda>_ t. wal_ok t \<and> pst_flush_record_lsn w \<le> pst_flush_record_lsn t)
       (\<lambda>_ t. wal_ok t \<and> pst_flush_record_lsn w \<le> pst_flush_record_lsn t) t"
      by (intro ingest_wal_wp [OF ok _ rec(1) len' _ pgs]) (auto simp: written_to_def)
  next
    fix e t
    assume "sans_write t = sans_write w
      \<and> written_to (pst_write_lsn w) (length buf) False (pst_write_lsn t)"
    then show "wal_ok t \<and> pst_flush_record_lsn w \<le> pst_flush_record_lsn t"
      using wal_ok_part_written [OF ok _ rec(2) _ len', of t] by auto
  qed
  then show ?thesis
    using True by (simp add: write_wal_def write_exact_def wp)
qed

text \<open>
  What the storage relies on of the generated bindings of each server version: the record
  header is not empty.
\<close>

locale wal_bindings =
  fixes pgs :: "pg_major_version \<Rightarrow> pg_bindings"
  assumes record_header: "0 < XLOG_SIZE_OF_XLOG_RECORD (pgs v)"

sublocale wal_bindings \<subseteq> phys: wal_storage "phys_wal_ops pgs" wal_ok
proof
  fix w and pos :: lsn and buf :: bytes
  assume "wal_ok w" "unat pos + length buf \<le> LSN_LIMIT"
  from write_wal_wp [OF this record_header]
  show "wp (wal_write_wal (phys_wal_ops pgs) pos buf)
        (\<lambda>_ t. wal_ok t \<and> wal_flush_lsn (phys_wal_ops pgs) w \<le> wal_flush_lsn (phys_wal_ops pgs) t)
        (\<lambda>_ t. wal_ok t \<and> wal_flush_lsn (phys_wal_ops pgs) w \<le> wal_flush_lsn (phys_wal_ops pgs) t) w"
    by (simp add: phys_wal_ops_def)
qed (auto simp: phys_wal_ops_def intro: initialize_wp truncate_wal_wp wp_cons [OF flush_wal_wp])

end
