(* ===== verification/Safekeeper.thy ===== *)
theory Safekeeper
  imports Sk_Messages Wal_Positions
begin

text \<open>
  The acceptor of the consensus protocol (SafeKeeper of safekeeper/src/safekeeper.rs): one
  handler per message of the proposer and the update from peers, over a control file storage
  and a WAL storage given by their operations.
\<close>

section \<open>State\<close>

record ('c, 'w) safekeeper =
  sk_term_start_lsn :: lsn
  sk_state :: "'c timeline_state"
  sk_wal_store :: 'w
  sk_node_id :: node_id

text \<open>Returned errors, and the panics of two assertions and of the history comparison.\<close>

datatype sk_error =
    SkCtrl ctrl_error
  | SkWal wal_error
  | EmptyIds
  | UnknownPgVersion
  | IncompatibleVersion
  | InvalidTenant
  | InvalidTimeline
  | InvalidWalSegSize
  | NotAMember
  | GenerationMismatch
  | EmptyTermHistory
  | UnexpectedTruncationPoint
  | AppendBeforeElected
  | AppendRewrites
  | AppendGap
  | TruncatesCommitted
  | CommitNotMonotone
  | HistoryPanic th_panic

type_synonym ('c, 'w, 'a) sk_prog = "(('c, 'w) safekeeper, sk_error, 'a) prog"

definition in_state :: "('c timeline_state, ctrl_error, 'a) prog \<Rightarrow> ('c, 'w, 'a) sk_prog" where
  "in_state = zoom sk_state (\<lambda>t s. s\<lparr>sk_state := t\<rparr>) SkCtrl"

definition in_wal :: "('w, wal_error, 'a) prog \<Rightarrow> ('c, 'w, 'a) sk_prog" where
  "in_wal = zoom sk_wal_store (\<lambda>w s. s\<lparr>sk_wal_store := w\<rparr>) SkWal"

definition safekeeper_new ::
  "'c ctrl_ops \<Rightarrow> 'c timeline_state \<Rightarrow> 'w \<Rightarrow> node_id \<Rightarrow> sk_error + ('c, 'w) safekeeper" where
  "safekeeper_new ops state wal_store node_id =
     (if ps_tenant_id (ts_state ops state) = replicate 16 0
         \<or> ps_timeline_id (ts_state ops state) = replicate 16 0
      then Inl EmptyIds
      else Inr \<lparr>sk_term_start_lsn = 0, sk_state = state, sk_wal_store = wal_store,
                sk_node_id = node_id\<rparr>)"

section \<open>Views\<close>

definition pers :: "'c ctrl_ops \<Rightarrow> ('c, 'w) safekeeper \<Rightarrow> pers_state" where
  "pers cops s = ts_state cops (sk_state s)"

definition inmem :: "('c, 'w) safekeeper \<Rightarrow> timeline_mem_state" where
  "inmem s = ts_inmem (sk_state s)"

definition flush_lsn :: "'c ctrl_ops \<Rightarrow> 'w wal_ops \<Rightarrow> ('c, 'w) safekeeper \<Rightarrow> lsn" where
  "flush_lsn cops wops s = max (wal_flush_lsn wops (sk_wal_store s)) (ps_timeline_start_lsn (pers cops s))"

definition get_term_history :: "'c ctrl_ops \<Rightarrow> 'w wal_ops \<Rightarrow> ('c, 'w) safekeeper \<Rightarrow> term_history" where
  "get_term_history cops wops s =
     up_to (as_term_history (ps_acceptor_state (pers cops s))) (flush_lsn cops wops s)"

definition sk_last_log_term :: "'c ctrl_ops \<Rightarrow> 'w wal_ops \<Rightarrow> ('c, 'w) safekeeper \<Rightarrow> sk_term" where
  "sk_last_log_term cops wops s =
     get_last_log_term (ps_acceptor_state (pers cops s)) (flush_lsn cops wops s)"

abbreviation sk_term_of :: "'c ctrl_ops \<Rightarrow> ('c, 'w) safekeeper \<Rightarrow> sk_term" where
  "sk_term_of cops s \<equiv> as_term (ps_acceptor_state (pers cops s))"

abbreviation sk_generation_of :: "'c ctrl_ops \<Rightarrow> ('c, 'w) safekeeper \<Rightarrow> sk_generation" where
  "sk_generation_of cops s \<equiv> conf_generation (ps_mconf (pers cops s))"

section \<open>Handlers\<close>

text \<open>Both versions are converted before they are compared.\<close>

definition check_greeting :: "'c ctrl_ops \<Rightarrow> proposer_greeting \<Rightarrow> ('c, 'w, unit) sk_prog" where
  "check_greeting cops msg =
     andthen (reads (pers cops)) (\<lambda>p.
     andthen (of_option UnknownPgVersion (major_try_from (pg_pg_version msg))) (\<lambda>theirs.
     andthen (of_option UnknownPgVersion (major_try_from (si_pg_version (ps_server p)))) (\<lambda>ours.
     andthen (ensure (\<not> (theirs \<noteq> ours \<and> si_pg_version (ps_server p) \<noteq> PG_VERSION_UNKNOWN))
       IncompatibleVersion) (\<lambda>_.
     andthen (ensure (pg_tenant_id msg = ps_tenant_id p) InvalidTenant) (\<lambda>_.
     andthen (ensure (pg_timeline_id msg = ps_timeline_id p) InvalidTimeline) (\<lambda>_.
     ensure (si_wal_seg_size (ps_server p) = pg_wal_seg_size msg) InvalidWalSegSize))))))"

text \<open>The system id is taken over on mismatch; sync-safekeepers sends 0.\<close>

definition learn_system_id :: "'c ctrl_ops \<Rightarrow> proposer_greeting \<Rightarrow> ('c, 'w, unit) sk_prog" where
  "learn_system_id cops msg =
     andthen (reads (\<lambda>s. si_system_id (ps_server (pers cops s)))) (\<lambda>system_id.
     whenp (system_id \<noteq> pg_system_id msg \<and> pg_system_id msg \<noteq> 0)
       (andthen (reads (\<lambda>s. start_change cops (sk_state s))) (\<lambda>state.
        in_state (finish_change cops (state\<lparr>ps_server := (ps_server state)\<lparr>
          si_system_id := pg_system_id msg,
          si_pg_version := (if pg_pg_version msg \<noteq> PG_VERSION_UNKNOWN then pg_pg_version msg
                            else si_pg_version (ps_server state))\<rparr>\<rparr>)))))"

definition handle_greeting ::
  "'c ctrl_ops \<Rightarrow> proposer_greeting \<Rightarrow> ('c, 'w, acceptor_proposer_message option) sk_prog" where
  "handle_greeting cops msg =
     andthen (check_greeting cops msg) (\<lambda>_.
     andthen (learn_system_id cops msg) (\<lambda>_.
     andthen (reads (sk_generation_of cops)) (\<lambda>generation.
     andthen (reads sk_node_id) (\<lambda>node_id.
     andthen (ensure (\<not> (generation < conf_generation (pg_mconf msg)
          \<and> \<not> configuration_contains (pg_mconf msg) node_id)) NotAMember) (\<lambda>_.
     andthen (in_state (membership_switch cops (pg_mconf msg))) (\<lambda>_.
     reads (\<lambda>s. Some (AGreeting \<lparr>ag_node_id = sk_node_id s, ag_mconf = ps_mconf (pers cops s),
       ag_term = sk_term_of cops s\<rparr>))))))))"

text \<open>\<open>state.acceptor_state.term = term\<close> in a change.\<close>

definition raise_term :: "'c ctrl_ops \<Rightarrow> sk_term \<Rightarrow> ('c, 'w, unit) sk_prog" where
  "raise_term cops t =
     andthen (reads (\<lambda>s. start_change cops (sk_state s))) (\<lambda>state.
     in_state (finish_change cops
       (state\<lparr>ps_acceptor_state := (ps_acceptor_state state)\<lparr>as_term := t\<rparr>\<rparr>)))"

definition vote_refusal :: "'c ctrl_ops \<Rightarrow> 'w wal_ops \<Rightarrow> ('c, 'w) safekeeper \<Rightarrow> vote_response" where
  "vote_refusal cops wops s = \<lparr>vp_generation = sk_generation_of cops s, vp_term = sk_term_of cops s,
     vp_vote_given = False, vp_flush_lsn = flush_lsn cops wops s,
     vp_truncate_lsn = ms_peer_horizon_lsn (inmem s), vp_term_history = get_term_history cops wops s\<rparr>"

definition give_vote ::
  "'c ctrl_ops \<Rightarrow> vote_request \<Rightarrow> vote_response \<Rightarrow> ('c, 'w, acceptor_proposer_message option) sk_prog" where
  "give_vote cops msg resp =
     andthen (reads (sk_term_of cops)) (\<lambda>term.
     if term < vr_term msg then
       andthen (raise_term cops (vr_term msg)) (\<lambda>_.
       reads (\<lambda>s. Some (AVoteResponse (resp\<lparr>vp_term := sk_term_of cops s, vp_vote_given := True\<rparr>))))
     else ret (Some (AVoteResponse resp)))"

definition handle_vote_request ::
  "'c ctrl_ops \<Rightarrow> 'w wal_ops \<Rightarrow> vote_request \<Rightarrow> ('c, 'w, acceptor_proposer_message option) sk_prog" where
  "handle_vote_request cops wops msg =
     andthen (reads (sk_generation_of cops)) (\<lambda>generation.
     andthen (ensure (generation = vr_generation msg) GenerationMismatch) (\<lambda>_.
     andthen (in_wal (wal_flush_wal wops)) (\<lambda>_.
     andthen (reads (vote_refusal cops wops)) (\<lambda>resp.
     give_vote cops msg resp))))"

definition append_response_of :: "'c ctrl_ops \<Rightarrow> 'w wal_ops \<Rightarrow> ('c, 'w) safekeeper \<Rightarrow> append_response" where
  "append_response_of cops wops s = \<lparr>ap_generation = sk_generation_of cops s,
     ap_term = sk_term_of cops s, ap_flush_lsn = flush_lsn cops wops s,
     ap_commit_lsn = ps_commit_lsn (pers cops s), ap_hs_feedback = hs_feedback_empty,
     ap_pageserver_feedback = None\<rparr>"

text \<open>The point both histories share, or the beginning of the proposer's history.\<close>

definition streaming_point ::
  "'c ctrl_ops \<Rightarrow> 'w wal_ops \<Rightarrow> proposer_elected \<Rightarrow> ('c, 'w, term_lsn) sk_prog" where
  "streaming_point cops wops msg =
     andthen (reads (get_term_history cops wops)) (\<lambda>sk_th.
     andthen (reads (flush_lsn cops wops)) (\<lambda>sk_wal_end.
     case find_highest_common_point (pe_term_history msg) sk_th sk_wal_end of
       Inl e \<Rightarrow> throw (HistoryPanic e)
     | Inr (Some lcp) \<Rightarrow> ret lcp
     | Inr None \<Rightarrow> (case pe_term_history msg of [] \<Rightarrow> throw EmptyTermHistory | e # _ \<Rightarrow> ret e)))"

text \<open>The state with the proposer's history adopted and the positions it fixes filled in.\<close>

definition adopt_history :: "proposer_elected \<Rightarrow> pers_state \<Rightarrow> pers_state" where
  "adopt_history msg state =
     (let tl_start = (case pe_term_history msg of
            e # _ \<Rightarrow> if ps_timeline_start_lsn state = 0 then tl_lsn e else ps_timeline_start_lsn state
          | [] \<Rightarrow> ps_timeline_start_lsn state)
      in state\<lparr>
        ps_timeline_start_lsn := tl_start,
        ps_peer_horizon_lsn := (if ps_peer_horizon_lsn state = 0 then tl_start
                                else ps_peer_horizon_lsn state),
        ps_local_start_lsn := (if ps_local_start_lsn state = 0 then pe_start_streaming_at msg
                               else ps_local_start_lsn state),
        ps_commit_lsn := max (ps_commit_lsn state) tl_start,
        ps_backup_lsn := max (ps_backup_lsn state) tl_start,
        ps_remote_consistent_lsn := max (ps_remote_consistent_lsn state) tl_start,
        ps_acceptor_state := (ps_acceptor_state state)\<lparr>as_term_history := pe_term_history msg\<rparr>\<rparr>)"

definition start_streaming ::
  "'c ctrl_ops \<Rightarrow> 'w wal_ops \<Rightarrow> proposer_elected \<Rightarrow> ('c, 'w, unit) sk_prog" where
  "start_streaming cops wops msg =
     andthen (streaming_point cops wops msg) (\<lambda>last_common_point.
     andthen (ensure (tl_lsn last_common_point = pe_start_streaming_at msg)
       UnexpectedTruncationPoint) (\<lambda>_.
     andthen (reads (\<lambda>s. ms_commit_lsn (inmem s))) (\<lambda>commit_lsn.
     andthen (ensure (commit_lsn \<le> pe_start_streaming_at msg) TruncatesCommitted) (\<lambda>_.
     andthen (reads (\<lambda>s. wal_flush_lsn wops (sk_wal_store s))) (\<lambda>wal_flush.
     andthen (whenp (wal_flush = lsn_invalid)
       (in_wal (wal_initialize_first_segment wops (pe_start_streaming_at msg)))) (\<lambda>_.
     andthen (in_wal (wal_truncate_wal wops (pe_start_streaming_at msg))) (\<lambda>_.
     andthen (reads (\<lambda>s. start_change cops (sk_state s))) (\<lambda>state.
     andthen (in_state (finish_change cops (adopt_history msg state))) (\<lambda>_.
     case pe_term_history msg of
       [] \<Rightarrow> throw EmptyTermHistory
     | es \<Rightarrow> modify (\<lambda>s. s\<lparr>sk_term_start_lsn := tl_lsn (last es)\<rparr>))))))))))"

definition handle_elected ::
  "'c ctrl_ops \<Rightarrow> 'w wal_ops \<Rightarrow> proposer_elected \<Rightarrow> ('c, 'w, acceptor_proposer_message option) sk_prog" where
  "handle_elected cops wops msg =
     andthen (reads (sk_generation_of cops)) (\<lambda>generation.
     andthen (ensure (generation = pe_generation msg) GenerationMismatch) (\<lambda>_.
     andthen (reads (sk_term_of cops)) (\<lambda>term.
     andthen (whenp (term < pe_term msg) (raise_term cops (pe_term msg))) (\<lambda>_.
     andthen (reads (sk_term_of cops)) (\<lambda>term.
     if pe_term msg < term then ret None
     else andthen (start_streaming cops wops msg) (\<lambda>_. ret None))))))"

definition update_commit_lsn ::
  "'c ctrl_ops \<Rightarrow> 'w wal_ops \<Rightarrow> lsn \<Rightarrow> ('c, 'w, unit) sk_prog" where
  "update_commit_lsn cops wops candidate =
     andthen (reads (\<lambda>s. ms_commit_lsn (inmem s))) (\<lambda>old.
     andthen (reads (flush_lsn cops wops)) (\<lambda>flush.
     let commit_lsn = min (max candidate old) flush in
     andthen (ensure (old \<le> commit_lsn) CommitNotMonotone) (\<lambda>_.
     andthen (modify (\<lambda>s. s\<lparr>sk_state := (sk_state s)\<lparr>ts_inmem := (inmem s)\<lparr>ms_commit_lsn := commit_lsn\<rparr>\<rparr>\<rparr>)) (\<lambda>_.
     andthen (reads (\<lambda>s. sk_term_start_lsn s \<le> commit_lsn
                       \<and> ps_commit_lsn (pers cops s) < sk_term_start_lsn s)) (\<lambda>reached.
     whenp reached (in_state (ts_flush cops)))))))"

definition raise_peer_horizon :: "lsn \<Rightarrow> ('c, 'w) safekeeper \<Rightarrow> ('c, 'w) safekeeper" where
  "raise_peer_horizon l s = s\<lparr>sk_state := (sk_state s)\<lparr>ts_inmem := (inmem s)\<lparr>
     ms_peer_horizon_lsn := max (ms_peer_horizon_lsn (inmem s)) l\<rparr>\<rparr>\<rparr>"

text \<open>An append request of the current term.\<close>

definition append_in_term ::
  "'c ctrl_ops \<Rightarrow> 'w wal_ops \<Rightarrow> append_request \<Rightarrow> bool
     \<Rightarrow> ('c, 'w, acceptor_proposer_message option) sk_prog" where
  "append_in_term cops wops msg require_flush =
     andthen (reads (\<lambda>s. wal_write_lsn wops (sk_wal_store s))) (\<lambda>write_lsn.
     andthen (reads (\<lambda>s. wal_flush_lsn wops (sk_wal_store s))) (\<lambda>old_flush_lsn.
     andthen (ensure (\<not> ah_begin_lsn (ar_h msg) < write_lsn) AppendRewrites) (\<lambda>_.
     andthen (ensure (\<not> (write_lsn < ah_begin_lsn (ar_h msg) \<and> write_lsn \<noteq> 0)) AppendGap) (\<lambda>_.
     andthen (whenp (ar_wal_data msg \<noteq> [])
       (in_wal (wal_write_wal wops (ah_begin_lsn (ar_h msg)) (ar_wal_data msg)))) (\<lambda>_.
     andthen (whenp require_flush (in_wal (wal_flush_wal wops))) (\<lambda>_.
     andthen (whenp (ah_commit_lsn (ar_h msg) \<noteq> 0)
       (update_commit_lsn cops wops (ah_commit_lsn (ar_h msg)))) (\<lambda>_.
     andthen (modify (raise_peer_horizon (ah_truncate_lsn (ar_h msg)))) (\<lambda>_.
     reads (\<lambda>s. if \<not> require_flush \<and> old_flush_lsn = flush_lsn cops wops s then None
                else Some (AAppendResponse (append_response_of cops wops s)))))))))))"

definition handle_append_request ::
  "'c ctrl_ops \<Rightarrow> 'w wal_ops \<Rightarrow> append_request \<Rightarrow> bool
     \<Rightarrow> ('c, 'w, acceptor_proposer_message option) sk_prog" where
  "handle_append_request cops wops msg require_flush =
     andthen (reads (sk_generation_of cops)) (\<lambda>generation.
     andthen (ensure (generation = ah_generation (ar_h msg)) GenerationMismatch) (\<lambda>_.
     andthen (reads (sk_term_of cops)) (\<lambda>term.
     andthen (ensure (\<not> term < ah_term (ar_h msg)) AppendBeforeElected) (\<lambda>_.
     if ah_term (ar_h msg) < term then
       ret (Some (AAppendResponse (append_response_term_only generation term)))
     else append_in_term cops wops msg require_flush))))"

definition handle_flush ::
  "'c ctrl_ops \<Rightarrow> 'w wal_ops \<Rightarrow> ('c, 'w, acceptor_proposer_message option) sk_prog" where
  "handle_flush cops wops =
     andthen (in_wal (wal_flush_wal wops)) (\<lambda>_.
     reads (\<lambda>s. Some (AAppendResponse (append_response_of cops wops s))))"

fun process_msg ::
  "'c ctrl_ops \<Rightarrow> 'w wal_ops \<Rightarrow> proposer_acceptor_message
     \<Rightarrow> ('c, 'w, acceptor_proposer_message option) sk_prog" where
  "process_msg cops wops (Greeting msg) = handle_greeting cops msg"
| "process_msg cops wops (VoteRequest msg) = handle_vote_request cops wops msg"
| "process_msg cops wops (Elected msg) = handle_elected cops wops msg"
| "process_msg cops wops (AppendRequest msg) = handle_append_request cops wops msg True"
| "process_msg cops wops (NoFlushAppendRequest msg) = handle_append_request cops wops msg False"
| "process_msg cops wops FlushWAL = handle_flush cops wops"

record sk_timeline_info =
  sti_commit_lsn :: lsn
  sti_last_log_term :: sk_term

definition record_safekeeper_info ::
  "'c ctrl_ops \<Rightarrow> 'w wal_ops \<Rightarrow> sk_timeline_info \<Rightarrow> ('c, 'w, unit) sk_prog" where
  "record_safekeeper_info cops wops sk_info =
     andthen (reads (sk_last_log_term cops wops)) (\<lambda>last_log_term.
     whenp (sti_commit_lsn sk_info \<noteq> lsn_invalid \<and> sti_last_log_term sk_info = last_log_term)
       (update_commit_lsn cops wops (sti_commit_lsn sk_info)))"

end
