(* ===== verification/Sk_Safety.thy ===== *)
theory Sk_Safety
  imports Safekeeper
begin

text \<open>
  What the acceptor guarantees whatever messages arrive, whatever I/O fails and wherever it
  is interrupted: terms, generations and commit positions never move back, in memory and on
  disk, commits stay within the flushed log, and a vote is on disk before it is given. The
  proofs use the interfaces of the two storages only.
\<close>

section \<open>Messages\<close>

text \<open>
  Positions in messages stay below the end of the 64-bit range, and streaming never starts at
  position zero, which stands for an unknown position.
\<close>

fun msg_ok :: "proposer_acceptor_message \<Rightarrow> bool" where
  "msg_ok (Elected m) \<longleftrightarrow> pe_start_streaming_at m \<noteq> 0 \<and> unat (pe_start_streaming_at m) \<le> LSN_LIMIT"
| "msg_ok (AppendRequest m) \<longleftrightarrow> unat (ah_begin_lsn (ar_h m)) + length (ar_wal_data m) \<le> LSN_LIMIT"
| "msg_ok (NoFlushAppendRequest m) \<longleftrightarrow> unat (ah_begin_lsn (ar_h m)) + length (ar_wal_data m) \<le> LSN_LIMIT"
| "msg_ok _ \<longleftrightarrow> True"

text \<open>What an append response says of the safekeeper that sends it.\<close>

definition reports :: "'c ctrl_ops \<Rightarrow> 'w wal_ops \<Rightarrow> ('c, 'w) safekeeper \<Rightarrow> append_response \<Rightarrow> bool" where
  "reports cops wops s a \<longleftrightarrow>
     ap_generation a = sk_generation_of cops s \<and> ap_term a = sk_term_of cops s
     \<and> ap_flush_lsn a = flush_lsn cops wops s \<and> ap_commit_lsn a = ps_commit_lsn (pers cops s)"

text \<open>The answer to an append request; one of an earlier term only learns the term.\<close>

definition append_answer ::
  "'c ctrl_ops \<Rightarrow> 'w wal_ops \<Rightarrow> append_request \<Rightarrow> bool \<Rightarrow> ('c, 'w) safekeeper
     \<Rightarrow> acceptor_proposer_message option \<Rightarrow> ('c, 'w) safekeeper \<Rightarrow> bool" where
  "append_answer cops wops q require_flush s r s' \<longleftrightarrow>
     (if ah_term (ar_h q) < sk_term_of cops s then
        s' = s \<and> (\<exists>a. r = Some (AAppendResponse a) \<and> ap_generation a = sk_generation_of cops s
          \<and> ap_term a = sk_term_of cops s \<and> ap_flush_lsn a = 0 \<and> ap_commit_lsn a = 0)
      else if \<not> require_flush \<and> wal_flush_lsn wops (sk_wal_store s) = flush_lsn cops wops s' then r = None
      else \<exists>a. r = Some (AAppendResponse a) \<and> reports cops wops s' a)"

text \<open>
  The answer to each message, from the state \<open>s\<close> before it and \<open>s'\<close> after it. A vote is given
  exactly for a term above the safekeeper's own.
\<close>

fun reply_ok ::
  "'c ctrl_ops \<Rightarrow> 'w wal_ops \<Rightarrow> proposer_acceptor_message \<Rightarrow> ('c, 'w) safekeeper
     \<Rightarrow> acceptor_proposer_message option \<Rightarrow> ('c, 'w) safekeeper \<Rightarrow> bool" where
  "reply_ok cops wops (Greeting q) s r s' \<longleftrightarrow> (\<exists>g. r = Some (AGreeting g)
     \<and> ag_node_id g = sk_node_id s' \<and> ag_mconf g = ps_mconf (pers cops s') \<and> ag_term g = sk_term_of cops s'
     \<and> sk_term_of cops s' = sk_term_of cops s)"
| "reply_ok cops wops (VoteRequest q) s r s' \<longleftrightarrow> (\<exists>v. r = Some (AVoteResponse v)
     \<and> vp_generation v = sk_generation_of cops s' \<and> vp_term v = sk_term_of cops s'
     \<and> vp_flush_lsn v = flush_lsn cops wops s' \<and> vp_truncate_lsn v = ms_peer_horizon_lsn (inmem s')
     \<and> vp_term_history v = get_term_history cops wops s'
     \<and> vp_vote_given v = (sk_term_of cops s < vr_term q)
     \<and> vp_term v = (if vp_vote_given v then vr_term q else sk_term_of cops s))"
| "reply_ok cops wops (Elected q) s r s' \<longleftrightarrow> r = None"
| "reply_ok cops wops (AppendRequest q) s r s' \<longleftrightarrow> append_answer cops wops q True s r s'"
| "reply_ok cops wops (NoFlushAppendRequest q) s r s' \<longleftrightarrow> append_answer cops wops q False s r s'"
| "reply_ok cops wops FlushWAL s r s' \<longleftrightarrow> (\<exists>a. r = Some (AAppendResponse a) \<and> reports cops wops s' a)"

lemma reply_ok_vote:
  "reply_ok cops wops m s (Some (AVoteResponse v)) s' \<Longrightarrow>
     vp_term v = sk_term_of cops s' \<and> (vp_vote_given v \<longrightarrow> sk_term_of cops s < vp_term v)"
  by (cases m) (auto simp: append_answer_def split: if_splits)

text \<open>
  Where the log of a safekeeper leaves a proposer's history: at the point both share, or at
  its beginning when they share none.
\<close>

definition agreed_point ::
  "'c ctrl_ops \<Rightarrow> 'w wal_ops \<Rightarrow> term_history \<Rightarrow> ('c, 'w) safekeeper \<Rightarrow> lsn \<Rightarrow> bool" where
  "agreed_point cops wops th s l \<longleftrightarrow>
     (case find_highest_common_point th (get_term_history cops wops s) (flush_lsn cops wops s) of
        Inl _ \<Rightarrow> False
      | Inr (Some c) \<Rightarrow> l = tl_lsn c
      | Inr None \<Rightarrow> th \<noteq> [] \<and> l = tl_lsn (hd th))"

section \<open>Invariant and progress\<close>

abbreviation commit_of :: "('c, 'w) safekeeper \<Rightarrow> lsn" where
  "commit_of s \<equiv> ms_commit_lsn (inmem s)"

text \<open>\<open>ahead p r\<close>: the persistent state \<open>r\<close> is at or after \<open>p\<close>.\<close>

definition ahead :: "pers_state \<Rightarrow> pers_state \<Rightarrow> bool" where
  "ahead p r \<longleftrightarrow>
     as_term (ps_acceptor_state p) \<le> as_term (ps_acceptor_state r)
     \<and> conf_generation (ps_mconf p) \<le> conf_generation (ps_mconf r)
     \<and> ps_commit_lsn p \<le> ps_commit_lsn r
     \<and> (ps_timeline_start_lsn r = ps_timeline_start_lsn p \<or> ps_timeline_start_lsn p = 0)
     \<and> ps_tenant_id r = ps_tenant_id p \<and> ps_timeline_id r = ps_timeline_id p
     \<and> si_wal_seg_size (ps_server r) = si_wal_seg_size (ps_server p)"

lemma ahead_refl [simp]: "ahead p p"
  by (simp add: ahead_def)

lemma ahead_trans [trans]: "ahead p q \<Longrightarrow> ahead q r \<Longrightarrow> ahead p r"
  by (auto simp: ahead_def)

text \<open>\<open>durable\<close> and \<open>wok\<close> are those of the storages.\<close>

definition sk_inv ::
  "'c ctrl_ops \<Rightarrow> 'w wal_ops \<Rightarrow> ('c \<Rightarrow> pers_state set \<Rightarrow> bool) \<Rightarrow> ('w \<Rightarrow> bool)
     \<Rightarrow> ('c, 'w) safekeeper \<Rightarrow> bool" where
  "sk_inv cops wops durable wok s \<longleftrightarrow>
     durable (ts_pers (sk_state s)) {r. ahead (pers cops s) r}
     \<and> wok (sk_wal_store s)
     \<and> ps_commit_lsn (pers cops s) \<le> commit_of s \<and> commit_of s \<le> flush_lsn cops wops s"

definition sk_le :: "'c ctrl_ops \<Rightarrow> ('c, 'w) safekeeper \<Rightarrow> ('c, 'w) safekeeper \<Rightarrow> bool" where
  "sk_le cops s s' \<longleftrightarrow>
     ahead (pers cops s) (pers cops s') \<and> commit_of s \<le> commit_of s' \<and> sk_node_id s' = sk_node_id s"

lemma sk_le_refl [simp]: "sk_le cops s s"
  by (simp add: sk_le_def)

lemma sk_le_trans [trans]: "sk_le cops s t \<Longrightarrow> sk_le cops t u \<Longrightarrow> sk_le cops s u"
  by (auto simp: sk_le_def intro: ahead_trans)

lemma pers_upd [simp]:
  "pers cops (s\<lparr>sk_wal_store := w\<rparr>) = pers cops s" "pers cops (s\<lparr>sk_term_start_lsn := l\<rparr>) = pers cops s"
  "pers cops (s\<lparr>sk_state := t\<rparr>) = ts_state cops t"
  "inmem (s\<lparr>sk_wal_store := w\<rparr>) = inmem s" "inmem (s\<lparr>sk_term_start_lsn := l\<rparr>) = inmem s"
  "inmem (s\<lparr>sk_state := t\<rparr>) = ts_inmem t"
  by (simp_all add: pers_def inmem_def)

lemma ts_state_inmem [simp]: "ts_state cops (t\<lparr>ts_inmem := m\<rparr>) = ts_state cops t"
  by (simp add: ts_state_def)

lemma in_state_simps [simp]:
  "in_state (andthen m f) = andthen (in_state m) (\<lambda>x. in_state (f x))"
  "in_state (reads g) = reads (\<lambda>s. g (sk_state s))"
  "in_state (ret x) = ret x"
  "in_state (if b then m else n) = (if b then in_state m else in_state n)"
  by (auto simp: in_state_def zoom_def andthen_def reads_def ret_def fun_eq_iff
      split: sum.split prod.split)

locale acceptor = ctrl: control_storage cops restored durable + wal: wal_storage wops wok
  for cops :: "'c ctrl_ops" and restored and durable
    and wops :: "'w wal_ops" and wok
begin

abbreviation ok :: "('c, 'w) safekeeper \<Rightarrow> bool" where
  "ok \<equiv> sk_inv cops wops durable wok"

text \<open>A change of the persistent state, as every handler makes it.\<close>

lemma change_wp:
  assumes ok: "ok s" and st: "ahead (pers cops s) st" "commit_of s \<le> ps_commit_lsn st"
      and flush: "ps_commit_lsn st \<le> max (wal_flush_lsn wops (sk_wal_store s)) (ps_timeline_start_lsn st)"
  shows "wp (in_state (finish_change cops st))
     (\<lambda>_ s'. ok s' \<and> sk_le cops s s' \<and> pers cops s' = st \<and> inmem s' = mem_of st
        \<and> sk_wal_store s' = sk_wal_store s \<and> sk_term_start_lsn s' = sk_term_start_lsn s)
     (\<lambda>e s'. ok s' \<and> sk_le cops s s' \<and> (\<exists>c. e = SkCtrl c)) s"
proof -
  have st_r: "ahead st (restored st)" by (simp add: ahead_def)
  have "durable (ts_pers (sk_state s)) {r. ahead (pers cops s) r}" using ok by (simp add: sk_inv_def)
  note fin = ctrl.finish_change_wp [OF this, of st]
  show ?thesis
    unfolding in_state_def wp
  proof (rule wp_cons [OF fin])
    fix u t
    assume t: "ts_state cops t = st \<and> ts_inmem t = mem_of st \<and> durable (ts_pers t)
      (if st = ts_state cops (sk_state s) then {r. ahead (pers cops s) r} else {restored st})"
    then have "durable (ts_pers t) {r. ahead st r}"
      using st_r by (auto simp: pers_def split: if_splits elim: ctrl.durable_mono)
    then show "ok (s\<lparr>sk_state := t\<rparr>) \<and> sk_le cops s (s\<lparr>sk_state := t\<rparr>) \<and> pers cops (s\<lparr>sk_state := t\<rparr>) = st
       \<and> inmem (s\<lparr>sk_state := t\<rparr>) = mem_of st \<and> sk_wal_store (s\<lparr>sk_state := t\<rparr>) = sk_wal_store s
       \<and> sk_term_start_lsn (s\<lparr>sk_state := t\<rparr>) = sk_term_start_lsn s"
      using t ok st flush by (auto simp: sk_inv_def sk_le_def flush_lsn_def mem_of_def)
  next
    fix e t
    assume "ts_state cops t = ts_state cops (sk_state s) \<and> ts_inmem t = ts_inmem (sk_state s)
      \<and> durable (ts_pers t) (insert (restored st) {r. ahead (pers cops s) r})"
    moreover have "insert (restored st) {r. ahead (pers cops s) r} = {r. ahead (pers cops s) r}"
      using st(1) st_r by (auto intro: ahead_trans)
    ultimately show "ok (s\<lparr>sk_state := t\<rparr>) \<and> sk_le cops s (s\<lparr>sk_state := t\<rparr>) \<and> (\<exists>c. SkCtrl e = SkCtrl c)"
      using ok by (auto simp: sk_inv_def sk_le_def flush_lsn_def pers_def inmem_def)
  qed
qed

text \<open>
  \<open>safe m P s\<close>: run from \<open>s\<close>, \<open>m\<close> keeps the invariant, moves forward only and never fails
  the assertion on commit positions; a normal return satisfies \<open>P\<close>.
\<close>

abbreviation safe :: "('c, 'w, 'a) sk_prog \<Rightarrow> ('a \<Rightarrow> ('c, 'w) safekeeper \<Rightarrow> bool) \<Rightarrow> ('c, 'w) safekeeper \<Rightarrow> bool" where
  "safe m P s \<equiv> wp m (\<lambda>r s'. ok s' \<and> sk_le cops s s' \<and> P r s')
     (\<lambda>e s'. ok s' \<and> sk_le cops s s' \<and> e \<noteq> CommitNotMonotone) s"

lemma safe_step:
  assumes "safe m P s" and "sk_le cops b s"
      and "\<And>r s'. ok s' \<Longrightarrow> sk_le cops b s' \<Longrightarrow> P r s' \<Longrightarrow> R r s'"
      and "\<And>e s'. ok s' \<Longrightarrow> sk_le cops b s' \<Longrightarrow> e \<noteq> CommitNotMonotone \<Longrightarrow> E e s'"
  shows "wp m R E s"
  by (rule wp_cons [OF assms(1)]) (use assms(2-4) sk_le_trans in blast)+

lemma safe_reads: "ok s \<Longrightarrow> safe (reads f) (\<lambda>r s'. r = f s \<and> s' = s) s"
  by (simp add: wp)

lemma safe_whenp:
  "ok s \<Longrightarrow> (b \<Longrightarrow> safe m P s) \<Longrightarrow> safe (whenp b m) (\<lambda>r s'. if b then P r s' else s' = s) s"
  by (simp add: wp)

lemma safe_mono: "safe m P s \<Longrightarrow> (\<And>r s'. P r s' \<Longrightarrow> Q r s') \<Longrightarrow> safe m Q s"
  by (erule wp_cons) auto

text \<open>An operation on the WAL that keeps the committed part flushed.\<close>

lemma in_wal_safe:
  assumes ok: "ok s"
      and m: "wp m (\<lambda>_ w. wok w \<and> commit_of s \<le> max (wal_flush_lsn wops w) (ps_timeline_start_lsn (pers cops s)) \<and> R w)
               (\<lambda>_ w. wok w \<and> commit_of s \<le> max (wal_flush_lsn wops w) (ps_timeline_start_lsn (pers cops s)))
               (sk_wal_store s)"
  shows "safe (in_wal m) (\<lambda>_ s'. \<exists>w. s' = s\<lparr>sk_wal_store := w\<rparr> \<and> R w) s"
  unfolding in_wal_def wp_zoom
  by (rule wp_cons [OF m]) (use ok in \<open>auto simp: sk_inv_def sk_le_def flush_lsn_def\<close>)

lemma commit_flushed:
  "ok s \<Longrightarrow> wal_flush_lsn wops (sk_wal_store s) \<le> l \<Longrightarrow>
     commit_of s \<le> max l (ps_timeline_start_lsn (pers cops s))"
  unfolding sk_inv_def flush_lsn_def by (meson max.mono order_refl order_trans)

lemma wal_of_ok: "ok s \<Longrightarrow> wok (sk_wal_store s)"
  by (simp add: sk_inv_def)

lemma flush_safe:
  assumes "ok s"
  shows "safe (in_wal (wal_flush_wal wops))
     (\<lambda>_ s'. \<exists>w. s' = s\<lparr>sk_wal_store := w\<rparr> \<and> wal_flush_lsn wops (sk_wal_store s) \<le> wal_flush_lsn wops w) s"
  by (rule in_wal_safe [OF assms], rule wp_cons [OF wal.flush_wp [OF wal_of_ok [OF assms]]])
     (auto intro: commit_flushed [OF assms])

lemma write_safe:
  assumes "ok s" and "unat pos + length buf \<le> LSN_LIMIT"
  shows "safe (in_wal (wal_write_wal wops pos buf))
     (\<lambda>_ s'. \<exists>w. s' = s\<lparr>sk_wal_store := w\<rparr> \<and> wal_flush_lsn wops (sk_wal_store s) \<le> wal_flush_lsn wops w) s"
  by (rule in_wal_safe [OF assms(1)], rule wp_cons [OF wal.write_wp [OF wal_of_ok [OF assms(1)] assms(2)]])
     (auto intro: commit_flushed [OF assms(1)])

lemma init_safe:
  assumes "ok s"
  shows "safe (in_wal (wal_initialize_first_segment wops l)) (\<lambda>_ s'. \<exists>w. s' = s\<lparr>sk_wal_store := w\<rparr> \<and> True) s"
  by (rule in_wal_safe [OF assms], rule wp_cons [OF wal.init_wp [OF wal_of_ok [OF assms]]])
     (auto intro: commit_flushed [OF assms])

lemma truncate_safe:
  assumes "ok s" and "commit_of s \<le> p" and "p \<noteq> 0" and "unat p \<le> LSN_LIMIT"
  shows "safe (in_wal (wal_truncate_wal wops p))
     (\<lambda>_ s'. \<exists>w. s' = s\<lparr>sk_wal_store := w\<rparr> \<and> wal_flush_lsn wops w = p) s"
  by (rule in_wal_safe [OF assms(1)], rule wp_cons [OF wal.truncate_wp [OF wal_of_ok [OF assms(1)] assms(3,4)]])
     (use assms(2) commit_flushed [OF assms(1) order_refl] in \<open>auto simp: le_max_iff_disj\<close>)

text \<open>Changes of the persistent state.\<close>

lemma change_safe:
  assumes "ok s" and "ahead (pers cops s) st" and "commit_of s \<le> ps_commit_lsn st"
      and "ps_commit_lsn st \<le> max (wal_flush_lsn wops (sk_wal_store s)) (ps_timeline_start_lsn st)"
  shows "safe (in_state (finish_change cops st))
     (\<lambda>_ s'. pers cops s' = st \<and> inmem s' = mem_of st \<and> sk_wal_store s' = sk_wal_store s
        \<and> sk_term_start_lsn s' = sk_term_start_lsn s) s"
  by (rule wp_cons [OF change_wp [OF assms]]) auto

lemma start_change_ahead:
  "ok s \<Longrightarrow> ahead (pers cops s) (start_change cops (sk_state s))"
  "ok s \<Longrightarrow> ps_commit_lsn (start_change cops (sk_state s)) = commit_of s"
  "ok s \<Longrightarrow> commit_of s \<le> max (wal_flush_lsn wops (sk_wal_store s)) (ps_timeline_start_lsn (pers cops s))"
  by (auto simp: sk_inv_def ahead_def pers_def inmem_def flush_lsn_def)

lemma raise_term_safe:
  assumes "ok s" and "sk_term_of cops s \<le> t"
  shows "safe (raise_term cops t) (\<lambda>_ s'. sk_term_of cops s' = t \<and> sk_wal_store s' = sk_wal_store s
     \<and> inmem s' = inmem s \<and> sk_term_start_lsn s' = sk_term_start_lsn s
     \<and> pers cops s' = (start_change cops (sk_state s))\<lparr>ps_acceptor_state
         := (ps_acceptor_state (pers cops s))\<lparr>as_term := t\<rparr>\<rparr>) s"
proof -
  define st where "st = (start_change cops (sk_state s))\<lparr>ps_acceptor_state
      := (ps_acceptor_state (pers cops s))\<lparr>as_term := t\<rparr>\<rparr>"
  note sc = start_change_ahead [OF assms(1)]
  have st: "ahead (pers cops s) st" "ps_commit_lsn st = commit_of s" "mem_of st = inmem s"
    "ps_timeline_start_lsn st = ps_timeline_start_lsn (pers cops s)"
    "as_term (ps_acceptor_state st) = t"
    using sc assms(2) by (simp_all add: st_def ahead_def mem_of_def start_change_def inmem_def pers_def)
  have "safe (in_state (finish_change cops st))
     (\<lambda>_ s'. pers cops s' = st \<and> inmem s' = mem_of st \<and> sk_wal_store s' = sk_wal_store s
        \<and> sk_term_start_lsn s' = sk_term_start_lsn s) s"
    using st sc(3) by (intro change_safe [OF assms(1)]) simp_all
  then have "safe (in_state (finish_change cops st)) (\<lambda>_ s'. sk_term_of cops s' = t
     \<and> sk_wal_store s' = sk_wal_store s \<and> inmem s' = inmem s
     \<and> sk_term_start_lsn s' = sk_term_start_lsn s \<and> pers cops s' = st) s"
    by (rule safe_mono) (use st in auto)
  then show ?thesis
    unfolding raise_term_def wp_andthen wp_reads by (simp add: st_def pers_def)
qed

lemma check_greeting_safe:
  "ok s \<Longrightarrow> safe (check_greeting cops msg) (\<lambda>_ s'. s' = s) s"
  by (auto simp: check_greeting_def wp split: option.split)

lemma membership_switch_safe:
  assumes "ok s"
  shows "safe (in_state (membership_switch cops to)) (\<lambda>_ s'. inmem s' = inmem s
     \<and> sk_wal_store s' = sk_wal_store s \<and> sk_term_start_lsn s' = sk_term_start_lsn s
     \<and> sk_term_of cops s' = sk_term_of cops s) s"
proof -
  define st where "st = (start_change cops (sk_state s))\<lparr>ps_mconf := to\<rparr>"
  note sc = start_change_ahead [OF assms]
  have st: "ahead (pers cops s) st" "ps_commit_lsn st = commit_of s" "mem_of st = inmem s"
    "ps_timeline_start_lsn st = ps_timeline_start_lsn (pers cops s)"
    "ps_acceptor_state st = ps_acceptor_state (pers cops s)"
    if "conf_generation (ps_mconf (pers cops s)) < conf_generation to"
    using sc that by (simp_all add: st_def ahead_def mem_of_def start_change_def inmem_def pers_def)
  have "safe (in_state (finish_change cops st)) (\<lambda>_ s'. inmem s' = inmem s
     \<and> sk_wal_store s' = sk_wal_store s \<and> sk_term_start_lsn s' = sk_term_start_lsn s
     \<and> sk_term_of cops s' = sk_term_of cops s) s"
    if "conf_generation (ps_mconf (pers cops s)) < conf_generation to"
    using st [OF that] sc(3) by (intro safe_mono [OF change_safe [OF assms]]) simp_all
  then show ?thesis
    using assms by (simp add: membership_switch_def wp pers_def st_def)
qed

lemma learn_system_id_safe:
  assumes "ok s"
  shows "safe (learn_system_id cops msg) (\<lambda>_ s'. inmem s' = inmem s
     \<and> sk_wal_store s' = sk_wal_store s \<and> sk_term_start_lsn s' = sk_term_start_lsn s
     \<and> sk_term_of cops s' = sk_term_of cops s) s"
proof -
  define st where "st = (let state = start_change cops (sk_state s) in state\<lparr>ps_server := (ps_server state)\<lparr>
          si_system_id := pg_system_id msg,
          si_pg_version := (if pg_pg_version msg \<noteq> PG_VERSION_UNKNOWN then pg_pg_version msg
                            else si_pg_version (ps_server state))\<rparr>\<rparr>)"
  note sc = start_change_ahead [OF assms]
  have st: "ahead (pers cops s) st" "ps_commit_lsn st = commit_of s" "mem_of st = inmem s"
    "ps_timeline_start_lsn st = ps_timeline_start_lsn (pers cops s)"
    "ps_acceptor_state st = ps_acceptor_state (pers cops s)"
    using sc by (simp_all add: st_def ahead_def mem_of_def start_change_def inmem_def pers_def Let_def)
  have "safe (in_state (finish_change cops st)) (\<lambda>_ s'. inmem s' = inmem s
     \<and> sk_wal_store s' = sk_wal_store s \<and> sk_term_start_lsn s' = sk_term_start_lsn s
     \<and> sk_term_of cops s' = sk_term_of cops s) s"
    using st sc(3) by (intro safe_mono [OF change_safe [OF assms]]) simp_all
  then show ?thesis
    using assms by (simp add: learn_system_id_def wp st_def Let_def)
qed

lemma greeting_safe:
  assumes "ok s"
  shows "safe (handle_greeting cops msg) (reply_ok cops wops (Greeting msg) s) s"
proof -
  have switch: "safe (in_state (membership_switch cops to)) (\<lambda>_ s'. sk_term_of cops s' = sk_term_of cops s) s"
    if "ok s" for s :: "('c, 'w) safekeeper" and to
    by (rule safe_mono [OF membership_switch_safe [OF that]]) simp
  have "wp (learn_system_id cops msg)
     (\<lambda>_ s1. wp (ensure (\<not> (sk_generation_of cops s1 < conf_generation (pg_mconf msg)
              \<and> \<not> configuration_contains (pg_mconf msg) (sk_node_id s1))) NotAMember)
        (\<lambda>_. wp (in_state (membership_switch cops (pg_mconf msg)))
           (\<lambda>_ s'. ok s' \<and> sk_le cops s s' \<and> sk_term_of cops s' = sk_term_of cops s)
           (\<lambda>e s'. ok s' \<and> sk_le cops s s' \<and> e \<noteq> CommitNotMonotone))
        (\<lambda>e s'. ok s' \<and> sk_le cops s s' \<and> e \<noteq> CommitNotMonotone) s1)
     (\<lambda>e s'. ok s' \<and> sk_le cops s s' \<and> e \<noteq> CommitNotMonotone) s"
    by (rule safe_step [OF learn_system_id_safe [OF assms] sk_le_refl])
       (auto simp: wp_ensure intro!: safe_step [OF switch, where b = s])
  then show ?thesis
    unfolding handle_greeting_def wp_andthen wp_reads
    by (intro safe_step [OF check_greeting_safe [OF assms] sk_le_refl]) simp_all
qed

text \<open>The answer to a vote request reports the state left behind, which holds the vote.\<close>

abbreviation voted :: "vote_request \<Rightarrow> ('c, 'w) safekeeper \<Rightarrow> acceptor_proposer_message option
    \<Rightarrow> ('c, 'w) safekeeper \<Rightarrow> bool" where
  "voted msg s r s' \<equiv> \<exists>v. r = Some (AVoteResponse v)
     \<and> vp_vote_given v = (sk_term_of cops s < vr_term msg)
     \<and> sk_term_of cops s' = (if vp_vote_given v then vr_term msg else sk_term_of cops s)
     \<and> as_term_history (ps_acceptor_state (pers cops s')) = as_term_history (ps_acceptor_state (pers cops s))
     \<and> flush_lsn cops wops s \<le> flush_lsn cops wops s'
     \<and> vp_term v = sk_term_of cops s' \<and> vp_generation v = sk_generation_of cops s'
     \<and> vp_flush_lsn v = flush_lsn cops wops s' \<and> vp_truncate_lsn v = ms_peer_horizon_lsn (inmem s')
     \<and> vp_term_history v = get_term_history cops wops s'"

lemma give_vote_safe:
  assumes "ok s"
  shows "safe (give_vote cops msg (vote_refusal cops wops s)) (voted msg s) s"
proof (cases "sk_term_of cops s < vr_term msg")
  case True
  then show ?thesis
    unfolding give_vote_def
    by (simp add: wp) (rule safe_step [OF raise_term_safe [OF assms] sk_le_refl],
        auto simp: vote_refusal_def flush_lsn_def get_term_history_def pers_def)
next
  case False
  then show ?thesis using assms by (simp add: give_vote_def wp vote_refusal_def)
qed

lemma vote_safe:
  assumes "ok s"
  shows "safe (handle_vote_request cops wops msg) (voted msg s) s"
proof (cases "sk_generation_of cops s = vr_generation msg")
  case False
  then show ?thesis using assms by (simp add: handle_vote_request_def wp)
next
  case True
  have "wp (in_wal (wal_flush_wal wops))
     (\<lambda>_ s1. wp (give_vote cops msg (vote_refusal cops wops s1))
       (\<lambda>r s'. ok s' \<and> sk_le cops s s' \<and> voted msg s r s')
       (\<lambda>e s'. ok s' \<and> sk_le cops s s' \<and> e \<noteq> CommitNotMonotone) s1)
     (\<lambda>e s'. ok s' \<and> sk_le cops s s' \<and> e \<noteq> CommitNotMonotone) s"
  proof (rule safe_step [OF flush_safe [OF assms] sk_le_refl])
    fix u s1
    assume s1: "ok s1" "sk_le cops s s1" and w: "\<exists>w. s1 = s\<lparr>sk_wal_store := w\<rparr>
        \<and> wal_flush_lsn wops (sk_wal_store s) \<le> wal_flush_lsn wops w"
    then have same: "pers cops s1 = pers cops s" "flush_lsn cops wops s \<le> flush_lsn cops wops s1"
      by (auto simp: flush_lsn_def le_max_iff_disj max_def)
    show "wp (give_vote cops msg (vote_refusal cops wops s1))
       (\<lambda>r s'. ok s' \<and> sk_le cops s s' \<and> voted msg s r s')
       (\<lambda>e s'. ok s' \<and> sk_le cops s s' \<and> e \<noteq> CommitNotMonotone) s1"
      by (rule safe_step [OF give_vote_safe [OF s1(1)] s1(2)]) 
        (unfold same(1), use order_trans [OF same(2)] in blast, blast)
  qed simp
  then show ?thesis
    using True by (simp add: handle_vote_request_def wp_andthen wp_reads wp_ensure)
qed

lemma set_commit_ok:
  assumes "ok s" and "commit_of s \<le> c" and "c \<le> flush_lsn cops wops s"
  shows "ok (s\<lparr>sk_state := (sk_state s)\<lparr>ts_inmem := (inmem s)\<lparr>ms_commit_lsn := c\<rparr>\<rparr>\<rparr>)"
    and "sk_le cops s (s\<lparr>sk_state := (sk_state s)\<lparr>ts_inmem := (inmem s)\<lparr>ms_commit_lsn := c\<rparr>\<rparr>\<rparr>)"
  using assms by (auto simp: sk_inv_def sk_le_def flush_lsn_def pers_def)

lemma ts_flush_safe:
  assumes "ok s"
  shows "safe (in_state (ts_flush cops)) (\<lambda>_ s'. inmem s' = inmem s \<and> sk_wal_store s' = sk_wal_store s
     \<and> pers cops s' = start_change cops (sk_state s)) s"
proof -
  note sc = start_change_ahead [OF assms]
  have "safe (in_state (finish_change cops (start_change cops (sk_state s))))
     (\<lambda>_ s'. pers cops s' = start_change cops (sk_state s)
        \<and> inmem s' = mem_of (start_change cops (sk_state s))
        \<and> sk_wal_store s' = sk_wal_store s \<and> sk_term_start_lsn s' = sk_term_start_lsn s) s"
    using sc by (intro change_safe [OF assms]) (simp_all add: pers_def)
  then have "safe (in_state (finish_change cops (start_change cops (sk_state s))))
     (\<lambda>_ s'. inmem s' = inmem s \<and> sk_wal_store s' = sk_wal_store s
     \<and> pers cops s' = start_change cops (sk_state s)) s"
    by (rule safe_mono) (simp add: inmem_def)
  then show ?thesis by (simp add: ts_flush_def wp)
qed

text \<open>The assertion on the commit position holds, and the commit follows the candidate.\<close>

lemma update_commit_safe:
  assumes "ok s"
  shows "safe (update_commit_lsn cops wops cand) (\<lambda>_ s'.
     commit_of s' = min (max cand (commit_of s)) (flush_lsn cops wops s)
     \<and> sk_wal_store s' = sk_wal_store s \<and> ps_acceptor_state (pers cops s') = ps_acceptor_state (pers cops s)
     \<and> sk_generation_of cops s' = sk_generation_of cops s
     \<and> ps_timeline_start_lsn (pers cops s') = ps_timeline_start_lsn (pers cops s)
     \<and> flush_lsn cops wops s' = flush_lsn cops wops s) s"
proof -
  define c where "c = min (max cand (commit_of s)) (flush_lsn cops wops s)"
  define s1 where "s1 = s\<lparr>sk_state := (sk_state s)\<lparr>ts_inmem := (inmem s)\<lparr>ms_commit_lsn := c\<rparr>\<rparr>\<rparr>"
  have c: "commit_of s \<le> c" "c \<le> flush_lsn cops wops s"
    using assms by (auto simp: c_def sk_inv_def)
  note s1 = set_commit_ok [OF assms c, folded s1_def]
  have same: "commit_of s1 = c" "sk_wal_store s1 = sk_wal_store s" "pers cops s1 = pers cops s"
    "inmem s1 = (inmem s)\<lparr>ms_commit_lsn := c\<rparr>"
    by (simp_all add: s1_def pers_def)
  have "wp (whenp b (in_state (ts_flush cops)))
     (\<lambda>_ s'. ok s' \<and> sk_le cops s s' \<and> commit_of s' = c \<and> sk_wal_store s' = sk_wal_store s
        \<and> ps_acceptor_state (pers cops s') = ps_acceptor_state (pers cops s)
        \<and> sk_generation_of cops s' = sk_generation_of cops s
        \<and> ps_timeline_start_lsn (pers cops s') = ps_timeline_start_lsn (pers cops s)
        \<and> flush_lsn cops wops s' = flush_lsn cops wops s)
     (\<lambda>e s'. ok s' \<and> sk_le cops s s' \<and> e \<noteq> CommitNotMonotone) s1" for b
    by (rule safe_step [OF safe_whenp [OF s1(1) ts_flush_safe [OF s1(1)]] s1(2)])
       (use same in \<open>auto simp: flush_lsn_def pers_def split: if_splits\<close>)
  then show ?thesis
    using c by (simp add: update_commit_lsn_def Let_def wp_andthen wp_reads wp_ensure wp_modify
        c_def [symmetric] s1_def [symmetric])
qed

lemma raise_horizon_ok:
  assumes "ok s"
  shows "ok (raise_peer_horizon l s)" "sk_le cops s (raise_peer_horizon l s)"
    "pers cops (raise_peer_horizon l s) = pers cops s"
    "sk_wal_store (raise_peer_horizon l s) = sk_wal_store s"
    "commit_of (raise_peer_horizon l s) = commit_of s"
    "flush_lsn cops wops (raise_peer_horizon l s) = flush_lsn cops wops s"
  using assms
  by (simp_all add: raise_peer_horizon_def sk_inv_def sk_le_def flush_lsn_def pers_def)

lemma response_reported [simp]: "reports cops wops s (append_response_of cops wops s)"
  by (simp add: append_response_of_def reports_def)

text \<open>Steps that leave the term and the history alone and the log at least as long.\<close>

abbreviation grown :: "('c, 'w) safekeeper \<Rightarrow> 'x \<Rightarrow> ('c, 'w) safekeeper \<Rightarrow> bool" where
  "grown s r s' \<equiv> ps_acceptor_state (pers cops s') = ps_acceptor_state (pers cops s)
     \<and> ps_timeline_start_lsn (pers cops s') = ps_timeline_start_lsn (pers cops s)
     \<and> flush_lsn cops wops s \<le> flush_lsn cops wops s'"

lemma grown_wal:
  "wal_flush_lsn wops (sk_wal_store s) \<le> wal_flush_lsn wops w \<Longrightarrow>
     flush_lsn cops wops s \<le> flush_lsn cops wops (s\<lparr>sk_wal_store := w\<rparr>)"
  by (auto simp: flush_lsn_def le_max_iff_disj max_def)

lemma whenp_write_safe:
  assumes "ok s" and "unat pos + length buf \<le> LSN_LIMIT"
  shows "safe (whenp b (in_wal (wal_write_wal wops pos buf))) (grown s) s"
  using assms(1) by (auto simp: wp_whenp grown_wal intro: safe_mono [OF write_safe [OF assms]])

lemma whenp_flush_safe:
  assumes "ok s"
  shows "safe (whenp b (in_wal (wal_flush_wal wops))) (grown s) s"
  using assms by (auto simp: wp_whenp grown_wal intro: safe_mono [OF flush_safe [OF assms]])

lemma whenp_commit_safe:
  assumes "ok s"
  shows "safe (whenp b (update_commit_lsn cops wops c)) (grown s) s"
  using assms by (auto simp: wp_whenp intro: safe_mono [OF update_commit_safe [OF assms]])

lemma append_in_term_safe:
  assumes ok: "ok s" and len: "unat (ah_begin_lsn (ar_h msg)) + length (ar_wal_data msg) \<le> LSN_LIMIT"
  shows "safe (append_in_term cops wops msg rf)
     (\<lambda>r s'. grown s r s'
        \<and> r = (if \<not> rf \<and> wal_flush_lsn wops (sk_wal_store s) = flush_lsn cops wops s' then None
               else Some (AAppendResponse (append_response_of cops wops s')))) s"
proof (cases "\<not> ah_begin_lsn (ar_h msg) < wal_write_lsn wops (sk_wal_store s)
    \<and> \<not> (wal_write_lsn wops (sk_wal_store s) < ah_begin_lsn (ar_h msg)
          \<and> wal_write_lsn wops (sk_wal_store s) \<noteq> 0)")
  case False
  then show ?thesis using ok by (auto simp: append_in_term_def wp)
next
  case True
  define Q where "Q s' \<longleftrightarrow> ok s' \<and> sk_le cops s s' \<and> grown s () s'" for s'
  define E where "E e s' \<longleftrightarrow> ok s' \<and> sk_le cops s s' \<and> e \<noteq> CommitNotMonotone" for e s'
  have Q: "Q (raise_peer_horizon l s')"
    if "ok s'" "sk_le cops s s'" "grown s () s'" for l s'
  proof -
    note r = raise_horizon_ok [OF that(1), of l]
    have "sk_le cops s (raise_peer_horizon l s')" using that(2) r(2) by (rule sk_le_trans)
    then show ?thesis using r(1) that(3) by (simp add: Q_def r(3,6))
  qed
  have commit: "wp (whenp b (update_commit_lsn cops wops c)) (\<lambda>_ s'. Q (raise_peer_horizon l s')) E s'"
    if "ok s'" "sk_le cops s s'" "grown s () s'" for s' b c l
    by (rule safe_step [OF whenp_commit_safe [OF that(1)] that(2)]) (use that(3) Q E_def order_trans in auto)
  have flush: "wp (whenp rf (in_wal (wal_flush_wal wops)))
      (\<lambda>_. wp (whenp b (update_commit_lsn cops wops c)) (\<lambda>_ s'. Q (raise_peer_horizon l s')) E) E s'"
    if "ok s'" "sk_le cops s s'" "grown s () s'" for s' b c l
    by (rule safe_step [OF whenp_flush_safe [OF that(1)] that(2)])
       (use that(3) E_def order_trans in \<open>auto intro!: commit\<close>)
  have "wp (whenp d (in_wal (wal_write_wal wops (ah_begin_lsn (ar_h msg)) (ar_wal_data msg))))
     (\<lambda>_. wp (whenp rf (in_wal (wal_flush_wal wops)))
      (\<lambda>_. wp (whenp b (update_commit_lsn cops wops c)) (\<lambda>_ s'. Q (raise_peer_horizon l s')) E) E) E s" for d b c l
    by (rule safe_step [OF whenp_write_safe [OF ok len] sk_le_refl])
       (use E_def in \<open>auto intro!: flush\<close>)
  then show ?thesis
    using True by (simp add: append_in_term_def wp_andthen wp_reads wp_ensure wp_modify Q_def
        E_def [abs_def] del: de_Morgan_conj)
qed

lemma append_safe:
  assumes "ok s" and "unat (ah_begin_lsn (ar_h msg)) + length (ar_wal_data msg) \<le> LSN_LIMIT"
  shows "safe (handle_append_request cops wops msg rf)
     (\<lambda>r s'. append_answer cops wops msg rf s r s' \<and> grown s r s' \<and> ah_term (ar_h msg) \<le> sk_term_of cops s) s"
    (is "safe _ ?P s")
proof -
  have "safe (append_in_term cops wops msg rf) ?P s" if "ah_term (ar_h msg) = sk_term_of cops s"
    by (rule safe_mono [OF append_in_term_safe [OF assms]]) (use that in \<open>auto simp: append_answer_def\<close>)
  then show ?thesis
    using assms(1)
    by (auto simp: handle_append_request_def wp append_response_term_only_def not_less append_answer_def)
qed

lemma flush_msg_safe:
  assumes "ok s"
  shows "safe (handle_flush cops wops) (reply_ok cops wops FlushWAL s) s"
  unfolding handle_flush_def wp_andthen wp_reads
  by (rule safe_step [OF flush_safe [OF assms] sk_le_refl]) auto

lemma info_safe:
  assumes "ok s"
  shows "safe (record_safekeeper_info cops wops info) (\<lambda>_ s'. sk_term_of cops s' = sk_term_of cops s) s"
  unfolding record_safekeeper_info_def wp_andthen wp_reads
  by (rule safe_step [OF whenp_commit_safe [OF assms] sk_le_refl]) auto

lemma streaming_point_safe:
  "ok s \<Longrightarrow> safe (streaming_point cops wops msg)
     (\<lambda>l s'. s' = s \<and> agreed_point cops wops (pe_term_history msg) s (tl_lsn l)) s"
  by (auto simp: streaming_point_def agreed_point_def wp split: sum.split option.split list.split)

lemma adopt_history_safe:
  assumes "ok s" and "wal_flush_lsn wops (sk_wal_store s) = p" and "commit_of s \<le> p"
  shows "safe (in_state (finish_change cops (adopt_history msg (start_change cops (sk_state s)))))
     (\<lambda>_ s'. sk_term_of cops s' = sk_term_of cops s
        \<and> as_term_history (ps_acceptor_state (pers cops s')) = pe_term_history msg
        \<and> wal_flush_lsn wops (sk_wal_store s') = p) s"
proof -
  define st where "st = adopt_history msg (start_change cops (sk_state s))"
  note sc = start_change_ahead [OF assms(1)]
  have "ahead (pers cops s) st" "commit_of s \<le> ps_commit_lsn st"
    "ps_commit_lsn st \<le> max p (ps_timeline_start_lsn st)"
    "as_term (ps_acceptor_state st) = sk_term_of cops s"
    "as_term_history (ps_acceptor_state st) = pe_term_history msg"
    using sc assms(3)
    by (auto simp: st_def adopt_history_def Let_def ahead_def pers_def max.coboundedI1 le_max_iff_disj
        split: list.split)
  then show ?thesis
    using assms(2) unfolding st_def [symmetric]
    by (intro safe_mono [OF change_safe [OF assms(1)]]) auto
qed

lemma start_streaming_safe:
  assumes "ok s" and "pe_start_streaming_at msg \<noteq> 0" and "unat (pe_start_streaming_at msg) \<le> LSN_LIMIT"
  shows "safe (start_streaming cops wops msg) (\<lambda>_ s'. sk_term_of cops s' = sk_term_of cops s
     \<and> as_term_history (ps_acceptor_state (pers cops s')) = pe_term_history msg
     \<and> wal_flush_lsn wops (sk_wal_store s') = pe_start_streaming_at msg
     \<and> agreed_point cops wops (pe_term_history msg) s (pe_start_streaming_at msg)
     \<and> commit_of s \<le> pe_start_streaming_at msg) s"
proof -
  define p where "p = pe_start_streaming_at msg"
  define point where "point \<longleftrightarrow> agreed_point cops wops (pe_term_history msg) s p"
  define Q where "Q s' \<longleftrightarrow> ok s' \<and> sk_le cops s s' \<and> sk_term_of cops s' = sk_term_of cops s
     \<and> as_term_history (ps_acceptor_state (pers cops s')) = pe_term_history msg
     \<and> wal_flush_lsn wops (sk_wal_store s') = p \<and> point \<and> commit_of s \<le> p" for s'
  define E where "E e s' \<longleftrightarrow> ok s' \<and> sk_le cops s s' \<and> e \<noteq> CommitNotMonotone" for e s'
  define fin where "fin = (case pe_term_history msg of [] \<Rightarrow> throw EmptyTermHistory
     | es \<Rightarrow> modify (\<lambda>s :: ('c, 'w) safekeeper. s\<lparr>sk_term_start_lsn := tl_lsn (last es)\<rparr>))"
  have fin: "wp fin (\<lambda>_. Q) E s'" if "Q s'" for s'
    using that by (auto simp: fin_def wp Q_def E_def sk_inv_def sk_le_def flush_lsn_def split: list.split)
  have adopt: "wp (in_state (finish_change cops (adopt_history msg (start_change cops (sk_state s')))))
      (\<lambda>_. wp fin (\<lambda>_. Q) E) E s'"
    if "ok s'" "sk_le cops s s'" "wal_flush_lsn wops (sk_wal_store s') = p" "commit_of s' \<le> p"
      "sk_term_of cops s' = sk_term_of cops s" "point" "commit_of s \<le> p" for s'
    by (rule safe_step [OF adopt_history_safe [OF that(1,3,4), of msg] that(2)])
       (use that(5-7) in \<open>auto intro!: fin simp: Q_def E_def\<close>)
  have trunc: "wp (in_wal (wal_truncate_wal wops p))
      (\<lambda>_ s'. wp (in_state (finish_change cops (adopt_history msg (start_change cops (sk_state s')))))
        (\<lambda>_. wp fin (\<lambda>_. Q) E) E s') E s'"
    if "ok s'" "sk_le cops s s'" "commit_of s' \<le> p" "pers cops s' = pers cops s" "point" "commit_of s \<le> p" for s'
    by (rule safe_step [OF truncate_safe [OF that(1,3) assms(2,3) [folded p_def]] that(2)])
       (use that(3-6) in \<open>auto intro!: adopt simp: E_def\<close>)
  have init: "wp (whenp b (in_wal (wal_initialize_first_segment wops p)))
      (\<lambda>_. wp (in_wal (wal_truncate_wal wops p))
        (\<lambda>_ s'. wp (in_state (finish_change cops (adopt_history msg (start_change cops (sk_state s')))))
          (\<lambda>_. wp fin (\<lambda>_. Q) E) E s') E) E s" if "commit_of s \<le> p" "point" for b
    by (rule safe_step [OF safe_whenp [OF assms(1) init_safe [OF assms(1)]] sk_le_refl])
       (use that in \<open>auto intro!: trunc simp: E_def split: if_splits\<close>)
  have "wp (streaming_point cops wops msg)
     (\<lambda>lcp. wp (ensure (tl_lsn lcp = p) UnexpectedTruncationPoint)
       (\<lambda>_ s'. wp (ensure (commit_of s' \<le> p) TruncatesCommitted)
         (\<lambda>_ s'. wp (whenp (wal_flush_lsn wops (sk_wal_store s') = lsn_invalid)
             (in_wal (wal_initialize_first_segment wops p)))
           (\<lambda>_. wp (in_wal (wal_truncate_wal wops p))
             (\<lambda>_ s'. wp (in_state (finish_change cops (adopt_history msg (start_change cops (sk_state s')))))
               (\<lambda>_. wp fin (\<lambda>_. Q) E) E s') E) E s') E s') E) E s"
    by (rule safe_step [OF streaming_point_safe [OF assms(1)] sk_le_refl])
       (use init assms(1) in \<open>auto simp: wp_ensure E_def point_def\<close>)
  then show ?thesis
    unfolding start_streaming_def wp_andthen wp_reads p_def [symmetric] fin_def [symmetric]
    by (simp add: Q_def [abs_def] E_def [abs_def] point_def [unfolded p_def] p_def)
qed

lemma elected_safe:
  assumes "ok s" and "pe_start_streaming_at msg \<noteq> 0" and "unat (pe_start_streaming_at msg) \<le> LSN_LIMIT"
  shows "safe (handle_elected cops wops msg) (\<lambda>r s'. r = None
     \<and> sk_term_of cops s' = max (sk_term_of cops s) (pe_term msg)
     \<and> (sk_term_of cops s' = pe_term msg \<longrightarrow>
          as_term_history (ps_acceptor_state (pers cops s')) = pe_term_history msg
          \<and> wal_flush_lsn wops (sk_wal_store s') = pe_start_streaming_at msg
          \<and> agreed_point cops wops (pe_term_history msg) s (pe_start_streaming_at msg)
          \<and> commit_of s \<le> pe_start_streaming_at msg)) s"
    (is "safe _ ?P s")
proof (cases "sk_generation_of cops s = pe_generation msg")
  case False
  then show ?thesis using assms(1) by (simp add: handle_elected_def wp)
next
  case True
  define E where "E e s' \<longleftrightarrow> ok s' \<and> sk_le cops s s' \<and> e \<noteq> CommitNotMonotone" for e s'
  have stream: "wp (if pe_term msg < sk_term_of cops s' then ret None
        else andthen (start_streaming cops wops msg) (\<lambda>_. ret None))
      (\<lambda>r s'. ok s' \<and> sk_le cops s s' \<and> ?P r s') E s'"
    if "ok s'" "sk_le cops s s'" "sk_term_of cops s' = max (sk_term_of cops s) (pe_term msg)"
      "get_term_history cops wops s' = get_term_history cops wops s" "flush_lsn cops wops s' = flush_lsn cops wops s"
      "commit_of s' = commit_of s" for s'
  proof (cases "pe_term msg < sk_term_of cops s'")
    case True
    then show ?thesis using that by (auto simp: wp)
  next
    case False
    then show ?thesis
      by (simp add: wp) (rule safe_step [OF start_streaming_safe [OF that(1) assms(2,3)] that(2)],
          use that(3-6) E_def in \<open>auto simp: agreed_point_def\<close>)
  qed
  let ?R = "\<lambda>_ :: unit. \<lambda>s'. sk_term_of cops s' = max (sk_term_of cops s) (pe_term msg)
     \<and> get_term_history cops wops s' = get_term_history cops wops s \<and> flush_lsn cops wops s' = flush_lsn cops wops s
     \<and> commit_of s' = commit_of s"
  have "safe (raise_term cops (pe_term msg)) ?R s" if "sk_term_of cops s < pe_term msg"
    by (rule safe_mono [OF raise_term_safe [OF assms(1)]])
       (use that in \<open>auto simp: get_term_history_def flush_lsn_def pers_def max_absorb2\<close>)
  then have raise: "safe (whenp (sk_term_of cops s < pe_term msg) (raise_term cops (pe_term msg))) ?R s"
    using assms(1) by (auto simp: wp_whenp not_less)
  have "wp (whenp (sk_term_of cops s < pe_term msg) (raise_term cops (pe_term msg)))
     (\<lambda>_ s'. wp (if pe_term msg < sk_term_of cops s' then ret None
        else andthen (start_streaming cops wops msg) (\<lambda>_. ret None))
      (\<lambda>r s'. ok s' \<and> sk_le cops s s' \<and> ?P r s') E s') E s"
    by (rule safe_step [OF raise sk_le_refl]) (use stream E_def in auto)
  then show ?thesis
    using True unfolding handle_elected_def wp_andthen wp_reads wp_ensure
    by (simp add: E_def [abs_def])
qed

lemma term_bump_safe:
  assumes "ok s"
  shows "safe (in_state (term_bump cops to)) (\<lambda>_ s'. True) s"
proof -
  have "safe (raise_term cops t) (\<lambda>_ s'. True) s" if "sk_term_of cops s < t" for t
    using that by (intro safe_mono [OF raise_term_safe [OF assms]]) auto
  then show ?thesis
    using assms
    by (auto simp: term_bump_def Let_def wp raise_term_def pers_def whenp_def split: option.split)
qed

lemma process_msg_safe:
  assumes "ok s" and "msg_ok m"
  shows "safe (process_msg cops wops m) (reply_ok cops wops m s) s"
proof (cases m)
  case (Greeting g)
  show ?thesis unfolding Greeting process_msg.simps by (rule greeting_safe [OF assms(1)])
next
  case (VoteRequest v)
  show ?thesis
    unfolding VoteRequest process_msg.simps
    by (rule safe_mono [OF vote_safe [OF assms(1)]], unfold reply_ok.simps, elim exE conjE,
        rule exI, intro conjI, assumption) simp_all
next
  case (Elected e)
  show ?thesis
    unfolding Elected process_msg.simps
    by (rule safe_mono [OF elected_safe [OF assms(1)]]) (use assms(2) Elected in auto)
next
  case (AppendRequest a)
  show ?thesis
    unfolding AppendRequest process_msg.simps
    by (rule safe_mono [OF append_safe [OF assms(1)]]) (use assms(2) AppendRequest in auto)
next
  case (NoFlushAppendRequest a)
  show ?thesis
    unfolding NoFlushAppendRequest process_msg.simps
    by (rule safe_mono [OF append_safe [OF assms(1)]]) (use assms(2) NoFlushAppendRequest in auto)
next
  case FlushWAL
  show ?thesis unfolding FlushWAL process_msg.simps by (rule flush_msg_safe [OF assms(1)])
qed

end

end
