(* ===== verification/Wal_Restart.thy ===== *)
theory Wal_Restart
  imports Wal_Positions
begin

text \<open>
  Restart of PhysicalStorage: the search for the end of the WAL on disk returns, and never
  below the position it starts at, so the storage is opened at or above the commit position
  and satisfies \<open>wal_ok\<close>.
\<close>

section \<open>The search for the end of WAL\<close>

text \<open>
  A directory of segments: files no longer than a segment, and none for the last segment of
  the address space.
\<close>

definition last_segno :: nat where
  "last_segno = 2 ^ 40 - 1"

definition segments_ok :: "fs \<Rightarrow> bool" where
  "segments_ok s \<longleftrightarrow> fs_ok s
     \<and> (\<forall>f \<in> set (fs_files s). length (f_data f) \<le> unat WAL_SEGMENT_SIZE)
     \<and> map_of (fs_dir s) (fst (wal_file_paths (of_nat last_segno) WAL_SEGMENT_SIZE)) = None
     \<and> map_of (fs_dir s) (snd (wal_file_paths (of_nat last_segno) WAL_SEGMENT_SIZE)) = None"

lemma segments_ok_faults [simp]: "segments_ok (s\<lparr>fs_faults := fl\<rparr>) = segments_ok s"
  by (simp add: segments_ok_def fs_ok_def)

lemma segments_ok_open:
  assumes "segments_ok s" and "segno = segment_number l WAL_SEGMENT_SIZE"
      and "map_of (fs_dir s) (XLogFileName PG_TLI segno WAL_SEGMENT_SIZE) = Some i
           \<or> map_of (fs_dir s) (XLogFileName PG_TLI segno WAL_SEGMENT_SIZE @ partial_suffix) = Some i"
  shows "i < length (fs_files s)" and "unat segno < last_segno"
proof -
  show "i < length (fs_files s)" using assms(1,3) by (auto simp: segments_ok_def fs_ok_def)
  have "segno \<noteq> of_nat last_segno"
    using assms(1,3) by (auto simp: segments_ok_def wal_file_paths_def Let_def)
  then have "unat segno \<noteq> last_segno"
    by (auto simp: word_unat_eq_iff unat_of_nat last_segno_def)
  moreover have "unat segno < 2 ^ 40"
    using assms(2) unsigned_less [of l, where 'a = nat]
    by (simp add: unat_segment_number WAL_SEGMENT_SIZE_def div_less_iff_less_mult)
  ultimately show "unat segno < last_segno" by (simp add: last_segno_def)
qed

lemma open_wal_segment_wp:
  "wp (open_wal_segment name)
     (\<lambda>r t. (\<exists>fl. t = s\<lparr>fs_faults := fl\<rparr>)
        \<and> (\<forall>i. r = Some i \<longrightarrow> map_of (fs_dir s) name = Some i
                 \<or> map_of (fs_dir s) (name @ partial_suffix) = Some i))
     (\<lambda>e t. \<exists>fl. t = s\<lparr>fs_faults := fl\<rparr>) s"
  unfolding open_wal_segment_def wp
  by (intro wp_file_open) (auto simp: wp intro!: wp_file_open)

lemma file_read_wp:
  "wp (file_read i pos n)
     (\<lambda>b t. (\<exists>fl. t = s\<lparr>fs_faults := fl\<rparr>) \<and> b = take n (drop pos (f_data (fs_files s ! i))))
     (\<lambda>e t. \<exists>fl. t = s\<lparr>fs_faults := fl\<rparr>) s"
  unfolding file_read_def by (intro wp_io_try) (auto simp: wp)

definition reading_ok :: "fs \<Rightarrow> (inode \<times> nat \<times> xlog_segno) option \<Rightarrow> lsn \<Rightarrow> bool" where
  "reading_ok s opened curr_lsn \<longleftrightarrow>
     (\<forall>i pos segno. opened = Some (i, pos, segno) \<longrightarrow>
        i < length (fs_files s) \<and> unat segno < last_segno
        \<and> (segno = segment_number curr_lsn WAL_SEGMENT_SIZE \<longrightarrow>
             pos = unat (segment_offset curr_lsn WAL_SEGMENT_SIZE)))"

text \<open>Reading on in the open segment stays within it.\<close>

lemma read_within_segment:
  assumes "segment_number curr_lsn WAL_SEGMENT_SIZE = segno" and "unat segno < last_segno"
      and "unat (segment_offset curr_lsn WAL_SEGMENT_SIZE) + n \<le> unat WAL_SEGMENT_SIZE"
      and "curr_lsn' = curr_lsn + of_nat n"
  shows "lsn_add curr_lsn (of_nat n) = Some curr_lsn'" and "unat curr_lsn' = unat curr_lsn + n" and "unat curr_lsn' \<le> last_segno * 16777216"
    and "segment_number curr_lsn' WAL_SEGMENT_SIZE = segno \<Longrightarrow>
           unat (segment_offset curr_lsn' WAL_SEGMENT_SIZE)
             = unat (segment_offset curr_lsn WAL_SEGMENT_SIZE) + n"
proof -
  have sz: "unat WAL_SEGMENT_SIZE = 16777216" by (simp add: WAL_SEGMENT_SIZE_def)
  have n: "n \<le> 16777216" using assms(3) by (simp add: sz)
  have dec: "unat curr_lsn = unat segno * 16777216 + unat (segment_offset curr_lsn WAL_SEGMENT_SIZE)"
    using segment_decompose [of curr_lsn WAL_SEGMENT_SIZE] assms(1) by (simp add: sz)
  have seg: "unat segno * 16777216 + 16777216 \<le> last_segno * 16777216"
    using assms(2) by simp
  then have sum: "unat curr_lsn + n \<le> last_segno * 16777216"
    using dec assms(3) sz by linarith
  then have "unat curr_lsn + n < 2 ^ 64" by (simp add: last_segno_def)
  then show curr_lsn': "unat curr_lsn' = unat curr_lsn + n"
      "lsn_add curr_lsn (of_nat n) = Some curr_lsn'"
    using n by (simp_all add: lsn_add_def checked_add_def assms(4) unat_of_nat unat_word_ariths)
  show "unat curr_lsn' \<le> last_segno * 16777216"
    using curr_lsn' sum by simp
  assume "segment_number curr_lsn' WAL_SEGMENT_SIZE = segno"
  then have "unat curr_lsn' = unat segno * 16777216 + unat (segment_offset curr_lsn' WAL_SEGMENT_SIZE)"
    using segment_decompose [of curr_lsn' WAL_SEGMENT_SIZE] by (simp add: sz)
  then show "unat (segment_offset curr_lsn' WAL_SEGMENT_SIZE)
             = unat (segment_offset curr_lsn WAL_SEGMENT_SIZE) + n"
    using curr_lsn' dec by linarith
qed

lemma end_limit: "last_segno * 16777216 \<le> LSN_LIMIT" "seg_up (last_segno * 16777216) \<le> LSN_LIMIT"
  by (simp_all add: last_segno_def LSN_LIMIT_def seg_up_def)

definition end_found :: "fs \<Rightarrow> lsn \<Rightarrow> (wal_error + lsn) \<times> fs \<Rightarrow> bool" where
  "end_found s start r \<longleftrightarrow> (\<exists>fl. snd r = s\<lparr>fs_faults := fl\<rparr>)
     \<and> (\<forall>l. fst r = Inr l \<longrightarrow> start \<le> l \<and> unat l \<le> LSN_LIMIT)
     \<and> (\<forall>e. fst r = Inl e \<longrightarrow> (\<exists>x. e = WalIo x))"

lemma end_found_faults: "end_found (s\<lparr>fs_faults := fl\<rparr>) start r \<Longrightarrow> end_found s start r"
  by (auto simp: end_found_def)

lemma fs_faults_self: "\<exists>fl. s = s\<lparr>fs_faults := fl\<rparr>" for s :: fs
  by (rule exI [of _ "fs_faults s"]) simp

lemma drain_end:
  assumes "wd_ok d" and "\<And>v. 0 < XLOG_SIZE_OF_XLOG_RECORD (pgs v)"
      and "drain pgs (\<lambda>l b r. l) d result = (q, d', result')"
      and "start \<le> result" and "result \<le> wd_floor d" and "unat result \<le> LSN_LIMIT"
      and "wd_pos d \<le> last_segno * 16777216"
  shows "q \<noteq> DrainStuck" "wd_ok d'" "q = Drained \<Longrightarrow> wd_pos d' = wd_pos d"
    "start \<le> result'" "result' \<le> wd_floor d'" "unat result' \<le> LSN_LIMIT"
proof -
  define I where "I l r \<longleftrightarrow> start \<le> r \<and> r \<le> l \<and> unat r \<le> LSN_LIMIT" for l r
  have init: "I result result" using assms(4,6) by (simp add: I_def)
  have "seg_up (wd_pos d) \<le> LSN_LIMIT"
    using seg_up_mono [OF assms(7)] end_limit(2) by simp
  then have step: "I l' l'" if "I l r" "l < l'" "unat l' \<le> seg_up (wd_pos d)" for l l' r
    using that by (auto simp: I_def)
  have "q \<noteq> DrainStuck \<and> wd_ok d' \<and> wd_pos d' \<le> wd_pos d
     \<and> wd_pg_version d' = wd_pg_version d
     \<and> (wd_pos d' = wd_pos d \<or> q \<noteq> Drained \<and> unat (wd_floor d') \<le> wd_pos d)
     \<and> (\<exists>l'. I l' result' \<and> l' \<le> wd_floor d')"
    by (rule drain_ok [where I = I, OF assms(1,2,3) init assms(5) refl]) (rule step)
  then show "q \<noteq> DrainStuck" "wd_ok d'" "q = Drained \<Longrightarrow> wd_pos d' = wd_pos d"
    "start \<le> result'" "result' \<le> wd_floor d'" "unat result' \<le> LSN_LIMIT"
    by (auto simp: I_def)
qed

lemma find_end_loop_ok:
  assumes "\<And>v. 0 < XLOG_SIZE_OF_XLOG_RECORD (pgs v)" and "sz = WAL_SEGMENT_SIZE"
      and "segments_ok s" and "wd_ok d" and "wd_pos d = unat curr_lsn"
      and "start \<le> result" and "result \<le> wd_floor d" and "unat result \<le> LSN_LIMIT"
      and "reading_ok s opened curr_lsn"
  shows "end_found s start (find_end_loop pgs sz opened curr_lsn d result s)"
  using assms
proof (induction pgs sz opened curr_lsn d result s rule: find_end_loop.induct)
  case (1 pgs sz curr_lsn d result s)
  define segno where "segno = segment_number curr_lsn sz"
  obtain r s1 where r: "open_wal_segment (XLogFileName PG_TLI segno sz) s = (r, s1)" by force
  from open_wal_segment_wp [of "XLogFileName PG_TLI segno sz" s] r
  obtain fl where s1: "s1 = s\<lparr>fs_faults := fl\<rparr>"
    and name: "\<And>i. r = Inr (Some i) \<Longrightarrow> map_of (fs_dir s) (XLogFileName PG_TLI segno sz) = Some i
                 \<or> map_of (fs_dir s) (XLogFileName PG_TLI segno sz @ partial_suffix) = Some i"
    by (auto simp: wp_def split: sum.splits)
  show ?case
  proof (cases "\<exists>i. r = Inr (Some i)")
    case False
    then show ?thesis
      using 1(7,9) r s1
      by (auto simp: end_found_def Let_def segno_def [symmetric] split: sum.splits option.splits)
  next
    case True
    then obtain i where i: "r = Inr (Some i)" by blast
    have "i < length (fs_files s)" "unat segno < last_segno"
      using segments_ok_open [OF 1(4) segno_def [unfolded 1(3)]] name [OF i] 1(3) by auto
    then have "reading_ok s2 (Some (i, unat (segment_offset curr_lsn sz), segno)) curr_lsn"
      if "s2 = s\<lparr>fs_faults := fl2\<rparr>" for s2 fl2
      using that 1(3) by (simp add: reading_ok_def)
    moreover obtain q s2 where q: "file_seek i s1 = (q, s2)" by force
    from wp_file_flush(2) [of "\<lambda>_ t. \<exists>fl. t = s\<lparr>fs_faults := fl\<rparr>" s1 "\<lambda>_ t. \<exists>fl. t = s\<lparr>fs_faults := fl\<rparr>" i] q
    obtain fl2 where s2: "s2 = s\<lparr>fs_faults := fl2\<rparr>"
      by (auto simp: wp_def s1 split: sum.splits)
    ultimately have "end_found s start
        (find_end_loop pgs sz (Some (i, unat (segment_offset curr_lsn sz), segno)) curr_lsn d result s2)"
      if "q = Inr ()"
      using 1(1) [OF segno_def r [symmetric] i refl q [symmetric] that 1(2,3)] 1(4-9)
      by (intro end_found_faults [where s = s and fl = fl2]) auto
    then show ?thesis
      using r i q s2 by (auto simp: Let_def segno_def [symmetric] end_found_def [of _ _ "(Inl _, _)"]
          split: sum.splits)
  qed
next
  case (2 pgs sz i pos segno curr_lsn d result s)
  show ?case
  proof (cases "segment_number curr_lsn sz = segno")
    case False
    then show ?thesis using 2 by (simp add: reading_ok_def)
  next
    case True
    obtain r s1 where r: "file_read i pos (unat XLOG_BLCKSZ) s = (r, s1)" by force
    from file_read_wp [of i pos "unat XLOG_BLCKSZ" s] r
    obtain fl where s1: "s1 = s\<lparr>fs_faults := fl\<rparr>"
      and buf: "\<And>b. r = Inr b \<Longrightarrow> b = take (unat XLOG_BLCKSZ) (drop pos (f_data (fs_files s ! i)))"
      by (auto simp: wp_def split: sum.splits)
    show ?thesis
    proof (cases "\<exists>b. r = Inr b \<and> b \<noteq> []")
      case False
      then show ?thesis
        using True 2(8,10) r s1 by (auto simp: end_found_def split: sum.splits)
    next
      case True2: True
      then obtain b where b: "r = Inr b" "b \<noteq> []" by blast
      have i: "i < length (fs_files s)" and segno: "unat segno < last_segno"
        and pos: "pos = unat (segment_offset curr_lsn WAL_SEGMENT_SIZE)"
        using 2(11) True 2(4) by (auto simp: reading_ok_def)
      have "length (f_data (fs_files s ! i)) \<le> unat WAL_SEGMENT_SIZE"
        using 2(5) i by (simp add: segments_ok_def)
      then have "unat (segment_offset curr_lsn WAL_SEGMENT_SIZE) + length b \<le> unat WAL_SEGMENT_SIZE"
        using buf [OF b(1)] b(2) pos by auto
      note seg = read_within_segment [OF True [unfolded 2(4)] segno this refl]
      define curr_lsn' where "curr_lsn' = curr_lsn + of_nat (length b)"
      note seg = seg [folded curr_lsn'_def]
      have "wd_pos d + length b \<le> LSN_LIMIT"
        using seg(2,3) 2(7) end_limit(1) by simp
      note feed = wd_ok_feed [OF 2(6) this]
      have floor: "wd_floor (feed_bytes b d) = wd_floor d"
        by (simp add: wd_floor_def split: wd_state.split)
      obtain q d' result' where dr: "drain pgs (\<lambda>l b r. l) (feed_bytes b d) result = (q, d', result')"
        by (metis prod_cases3)
      note de = drain_end [OF feed(1) 2(3) dr 2(8) _ 2(10), unfolded floor, OF 2(9)]
      note de = de [unfolded feed(2) 2(7) seg(2) [symmetric], OF seg(3)]
      have "reading_ok s1 (Some (i, pos + length b, segno)) curr_lsn'"
        using i segno seg(4) pos by (auto simp: reading_ok_def s1)
      then have "end_found s start
          (find_end_loop pgs sz (Some (i, pos + length b, segno)) curr_lsn' d' result' s1)"
        if "q = Drained"
        using 2(2) [OF _ r [symmetric] b seg(1) dr [symmetric] that refl 2(3,4)] True de that 2(5)
        by (intro end_found_faults [where s = s and fl = fl]) (auto simp: s1)
      then show ?thesis
        using True r b seg(1) dr de s1
        by (auto simp: end_found_def [of _ _ "(Inr _, _)"] split: drain_end.split)
    qed
  qed
qed

section \<open>Restart\<close>

lemma io_try_no_fault [simp]: "fs_faults s = [] \<Longrightarrow> io_try m s = m s"
  by (simp add: io_try_def draw_def andthen_def)

lemma open_wal_segment_no_fault:
  "fs_faults s = [] \<Longrightarrow> \<exists>r. open_wal_segment name s = (Inr r, s)"
  by (auto simp: open_wal_segment_def file_open_def prog_defs split: option.split)

lemma find_end_loop_no_fault:
  "fs_faults s = [] \<Longrightarrow> fst (find_end_loop pgs sz opened curr_lsn d result s) \<noteq> Inl (WalIo e)"
proof (induction pgs sz opened curr_lsn d result s rule: find_end_loop.induct)
  case (1 pgs sz curr_lsn d result s)
  obtain r where "open_wal_segment (XLogFileName PG_TLI (segment_number curr_lsn sz) sz) s = (Inr r, s)"
    using open_wal_segment_no_fault [OF 1(2)] by blast
  moreover have "file_seek i s = (Inr (), s)" for i using 1(2) by (simp add: file_seek_def ret_def)
  ultimately show ?case using 1 by (auto simp: Let_def split: option.split)
next
  case (2 pgs sz i pos segno curr_lsn d result s)
  have "\<exists>b. file_read i pos (unat XLOG_BLCKSZ) s = (Inr b, s)"
    using 2(3) by (simp add: file_read_def reads_def)
  then show ?case
    using 2
    by (auto simp del: find_end_loop.simps
        simp: find_end_loop.simps(2) [of pgs sz i pos segno curr_lsn d result s]
        split: if_splits option.splits prod.splits drain_end.splits)
qed

declare find_end_loop.simps [simp del]

lemma find_end_of_wal_ok:
  assumes "wal_bindings pgs" and "segments_ok s" and "unat start \<le> last_segno * 16777216"
  shows "end_found s start (find_end_of_wal pgs v WAL_SEGMENT_SIZE start s)"
    and "fs_faults s = [] \<Longrightarrow> \<exists>l t. find_end_of_wal pgs v WAL_SEGMENT_SIZE start s = (Inr l, t)"
proof -
  have "wd_ok (decoder_new start v)" "wd_pos (decoder_new start v) = unat start"
    using assms(3) end_limit(1) by (auto simp: decoder_new_def wd_ok_def wd_pos_def)
  moreover have "wd_floor (decoder_new start v) = start" by (simp add: decoder_new_def wd_floor_def)
  moreover have "unat start \<le> LSN_LIMIT" using assms(3) end_limit(1) by simp
  moreover have eq: "find_end_of_wal pgs v WAL_SEGMENT_SIZE start s
      = find_end_loop pgs WAL_SEGMENT_SIZE None start (decoder_new start v) start s"
    by (simp add: find_end_of_wal_def ensure_def WAL_SEGMENT_SIZE_def)
  ultimately show found: "end_found s start (find_end_of_wal pgs v WAL_SEGMENT_SIZE start s)"
    using find_end_loop_ok [OF wal_bindings.record_header [OF assms(1)] refl assms(2),
        of "decoder_new start v" start start start None]
    by (simp add: reading_ok_def)
  assume no_faults: "fs_faults s = []"
  obtain r t where r: "find_end_of_wal pgs v WAL_SEGMENT_SIZE start s = (r, t)" by force
  have "r \<noteq> Inl (WalIo e)" for e
    using find_end_loop_no_fault [OF no_faults] eq r by (metis fst_conv)
  then show "\<exists>l t. find_end_of_wal pgs v WAL_SEGMENT_SIZE start s = (Inr l, t)"
    using found r by (cases r) (auto simp: end_found_def)
qed

lemma wal_ok_fresh:
  assumes "unat l \<le> LSN_LIMIT"
  shows "wal_ok \<lparr>pst_fs = f, pst_no_sync = ns, pst_wal_seg_size = WAL_SEGMENT_SIZE,
     pst_pg_version = pv, pst_system_id = sid, pst_write_lsn = l, pst_write_record_lsn = l,
     pst_flush_lsn = l, pst_flush_record_lsn = l, pst_decoder = decoder_new l v,
     pst_file = None, pst_pending_wal_truncation = True\<rparr>"
  using assms seg_up_bounds(1) [of "unat l"]
  by (auto simp: wal_ok_def wd_ok_def wd_pos_def wd_floor_def decoder_new_def)

text \<open>What opening the storage returns, whatever the segments hold.\<close>

lemma opened_ok:
  assumes "wal_bindings pgs" and "segments_ok s"
      and "si_wal_seg_size (ps_server st) = 16777216"
      and "unat (ps_commit_lsn st) \<le> last_segno * 16777216"
      and opened: "physical_storage_new pgs st no_sync s = (Inr w, t)"
  shows "wal_ok w" and "ps_commit_lsn st \<le> wal_flush_lsn (phys_wal_ops pgs) w"
    and "pst_pending_wal_truncation w"
proof -
  have sz: "ucast (si_wal_seg_size (ps_server st)) = WAL_SEGMENT_SIZE"
    using assms(3) by (simp add: WAL_SEGMENT_SIZE_def)
  have "ps_commit_lsn st \<le> l \<and> unat l \<le> LSN_LIMIT"
    if "find_end_of_wal pgs v WAL_SEGMENT_SIZE (ps_commit_lsn st) s = (Inr l, u)" for v l u
    using that find_end_of_wal_ok(1) [OF assms(1,2,4), of v] by (auto simp: end_found_def)
  then have "wal_ok w \<and> ps_commit_lsn st \<le> wal_flush_lsn (phys_wal_ops pgs) w \<and> pst_pending_wal_truncation w"
    using opened unfolding physical_storage_new_def sz Let_def
    by (auto simp: prog_defs phys_wal_ops_def wal_ok_fresh not_less
        split: if_splits prod.splits sum.splits option.splits)
  then show "wal_ok w" "ps_commit_lsn st \<le> wal_flush_lsn (phys_wal_ops pgs) w"
    "pst_pending_wal_truncation w" by blast+
qed

lemma opened_no_fault:
  assumes "wal_bindings pgs" and "segments_ok s"
      and "si_wal_seg_size (ps_server st) = 16777216"
      and "major_try_from (si_pg_version (ps_server st)) = Some v"
      and "unat (ps_commit_lsn st) \<le> last_segno * 16777216" and "fs_faults s = []"
  shows "\<exists>w t. physical_storage_new pgs st no_sync s = (Inr w, t)"
proof -
  have sz: "ucast (si_wal_seg_size (ps_server st)) = WAL_SEGMENT_SIZE"
    using assms(3) by (simp add: WAL_SEGMENT_SIZE_def)
  note found = find_end_of_wal_ok(1) [OF assms(1,2,5), of v] find_end_of_wal_ok(2) [OF assms(1,2,5,6), of v]
  show ?thesis
    using found assms(4) unfolding physical_storage_new_def sz Let_def
    by (auto simp: prog_defs end_found_def)
qed

text \<open>
  C24: reopening the WAL of a timeline never loses committed data. Whatever the segment files
  hold, the storage opens at a flushed position not below the commit position of the control
  file and within the invariant, with truncation pending before any write; the check for a
  lower position and the panics of the code are never reached, only I/O errors are returned,
  and without I/O faults the storage opens.
\<close>

theorem restart_keeps_commit:
  assumes "wal_bindings pgs" and "segments_ok s"
      and "si_wal_seg_size (ps_server st) = 16777216"
      and "major_try_from (si_pg_version (ps_server st)) = Some v"
      and "unat (ps_commit_lsn st) \<le> last_segno * 16777216"
  shows "(\<forall>w t. physical_storage_new pgs st no_sync s = (Inr w, t) \<longrightarrow>
            wal_ok w \<and> ps_commit_lsn st \<le> wal_flush_lsn (phys_wal_ops pgs) w
            \<and> pst_pending_wal_truncation w)
         \<and> (\<forall>e t. physical_storage_new pgs st no_sync s = (Inl e, t) \<longrightarrow> (\<exists>x. e = WalIo x))
         \<and> (fs_faults s = [] \<longrightarrow> (\<exists>w t. physical_storage_new pgs st no_sync s = (Inr w, t)))"
proof -
  have sz: "ucast (si_wal_seg_size (ps_server st)) = WAL_SEGMENT_SIZE"
    using assms(3) by (simp add: WAL_SEGMENT_SIZE_def)
  note found = find_end_of_wal_ok(1) [OF assms(1,2,5), of v]
  have "\<exists>x. e = WalIo x" if "physical_storage_new pgs st no_sync s = (Inl e, t)" for e t
    using that found assms(4) unfolding physical_storage_new_def sz Let_def
    by (auto simp: prog_defs end_found_def split: if_splits prod.splits sum.splits)
  then show ?thesis
    using opened_ok [OF assms(1-3,5)] opened_no_fault [OF assms] by blast
qed

end
