(* ===== verification/Waldecoder_Sample.thy ===== *)
theory Waldecoder_Sample
  imports Waldecoder
begin

text \<open>
  A concrete WAL stream with concrete bindings, on which the properties of the decoder are
  evaluated.
\<close>

section \<open>A concrete stream\<close>

text \<open>Bindings with the layout of PostgreSQL and a byte sum for the checksum.\<close>

definition sample_page_header :: "bytes \<Rightarrow> xlog_page_header" where
  "sample_page_header b = \<lparr>xlp_magic = of_le (take 2 b), xlp_info = of_le (take 2 (drop 2 b)),
     xlp_tli = of_le (take 4 (drop 4 b)), xlp_pageaddr = of_le (take 8 (drop 8 b)),
     xlp_rem_len = of_le (take 4 (drop 16 b))\<rparr>"

definition sample_page_bytes :: "xlog_page_header \<Rightarrow> bytes" where
  "sample_page_bytes h = put_le 2 (xlp_magic h) @ put_le 2 (xlp_info h) @ put_le 4 (xlp_tli h)
     @ put_le 8 (xlp_pageaddr h) @ put_le 4 (xlp_rem_len h) @ replicate 4 0"

definition sample_pg :: pg_bindings where
  "sample_pg = \<lparr>XLOG_PAGE_MAGIC = 0xD116,
     XLOG_SIZE_OF_XLOG_SHORT_PHD = 24, XLOG_SIZE_OF_XLOG_LONG_PHD = 40,
     XLOG_SIZE_OF_XLOG_RECORD = 24,
     short_phd_des = (\<lambda>b. Some (sample_page_header b)),
     long_phd_des = (\<lambda>b. Some \<lparr>xlp_std = sample_page_header b, xlp_sysid = of_le (take 8 (drop 24 b)),
        xlp_seg_size = of_le (take 4 (drop 32 b)), xlp_xlog_blcksz = of_le (take 4 (drop 36 b))\<rparr>),
     xlog_record_des = (\<lambda>b. Some \<lparr>xl_tot_len = of_le (take 4 b), xl_xid = of_le (take 4 (drop 4 b)),
        xl_prev = of_le (take 8 (drop 8 b)), xl_info = of_le (take 1 (drop 16 b)),
        xl_rmid = of_le (take 1 (drop 17 b)), xl_crc = of_le (take 4 (drop 20 b))\<rparr>),
     short_phd_ser = (\<lambda>h. Some (sample_page_bytes h)),
     long_phd_ser = (\<lambda>h. Some (sample_page_bytes (xlp_std h) @ put_le 8 (xlp_sysid h)
        @ put_le 4 (xlp_seg_size h) @ put_le 4 (xlp_xlog_blcksz h))),
     crc32c_append = (\<lambda>c b. c + sum_list (map ucast b))\<rparr>"

text \<open>A record of 24 bytes with its checksum.\<close>

definition sample_record :: bytes where
  "sample_record = [24, 0, 0, 0] @ replicate 16 0 @ [24, 0, 0, 0]"

lemma sample_pg_ok: "headers_ok sample_pg" "0 < XLOG_SIZE_OF_XLOG_RECORD sample_pg"
  by (simp_all add: headers_ok_def sample_pg_def)

theorem decode_in_pieces_witness:
  "\<exists>d'. decode_records (\<lambda>_. sample_pg) (feed_bytes (take 10 sample_record) (decoder_new 0x2000028 PG17))
       = (Drained, d', [])
     \<and> drain_eq
        (decode_records (\<lambda>_. sample_pg) (feed_bytes (sample_record) (decoder_new 0x2000028 PG17)))
        (decode_records (\<lambda>_. sample_pg) (feed_bytes (drop 10 sample_record) d'))
     \<and> snd (snd (decode_records (\<lambda>_. sample_pg)
              (feed_bytes sample_record (decoder_new 0x2000028 PG17)))) = [(0x2000040, sample_record)]"
proof -
  let ?d = "decoder_new 0x2000028 PG17"
  have 1: "fst (decode_records (\<lambda>_. sample_pg) (feed_bytes (take 10 sample_record) ?d)) = Drained
      \<and> snd (snd (decode_records (\<lambda>_. sample_pg) (feed_bytes (take 10 sample_record) ?d))) = []"
    by code_simp
  then obtain d' where d': "decode_records (\<lambda>_. sample_pg) (feed_bytes (take 10 sample_record) ?d)
      = (Drained, d', [])" by (metis prod.collapse)
  have 2: "snd (snd (decode_records (\<lambda>_. sample_pg) (feed_bytes sample_record ?d)))
      = [(0x2000040, sample_record)]" by code_simp
  have "wd_ok ?d" "wd_pos ?d + length (take 10 sample_record) + length (drop 10 sample_record) \<le> LSN_LIMIT"
    by (simp_all add: wd_ok_def wd_pos_def decoder_new_def LSN_LIMIT_def sample_record_def)
  from decode_in_pieces [OF sample_pg_ok this d' [unfolded decode_records_def]]
  show ?thesis using d' 2 by (auto simp: decode_records_def)
qed

theorem decode_records_increasing_witness:
  "\<exists>r d' recs. decode_records (\<lambda>_. sample_pg)
       (feed_bytes (sample_record @ sample_record) (decoder_new 0x2000028 PG17)) = (r, d', recs)
     \<and> sorted_wrt (<) (map fst recs) \<and> map fst recs = [0x2000040, 0x2000058]"
proof -
  let ?d = "feed_bytes (sample_record @ sample_record) (decoder_new 0x2000028 PG17)"
  have "wd_ok ?d"
    by (simp add: wd_ok_def wd_pos_def decoder_new_def LSN_LIMIT_def sample_record_def)
  moreover have "map fst (snd (snd (decode_records (\<lambda>_. sample_pg) ?d))) = [0x2000040, 0x2000058]"
    by code_simp
  ultimately show ?thesis
    using decode_records_increasing [of "\<lambda>_. sample_pg" ?d] sample_pg_ok(2) by auto
qed

end
