(* ===== verification/Control_File_Upgrade.thy ===== *)
theory Control_File_Upgrade
  imports Sk_State
begin

text \<open>
  The formats of the safekeeper control file and the upgrade from the older ones
  (safekeeper/src/control_file_upgrade.rs). Serialisation of a structure is bincode, with
  code derived by serde, so the serialisers are the fields of the record \<open>cf_codec\<close>.
\<close>

section \<open>Older formats\<close>

record acceptor_state_v1 =
  a1_term :: sk_term
  a1_epoch :: sk_term

record server_info_v2 =
  s2_pg_version :: pg_version_id
  s2_system_id :: system_id
  s2_tenant_id :: tl_id
  s2_timeline_id :: tl_id
  s2_wal_seg_size :: u32

record safekeeper_state_v1 =
  v1_acceptor_state :: acceptor_state_v1
  v1_server :: server_info_v2
  v1_proposer_uuid :: pg_uuid
  v1_commit_lsn :: lsn
  v1_truncate_lsn :: lsn
  v1_wal_start_lsn :: lsn

record safekeeper_state_v2 =
  v2_acceptor_state :: acceptor_state
  v2_server :: server_info_v2
  v2_proposer_uuid :: pg_uuid
  v2_commit_lsn :: lsn
  v2_truncate_lsn :: lsn
  v2_wal_start_lsn :: lsn

record server_info_v3 =
  s3_pg_version :: pg_version_id
  s3_system_id :: system_id
  s3_tenant_id :: tl_id
  s3_timeline_id :: tl_id
  s3_wal_seg_size :: u32

record safekeeper_state_v3 =
  v3_acceptor_state :: acceptor_state
  v3_server :: server_info_v3
  v3_proposer_uuid :: pg_uuid
  v3_commit_lsn :: lsn
  v3_truncate_lsn :: lsn
  v3_wal_start_lsn :: lsn

record persisted_peer_info =
  pp_backup_lsn :: lsn
  pp_term :: sk_term
  pp_flush_lsn :: lsn
  pp_commit_lsn :: lsn

type_synonym persisted_peers = "(node_id \<times> persisted_peer_info) list"

record safekeeper_state_v4 =
  v4_tenant_id :: tl_id
  v4_timeline_id :: tl_id
  v4_acceptor_state :: acceptor_state
  v4_server :: server_info
  v4_proposer_uuid :: pg_uuid
  v4_commit_lsn :: lsn
  v4_s3_wal_lsn :: lsn
  v4_peer_horizon_lsn :: lsn
  v4_remote_consistent_lsn :: lsn
  v4_peers :: persisted_peers

record safekeeper_state_v7 =
  v7_tenant_id :: tl_id
  v7_timeline_id :: tl_id
  v7_acceptor_state :: acceptor_state
  v7_server :: server_info
  v7_proposer_uuid :: pg_uuid
  v7_timeline_start_lsn :: lsn
  v7_local_start_lsn :: lsn
  v7_commit_lsn :: lsn
  v7_backup_lsn :: lsn
  v7_peer_horizon_lsn :: lsn
  v7_remote_consistent_lsn :: lsn
  v7_peers :: persisted_peers

record safekeeper_state_v8 = safekeeper_state_v7 +
  v8_partial_backup :: "partial_remote_segment list"

record timeline_persistent_state_v9 = safekeeper_state_v8 +
  v9_eviction_state :: eviction_state

text \<open>
  The third-party serialisers: bincode in its little-endian fixed-width setting over the
  structures above, and the CRC-32C checksum.
\<close>

record cf_codec =
  cc_crc32c :: "bytes \<Rightarrow> u32"
  cc_ser :: "pers_state \<Rightarrow> bytes option"
  cc_des :: "bytes \<Rightarrow> pers_state option"
  cc_ser_v9 :: "timeline_persistent_state_v9 \<Rightarrow> bytes option"
  cc_des_v1 :: "bytes \<Rightarrow> safekeeper_state_v1 option"
  cc_des_v2 :: "bytes \<Rightarrow> safekeeper_state_v2 option"
  cc_des_v3 :: "bytes \<Rightarrow> safekeeper_state_v3 option"
  cc_des_v4 :: "bytes \<Rightarrow> safekeeper_state_v4 option"
  cc_des_v7 :: "bytes \<Rightarrow> safekeeper_state_v7 option"
  cc_des_v8 :: "bytes \<Rightarrow> safekeeper_state_v8 option"
  cc_des_v9 :: "bytes \<Rightarrow> timeline_persistent_state_v9 option"

section \<open>Upgrade\<close>

definition UNIX_EPOCH :: system_time where
  "UNIX_EPOCH = 0"

definition upgrade_v1 :: "safekeeper_state_v1 \<Rightarrow> pers_state" where
  "upgrade_v1 o1 = \<lparr>
     ps_tenant_id = s2_tenant_id (v1_server o1),
     ps_timeline_id = s2_timeline_id (v1_server o1),
     ps_mconf = configuration_empty,
     ps_acceptor_state = \<lparr>as_term = a1_term (v1_acceptor_state o1),
       as_term_history = [\<lparr>tl_term = a1_epoch (v1_acceptor_state o1), tl_lsn = 0\<rparr>]\<rparr>,
     ps_server = \<lparr>si_pg_version = s2_pg_version (v1_server o1),
       si_system_id = s2_system_id (v1_server o1),
       si_wal_seg_size = s2_wal_seg_size (v1_server o1)\<rparr>,
     ps_proposer_uuid = v1_proposer_uuid o1,
     ps_timeline_start_lsn = 0, ps_local_start_lsn = 0,
     ps_commit_lsn = v1_commit_lsn o1, ps_backup_lsn = 0,
     ps_peer_horizon_lsn = v1_truncate_lsn o1, ps_remote_consistent_lsn = 0,
     ps_partial_backup = [], ps_eviction_state = Present, ps_creation_ts = UNIX_EPOCH\<rparr>"

definition upgrade_v2 :: "safekeeper_state_v2 \<Rightarrow> pers_state" where
  "upgrade_v2 o2 = \<lparr>
     ps_tenant_id = s2_tenant_id (v2_server o2),
     ps_timeline_id = s2_timeline_id (v2_server o2),
     ps_mconf = configuration_empty,
     ps_acceptor_state = v2_acceptor_state o2,
     ps_server = \<lparr>si_pg_version = s2_pg_version (v2_server o2),
       si_system_id = s2_system_id (v2_server o2),
       si_wal_seg_size = s2_wal_seg_size (v2_server o2)\<rparr>,
     ps_proposer_uuid = v2_proposer_uuid o2,
     ps_timeline_start_lsn = 0, ps_local_start_lsn = 0,
     ps_commit_lsn = v2_commit_lsn o2, ps_backup_lsn = 0,
     ps_peer_horizon_lsn = v2_truncate_lsn o2, ps_remote_consistent_lsn = 0,
     ps_partial_backup = [], ps_eviction_state = Present, ps_creation_ts = UNIX_EPOCH\<rparr>"

definition upgrade_v3 :: "safekeeper_state_v3 \<Rightarrow> pers_state" where
  "upgrade_v3 o3 = \<lparr>
     ps_tenant_id = s3_tenant_id (v3_server o3),
     ps_timeline_id = s3_timeline_id (v3_server o3),
     ps_mconf = configuration_empty,
     ps_acceptor_state = v3_acceptor_state o3,
     ps_server = \<lparr>si_pg_version = s3_pg_version (v3_server o3),
       si_system_id = s3_system_id (v3_server o3),
       si_wal_seg_size = s3_wal_seg_size (v3_server o3)\<rparr>,
     ps_proposer_uuid = v3_proposer_uuid o3,
     ps_timeline_start_lsn = 0, ps_local_start_lsn = 0,
     ps_commit_lsn = v3_commit_lsn o3, ps_backup_lsn = 0,
     ps_peer_horizon_lsn = v3_truncate_lsn o3, ps_remote_consistent_lsn = 0,
     ps_partial_backup = [], ps_eviction_state = Present, ps_creation_ts = UNIX_EPOCH\<rparr>"

definition upgrade_v4 :: "safekeeper_state_v4 \<Rightarrow> pers_state" where
  "upgrade_v4 o4 = \<lparr>
     ps_tenant_id = v4_tenant_id o4, ps_timeline_id = v4_timeline_id o4,
     ps_mconf = configuration_empty,
     ps_acceptor_state = v4_acceptor_state o4,
     ps_server = \<lparr>si_pg_version = si_pg_version (v4_server o4),
       si_system_id = si_system_id (v4_server o4),
       si_wal_seg_size = si_wal_seg_size (v4_server o4)\<rparr>,
     ps_proposer_uuid = v4_proposer_uuid o4,
     ps_timeline_start_lsn = 0, ps_local_start_lsn = 0,
     ps_commit_lsn = v4_commit_lsn o4, ps_backup_lsn = lsn_invalid,
     ps_peer_horizon_lsn = v4_peer_horizon_lsn o4, ps_remote_consistent_lsn = 0,
     ps_partial_backup = [], ps_eviction_state = Present, ps_creation_ts = UNIX_EPOCH\<rparr>"

definition upgrade_v5 :: "pers_state \<Rightarrow> pers_state" where
  "upgrade_v5 old =
     (if ps_timeline_start_lsn old \<noteq> 0 then old
      else old\<lparr>ps_timeline_start_lsn := 1, ps_local_start_lsn := 1\<rparr>)"

definition upgrade_v6 :: "pers_state \<Rightarrow> pers_state" where
  "upgrade_v6 old =
     (if si_pg_version (ps_server old) \<noteq> PG_VERSION_UNKNOWN then old
      else old\<lparr>ps_server := (ps_server old)
             \<lparr>si_pg_version := the (from_full_pg_version 140005)\<rparr>\<rparr>)"

definition upgrade_v7 :: "'a safekeeper_state_v7_scheme \<Rightarrow> pers_state" where
  "upgrade_v7 o7 = \<lparr>
     ps_tenant_id = v7_tenant_id o7, ps_timeline_id = v7_timeline_id o7,
     ps_mconf = configuration_empty,
     ps_acceptor_state = v7_acceptor_state o7, ps_server = v7_server o7,
     ps_proposer_uuid = v7_proposer_uuid o7,
     ps_timeline_start_lsn = v7_timeline_start_lsn o7,
     ps_local_start_lsn = v7_local_start_lsn o7,
     ps_commit_lsn = v7_commit_lsn o7, ps_backup_lsn = v7_backup_lsn o7,
     ps_peer_horizon_lsn = v7_peer_horizon_lsn o7,
     ps_remote_consistent_lsn = v7_remote_consistent_lsn o7,
     ps_partial_backup = [], ps_eviction_state = Present, ps_creation_ts = UNIX_EPOCH\<rparr>"

definition upgrade_v8 :: "'a safekeeper_state_v8_scheme \<Rightarrow> pers_state" where
  "upgrade_v8 o8 = (upgrade_v7 o8)\<lparr>ps_partial_backup := v8_partial_backup o8\<rparr>"

definition upgrade_v9 :: "timeline_persistent_state_v9 \<Rightarrow> pers_state" where
  "upgrade_v9 o9 = (upgrade_v8 o9)\<lparr>ps_eviction_state := v9_eviction_state o9\<rparr>"

datatype cf_error =
    CfIo io_error
  | CfPanic
  | CfDes
  | BadMagic u32
  | ChecksumMismatch u32 u32
  | UnsupportedVersion u32

definition des_with :: "('a \<Rightarrow> pers_state) \<Rightarrow> (bytes \<Rightarrow> 'a option) \<Rightarrow> bytes \<Rightarrow> cf_error + pers_state" where
  "des_with up des buf = (case des buf of None \<Rightarrow> Inl CfDes | Some x \<Rightarrow> Inr (up x))"

definition upgrade_control_file :: "cf_codec \<Rightarrow> bytes \<Rightarrow> u32 \<Rightarrow> cf_error + pers_state" where
  "upgrade_control_file codec buf version =
     (if version = 1 then des_with upgrade_v1 (cc_des_v1 codec) buf
      else if version = 2 then des_with upgrade_v2 (cc_des_v2 codec) buf
      else if version = 3 then des_with upgrade_v3 (cc_des_v3 codec) buf
      else if version = 4 then des_with upgrade_v4 (cc_des_v4 codec) buf
      else if version = 5 then des_with upgrade_v5 (cc_des codec) buf
      else if version = 6 then des_with upgrade_v6 (cc_des codec) buf
      else if version = 7 then des_with upgrade_v7 (cc_des_v7 codec) buf
      else if version = 8 then des_with upgrade_v8 (cc_des_v8 codec) buf
      else if version = 9 then des_with upgrade_v9 (cc_des_v9 codec) buf
      else Inl (UnsupportedVersion version))"

text \<open>\<open>None\<close> is the failed assertion.\<close>

definition downgrade_v10_to_v9 :: "pers_state \<Rightarrow> timeline_persistent_state_v9 option" where
  "downgrade_v10_to_v9 state =
     (if conf_generation (ps_mconf state) \<noteq> INVALID_GENERATION then None
      else Some \<lparr>
        v7_tenant_id = ps_tenant_id state, v7_timeline_id = ps_timeline_id state,
        v7_acceptor_state = ps_acceptor_state state, v7_server = ps_server state,
        v7_proposer_uuid = ps_proposer_uuid state,
        v7_timeline_start_lsn = ps_timeline_start_lsn state,
        v7_local_start_lsn = ps_local_start_lsn state,
        v7_commit_lsn = ps_commit_lsn state, v7_backup_lsn = ps_backup_lsn state,
        v7_peer_horizon_lsn = ps_peer_horizon_lsn state,
        v7_remote_consistent_lsn = ps_remote_consistent_lsn state,
        v7_peers = [],
        v8_partial_backup = ps_partial_backup state,
        v9_eviction_state = ps_eviction_state state\<rparr>)"

text \<open>Down to version 9 and up again loses the configuration and the creation time only.\<close>

lemma upgrade_downgrade_v9:
  "downgrade_v10_to_v9 s = Some o9 \<Longrightarrow>
     upgrade_v9 o9 = s\<lparr>ps_mconf := configuration_empty, ps_creation_ts := 0\<rparr>"
  by (auto simp: downgrade_v10_to_v9_def upgrade_v9_def upgrade_v8_def upgrade_v7_def
      UNIX_EPOCH_def split: if_splits)

end
