(* ===== verification/Control_File.thy ===== *)
theory Control_File
  imports Control_File_Upgrade Byte_Codec
begin

text \<open>
  The control file of a timeline (safekeeper/src/control_file.rs): its checksummed image,
  loading, and the storage that replaces the file atomically. The storage is shown to
  survive a crash at any point and provides the interface \<open>control_storage\<close>.
\<close>

section \<open>Image of the file\<close>

definition SK_MAGIC :: u32 where
  "SK_MAGIC = 0xcafeceef"

definition SK_FORMAT_VERSION :: u32 where
  "SK_FORMAT_VERSION = 10"

definition PREV_FORMAT_VERSION :: u32 where
  "PREV_FORMAT_VERSION = 9"

definition CONTROL_FILE_NAME :: string where
  "CONTROL_FILE_NAME = ''safekeeper.control''"

definition CONTROL_FILE_NAME_PARTIAL :: string where
  "CONTROL_FILE_NAME_PARTIAL = ''safekeeper.control.partial''"

definition CHECKSUM_SIZE :: nat where
  "CHECKSUM_SIZE = 4"

definition write_to_buf :: "cf_codec \<Rightarrow> pers_state \<Rightarrow> bytes option" where
  "write_to_buf codec s =
     (let magic = put_le 4 SK_MAGIC;
          body =
            (if conf_generation (ps_mconf s) = INVALID_GENERATION
             then Option.bind (downgrade_v10_to_v9 s) (\<lambda>prev.
                    map_option (\<lambda>b. put_le 4 PREV_FORMAT_VERSION @ b) (cc_ser_v9 codec prev))
             else map_option (\<lambda>b. put_le 4 SK_FORMAT_VERSION @ b) (cc_ser codec s))
      in map_option (\<lambda>b. let buf = magic @ b in buf @ put_le 4 (cc_crc32c codec buf)) body)"

definition deser_sk_state :: "cf_codec \<Rightarrow> bytes \<Rightarrow> cf_error + pers_state" where
  "deser_sk_state codec buf =
     (case get_le 4 buf of
        None \<Rightarrow> Inl CfDes
      | Some (magic, buf1) \<Rightarrow>
          if magic \<noteq> SK_MAGIC then Inl (BadMagic magic)
          else (case get_le 4 buf1 of
              None \<Rightarrow> Inl CfDes
            | Some (version, buf2) \<Rightarrow>
                if version = SK_FORMAT_VERSION then des_with id (cc_des codec) buf2
                else upgrade_control_file codec buf2 version))"

text \<open>The part of load_control_file after the file has been read.\<close>

definition parse_control_file :: "cf_codec \<Rightarrow> bytes \<Rightarrow> cf_error + pers_state" where
  "parse_control_file codec buf =
     (if length buf < CHECKSUM_SIZE then Inl CfPanic
      else
        (let data = take (length buf - CHECKSUM_SIZE) buf;
             calculated_checksum = cc_crc32c codec data;
             expected_checksum = of_le (drop (length buf - CHECKSUM_SIZE) buf)
         in if calculated_checksum = expected_checksum then deser_sk_state codec data
            else Inl (ChecksumMismatch expected_checksum calculated_checksum)))"

definition load_control_file :: "cf_codec \<Rightarrow> string \<Rightarrow> (fs, cf_error, pers_state) prog" where
  "load_control_file codec path =
     andthen (zoom id (\<lambda>t _. t) CfIo (file_open path)) (\<lambda>i.
     andthen (zoom id (\<lambda>t _. t) CfIo (io_try (reads (\<lambda>s. f_data (fs_files s ! i))))) (\<lambda>buf s.
     (parse_control_file codec buf, s)))"

definition load_control_file_from_dir :: "cf_codec \<Rightarrow> (fs, cf_error, pers_state) prog" where
  "load_control_file_from_dir codec = load_control_file codec CONTROL_FILE_NAME"

section \<open>Storage\<close>

record file_storage =
  fst_fs :: fs \<comment> \<open>the timeline directory\<close>
  fst_no_sync :: bool
  fst_state :: pers_state

definition in_dir :: "(fs, io_error, 'a) prog \<Rightarrow> (file_storage, ctrl_error, 'a) prog" where
  "in_dir = zoom fst_fs (\<lambda>f c. c\<lparr>fst_fs := f\<rparr>) CtrlIo"

definition cf_persist :: "cf_codec \<Rightarrow> pers_state \<Rightarrow> (file_storage, ctrl_error, unit) prog" where
  "cf_persist codec s =
     andthen (in_dir (file_create CONTROL_FILE_NAME_PARTIAL)) (\<lambda>control_partial.
     andthen (of_option CtrlSer (write_to_buf codec s)) (\<lambda>buf.
     andthen (in_dir (file_write control_partial 0 buf)) (\<lambda>_.
     andthen (in_dir (file_flush control_partial)) (\<lambda>_.
     andthen (reads fst_no_sync) (\<lambda>no_sync.
     andthen (in_dir (durable_rename CONTROL_FILE_NAME_PARTIAL CONTROL_FILE_NAME (\<not> no_sync))) (\<lambda>_.
     modify (\<lambda>c. c\<lparr>fst_state := s\<rparr>)))))))"

definition restore_new :: "cf_codec \<Rightarrow> fs \<Rightarrow> bool \<Rightarrow> cf_error + file_storage" where
  "restore_new codec timeline_dir no_sync =
     (case load_control_file_from_dir codec timeline_dir of
        (Inl e, _) \<Rightarrow> Inl e
      | (Inr state, d) \<Rightarrow> Inr \<lparr>fst_fs = d, fst_no_sync = no_sync, fst_state = state\<rparr>)"

datatype create_error = NotPresent | CreatePersist ctrl_error

definition create_new ::
  "cf_codec \<Rightarrow> fs \<Rightarrow> pers_state \<Rightarrow> bool \<Rightarrow> create_error + file_storage" where
  "create_new codec timeline_dir state no_sync =
     (if ps_eviction_state state \<noteq> Present then Inl NotPresent
      else
        (let store = \<lparr>fst_fs = timeline_dir, fst_no_sync = no_sync, fst_state = state\<rparr>
         in case cf_persist codec state store of
              (Inl e, _) \<Rightarrow> Inl (CreatePersist e)
            | (Inr _, store') \<Rightarrow> Inr store'))"

definition file_ctrl_ops :: "cf_codec \<Rightarrow> file_storage ctrl_ops" where
  "file_ctrl_ops codec = \<lparr>ctrl_state = fst_state, ctrl_persist = cf_persist codec\<rparr>"

text \<open>
  What loading returns for the image written for a state: without a membership
  configuration the previous format is written, which lacks two fields.
\<close>

definition restored_state :: "pers_state \<Rightarrow> pers_state" where
  "restored_state s =
     (if conf_generation (ps_mconf s) = INVALID_GENERATION
      then s\<lparr>ps_mconf := configuration_empty, ps_creation_ts := 0\<rparr> else s)"

text \<open>
  The states the directory can hold after a crash. Every version of the directory that may
  come back names a synced control file with a valid image of a state in \<open>S\<close>, and the
  partial file, which is the one written to, is another one; \<open>None\<close> in \<open>S\<close> stands for a
  directory with no control file yet.
\<close>

definition ctl_holds :: "cf_codec \<Rightarrow> fs \<Rightarrow> pers_state option set \<Rightarrow> bool" where
  "ctl_holds codec f S \<longleftrightarrow>
     fs_ok f \<and>
     (\<forall>d \<in> fs_dirs f.
        (map_of d CONTROL_FILE_NAME = None \<longrightarrow> None \<in> S)
        \<and> (\<forall>i. map_of d CONTROL_FILE_NAME = Some i \<longrightarrow>
              is_clean (fs_files f ! i)
              \<and> (\<exists>p. parse_control_file codec (f_data (fs_files f ! i)) = Inr p \<and> Some p \<in> S)
              \<and> map_of d CONTROL_FILE_NAME_PARTIAL \<noteq> Some i
              \<and> map_of (fs_dir f) CONTROL_FILE_NAME_PARTIAL \<noteq> Some i))"

definition cf_durable :: "cf_codec \<Rightarrow> file_storage \<Rightarrow> pers_state set \<Rightarrow> bool" where
  "cf_durable codec c S \<longleftrightarrow> \<not> fst_no_sync c \<and> ctl_holds codec (fst_fs c) (Some ` S)"

section \<open>Steps of a persist\<close>

lemma control_names [simp]:
  "CONTROL_FILE_NAME_PARTIAL \<noteq> CONTROL_FILE_NAME" "CONTROL_FILE_NAME \<noteq> CONTROL_FILE_NAME_PARTIAL"
  by (simp_all add: CONTROL_FILE_NAME_PARTIAL_def CONTROL_FILE_NAME_def)

lemma fs_ok_faults [simp]: "fs_ok (f\<lparr>fs_faults := fl\<rparr>) = fs_ok f"
  by (simp add: fs_ok_def)

lemma ctl_holds_faults [simp]: "ctl_holds codec (f\<lparr>fs_faults := fl\<rparr>) S = ctl_holds codec f S"
  by (simp add: ctl_holds_def)

lemma ctl_holds_mono: "ctl_holds codec f S \<Longrightarrow> S \<subseteq> T \<Longrightarrow> ctl_holds codec f T"
  by (fastforce simp: ctl_holds_def split: option.splits)

lemma ctl_holds_inode:
  "ctl_holds codec f S \<Longrightarrow> map_of (fs_dir f) name = Some i \<Longrightarrow> i < length (fs_files f)"
  unfolding ctl_holds_def fs_ok_def using fs_dir_in_dirs by blast

text \<open>Changing the partial file does not touch a control file.\<close>

lemma ctl_holds_upd_partial:
  assumes "ctl_holds codec f S" and "map_of (fs_dir f) CONTROL_FILE_NAME_PARTIAL = Some i"
  shows "ctl_holds codec (upd_file i g f) S"
proof -
  have "(fs_files f)[i := x] ! j = fs_files f ! j"
    if "d \<in> fs_dirs f" "map_of d CONTROL_FILE_NAME = Some j" for d j x
    using assms that by (auto simp: ctl_holds_def split: option.splits)
  then show ?thesis
    using assms(1) by (fastforce simp: ctl_holds_def fs_ok_def split: option.splits)
qed

lemma ctl_holds_new_partial:
  assumes "ctl_holds codec f S" and "map_of (fs_dir f) CONTROL_FILE_NAME_PARTIAL = None"
  shows "ctl_holds codec
           (set_dir (AList.update CONTROL_FILE_NAME_PARTIAL (length (fs_files f)) (fs_dir f))
             (f\<lparr>fs_faults := fl, fs_files := fs_files f @ [x]\<rparr>)) S"
proof -
  have less: "i < length (fs_files f)" if "d \<in> fs_dirs f" "map_of d n = Some i" for d n i
    using assms(1) that by (auto simp: ctl_holds_def fs_ok_def)
  note less_cur = less [OF fs_dir_in_dirs]
  have "fs_ok (set_dir (AList.update CONTROL_FILE_NAME_PARTIAL (length (fs_files f)) (fs_dir f))
             (f\<lparr>fs_faults := fl, fs_files := fs_files f @ [x]\<rparr>))"
    by (auto simp: fs_ok_def AList.update_conv' split: if_splits dest: less less_cur)
  then show ?thesis
    using assms(1) by (auto simp: ctl_holds_def AList.update_conv' nth_append split: option.splits
        dest: less less_cur)
qed

lemma ctl_holds_rename:
  assumes "ctl_holds codec f S" and "map_of (fs_dir f) CONTROL_FILE_NAME_PARTIAL = Some i"
      and "is_clean (fs_files f ! i)"
      and "parse_control_file codec (f_data (fs_files f ! i)) = Inr p"
  shows "ctl_holds codec
           (set_dir (AList.update CONTROL_FILE_NAME i
                      (AList.delete CONTROL_FILE_NAME_PARTIAL (fs_dir f))) f) (insert (Some p) S)"
proof -
  have "fs_ok (set_dir (AList.update CONTROL_FILE_NAME i
                      (AList.delete CONTROL_FILE_NAME_PARTIAL (fs_dir f))) f)"
    using assms(1) ctl_holds_inode [OF assms(1)] assms(2)
    by (auto simp: ctl_holds_def fs_ok_def AList.update_conv' AList.delete_conv' split: if_splits)
  then show ?thesis
    using assms by (fastforce simp: ctl_holds_def AList.update_conv' AList.delete_conv'
        split: option.splits)
qed

lemma ctl_holds_dir_sync:
  assumes "ctl_holds codec f S" and "map_of (fs_dir f) CONTROL_FILE_NAME = Some i"
      and "parse_control_file codec (f_data (fs_files f ! i)) = Inr p"
  shows "ctl_holds codec (f\<lparr>fs_faults := fl, fs_pending := []\<rparr>) {Some p}"
proof -
  have "fs_dir f \<in> fs_dirs f" by simp
  then show ?thesis
    using assms by (fastforce simp: ctl_holds_def fs_ok_def fs_dirs_def split: option.splits)
qed

text \<open>The partial file after its creation and after the write.\<close>

definition partial_is :: "cf_codec \<Rightarrow> pers_state option set \<Rightarrow> inode \<Rightarrow> bytes \<Rightarrow> fs \<Rightarrow> bool" where
  "partial_is codec S i data f \<longleftrightarrow>
     ctl_holds codec f S \<and> map_of (fs_dir f) CONTROL_FILE_NAME_PARTIAL = Some i
     \<and> f_data (fs_files f ! i) = data"

lemma create_partial_wp:
  assumes "ctl_holds codec f S"
  shows "wp (file_create CONTROL_FILE_NAME_PARTIAL)
           (\<lambda>i. partial_is codec S i []) (\<lambda>_ g. ctl_holds codec g S) f"
  by (rule wp_file_create)
     (use assms in \<open>auto simp: partial_is_def ctl_holds_upd_partial ctl_holds_new_partial
        AList.update_conv' dest: ctl_holds_inode\<close>)

lemma write_partial_wp:
  assumes "partial_is codec S i [] f"
  shows "wp (file_write i 0 buf) (\<lambda>_. partial_is codec S i buf) (\<lambda>_ g. ctl_holds codec g S) f"
  by (rule wp_file_write)
     (use assms in \<open>auto simp: partial_is_def ctl_holds_upd_partial dest: ctl_holds_inode\<close>)

lemma durable_rename_wp:
  assumes holds: "ctl_holds codec f S"
      and i: "map_of (fs_dir f) CONTROL_FILE_NAME_PARTIAL = Some i"
      and p: "parse_control_file codec (f_data (fs_files f ! i)) = Inr p"
  shows "wp (durable_rename CONTROL_FILE_NAME_PARTIAL CONTROL_FILE_NAME True)
           (\<lambda>_ f'. ctl_holds codec f' {Some p}) (\<lambda>_ f'. ctl_holds codec f' (insert (Some p) S)) f"
proof -
  have mono: "ctl_holds codec g S \<Longrightarrow> ctl_holds codec g (insert (Some p) S)" for g
    by (erule ctl_holds_mono) auto
  have len: "i < length (fs_files f)" using holds i by (rule ctl_holds_inode)
  have synced: "ctl_holds codec (upd_file i clean f) S"
    using holds i by (rule ctl_holds_upd_partial)
  have renamed: "ctl_holds codec
      (set_dir (AList.update CONTROL_FILE_NAME i (AList.delete CONTROL_FILE_NAME_PARTIAL (fs_dir f)))
        (upd_file i clean f)) (insert (Some p) S)" (is "ctl_holds _ ?r _")
    using ctl_holds_rename [OF synced, of i p] i p len by simp
  have fin: "ctl_holds codec (?r\<lparr>fs_faults := fl, fs_pending := []\<rparr>) {Some p}" for fl
    using ctl_holds_dir_sync [OF renamed, of i p] p len by (simp add: AList.update_conv')
  show ?thesis
    unfolding durable_rename_def fsync_async_opt_def fsync_async_def
    by (simp add: wp, intro wp_file_open wp_file_sync wp_file_rename wp_dir_sync)
       (use mono [OF holds] mono [OF synced] renamed fin i in auto)
qed

section \<open>The serialisers\<close>

text \<open>
  What the storage relies on: both serialisers are inverted by their deserialisers. The
  checksum may be any function.
\<close>

locale control_codec =
  fixes codec :: cf_codec
  assumes des_ser: "cc_ser codec s = Some b \<Longrightarrow> cc_des codec b = Some s"
      and des_ser_v9: "cc_ser_v9 codec o9 = Some b \<Longrightarrow> cc_des_v9 codec b = Some o9"
begin

lemma parse_write:
  assumes "write_to_buf codec s = Some buf"
  shows "parse_control_file codec buf = Inr (restored_state s)"
proof -
  obtain b where buf: "buf = (put_le 4 SK_MAGIC @ b) @ put_le 4 (cc_crc32c codec (put_le 4 SK_MAGIC @ b))"
      and b: "(if conf_generation (ps_mconf s) = INVALID_GENERATION
             then Option.bind (downgrade_v10_to_v9 s) (\<lambda>prev.
                    map_option (\<lambda>b. put_le 4 PREV_FORMAT_VERSION @ b) (cc_ser_v9 codec prev))
             else map_option (\<lambda>b. put_le 4 SK_FORMAT_VERSION @ b) (cc_ser codec s)) = Some b"
    using assms by (auto simp: write_to_buf_def Let_def)
  have "parse_control_file codec buf = deser_sk_state codec (put_le 4 SK_MAGIC @ b)"
    by (simp add: parse_control_file_def buf CHECKSUM_SIZE_def)
  also have "\<dots> = Inr (restored_state s)"
    using b by (auto simp: deser_sk_state_def SK_FORMAT_VERSION_def PREV_FORMAT_VERSION_def
        upgrade_control_file_def des_with_def restored_state_def bind_eq_Some_conv
        upgrade_downgrade_v9 dest!: des_ser des_ser_v9 split: if_splits)
  finally show ?thesis .
qed

text \<open>One persist from any directory: the outcome and what a crash can leave behind.\<close>

lemma persist_wp:
  assumes holds: "ctl_holds codec (fst_fs c) S" and sync: "\<not> fst_no_sync c"
  shows "wp (cf_persist codec s)
          (\<lambda>_ c'. fst_state c' = s \<and> \<not> fst_no_sync c'
             \<and> ctl_holds codec (fst_fs c') {Some (restored_state s)})
          (\<lambda>_ c'. fst_state c' = fst_state c \<and> \<not> fst_no_sync c'
             \<and> ctl_holds codec (fst_fs c') (insert (Some (restored_state s)) S)) c"
proof -
  have mono: "ctl_holds codec g S \<Longrightarrow> ctl_holds codec g (insert (Some (restored_state s)) S)" for g
    by (erule ctl_holds_mono) auto
  let ?E = "\<lambda>e g. ctl_holds codec g (insert (Some (restored_state s)) S)"
  have written: "wp (file_write i 0 buf) (\<lambda>_. wp (file_flush i) (\<lambda>_.
        wp (durable_rename CONTROL_FILE_NAME_PARTIAL CONTROL_FILE_NAME True)
          (\<lambda>_ g. ctl_holds codec g {Some (restored_state s)}) ?E) ?E) ?E f"
    if "partial_is codec S i [] f" and buf: "write_to_buf codec s = Some buf" for i buf f
  proof (rule wp_cons [OF write_partial_wp [OF that(1)]])
    fix g assume g: "partial_is codec S i buf g"
    show "wp (file_flush i) (\<lambda>_.
        wp (durable_rename CONTROL_FILE_NAME_PARTIAL CONTROL_FILE_NAME True)
          (\<lambda>_ g. ctl_holds codec g {Some (restored_state s)}) ?E) ?E g"
      by (rule wp_file_flush(1); (rule durable_rename_wp)?)
         (use g parse_write [OF buf] in \<open>auto simp: partial_is_def mono\<close>)
  qed (rule mono)
  have no_ser: "partial_is codec S i [] g \<Longrightarrow> ?E e g" for i g e
    by (simp add: partial_is_def mono)
  show ?thesis
    unfolding cf_persist_def in_dir_def
    by (simp add: wp sync, rule wp_cons [OF create_partial_wp [OF holds]])
       (auto simp: wp sync mono no_ser written split: option.split)
qed

end

text \<open>The storage is an instance of the interface, for any serialisers with these laws.\<close>

sublocale control_codec \<subseteq> file_ctrl: control_storage "file_ctrl_ops codec" restored_state "cf_durable codec"
proof
  show "restored_state s = (if conf_generation (ps_mconf s) = INVALID_GENERATION
          then s\<lparr>ps_mconf := configuration_empty, ps_creation_ts := 0\<rparr> else s)" for s
    by (simp add: restored_state_def)
  show "cf_durable codec c S \<Longrightarrow> S \<subseteq> T \<Longrightarrow> cf_durable codec c T" for c S T
    by (auto simp: cf_durable_def intro: ctl_holds_mono [OF _ image_mono])
  show "wp (ctrl_persist (file_ctrl_ops codec) s)
          (\<lambda>_ c'. ctrl_state (file_ctrl_ops codec) c' = s \<and> cf_durable codec c' {restored_state s})
          (\<lambda>_ c'. ctrl_state (file_ctrl_ops codec) c' = ctrl_state (file_ctrl_ops codec) c
             \<and> cf_durable codec c' (insert (restored_state s) S)) c"
    if "cf_durable codec c S" for c S s
    using persist_wp [of c "Some ` S" s] that by (simp add: cf_durable_def file_ctrl_ops_def)
qed

section \<open>Restart\<close>

lemma crashed_dir: "crashed f d \<Longrightarrow> fs_dir d \<in> fs_dirs f"
  by (auto simp: crashed_def fs_dirs_def)

lemma crashed_file:
  assumes "crashed f d" and "i < length (fs_files f)" and "is_clean (fs_files f ! i)"
  shows "f_data (fs_files d ! i) = f_data (fs_files f ! i)" and "is_clean (fs_files d ! i)"
proof -
  have all: "list_all2 crash_file (fs_files f) (fs_files d)" and cl: "list_all is_clean (fs_files d)"
    using assms(1) by (auto simp: crashed_def)
  show "f_data (fs_files d ! i) = f_data (fs_files f ! i)"
    using all assms(2,3) by (simp add: list_all2_nthD crash_file_clean)
  show "is_clean (fs_files d ! i)"
    using all cl assms(2) by (simp add: list_all2_lengthD list_all_length)
qed

lemma crashed_ctl_holds:
  assumes holds: "ctl_holds codec f (Some ` S)" and crash: "crashed f d"
  obtains i p where "map_of (fs_dir d) CONTROL_FILE_NAME = Some i"
    and "parse_control_file codec (f_data (fs_files d ! i)) = Inr p" and "p \<in> S"
    and "ctl_holds codec d {Some p}"
proof -
  have dir: "fs_dir d \<in> fs_dirs f" by (rule crashed_dir [OF crash])
  then obtain i where i: "map_of (fs_dir d) CONTROL_FILE_NAME = Some i"
    using holds unfolding ctl_holds_def by (cases "map_of (fs_dir d) CONTROL_FILE_NAME") auto
  with dir holds obtain p where p: "is_clean (fs_files f ! i)"
      "parse_control_file codec (f_data (fs_files f ! i)) = Inr p" "p \<in> S"
      "map_of (fs_dir d) CONTROL_FILE_NAME_PARTIAL \<noteq> Some i"
    by (auto simp: ctl_holds_def)
  have len: "length (fs_files d) = length (fs_files f)"
    using crash by (auto simp: crashed_def dest: list_all2_lengthD)
  have ok: "map_of (fs_dir d) n = Some j \<Longrightarrow> j < length (fs_files f)" for n j
    using holds dir by (auto simp: ctl_holds_def fs_ok_def)
  note same = crashed_file [OF crash ok [OF i] p(1)]
  have "fs_dirs d = {fs_dir d}" using crash by (simp add: crashed_def fs_dirs_def)
  then have "ctl_holds codec d {Some p}"
    using ok len i p same by (simp add: ctl_holds_def fs_ok_def)
  then show thesis using that i p same by simp
qed

text \<open>Loading after a crash, with a disk that can be read.\<close>

lemma restore_after_crash:
  assumes holds: "ctl_holds codec f (Some ` S)" and crash: "crashed f d" and "fs_faults d = []"
  shows "\<exists>c. restore_new codec d False = Inr c \<and> fst_state c \<in> S
           \<and> cf_durable codec c {fst_state c} \<and> fst_fs c = d"
proof -
  obtain i p where d: "map_of (fs_dir d) CONTROL_FILE_NAME = Some i"
    "parse_control_file codec (f_data (fs_files d ! i)) = Inr p" "p \<in> S" "ctl_holds codec d {Some p}"
    using crashed_ctl_holds [OF holds crash] .
  have "load_control_file_from_dir codec d = (Inr p, d)"
    using d assms(3) by (simp add: load_control_file_from_dir_def load_control_file_def prog_defs
        file_open_def io_try_def draw_def)
  then show ?thesis using d by (simp add: restore_new_def cf_durable_def)
qed

text \<open>Without I/O faults a serialisable state is persisted.\<close>

lemma persist_no_fault:
  assumes "fs_faults (fst_fs c) = []" and "write_to_buf codec s = Some buf"
  shows "\<exists>c'. cf_persist codec s c = (Inr (), c') \<and> fs_faults (fst_fs c') = []"
  using assms
  by (cases "map_of (fs_dir (fst_fs c)) CONTROL_FILE_NAME_PARTIAL")
     (simp_all add: cf_persist_def in_dir_def prog_defs file_create_def io_try_def draw_def
        file_write_def file_flush_def durable_rename_def fsync_async_opt_def fsync_async_def
        file_open_def file_sync_def file_rename_def dir_sync_def upd_file_def set_dir_def Let_def
        AList.update_conv')

lemma ctl_holds_empty: "ctl_holds codec (fs_empty faults) {None}"
  by (simp add: ctl_holds_def fs_empty_def fs_ok_def fs_dirs_def)

lemma create_new_durable:
  assumes "control_codec codec" and "create_new codec (fs_empty faults) s False = Inr c"
  shows "cf_durable codec c {restored_state s} \<and> fst_state c = s"
proof -
  have "wp (cf_persist codec s) (\<lambda>_ c'. cf_durable codec c' {restored_state s} \<and> fst_state c' = s)
          (\<lambda>_ _. True) \<lparr>fst_fs = fs_empty faults, fst_no_sync = False, fst_state = s\<rparr>"
    by (rule wp_cons [OF control_codec.persist_wp [OF assms(1), where S = "{None}"]])
       (auto simp: cf_durable_def ctl_holds_empty)
  then show ?thesis
    using assms(2) by (auto simp: create_new_def Let_def wp_def split: if_splits prod.splits sum.splits)
qed

section \<open>Properties\<close>


text \<open>
  C23: a persist is atomic across crashes, wherever it is interrupted. Whatever I/O faults
  it meets, and whatever of the unsynced writes and renames a crash afterwards undoes, the
  control file loads: as the new state if the persist succeeded, and as the new state or one
  that could be loaded before otherwise. The storage is then ready for the next change.
\<close>

theorem persist_crash_safe:
  assumes "control_codec codec" and "cf_durable codec c S"
      and "cf_persist codec s c = (r, c')"
      and "crashed (fst_fs c') d" and "fs_faults d = []"
  shows "\<exists>c''. restore_new codec d False = Inr c''
           \<and> fst_state c'' \<in> (case r of Inr _ \<Rightarrow> {restored_state s}
                                     | Inl _ \<Rightarrow> insert (restored_state s) S)
           \<and> cf_durable codec c'' {fst_state c''}"
proof -
  have "ctl_holds codec (fst_fs c')
      (Some ` (case r of Inr _ \<Rightarrow> {restored_state s} | Inl _ \<Rightarrow> insert (restored_state s) S))"
    using control_codec.persist_wp [OF assms(1), of c "Some ` S" s] assms(2,3)
    by (auto simp: cf_durable_def wp_def split: sum.splits)
  from restore_after_crash [OF this assms(4,5)] show ?thesis by blast
qed

end
