(* ===== verification/Control_Codec_Instance.thy ===== *)
theory Control_Codec_Instance
  imports Control_File
begin

text \<open>
  Concrete serialisers for the control file, composed from prefix codes: they satisfy the
  laws the storage asks of bincode, so that those laws are known to be satisfiable for
  every state, and the theorems can be applied at concrete files.
\<close>

section \<open>Prefix codes\<close>

type_synonym 'a code = "('a \<Rightarrow> bytes) \<times> (bytes \<Rightarrow> ('a \<times> bytes) option)"

definition code_ok :: "'a code \<Rightarrow> bool" where
  "code_ok c \<longleftrightarrow> (\<forall>x r. snd c (fst c x @ r) = Some (x, r))"

definition word_code :: "nat \<Rightarrow> 'w::len word code" where
  "word_code n = (put_le n, get_le n)"

fun unary_dec :: "bytes \<Rightarrow> (nat \<times> bytes) option" where
  "unary_dec [] = None"
| "unary_dec (b # bs) =
     (if b = 0 then Some (0, bs) else map_option (\<lambda>(n, r). (Suc n, r)) (unary_dec bs))"

definition nat_code :: "nat code" where
  "nat_code = (\<lambda>n. replicate n 1 @ [0], unary_dec)"

definition pair_code :: "'a code \<Rightarrow> 'b code \<Rightarrow> ('a \<times> 'b) code" where
  "pair_code c d = (\<lambda>(x, y). fst c x @ fst d y,
     \<lambda>bs. Option.bind (snd c bs) (\<lambda>(x, r). map_option (\<lambda>(y, r'). ((x, y), r')) (snd d r)))"

fun times_dec :: "'a code \<Rightarrow> nat \<Rightarrow> bytes \<Rightarrow> ('a list \<times> bytes) option" where
  "times_dec c 0 bs = Some ([], bs)"
| "times_dec c (Suc n) bs =
     Option.bind (snd c bs) (\<lambda>(x, r). map_option (\<lambda>(xs, r'). (x # xs, r')) (times_dec c n r))"

definition list_code :: "'a code \<Rightarrow> 'a list code" where
  "list_code c = (\<lambda>xs. fst nat_code (length xs) @ concat (map (fst c) xs),
     \<lambda>bs. Option.bind (snd nat_code bs) (\<lambda>(n, r). times_dec c n r))"

definition iso_code :: "('a \<Rightarrow> 'b) \<Rightarrow> ('b \<Rightarrow> 'a) \<Rightarrow> 'b code \<Rightarrow> 'a code" where
  "iso_code f g c = (\<lambda>x. fst c (f x), \<lambda>bs. map_option (\<lambda>(y, r). (g y, r)) (snd c bs))"

named_theorems code_ok_rules

lemma code_ok_word [code_ok_rules]:
  "LENGTH('w) \<le> 8 * n \<Longrightarrow> code_ok (word_code n :: 'w::len word code)"
  by (simp add: code_ok_def word_code_def)

lemma unary_dec_enc: "unary_dec (replicate n 1 @ 0 # r) = Some (n, r)"
  by (induction n) auto

lemma code_ok_nat [code_ok_rules]: "code_ok nat_code"
  by (simp add: code_ok_def nat_code_def unary_dec_enc)

lemma code_ok_pair [code_ok_rules]: "code_ok c \<Longrightarrow> code_ok d \<Longrightarrow> code_ok (pair_code c d)"
  by (auto simp: code_ok_def pair_code_def)

lemma times_dec_enc:
  "code_ok c \<Longrightarrow> times_dec c (length xs) (concat (map (fst c) xs) @ r) = Some (xs, r)"
  by (induction xs) (auto simp: code_ok_def)

lemma code_ok_list [code_ok_rules]: "code_ok c \<Longrightarrow> code_ok (list_code c)"
  by (simp add: code_ok_def list_code_def times_dec_enc nat_code_def unary_dec_enc code_ok_def [of c])

lemma code_ok_iso [code_ok_rules]:
  "code_ok c \<Longrightarrow> (\<And>x. g (f x) = x) \<Longrightarrow> code_ok (iso_code f g c)"
  by (auto simp: code_ok_def iso_code_def)

section \<open>Codes of the state\<close>

definition u32_code :: "u32 code" where
  "u32_code = word_code 4"

definition u64_code :: "u64 code" where
  "u64_code = word_code 8"

definition bytes_code :: "bytes code" where
  "bytes_code = list_code (word_code 1)"

definition string_code :: "string code" where
  "string_code = iso_code (map (of_char :: char \<Rightarrow> nat)) (map char_of) (list_code nat_code)"

definition term_lsn_code :: "term_lsn code" where
  "term_lsn_code = iso_code (\<lambda>e. (tl_term e, tl_lsn e))
     (\<lambda>(t, l). \<lparr>tl_term = t, tl_lsn = l\<rparr>) (pair_code u64_code u64_code)"

definition acceptor_code :: "acceptor_state code" where
  "acceptor_code = iso_code (\<lambda>a. (as_term a, as_term_history a))
     (\<lambda>(t, h). \<lparr>as_term = t, as_term_history = h\<rparr>) (pair_code u64_code (list_code term_lsn_code))"

definition server_code :: "server_info code" where
  "server_code = iso_code (\<lambda>s. (si_pg_version s, si_system_id s, si_wal_seg_size s))
     (\<lambda>(v, i, z). \<lparr>si_pg_version = v, si_system_id = i, si_wal_seg_size = z\<rparr>)
     (pair_code u32_code (pair_code u64_code u32_code))"

definition member_code :: "safekeeper_id code" where
  "member_code = iso_code (\<lambda>m. (sk_id m, sk_host m, sk_pg_port m))
     (\<lambda>(i, h, p). \<lparr>sk_id = i, sk_host = h, sk_pg_port = p\<rparr>)
     (pair_code u64_code (pair_code bytes_code (word_code 2)))"

definition member_set_code :: "member_set code" where
  "member_set_code = iso_code members_m (\<lambda>ms. \<lparr>members_m = ms\<rparr>) (list_code member_code)"

definition option_code :: "'a code \<Rightarrow> 'a option code" where
  "option_code c = iso_code (\<lambda>x. case x of None \<Rightarrow> [] | Some y \<Rightarrow> [y])
     (\<lambda>xs. case xs of [] \<Rightarrow> None | y # ys \<Rightarrow> Some y) (list_code c)"

definition configuration_code :: "configuration code" where
  "configuration_code = iso_code (\<lambda>c. (conf_generation c, conf_members c, conf_new_members c))
     (\<lambda>(g, m, n). \<lparr>conf_generation = g, conf_members = m, conf_new_members = n\<rparr>)
     (pair_code u32_code (pair_code member_set_code (option_code member_set_code)))"

definition status_code :: "upload_status code" where
  "status_code = iso_code (\<lambda>s. case s of InProgress \<Rightarrow> 0 | Uploaded \<Rightarrow> 1 | Deleting \<Rightarrow> 2)
     (\<lambda>n. if n = 0 then InProgress else if n = 1 then Uploaded else Deleting) nat_code"

definition segment_code :: "partial_remote_segment code" where
  "segment_code = iso_code
     (\<lambda>p. (prs_status p, prs_name p, prs_commit_lsn p, prs_flush_lsn p, prs_term p))
     (\<lambda>(s, n, c, f, t). \<lparr>prs_status = s, prs_name = n, prs_commit_lsn = c, prs_flush_lsn = f,
        prs_term = t\<rparr>)
     (pair_code status_code (pair_code string_code (pair_code u64_code
       (pair_code u64_code u64_code))))"

definition eviction_code :: "eviction_state code" where
  "eviction_code = iso_code (\<lambda>e. case e of Present \<Rightarrow> None | Offloaded l \<Rightarrow> Some l)
     (\<lambda>x. case x of None \<Rightarrow> Present | Some l \<Rightarrow> Offloaded l) (option_code u64_code)"

definition pers_code :: "pers_state code" where
  "pers_code = iso_code
     (\<lambda>s. (ps_tenant_id s, ps_timeline_id s, ps_mconf s, ps_acceptor_state s, ps_server s,
        ps_proposer_uuid s, ps_timeline_start_lsn s, ps_local_start_lsn s, ps_commit_lsn s,
        ps_backup_lsn s, ps_peer_horizon_lsn s, ps_remote_consistent_lsn s, ps_partial_backup s,
        ps_eviction_state s, ps_creation_ts s))
     (\<lambda>(a, b, c, d, e, f, g, h, i, j, k, l, m, n, t).
        \<lparr>ps_tenant_id = a, ps_timeline_id = b, ps_mconf = c, ps_acceptor_state = d, ps_server = e,
         ps_proposer_uuid = f, ps_timeline_start_lsn = g, ps_local_start_lsn = h,
         ps_commit_lsn = i, ps_backup_lsn = j, ps_peer_horizon_lsn = k,
         ps_remote_consistent_lsn = l, ps_partial_backup = m, ps_eviction_state = n,
         ps_creation_ts = t\<rparr>)
     (pair_code bytes_code (pair_code bytes_code (pair_code configuration_code
       (pair_code acceptor_code (pair_code server_code (pair_code bytes_code
       (pair_code u64_code (pair_code u64_code (pair_code u64_code (pair_code u64_code
       (pair_code u64_code (pair_code u64_code (pair_code (list_code segment_code)
       (pair_code eviction_code nat_code))))))))))))))"

definition peer_code :: "persisted_peer_info code" where
  "peer_code = iso_code (\<lambda>p. (pp_backup_lsn p, pp_term p, pp_flush_lsn p, pp_commit_lsn p))
     (\<lambda>(b, t, f, c). \<lparr>pp_backup_lsn = b, pp_term = t, pp_flush_lsn = f, pp_commit_lsn = c\<rparr>)
     (pair_code u64_code (pair_code u64_code (pair_code u64_code u64_code)))"

definition v9_code :: "timeline_persistent_state_v9 code" where
  "v9_code = iso_code
     (\<lambda>s. (v7_tenant_id s, v7_timeline_id s, v7_acceptor_state s, v7_server s,
        v7_proposer_uuid s, v7_timeline_start_lsn s, v7_local_start_lsn s, v7_commit_lsn s,
        v7_backup_lsn s, v7_peer_horizon_lsn s, v7_remote_consistent_lsn s, v7_peers s,
        v8_partial_backup s, v9_eviction_state s))
     (\<lambda>(a, b, d, e, f, g, h, i, j, k, l, p, m, n).
        \<lparr>v7_tenant_id = a, v7_timeline_id = b, v7_acceptor_state = d, v7_server = e,
         v7_proposer_uuid = f, v7_timeline_start_lsn = g, v7_local_start_lsn = h,
         v7_commit_lsn = i, v7_backup_lsn = j, v7_peer_horizon_lsn = k,
         v7_remote_consistent_lsn = l, v7_peers = p, v8_partial_backup = m,
         v9_eviction_state = n\<rparr>)
     (pair_code bytes_code (pair_code bytes_code
       (pair_code acceptor_code (pair_code server_code (pair_code bytes_code
       (pair_code u64_code (pair_code u64_code (pair_code u64_code (pair_code u64_code
       (pair_code u64_code (pair_code u64_code
       (pair_code (list_code (pair_code u64_code peer_code)) (pair_code (list_code segment_code)
       eviction_code)))))))))))))"

definition code_des :: "'a code \<Rightarrow> bytes \<Rightarrow> 'a option" where
  "code_des c bs = (case snd c bs of Some (x, []) \<Rightarrow> Some x | _ \<Rightarrow> None)"

text \<open>A checksum that sums the bytes; the formats before version 9 are rejected.\<close>

definition plain_codec :: cf_codec where
  "plain_codec = \<lparr>
     cc_crc32c = (\<lambda>bs. sum_list (map ucast bs)),
     cc_ser = (\<lambda>s. Some (fst pers_code s)), cc_des = code_des pers_code,
     cc_ser_v9 = (\<lambda>s. Some (fst v9_code s)),
     cc_des_v1 = (\<lambda>_. None), cc_des_v2 = (\<lambda>_. None), cc_des_v3 = (\<lambda>_. None),
     cc_des_v4 = (\<lambda>_. None), cc_des_v7 = (\<lambda>_. None), cc_des_v8 = (\<lambda>_. None),
     cc_des_v9 = code_des v9_code\<rparr>"

section \<open>Laws\<close>

lemma code_ok_scalars [code_ok_rules]:
  "code_ok u32_code" "code_ok u64_code" "code_ok bytes_code"
  by (simp_all add: u32_code_def u64_code_def bytes_code_def code_ok_rules)

lemma code_ok_string [code_ok_rules]: "code_ok string_code"
  unfolding string_code_def by (intro code_ok_rules) (simp add: comp_def)

lemma code_ok_option [code_ok_rules]: "code_ok c \<Longrightarrow> code_ok (option_code c)"
  unfolding option_code_def by (intro code_ok_rules) (auto split: option.split)

lemma code_ok_structs [code_ok_rules]:
  "code_ok term_lsn_code" "code_ok acceptor_code" "code_ok server_code" "code_ok member_code"
  "code_ok status_code" "code_ok eviction_code" "code_ok peer_code"
  unfolding term_lsn_code_def acceptor_code_def server_code_def member_code_def status_code_def
    eviction_code_def peer_code_def
  by (intro code_ok_rules; simp split: upload_status.split eviction_state.split)+

lemma code_ok_sets [code_ok_rules]: "code_ok member_set_code" "code_ok segment_code"
  unfolding member_set_code_def segment_code_def by (intro code_ok_rules; simp)+

lemma code_ok_configuration [code_ok_rules]: "code_ok configuration_code"
  unfolding configuration_code_def by (intro code_ok_rules) simp

lemma code_ok_pers: "code_ok pers_code"
  unfolding pers_code_def by (intro code_ok_rules) simp

lemma code_ok_v9: "code_ok v9_code"
  unfolding v9_code_def by (intro code_ok_rules) simp

lemma code_des_enc: "code_ok c \<Longrightarrow> code_des c (fst c x) = Some x"
  using append_Nil2 [of "fst c x"] by (metis (no_types, lifting) code_des_def code_ok_def
      list.simps(4) option.simps(5) prod.simps(2))

interpretation plain: control_codec plain_codec
  by unfold_locales (auto simp: plain_codec_def code_des_enc code_ok_pers code_ok_v9)

section \<open>Concrete files\<close>

definition sample_state :: "lsn \<Rightarrow> pers_state" where
  "sample_state l = projr (pers_state_new (replicate 16 1, replicate 16 2)
     (configuration_new \<lparr>members_m = [\<lparr>sk_id = 1, sk_host = [115], sk_pg_port = 5454\<rparr>]\<rparr>)
     \<lparr>si_pg_version = 170004, si_system_id = 7, si_wal_seg_size = 16777216\<rparr> l l 0)"

text \<open>What a crash leaves when everything written happens to reach the disk.\<close>

definition settled :: "fs \<Rightarrow> fs" where
  "settled f = f\<lparr>fs_pending := [], fs_files := map clean (fs_files f), fs_faults := []\<rparr>"

lemma crashed_settled: "crashed f (settled f)"
  by (auto simp: crashed_def settled_def list_all2_conv_all_nth list_all_length crash_file_def)

lemma write_to_buf_plain: "\<exists>buf. write_to_buf plain_codec s = Some buf"
  by (auto simp: write_to_buf_def plain_codec_def downgrade_v10_to_v9_def Let_def)

lemma create_new_plain:
  assumes "ps_eviction_state s = Present"
  shows "\<exists>c. create_new plain_codec (fs_empty []) s False = Inr c \<and> fs_faults (fst_fs c) = []"
proof -
  obtain buf where "write_to_buf plain_codec s = Some buf" using write_to_buf_plain by blast
  from persist_no_fault [of "\<lparr>fst_fs = fs_empty [], fst_no_sync = False, fst_state = s\<rparr>", OF _ this]
  show ?thesis using assms by (auto simp: create_new_def fs_empty_def)
qed

lemma sample_state_fields [simp]:
  "ps_eviction_state (sample_state l) = Present"
  "conf_generation (ps_mconf (sample_state l)) = INITIAL_GENERATION"
  "ps_commit_lsn (sample_state l) = l"
  by (simp_all add: sample_state_def pers_state_new_def PG_VERSION_UNKNOWN_def
      configuration_new_def)

lemma restored_sample [simp]: "restored_state (sample_state l) = sample_state l"
  by (simp add: restored_state_def INITIAL_GENERATION_def INVALID_GENERATION_def)


theorem persist_crash_safe_witness:
  "\<exists>c c'. create_new plain_codec (fs_empty []) (sample_state 100) False = Inr c
     \<and> cf_persist plain_codec (sample_state 200) c = (Inr (), c')
     \<and> (\<exists>c''. restore_new plain_codec (settled (fst_fs c')) False = Inr c''
           \<and> fst_state c'' = sample_state 200)"
proof -
  obtain c where c: "create_new plain_codec (fs_empty []) (sample_state 100) False = Inr c"
      "fs_faults (fst_fs c) = []"
    using create_new_plain [of "sample_state 100"] by auto
  obtain buf where "write_to_buf plain_codec (sample_state 200) = Some buf"
    using write_to_buf_plain by blast
  then obtain c' where c': "cf_persist plain_codec (sample_state 200) c = (Inr (), c')"
    using persist_no_fault c(2) by blast
  have "cf_durable plain_codec c {sample_state 100}"
    using create_new_durable [OF plain.control_codec_axioms c(1)] by simp
  from persist_crash_safe [OF plain.control_codec_axioms this c' crashed_settled]
  show ?thesis using c c' by (auto simp: settled_def)
qed

end
