(* ===== verification/Wal_Sample.thy ===== *)
theory Wal_Sample
  imports Wal_Restart Waldecoder_Sample Control_Codec_Instance
begin

text \<open>
  A concrete timeline directory with one partial segment, on which the properties of the WAL
  storage are evaluated, and the interpretation of the bindings it assumes.
\<close>

interpretation sample: wal_bindings "\<lambda>_. sample_pg"
  by unfold_locales (simp add: sample_pg_ok)

text \<open>Segment 2 holds its header and one record behind it.\<close>

definition sample_dir :: fs where
  "sample_dir = \<lparr>fs_dir = [(''000000010000000000000002.partial'', 0)], fs_pending = [],
     fs_files = [\<lparr>f_data = replicate 40 0 @ sample_record, f_dirty = [], f_resized = False\<rparr>],
     fs_faults = []\<rparr>"

lemma sample_segments_ok: "segments_ok sample_dir"
proof -
  have "length sample_record = 24" by code_simp
  moreover have "wal_file_paths (of_nat last_segno) WAL_SEGMENT_SIZE
      = (''00000001FFFFFFFF000000FF'', ''00000001FFFFFFFF000000FF.partial'')" by code_simp
  ultimately show ?thesis
    by (simp add: segments_ok_def fs_ok_def fs_dirs_def sample_dir_def WAL_SEGMENT_SIZE_def)
qed

theorem restart_keeps_commit_witness:
  "\<exists>w t. physical_storage_new (\<lambda>_. sample_pg) (sample_state 0x2000028) False sample_dir = (Inr w, t)
     \<and> wal_ok w \<and> 0x2000028 \<le> wal_flush_lsn (phys_wal_ops (\<lambda>_. sample_pg)) w"
proof -
  let ?st = "sample_state 0x2000028"
  have "si_wal_seg_size (ps_server ?st) = 16777216"
    "major_try_from (si_pg_version (ps_server ?st)) = Some PG17" by code_simp+
  moreover have "unat (ps_commit_lsn ?st) \<le> last_segno * 16777216"
    by (simp add: last_segno_def)
  moreover have "fs_faults sample_dir = []" by (simp add: sample_dir_def)
  ultimately show ?thesis
    using restart_keeps_commit [OF sample.wal_bindings_axioms sample_segments_ok, of ?st PG17 False]
    by auto
qed

end
