(* ===== verification/Sk_Run.thy ===== *)
theory Sk_Run
  imports Sk_Safety Wal_Sample
begin

text \<open>
  Runs of one safekeeper over its files: messages, information from peers, changes requested
  over HTTP, and restarts after crashes (SharedState::restore of safekeeper/src/timeline.rs).
  The control file and the WAL have a view of the timeline directory each; their names differ.
\<close>

section \<open>Restart\<close>

type_synonym file_sk = "(file_storage, phys_storage) safekeeper"

datatype state_sk = Loaded file_sk | OffloadedSk "file_storage timeline_state"

datatype restore_error =
    RestoreControl cf_error
  | RestoreSegSize
  | RestoreWal wal_error
  | RestoreSk sk_error

definition shared_state_restore ::
  "cf_codec \<Rightarrow> (pg_major_version \<Rightarrow> pg_bindings) \<Rightarrow> node_id \<Rightarrow> bool \<Rightarrow> fs \<Rightarrow> fs \<Rightarrow> restore_error + state_sk" where
  "shared_state_restore codec pgs my_id no_sync ctl_dir wal_dir =
     (case restore_new codec ctl_dir no_sync of
        Inl e \<Rightarrow> Inl (RestoreControl e)
      | Inr control_store \<Rightarrow>
          if si_wal_seg_size (ps_server (fst_state control_store)) = 0 then Inl RestoreSegSize
          else case ps_eviction_state (fst_state control_store) of
            Present \<Rightarrow>
              (case physical_storage_new pgs (fst_state control_store) no_sync wal_dir of
                 (Inl e, _) \<Rightarrow> Inl (RestoreWal e)
               | (Inr wal_store, _) \<Rightarrow>
                   (case safekeeper_new (file_ctrl_ops codec)
                           (timeline_state_new (file_ctrl_ops codec) control_store) wal_store my_id of
                      Inl e \<Rightarrow> Inl (RestoreSk e)
                    | Inr sk \<Rightarrow> Inr (Loaded sk)))
          | Offloaded l \<Rightarrow> Inr (OffloadedSk (timeline_state_new (file_ctrl_ops codec) control_store)))"

section \<open>Steps\<close>

datatype sk_event =
    Processed proposer_acceptor_message "sk_error + acceptor_proposer_message option"
  | PeerInfo sk_timeline_info
  | TermBump "sk_term option"
  | MembershipSwitch configuration
  | ControlFlush
  | Restarted

text \<open>
  A restart finds the files as a crash left them; the process comes up when they can be
  read, and later I/O may fail again. WAL files are segments and the log does not reach the
  last segment of the address space.
\<close>

inductive sk_step ::
  "cf_codec \<Rightarrow> (pg_major_version \<Rightarrow> pg_bindings) \<Rightarrow> file_sk \<Rightarrow> sk_event \<Rightarrow> file_sk \<Rightarrow> bool"
  for codec pgs where
  message: "process_msg (file_ctrl_ops codec) (phys_wal_ops pgs) m s = (r, s') \<Longrightarrow> msg_ok m \<Longrightarrow>
     sk_step codec pgs s (Processed m r) s'"
| peer_info: "record_safekeeper_info (file_ctrl_ops codec) (phys_wal_ops pgs) i s = (r, s') \<Longrightarrow>
     sk_step codec pgs s (PeerInfo i) s'"
| bump: "in_state (term_bump (file_ctrl_ops codec) to) s = (r, s') \<Longrightarrow>
     sk_step codec pgs s (TermBump to) s'"
| switch: "in_state (membership_switch (file_ctrl_ops codec) c) s = (r, s') \<Longrightarrow>
     sk_step codec pgs s (MembershipSwitch c) s'"
| flush: "in_state (ts_flush (file_ctrl_ops codec)) s = (r, s') \<Longrightarrow>
     sk_step codec pgs s ControlFlush s'"
| restart: "crashed (fst_fs (ts_pers (sk_state s))) cd \<Longrightarrow> fs_faults cd = [] \<Longrightarrow>
     crashed (pst_fs (sk_wal_store s)) wd \<Longrightarrow> segments_ok (wd\<lparr>fs_faults := fl\<rparr>) \<Longrightarrow>
     shared_state_restore codec pgs (sk_node_id s) False cd (wd\<lparr>fs_faults := fl\<rparr>) = Inr (Loaded s1) \<Longrightarrow>
     unat (commit_of s1) \<le> last_segno * 16777216 \<Longrightarrow>
     s' = s1\<lparr>sk_state := (sk_state s1)\<lparr>ts_pers := (ts_pers (sk_state s1))\<lparr>fst_fs :=
            (fst_fs (ts_pers (sk_state s1)))\<lparr>fs_faults := fl'\<rparr>\<rparr>\<rparr>\<rparr> \<Longrightarrow>
     sk_step codec pgs s Restarted s'"

inductive sk_trace ::
  "cf_codec \<Rightarrow> (pg_major_version \<Rightarrow> pg_bindings) \<Rightarrow> file_sk \<Rightarrow> sk_event list \<Rightarrow> file_sk \<Rightarrow> bool"
  for codec pgs where
  trace_nil: "sk_trace codec pgs s [] s"
| trace_cons: "sk_step codec pgs s e s' \<Longrightarrow> sk_trace codec pgs s' es s'' \<Longrightarrow>
     sk_trace codec pgs s (e # es) s''"

text \<open>The terms voted for, in order.\<close>

fun granted :: "sk_event \<Rightarrow> sk_term list" where
  "granted (Processed m (Inr (Some (AVoteResponse v)))) = (if vp_vote_given v then [vp_term v] else [])"
| "granted _ = []"

definition votes :: "sk_event list \<Rightarrow> sk_term list" where
  "votes es = concat (map granted es)"

lemma votes_simps [simp]: "votes [] = []" "votes (e # es) = granted e @ votes es"
  by (simp_all add: votes_def)

section \<open>The storages of a safekeeper\<close>

locale file_acceptor = codec: control_codec codec + bindings: wal_bindings pgs
  for codec pgs

sublocale file_acceptor \<subseteq> sk: acceptor "file_ctrl_ops codec" restored_state "cf_durable codec"
  "phys_wal_ops pgs" wal_ok
  by unfold_locales

interpretation sample_sk: file_acceptor plain_codec "\<lambda>_. sample_pg"
  by unfold_locales

text \<open>The invariant of a safekeeper over its files, with segments of 16 MiB.\<close>

definition file_sk_ok :: "cf_codec \<Rightarrow> (pg_major_version \<Rightarrow> pg_bindings) \<Rightarrow> file_sk \<Rightarrow> bool" where
  "file_sk_ok codec pgs s \<longleftrightarrow>
     sk_inv (file_ctrl_ops codec) (phys_wal_ops pgs) (cf_durable codec) wal_ok s
     \<and> si_wal_seg_size (ps_server (pers (file_ctrl_ops codec) s)) = 16777216"


lemma restore_loaded:
  assumes "shared_state_restore codec pgs my_id ns cd wd = Inr (Loaded s)"
  obtains c w t where "restore_new codec cd ns = Inr c" and "physical_storage_new pgs (fst_state c) ns wd = (Inr w, t)"
    and "s = \<lparr>sk_term_start_lsn = 0, sk_state = timeline_state_new (file_ctrl_ops codec) c,
              sk_wal_store = w, sk_node_id = my_id\<rparr>"
  using assms
  by (auto simp: shared_state_restore_def safekeeper_new_def
      split: sum.splits if_splits prod.splits eviction_state.splits)

lemma restart_ok:
  assumes "control_codec codec" and "wal_bindings pgs"
      and inv: "file_sk_ok codec pgs s" and step: "sk_step codec pgs s Restarted s'"
  shows "file_sk_ok codec pgs s'" and "ahead (pers (file_ctrl_ops codec) s) (pers (file_ctrl_ops codec) s')"
    and "sk_node_id s' = sk_node_id s"
proof -
  let ?P = "pers (file_ctrl_ops codec)"
  from step obtain cd wd fl fl' s1 where
    crash: "crashed (fst_fs (ts_pers (sk_state s))) cd" "fs_faults cd = []"
    and segs: "segments_ok (wd\<lparr>fs_faults := fl\<rparr>)"
    and restore: "shared_state_restore codec pgs (sk_node_id s) False cd (wd\<lparr>fs_faults := fl\<rparr>) = Inr (Loaded s1)"
    and limit: "unat (commit_of s1) \<le> last_segno * 16777216"
    and s': "s' = s1\<lparr>sk_state := (sk_state s1)\<lparr>ts_pers := (ts_pers (sk_state s1))\<lparr>fst_fs :=
            (fst_fs (ts_pers (sk_state s1)))\<lparr>fs_faults := fl'\<rparr>\<rparr>\<rparr>\<rparr>"
    by (cases rule: sk_step.cases) auto
  from restore_loaded [OF restore] obtain c w t where
    c: "restore_new codec cd False = Inr c" and w: "physical_storage_new pgs (fst_state c) False (wd\<lparr>fs_faults := fl\<rparr>) = (Inr w, t)"
    and s1: "s1 = \<lparr>sk_term_start_lsn = 0, sk_state = timeline_state_new (file_ctrl_ops codec) c,
              sk_wal_store = w, sk_node_id = sk_node_id s\<rparr>" .
  have "ctl_holds codec (fst_fs (ts_pers (sk_state s))) (Some ` {r. ahead (?P s) r})"
    using inv by (simp add: file_sk_ok_def sk_inv_def cf_durable_def)
  from restore_after_crash [OF this crash] c have dur: "ahead (?P s) (fst_state c)"
    "cf_durable codec c {fst_state c}" by auto
  have views: "?P s' = fst_state c" "commit_of s' = ps_commit_lsn (fst_state c)"
    "commit_of s1 = ps_commit_lsn (fst_state c)"
    "sk_wal_store s' = w" "sk_node_id s' = sk_node_id s"
    "ts_pers (sk_state s') = c\<lparr>fst_fs := (fst_fs c)\<lparr>fs_faults := fl'\<rparr>\<rparr>"
    by (simp_all add: s' s1 timeline_state_new_def file_ctrl_ops_def pers_def ts_state_def inmem_def mem_of_def)
  have seg: "si_wal_seg_size (ps_server (fst_state c)) = 16777216"
    using dur(1) inv by (simp add: ahead_def file_sk_ok_def)
  have "wal_ok w \<and> ps_commit_lsn (fst_state c) \<le> wal_flush_lsn (phys_wal_ops pgs) w"
    using opened_ok [OF assms(2) segs seg _ w] limit views(3) by simp
  moreover have "cf_durable codec (c\<lparr>fst_fs := (fst_fs c)\<lparr>fs_faults := fl'\<rparr>\<rparr>) {r. ahead (fst_state c) r}"
    using dur(2) by (auto simp: cf_durable_def elim: ctl_holds_mono)
  ultimately show "file_sk_ok codec pgs s'"
    using seg by (simp add: file_sk_ok_def sk_inv_def views flush_lsn_def le_max_iff_disj)
  show "ahead (?P s) (?P s')" "sk_node_id s' = sk_node_id s" using dur(1) views by simp_all
qed

context file_acceptor
begin

abbreviation good :: "file_sk \<Rightarrow> bool" where
  "good \<equiv> file_sk_ok codec pgs"

abbreviation le :: "file_sk \<Rightarrow> file_sk \<Rightarrow> bool" where
  "le \<equiv> sk_le (file_ctrl_ops codec)"

lemma good_safe:
  assumes "good s" and "sk.safe m P s" and "m s = (r, s')"
  shows "good s' \<and> le s s' \<and> (\<forall>x. r = Inr x \<longrightarrow> P x s') \<and> r \<noteq> Inl CommitNotMonotone"
  using assms by (cases r) (auto simp: wp_def file_sk_ok_def sk_le_def ahead_def)

text \<open>One step: what it keeps, how it moves the state, and what it answers.\<close>

lemma step_ok:
  assumes "good s" and "sk_step codec pgs s e s'"
  shows "good s' \<and> ahead (pers (file_ctrl_ops codec) s) (pers (file_ctrl_ops codec) s')
    \<and> (e \<noteq> Restarted \<longrightarrow> commit_of s \<le> commit_of s')
    \<and> (\<forall>m r. e = Processed m (Inr r) \<longrightarrow> reply_ok (file_ctrl_ops codec) (phys_wal_ops pgs) m s r s')
    \<and> (\<forall>m. e \<noteq> Processed m (Inl CommitNotMonotone))"
proof -
  have ok: "sk.ok s" using assms(1) by (simp add: file_sk_ok_def)
  show ?thesis
    using assms(2)
  proof cases
    case (message m r)
    then show ?thesis
      using good_safe [OF assms(1) sk.process_msg_safe [OF ok]] by (fastforce simp: sk_le_def)
  next
    case (peer_info i r)
    then show ?thesis using good_safe [OF assms(1) sk.info_safe [OF ok]] by (fastforce simp: sk_le_def)
  next
    case (bump to r)
    then show ?thesis using good_safe [OF assms(1) sk.term_bump_safe [OF ok]] by (fastforce simp: sk_le_def)
  next
    case (switch c r)
    then show ?thesis
      using good_safe [OF assms(1) sk.membership_switch_safe [OF ok]] by (fastforce simp: sk_le_def)
  next
    case (flush r)
    then show ?thesis using good_safe [OF assms(1) sk.ts_flush_safe [OF ok]] by (fastforce simp: sk_le_def)
  next
    case restart
    have "sk_step codec pgs s Restarted s'" using assms(2) restart(1) by simp
    from restart_ok [OF codec.control_codec_axioms bindings.wal_bindings_axioms assms(1) this]
    show ?thesis using restart(1) by simp
  qed
qed

lemma elected_ok:
  assumes "good s" and "msg_ok (Elected m)"
      and "process_msg (file_ctrl_ops codec) (phys_wal_ops pgs) (Elected m) s = (Inr r, s')"
  shows "le s s' \<and> sk_term_of (file_ctrl_ops codec) s' = max (sk_term_of (file_ctrl_ops codec) s) (pe_term m)
     \<and> (sk_term_of (file_ctrl_ops codec) s' = pe_term m \<longrightarrow>
          as_term_history (ps_acceptor_state (pers (file_ctrl_ops codec) s')) = pe_term_history m
          \<and> wal_flush_lsn (phys_wal_ops pgs) (sk_wal_store s') = pe_start_streaming_at m
          \<and> agreed_point (file_ctrl_ops codec) (phys_wal_ops pgs) (pe_term_history m) s (pe_start_streaming_at m)
          \<and> commit_of s \<le> pe_start_streaming_at m)"
proof -
  have ok: "sk.ok s" using assms(1) by (simp add: file_sk_ok_def)
  have pos: "pe_start_streaming_at m \<noteq> 0" "unat (pe_start_streaming_at m) \<le> LSN_LIMIT"
    using assms(2) by simp_all
  from good_safe [OF assms(1) sk.elected_safe [OF ok pos]] assms(3)
  show ?thesis by fastforce
qed

lemma granted_new:
  assumes "good s" and "sk_step codec pgs s e s'" and "t \<in> set (granted e)"
  shows "granted e = [t] \<and> sk_term_of (file_ctrl_ops codec) s < t \<and> t = sk_term_of (file_ctrl_ops codec) s'"
proof -
  obtain m v where e: "e = Processed m (Inr (Some (AVoteResponse v)))" "vp_vote_given v" "t = vp_term v"
    using assms(3) by (cases e rule: granted.cases) (auto split: if_splits)
  then have "reply_ok (file_ctrl_ops codec) (phys_wal_ops pgs) m s (Some (AVoteResponse v)) s'"
    using step_ok [OF assms(1,2)] by blast
  from reply_ok_vote [OF this] show ?thesis using e by auto
qed

lemma trace_ok:
  assumes "sk_trace codec pgs s es s'" and "good s"
  shows "good s' \<and> ahead (pers (file_ctrl_ops codec) s) (pers (file_ctrl_ops codec) s')
    \<and> sorted_wrt (<) (votes es)
    \<and> (\<forall>t \<in> set (votes es). sk_term_of (file_ctrl_ops codec) s < t \<and> t \<le> sk_term_of (file_ctrl_ops codec) s')"
  using assms
proof (induction rule: sk_trace.induct)
  case (trace_nil s)
  then show ?case by simp
next
  case (trace_cons s e s' es s'')
  note st = step_ok [OF trace_cons.prems trace_cons.hyps(1)]
  note IH = trace_cons.IH [OF conjunct1 [OF st]]
  have le: "sk_term_of (file_ctrl_ops codec) s \<le> sk_term_of (file_ctrl_ops codec) s'"
    "sk_term_of (file_ctrl_ops codec) s' \<le> sk_term_of (file_ctrl_ops codec) s''"
    using st IH by (auto simp: ahead_def)
  show ?case
  proof (cases "granted e")
    case Nil
    then show ?thesis using IH st le by (auto intro: ahead_trans)
  next
    case (Cons t ts)
    with granted_new [OF trace_cons.prems trace_cons.hyps(1), of t]
    show ?thesis using IH st le by (auto intro: ahead_trans)
  qed
qed

end

section \<open>Properties of every run\<close>

text \<open>
  C8: a safekeeper votes at most once per term, crashes included. In every run of messages,
  peer information, HTTP requests, I/O failures and restarts, the terms of the votes it gives
  strictly increase, lie above the term it started with, and are covered by its term at the
  end.
\<close>

theorem one_vote_per_term:
  assumes "control_codec codec" and "wal_bindings pgs" and "file_sk_ok codec pgs s"
      and "sk_trace codec pgs s es s'"
  shows "sorted_wrt (<) (votes es) \<and> distinct (votes es)
    \<and> (\<forall>t \<in> set (votes es). sk_term_of (file_ctrl_ops codec) s < t \<and> t \<le> sk_term_of (file_ctrl_ops codec) s')"
proof -
  have "file_acceptor codec pgs" using assms(1,2) by (rule file_acceptor.intro)
  from file_acceptor.trace_ok [OF this assms(4,3)] show ?thesis
    using strict_sorted_iff by blast
qed

text \<open>
  C9: nothing a safekeeper has promised is undone by a run. The invariant holds at the end:
  what any crash leaves on disk is at or after the state in memory, and commits lie within
  the flushed log. Term, configuration generation and commit position on disk never decrease
  and the identity of the timeline stays.
\<close>

theorem run_keeps_promises:
  assumes "control_codec codec" and "wal_bindings pgs" and "file_sk_ok codec pgs s"
      and "sk_trace codec pgs s es s'"
  shows "file_sk_ok codec pgs s'
    \<and> ahead (pers (file_ctrl_ops codec) s) (pers (file_ctrl_ops codec) s')
    \<and> commit_of s' \<le> flush_lsn (file_ctrl_ops codec) (phys_wal_ops pgs) s'
    \<and> ps_commit_lsn (pers (file_ctrl_ops codec) s) \<le> commit_of s'"
proof -
  have "file_acceptor codec pgs" using assms(1,2) by (rule file_acceptor.intro)
  from file_acceptor.trace_ok [OF this assms(4,3)] show ?thesis
    by (auto simp: file_sk_ok_def sk_inv_def ahead_def)
qed

text \<open>
  C10: replies are true. Whatever I/O fails, a message never trips the assertion that commits
  only grow, and an answer reports the state left behind: a greeting the node, its
  configuration and its term; a vote response the generation, the term, the flushed end of
  the log with its history and the peer horizon; an append response the generation, the
  term, the flushed end of the log and the commit position on disk. A vote is given exactly
  for a term above the safekeeper's own, and any crash after the answer leaves it on disk.
  An append request of an earlier term changes nothing and is told the term, with both
  positions zero.
\<close>

theorem replies_are_true:
  assumes "control_codec codec" and "wal_bindings pgs" and "file_sk_ok codec pgs s" and "msg_ok m"
      and "process_msg (file_ctrl_ops codec) (phys_wal_ops pgs) m s = (r, s')"
  shows "r \<noteq> Inl CommitNotMonotone \<and> commit_of s \<le> commit_of s'
    \<and> (\<forall>a. r = Inr a \<longrightarrow> reply_ok (file_ctrl_ops codec) (phys_wal_ops pgs) m s a s'
         \<and> (\<forall>v d c. a = Some (AVoteResponse v) \<and> crashed (fst_fs (ts_pers (sk_state s'))) d
              \<and> fs_faults d = [] \<and> restore_new codec d False = Inr c \<longrightarrow>
              vp_term v \<le> as_term (ps_acceptor_state (fst_state c))))"
proof -
  have "file_acceptor codec pgs" using assms(1,2) by (rule file_acceptor.intro)
  from file_acceptor.step_ok [OF this assms(3) sk_step.message [OF assms(5,4)]]
  have st: "file_sk_ok codec pgs s'" "r \<noteq> Inl CommitNotMonotone" "commit_of s \<le> commit_of s'"
    "\<And>a. r = Inr a \<Longrightarrow> reply_ok (file_ctrl_ops codec) (phys_wal_ops pgs) m s a s'" by auto
  have holds: "ctl_holds codec (fst_fs (ts_pers (sk_state s')))
      (Some ` {q. ahead (pers (file_ctrl_ops codec) s') q})"
    using st(1) by (simp add: file_sk_ok_def sk_inv_def cf_durable_def)
  have "sk_term_of (file_ctrl_ops codec) s' \<le> as_term (ps_acceptor_state (fst_state c))"
    if "crashed (fst_fs (ts_pers (sk_state s'))) d" "fs_faults d = []" "restore_new codec d False = Inr c" for d c
    using restore_after_crash [OF holds that(1,2)] that(3) by (auto simp: ahead_def)
  then show ?thesis using st reply_ok_vote by metis
qed

text \<open>
  C11: a proposer's election is followed, and never at the cost of the committed log. When a
  message of an elected proposer of this or a later term is handled without an error, the
  position in it was the point the two histories agree on, and not below the commit position
  of the safekeeper; the safekeeper is then in that term with the proposer's history, its
  log ends at that position, and its commit position has not moved back.
\<close>

theorem elected_is_followed:
  assumes "control_codec codec" and "wal_bindings pgs" and "file_sk_ok codec pgs s" and "msg_ok (Elected m)"
      and "sk_term_of (file_ctrl_ops codec) s \<le> pe_term m"
      and "process_msg (file_ctrl_ops codec) (phys_wal_ops pgs) (Elected m) s = (Inr r, s')"
  shows "sk_term_of (file_ctrl_ops codec) s' = pe_term m
    \<and> as_term_history (ps_acceptor_state (pers (file_ctrl_ops codec) s')) = pe_term_history m
    \<and> wal_flush_lsn (phys_wal_ops pgs) (sk_wal_store s') = pe_start_streaming_at m
    \<and> agreed_point (file_ctrl_ops codec) (phys_wal_ops pgs) (pe_term_history m) s (pe_start_streaming_at m)
    \<and> commit_of s \<le> pe_start_streaming_at m \<and> commit_of s \<le> commit_of s'"
proof -
  have "file_acceptor codec pgs" using assms(1,2) by (rule file_acceptor.intro)
  from file_acceptor.elected_ok [OF this assms(3,4)] assms(5,6) show ?thesis
    by (fastforce simp: sk_le_def max_def)
qed

end
