(* ===== verification/Sk_Sample.thy ===== *)
theory Sk_Sample
  imports Sk_Run
begin

text \<open>
  A safekeeper on concrete files, on which the properties of runs are evaluated: it starts
  from a new control file and one partial segment, restarts, and votes.
\<close>

abbreviation (input) sample_ctrl :: "file_storage ctrl_ops" where
  "sample_ctrl \<equiv> file_ctrl_ops plain_codec"

abbreviation (input) sample_wal :: "phys_storage wal_ops" where
  "sample_wal \<equiv> phys_wal_ops (\<lambda>_. sample_pg)"

abbreviation (input) sample_commit :: lsn where
  "sample_commit \<equiv> 0x2000028"

lemma opened_fs:
  assumes "wal_bindings pgs" and "segments_ok s" and "si_wal_seg_size (ps_server st) = 16777216"
      and "unat (ps_commit_lsn st) \<le> last_segno * 16777216"
      and "physical_storage_new pgs st ns s = (Inr w, t)"
  shows "\<exists>fl. pst_fs w = s\<lparr>fs_faults := fl\<rparr>" and "pst_flush_record_lsn w = pst_write_record_lsn w"
proof -
  have sz: "ucast (si_wal_seg_size (ps_server st)) = WAL_SEGMENT_SIZE"
    using assms(3) by (simp add: WAL_SEGMENT_SIZE_def)
  have "\<exists>fl. u = s\<lparr>fs_faults := fl\<rparr>"
    if "find_end_of_wal pgs v WAL_SEGMENT_SIZE (ps_commit_lsn st) s = (Inr l, u)" for v l u
    using that find_end_of_wal_ok(1) [OF assms(1,2,4), of v] by (auto simp: end_found_def)
  then show "\<exists>fl. pst_fs w = s\<lparr>fs_faults := fl\<rparr>" "pst_flush_record_lsn w = pst_write_record_lsn w"
    using assms(5) fs_faults_self unfolding physical_storage_new_def sz Let_def
    by (auto simp: prog_defs split: if_splits prod.splits sum.splits option.splits)
qed

lemma sample_state_server:
  "si_wal_seg_size (ps_server (sample_state l)) = 16777216"
  "major_try_from (si_pg_version (ps_server (sample_state l))) = Some PG17"
  "ps_tenant_id (sample_state l) = replicate 16 1" "ps_timeline_id (sample_state l) = replicate 16 2"
  "as_term (ps_acceptor_state (sample_state l)) = 0"
  by (simp_all add: sample_state_def pers_state_new_def PG_VERSION_UNKNOWN_def major_try_from_def
      INITIAL_TERM_def)

text \<open>Opening the sample segment.\<close>

lemma sample_opened:
  assumes "st = sample_state sample_commit"
  shows "\<exists>w t fl. physical_storage_new (\<lambda>_. sample_pg) st False sample_dir = (Inr w, t)
     \<and> pst_fs w = sample_dir\<lparr>fs_faults := fl\<rparr> \<and> pst_flush_record_lsn w = pst_write_record_lsn w
     \<and> wal_ok w \<and> sample_commit \<le> wal_flush_lsn sample_wal w"
proof -
  have st: "si_wal_seg_size (ps_server st) = 16777216" "major_try_from (si_pg_version (ps_server st)) = Some PG17"
    "ps_commit_lsn st = sample_commit" using assms by (simp_all add: sample_state_server)
  have lim: "unat (ps_commit_lsn st) \<le> last_segno * 16777216" by (simp add: st last_segno_def)
  have nf: "fs_faults sample_dir = []" by (simp add: sample_dir_def)
  note b = sample.wal_bindings_axioms sample_segments_ok
  obtain w t where w: "physical_storage_new (\<lambda>_. sample_pg) st False sample_dir = (Inr w, t)"
    using opened_no_fault [OF b st(1,2) lim nf, where no_sync = False] by blast
  show ?thesis
    using w opened_fs [OF b st(1) lim w] opened_ok [OF b st(1) lim w] st(3) by auto
qed

text \<open>The safekeeper, and a restart of it.\<close>

lemma sample_loaded:
  assumes "fst_state c = sample_state sample_commit" and "cf_durable plain_codec c {sample_state sample_commit}"
      and "restore_new plain_codec d False = Inr c"
  shows "\<exists>s fl. shared_state_restore plain_codec (\<lambda>_. sample_pg) 1 False d sample_dir = Inr (Loaded s)
     \<and> file_sk_ok plain_codec (\<lambda>_. sample_pg) s \<and> pers sample_ctrl s = sample_state sample_commit
     \<and> ts_pers (sk_state s) = c \<and> pst_fs (sk_wal_store s) = sample_dir\<lparr>fs_faults := fl\<rparr>
     \<and> pst_flush_record_lsn (sk_wal_store s) = pst_write_record_lsn (sk_wal_store s)
     \<and> sk_node_id s = 1 \<and> commit_of s = sample_commit"
proof -
  obtain w t fl where w: "physical_storage_new (\<lambda>_. sample_pg) (fst_state c) False sample_dir = (Inr w, t)"
     "pst_fs w = sample_dir\<lparr>fs_faults := fl\<rparr>" "pst_flush_record_lsn w = pst_write_record_lsn w"
     "wal_ok w" "sample_commit \<le> wal_flush_lsn sample_wal w"
    using sample_opened [OF assms(1)] by blast
  have "cf_durable plain_codec c {r. ahead (sample_state sample_commit) r}"
    using assms(2) by (auto simp: cf_durable_def elim: ctl_holds_mono)
  then show ?thesis
    using assms(1,3) w
    by (auto simp: shared_state_restore_def safekeeper_new_def timeline_state_new_def ts_state_def
        file_ctrl_ops_def sample_state_server file_sk_ok_def sk_inv_def pers_def inmem_def mem_of_def
        flush_lsn_def le_max_iff_disj)
qed

lemma durable_any: "cf_durable codec c S \<Longrightarrow> cf_durable codec c UNIV"
  by (auto simp: cf_durable_def elim: ctl_holds_mono)

text \<open>A change of the state on a disk without faults.\<close>

abbreviation (input) disk_works :: "file_storage \<Rightarrow> bool" where
  "disk_works c \<equiv> fs_faults (fst_fs c) = [] \<and> cf_durable plain_codec c UNIV"

lemma sample_change:
  assumes "disk_works (ts_pers t)"
  shows "\<exists>c. finish_change sample_ctrl st t = (Inr (), t\<lparr>ts_pers := c, ts_inmem := mem_of st\<rparr>)
     \<and> fst_state c = st \<and> disk_works c"
proof (cases "st = fst_state (ts_pers t)")
  case True
  then show ?thesis
    using assms by (auto simp: finish_change_def prog_defs file_ctrl_ops_def ts_state_def
        intro!: exI [of _ "ts_pers t"])
next
  case False
  obtain buf where "write_to_buf plain_codec st = Some buf" using write_to_buf_plain by blast
  then obtain c where c: "cf_persist plain_codec st (ts_pers t) = (Inr (), c)" "fs_faults (fst_fs c) = []"
    using persist_no_fault [of "ts_pers t"] assms by blast
  have "fst_state c = st \<and> \<not> fst_no_sync c \<and> ctl_holds plain_codec (fst_fs c) {Some (restored_state st)}"
    using plain.persist_wp [of "ts_pers t" "Some ` UNIV" st] assms c by (simp add: wp_def cf_durable_def)
  then show ?thesis
    using False c by (auto simp: finish_change_def prog_defs zoom_def file_ctrl_ops_def ts_state_def
        cf_durable_def intro!: exI [of _ c] elim: ctl_holds_mono)
qed

lemma sample_raise:
  assumes "disk_works (ts_pers (sk_state s))"
  shows "\<exists>c. raise_term sample_ctrl t s = (Inr (), s\<lparr>sk_state := (sk_state s)\<lparr>ts_pers := c, ts_inmem := inmem s\<rparr>\<rparr>)
     \<and> fst_state c = (start_change sample_ctrl (sk_state s))\<lparr>ps_acceptor_state
         := (ps_acceptor_state (pers sample_ctrl s))\<lparr>as_term := t\<rparr>\<rparr> \<and> disk_works c"
proof -
  define st where "st = (start_change sample_ctrl (sk_state s))\<lparr>ps_acceptor_state
         := (ps_acceptor_state (pers sample_ctrl s))\<lparr>as_term := t\<rparr>\<rparr>"
  have "mem_of st = inmem s" by (simp add: st_def mem_of_def start_change_def inmem_def)
  moreover have "raise_term sample_ctrl t s = in_state (finish_change sample_ctrl st) s"
    by (simp add: raise_term_def prog_defs st_def pers_def)
  ultimately show ?thesis
    using sample_change [OF assms, of st] by (auto simp: in_state_def zoom_def st_def)
qed

text \<open>A vote, when there is nothing to flush.\<close>

definition vote_for :: "sk_term \<Rightarrow> vote_request" where
  "vote_for t = \<lparr>vr_generation = INITIAL_GENERATION, vr_term = t\<rparr>"

lemma sample_vote:
  assumes "sk_generation_of sample_ctrl s = INITIAL_GENERATION" and "sk_term_of sample_ctrl s < t"
      and "disk_works (ts_pers (sk_state s))"
      and "pst_flush_record_lsn (sk_wal_store s) = pst_write_record_lsn (sk_wal_store s)"
  shows "\<exists>v s'. process_msg sample_ctrl sample_wal (VoteRequest (vote_for t)) s = (Inr (Some (AVoteResponse v)), s')
     \<and> vp_vote_given v \<and> vp_term v = t"
proof -
  have flushed: "in_wal (wal_flush_wal sample_wal) s = (Inr (), s)"
    using assms(4) by (simp add: in_wal_def zoom_def phys_wal_ops_def flush_wal_def prog_defs)
  obtain c where "raise_term sample_ctrl t s = (Inr (), s\<lparr>sk_state := (sk_state s)\<lparr>ts_pers := c, ts_inmem := inmem s\<rparr>\<rparr>)"
    "as_term (ps_acceptor_state (fst_state c)) = t"
    using sample_raise [OF assms(3), of t] by auto
  then show ?thesis
    using assms(1,2) flushed
    by (simp add: handle_vote_request_def vote_for_def give_vote_def prog_defs pers_def ts_state_def
        file_ctrl_ops_def)
qed

text \<open>A disk with the control file, and the safekeeper started from it.\<close>

abbreviation (input) sample_ctl :: "fs \<Rightarrow> bool" where
  "sample_ctl f \<equiv> ctl_holds plain_codec f (Some ` {sample_state sample_commit})"

lemma sample_disk: "\<exists>f. sample_ctl f"
proof -
  obtain c where c: "create_new plain_codec (fs_empty []) (sample_state sample_commit) False = Inr c"
    using create_new_plain [of "sample_state sample_commit"] by auto
  then show ?thesis
    using create_new_durable [OF plain.control_codec_axioms c] by (auto simp: cf_durable_def)
qed

lemma settled_no_faults [simp]: "fs_faults (settled f) = []"
  by (simp add: settled_def)

lemma sample_start:
  assumes "sample_ctl f"
  shows "\<exists>s fl. shared_state_restore plain_codec (\<lambda>_. sample_pg) 1 False (settled f) sample_dir = Inr (Loaded s)
     \<and> file_sk_ok plain_codec (\<lambda>_. sample_pg) s \<and> pers sample_ctrl s = sample_state sample_commit
     \<and> cf_durable plain_codec (ts_pers (sk_state s)) {sample_state sample_commit}
     \<and> fs_faults (fst_fs (ts_pers (sk_state s))) = []
     \<and> pst_fs (sk_wal_store s) = sample_dir\<lparr>fs_faults := fl\<rparr>
     \<and> pst_flush_record_lsn (sk_wal_store s) = pst_write_record_lsn (sk_wal_store s)
     \<and> sk_node_id s = 1 \<and> commit_of s = sample_commit"
proof -
  obtain c where c: "restore_new plain_codec (settled f) False = Inr c" "fst_state c = sample_state sample_commit"
    "cf_durable plain_codec c {sample_state sample_commit}" "fst_fs c = settled f"
    using restore_after_crash [OF assms crashed_settled] by auto
  have "fs_faults (fst_fs c) = []" by (simp add: c(4))
  then show ?thesis using sample_loaded [OF c(2,3,1)] c(3) by blast
qed

lemma sample_run:
  "\<exists>s v s'. file_sk_ok plain_codec (\<lambda>_. sample_pg) s \<and> pers sample_ctrl s = sample_state sample_commit
     \<and> sk_trace plain_codec (\<lambda>_. sample_pg) s
         [Restarted, Processed (VoteRequest (vote_for 5)) (Inr (Some (AVoteResponse v)))] s'
     \<and> vp_vote_given v \<and> vp_term v = 5"
proof -
  obtain f where f: "sample_ctl f" using sample_disk by blast
  obtain s fl where s: "file_sk_ok plain_codec (\<lambda>_. sample_pg) s" "pers sample_ctrl s = sample_state sample_commit"
    "cf_durable plain_codec (ts_pers (sk_state s)) {sample_state sample_commit}"
    "pst_fs (sk_wal_store s) = sample_dir\<lparr>fs_faults := fl\<rparr>" "sk_node_id s = 1"
    using sample_start [OF f] by blast
  have ctl: "sample_ctl (fst_fs (ts_pers (sk_state s)))" using s(3) by (simp add: cf_durable_def)
  obtain s1 where s1: "shared_state_restore plain_codec (\<lambda>_. sample_pg) 1 False
      (settled (fst_fs (ts_pers (sk_state s)))) sample_dir = Inr (Loaded s1)"
    "pers sample_ctrl s1 = sample_state sample_commit" "fs_faults (fst_fs (ts_pers (sk_state s1))) = []"
    "cf_durable plain_codec (ts_pers (sk_state s1)) {sample_state sample_commit}"
    "pst_flush_record_lsn (sk_wal_store s1) = pst_write_record_lsn (sk_wal_store s1)" "commit_of s1 = sample_commit"
    using sample_start [OF ctl] by blast
  have wd: "crashed (pst_fs (sk_wal_store s)) sample_dir"
    using crashed_settled [of "sample_dir\<lparr>fs_faults := fl\<rparr>"] s(4)
    by (simp add: settled_def sample_dir_def clean_def)
  have "sk_step plain_codec (\<lambda>_. sample_pg) s Restarted s1"
    by (rule sk_step.restart [OF crashed_settled settled_no_faults wd, where fl = "[]" and fl' = "[]" and ?s1.0 = s1])
       (use s s1 sample_segments_ok in \<open>simp_all add: last_segno_def sample_dir_def\<close>)
  moreover obtain v s' where v: "process_msg sample_ctrl sample_wal (VoteRequest (vote_for 5)) s1
      = (Inr (Some (AVoteResponse v)), s')" "vp_vote_given v" "vp_term v = 5"
    using sample_vote [OF _ _ _ s1(5), of 5] s1(2-4) durable_any by (auto simp: sample_state_server)
  moreover have "msg_ok (VoteRequest (vote_for 5))" by simp
  note sk_step.message [OF v(1) this]
  ultimately show ?thesis using s(1,2) v by (blast intro: sk_trace.intros)
qed

theorem one_vote_per_term_witness:
  "\<exists>s v s'. sk_trace plain_codec (\<lambda>_. sample_pg) s
         [Restarted, Processed (VoteRequest (vote_for 5)) (Inr (Some (AVoteResponse v)))] s'
     \<and> votes [Restarted, Processed (VoteRequest (vote_for 5)) (Inr (Some (AVoteResponse v)))] = [5]
     \<and> sk_term_of sample_ctrl s < 5 \<and> 5 \<le> sk_term_of sample_ctrl s'"
proof -
  obtain s v s' where s: "file_sk_ok plain_codec (\<lambda>_. sample_pg) s"
    "sk_trace plain_codec (\<lambda>_. sample_pg) s
         [Restarted, Processed (VoteRequest (vote_for 5)) (Inr (Some (AVoteResponse v)))] s'"
    "vp_vote_given v" "vp_term v = 5"
    using sample_run by blast
  from one_vote_per_term [OF plain.control_codec_axioms sample.wal_bindings_axioms s(1,2)] s(2-4)
  show ?thesis by fastforce
qed

theorem run_keeps_promises_witness:
  "\<exists>s v s'. sk_trace plain_codec (\<lambda>_. sample_pg) s
         [Restarted, Processed (VoteRequest (vote_for 5)) (Inr (Some (AVoteResponse v)))] s'
     \<and> file_sk_ok plain_codec (\<lambda>_. sample_pg) s' \<and> sample_commit \<le> commit_of s'"
proof -
  obtain s v s' where s: "file_sk_ok plain_codec (\<lambda>_. sample_pg) s"
    "pers sample_ctrl s = sample_state sample_commit"
    "sk_trace plain_codec (\<lambda>_. sample_pg) s
         [Restarted, Processed (VoteRequest (vote_for 5)) (Inr (Some (AVoteResponse v)))] s'"
    using sample_run by blast
  from run_keeps_promises [OF plain.control_codec_axioms sample.wal_bindings_axioms s(1,3)] s(2,3)
  show ?thesis by auto
qed

theorem replies_are_true_witness:
  "\<exists>s v s'. process_msg sample_ctrl sample_wal (VoteRequest (vote_for 5)) s = (Inr (Some (AVoteResponse v)), s')
     \<and> vp_vote_given v \<and> reply_ok sample_ctrl sample_wal (VoteRequest (vote_for 5)) s (Some (AVoteResponse v)) s'
     \<and> (\<exists>c. restore_new plain_codec (settled (fst_fs (ts_pers (sk_state s')))) False = Inr c
           \<and> 5 \<le> as_term (ps_acceptor_state (fst_state c)))"
proof -
  obtain s where s: "file_sk_ok plain_codec (\<lambda>_. sample_pg) s" "pers sample_ctrl s = sample_state sample_commit"
    "fs_faults (fst_fs (ts_pers (sk_state s))) = []"
    "pst_flush_record_lsn (sk_wal_store s) = pst_write_record_lsn (sk_wal_store s)"
    using sample_disk sample_start by blast
  have dur: "cf_durable plain_codec (ts_pers (sk_state s)) {r. ahead (pers sample_ctrl s) r}"
    using s(1) by (simp add: file_sk_ok_def sk_inv_def)
  obtain v s' where v: "process_msg sample_ctrl sample_wal (VoteRequest (vote_for 5)) s
      = (Inr (Some (AVoteResponse v)), s')" "vp_vote_given v" "vp_term v = 5"
    using sample_vote [OF _ _ _ s(4), of 5] s(2,3) durable_any [OF dur] by (auto simp: sample_state_server)
  have m: "msg_ok (VoteRequest (vote_for 5))" by simp
  have "file_sk_ok plain_codec (\<lambda>_. sample_pg) s'"
    using sample_sk.step_ok [OF s(1) sk_step.message [OF v(1) m]] by blast
  then have "ctl_holds plain_codec (fst_fs (ts_pers (sk_state s'))) (Some ` {r. ahead (pers sample_ctrl s') r})"
    by (simp add: file_sk_ok_def sk_inv_def cf_durable_def)
  then obtain c where "restore_new plain_codec (settled (fst_fs (ts_pers (sk_state s')))) False = Inr c"
    using restore_after_crash [OF _ crashed_settled settled_no_faults] by blast
  then show ?thesis
    using replies_are_true [OF plain.control_codec_axioms sample.wal_bindings_axioms s(1) m v(1)] v
      crashed_settled [of "fst_fs (ts_pers (sk_state s'))"] settled_no_faults by metis
qed

section \<open>An election\<close>

definition sample_storage :: phys_storage where
  "sample_storage = \<lparr>pst_fs = sample_dir, pst_no_sync = False, pst_wal_seg_size = WAL_SEGMENT_SIZE,
     pst_pg_version = 170004, pst_system_id = 7, pst_write_lsn = sample_commit,
     pst_write_record_lsn = sample_commit, pst_flush_lsn = sample_commit,
     pst_flush_record_lsn = sample_commit, pst_decoder = decoder_new sample_commit PG17,
     pst_file = None, pst_pending_wal_truncation = True\<rparr>"

definition sample_elected :: proposer_elected where
  "sample_elected = \<lparr>pe_generation = INITIAL_GENERATION, pe_term = 1,
     pe_start_streaming_at = sample_commit, pe_term_history =
       [\<lparr>tl_term = 0, tl_lsn = sample_commit\<rparr>, \<lparr>tl_term = 1, tl_lsn = sample_commit\<rparr>]\<rparr>"

lemma sample_truncated: "\<exists>w. truncate_wal sample_commit sample_storage = (Inr (), w)"
proof -
  have paths: "wal_file_paths (segment_number sample_commit WAL_SEGMENT_SIZE) WAL_SEGMENT_SIZE
      = (''000000010000000000000002'', ''000000010000000000000002.partial'')" by code_simp
  have name: "XLogFromFileName ''000000010000000000000002.partial'' WAL_SEGMENT_SIZE = Inr (2, 1)"
    by code_simp
  have seg: "segment_number sample_commit WAL_SEGMENT_SIZE = 2" by code_simp
  have xlog: "IsPartialXLogFileName ''000000010000000000000002.partial''" by code_simp
  have "WAL_SEGMENT_SIZE \<noteq> 0" by code_simp
  moreover have "fs_faults (upd_file i g f) = fs_faults f" for i g f by (simp add: upd_file_def)
  ultimately show ?thesis
    by (simp add: truncate_wal_def truncate_segments_def sample_storage_def sample_dir_def prog_defs
        take_file_def in_dir_fs_def zoom_def remove_segments_from_disk_def remove_entry_def name seg xlog
        open_or_create_def paths [unfolded seg] in_fs_def file_open_def attempt_def file_set_len_def fsync_file_def
        file_sync_def Let_def)
qed

lemma sample_history:
  "as_term_history (ps_acceptor_state (sample_state sample_commit)) = [\<lparr>tl_term = 0, tl_lsn = sample_commit\<rparr>]"
  "ps_timeline_start_lsn (sample_state sample_commit) = sample_commit"
  by (simp_all add: sample_state_def pers_state_new_def PG_VERSION_UNKNOWN_def lsn_invalid_def INITIAL_TERM_def)

text \<open>The safekeeper at the sample storage follows the election.\<close>

lemma sample_adopts:
  assumes "fst_state c = sample_state sample_commit" and "cf_durable plain_codec c {sample_state sample_commit}"
      and "fs_faults (fst_fs c) = []"
  shows "\<exists>s s'. file_sk_ok plain_codec (\<lambda>_. sample_pg) s \<and> pers sample_ctrl s = sample_state sample_commit
     \<and> sk_wal_store s = sample_storage
     \<and> process_msg sample_ctrl sample_wal (Elected sample_elected) s = (Inr None, s')"
proof -
  define s where "s = \<lparr>sk_term_start_lsn = 0, sk_state = timeline_state_new sample_ctrl c,
     sk_wal_store = sample_storage, sk_node_id = 1\<rparr>"
  have views: "pers sample_ctrl s = sample_state sample_commit" "commit_of s = sample_commit"
    "sk_wal_store s = sample_storage" "ts_pers (sk_state s) = c"
    using assms(1) by (simp_all add: s_def timeline_state_new_def file_ctrl_ops_def pers_def ts_state_def
        inmem_def mem_of_def)
  have "wal_ok sample_storage"
    unfolding sample_storage_def by (rule wal_ok_fresh) (simp add: LSN_LIMIT_def)
  moreover have "cf_durable plain_codec c {r. ahead (sample_state sample_commit) r}"
    using assms(2) by (auto simp: cf_durable_def elim: ctl_holds_mono)
  ultimately have ok: "file_sk_ok plain_codec (\<lambda>_. sample_pg) s"
    by (simp add: file_sk_ok_def sk_inv_def views sample_state_server flush_lsn_def phys_wal_ops_def
        sample_storage_def le_max_iff_disj)
  have works: "disk_works (ts_pers (sk_state s))" using assms durable_any views(4) by simp
  obtain c1 where c1: "raise_term sample_ctrl 1 s
      = (Inr (), s\<lparr>sk_state := (sk_state s)\<lparr>ts_pers := c1, ts_inmem := inmem s\<rparr>\<rparr>)"
    "fst_state c1 = (start_change sample_ctrl (sk_state s))\<lparr>ps_acceptor_state
         := (ps_acceptor_state (pers sample_ctrl s))\<lparr>as_term := 1\<rparr>\<rparr>" "disk_works c1"
    using sample_raise [OF works] by blast
  define s1 where "s1 = s\<lparr>sk_state := (sk_state s)\<lparr>ts_pers := c1, ts_inmem := inmem s\<rparr>\<rparr>"
  have s1: "as_term (ps_acceptor_state (pers sample_ctrl s1)) = 1"
    "as_term_history (ps_acceptor_state (pers sample_ctrl s1)) = [\<lparr>tl_term = 0, tl_lsn = sample_commit\<rparr>]"
    "flush_lsn sample_ctrl sample_wal s1 = sample_commit"
    "commit_of s1 = sample_commit" "sk_wal_store s1 = sample_storage" "disk_works (ts_pers (sk_state s1))"
    using c1(2,3) views
    by (simp_all add: s1_def pers_def ts_state_def file_ctrl_ops_def sample_history inmem_def flush_lsn_def
        phys_wal_ops_def sample_storage_def)
  have common: "find_highest_common_point (pe_term_history sample_elected)
      (up_to [\<lparr>tl_term = 0, tl_lsn = sample_commit\<rparr>] sample_commit) sample_commit
      = Inr (Some \<lparr>tl_term = 0, tl_lsn = sample_commit\<rparr>)" by code_simp
  have elects: "pe_generation sample_elected = INITIAL_GENERATION" "pe_term sample_elected = 1"
    by (simp_all add: sample_elected_def)
  have streams: "pe_start_streaming_at sample_elected = sample_commit" "sample_commit \<noteq> lsn_invalid"
    "pe_term_history sample_elected
       = [\<lparr>tl_term = 0, tl_lsn = sample_commit\<rparr>, \<lparr>tl_term = 1, tl_lsn = sample_commit\<rparr>]"
    by (simp_all add: sample_elected_def lsn_invalid_def)
  have point: "streaming_point sample_ctrl sample_wal sample_elected s1
      = (Inr \<lparr>tl_term = 0, tl_lsn = sample_commit\<rparr>, s1)"
    using common by (simp add: streaming_point_def prog_defs get_term_history_def s1)
  obtain w where w: "in_wal (truncate_wal sample_commit) s1 = (Inr (), s1\<lparr>sk_wal_store := w\<rparr>)"
    using sample_truncated s1(5) by (auto simp: in_wal_def zoom_def)
  define st where "st = adopt_history sample_elected (start_change sample_ctrl (sk_state s1))"
  obtain c2 where "finish_change sample_ctrl st (sk_state s1)
      = (Inr (), (sk_state s1)\<lparr>ts_pers := c2, ts_inmem := mem_of st\<rparr>)"
    using sample_change [OF s1(6)] by blast
  then have c2: "in_state (finish_change sample_ctrl st) (s1\<lparr>sk_wal_store := w\<rparr>)
      = (Inr (), s1\<lparr>sk_wal_store := w, sk_state := (sk_state s1)\<lparr>ts_pers := c2, ts_inmem := mem_of st\<rparr>\<rparr>)"
    by (simp add: in_state_def zoom_def)
  obtain s' where "start_streaming sample_ctrl sample_wal sample_elected s1 = (Inr (), s')"
    using point w c2 s1
    by (simp add: start_streaming_def prog_defs phys_wal_ops_def sample_storage_def streams
        st_def [symmetric])
  then have "process_msg sample_ctrl sample_wal (Elected sample_elected) s = (Inr None, s')"
    using views c1(1) s1(1)
    by (simp add: handle_elected_def prog_defs s1_def [symmetric] elects sample_state_server)
  then show ?thesis using ok views(1,3) by blast
qed

theorem elected_is_followed_witness:
  "\<exists>s s'. process_msg sample_ctrl sample_wal (Elected sample_elected) s = (Inr None, s')
     \<and> as_term_history (ps_acceptor_state (pers sample_ctrl s'))
          = [\<lparr>tl_term = 0, tl_lsn = sample_commit\<rparr>, \<lparr>tl_term = 1, tl_lsn = sample_commit\<rparr>]
     \<and> sk_term_of sample_ctrl s' = 1 \<and> wal_flush_lsn sample_wal (sk_wal_store s') = sample_commit"
proof -
  obtain f where f: "sample_ctl f" using sample_disk by blast
  obtain c where c: "fst_state c = sample_state sample_commit"
    "cf_durable plain_codec c {sample_state sample_commit}" "fs_faults (fst_fs c) = []"
    using restore_after_crash [OF f crashed_settled] by auto
  obtain s s' where s: "file_sk_ok plain_codec (\<lambda>_. sample_pg) s" "pers sample_ctrl s = sample_state sample_commit"
    "process_msg sample_ctrl sample_wal (Elected sample_elected) s = (Inr None, s')"
    using sample_adopts [OF c] by blast
  have "msg_ok (Elected sample_elected)" by (simp add: sample_elected_def LSN_LIMIT_def)
  from elected_is_followed [OF plain.control_codec_axioms sample.wal_bindings_axioms s(1) this _ s(3)] s(2,3)
  show ?thesis by (auto simp: sample_elected_def sample_state_server)
qed

end
