(* ===== verification/Consensus.thy ===== *)
theory Consensus
  imports Main
begin

text \<open>
  The protocol of safekeeper/spec/ProposerAcceptorStatic.tla: proposers and acceptors with
  term histories, and its safety for any number of both. Positions and terms are natural
  numbers, positions start at 1, and a WAL is the list of the terms of its entries.
\<close>

section \<open>State\<close>

type_synonym hist = "(nat \<times> nat) list" \<comment> \<open>terms and the positions where they begin\<close>

record tla_vote =
  v_history :: hist
  v_flush :: nat

datatype prop_phase = Campaign | Leader

record 'a tla_prop =
  p_phase :: prop_phase
  p_term :: nat
  p_votes :: "'a \<Rightarrow> tla_vote option"
  p_history :: hist
  p_wal :: "nat list"
  p_next :: "'a \<Rightarrow> nat option" \<comment> \<open>next position to send\<close>

record tla_acc =
  a_term :: nat
  a_history :: hist
  a_wal :: "nat list"

record ('p, 'a) tla =
  prop_state :: "'p \<Rightarrow> 'a tla_prop"
  acc_state :: "'a \<Rightarrow> tla_acc"
  committed :: "(nat \<times> nat) set" \<comment> \<open>terms and positions\<close>
  elected_history :: "nat \<Rightarrow> nat" \<comment> \<open>how often a term was elected\<close>

section \<open>Helpers\<close>

definition FormsQuorum :: "'a set \<Rightarrow> 'a set \<Rightarrow> bool" where
  "FormsQuorum accs members \<longleftrightarrow> card members div 2 + 1 \<le> card (accs \<inter> members)"

definition FormsMinQuorum :: "'a set \<Rightarrow> 'a set \<Rightarrow> bool" where
  "FormsMinQuorum accs members \<longleftrightarrow> card (accs \<inter> members) = card members div 2 + 1"

definition FlushLsn :: "tla_acc \<Rightarrow> nat" where
  "FlushLsn a = length (a_wal a) + 1"

definition AcceptorTermHistory :: "tla_acc \<Rightarrow> hist" where
  "AcceptorTermHistory a = filter (\<lambda>e. snd e \<le> FlushLsn a) (a_history a)"

definition LastLogTerm :: "hist \<Rightarrow> nat" where
  "LastLogTerm th = fst (last th)"

definition TermLsnGE :: "nat \<times> nat \<Rightarrow> nat \<times> nat \<Rightarrow> bool" where
  "TermLsnGE x y \<longleftrightarrow> fst y \<le> fst x \<and> (fst x = fst y \<longrightarrow> snd y \<le> snd x)"

definition vote_term_lsn :: "tla_vote \<Rightarrow> nat \<times> nat" where
  "vote_term_lsn v = (LastLogTerm (v_history v), v_flush v)"

text \<open>\<open>a\<close> gave one of the highest votes.\<close>

definition MaxVoteAcc :: "('a \<Rightarrow> tla_vote option) \<Rightarrow> 'a \<Rightarrow> bool" where
  "MaxVoteAcc votes a \<longleftrightarrow>
     (case votes a of
        None \<Rightarrow> False
      | Some v \<Rightarrow> \<forall>w \<in> ran votes. TermLsnGE (vote_term_lsn v) (vote_term_lsn w))"

text \<open>The last index at which both histories have the same term; positions in lists start at 0 here.\<close>

definition common_idx :: "hist \<Rightarrow> hist \<Rightarrow> nat" where
  "common_idx prop_th acc_th =
     last (filter (\<lambda>i. fst (prop_th ! i) = fst (acc_th ! i)) [0..<min (length prop_th) (length acc_th)])"

definition FindHighestCommonPoint :: "hist \<Rightarrow> hist \<Rightarrow> nat \<Rightarrow> nat \<times> nat" where
  "FindHighestCommonPoint prop_th acc_th acc_flush_lsn =
     (let i = common_idx prop_th acc_th;
          acc_common_term_end = (if i + 1 = length acc_th then acc_flush_lsn else snd (acc_th ! (i + 1)));
          prop_common_term_end = (if i + 1 = length prop_th then acc_flush_lsn else snd (prop_th ! (i + 1)))
      in (fst (prop_th ! i), min acc_common_term_end prop_common_term_end))"

section \<open>Initial state and actions\<close>

definition InitAcc :: tla_acc where
  "InitAcc = \<lparr>a_term = 0, a_history = [(0, 1)], a_wal = []\<rparr>"

definition new_prop :: "nat \<Rightarrow> 'a tla_prop" where
  "new_prop t = \<lparr>p_phase = Campaign, p_term = t, p_votes = (\<lambda>_. None), p_history = [], p_wal = [], p_next = (\<lambda>_. None)\<rparr>"

definition Init :: "('p, 'a) tla" where
  "Init = \<lparr>prop_state = (\<lambda>_. new_prop 1), acc_state = (\<lambda>_. InitAcc), committed = {}, elected_history = (\<lambda>_. 0)\<rparr>"

definition upd_prop :: "'p \<Rightarrow> ('a tla_prop \<Rightarrow> 'a tla_prop) \<Rightarrow> ('p, 'a) tla \<Rightarrow> ('p, 'a) tla" where
  "upd_prop p f s = s\<lparr>prop_state := (prop_state s)(p := f (prop_state s p))\<rparr>"

definition upd_acc :: "'a \<Rightarrow> (tla_acc \<Rightarrow> tla_acc) \<Rightarrow> ('p, 'a) tla \<Rightarrow> ('p, 'a) tla" where
  "upd_acc a f s = s\<lparr>acc_state := (acc_state s)(a := f (acc_state s a))\<rparr>"

text \<open>An action takes its choices as arguments and gives no state where it is not enabled.\<close>

definition RestartProposer :: "'a set \<Rightarrow> 'p \<Rightarrow> 'a set \<Rightarrow> ('p, 'a) tla \<Rightarrow> ('p, 'a) tla option" where
  "RestartProposer A p q s =
     (if q \<subseteq> A \<and> FormsQuorum q A
      then Some (upd_prop p (\<lambda>_. new_prop (Max ((\<lambda>a. a_term (acc_state s a)) ` q) + 1)) s) else None)"

definition Vote :: "'p \<Rightarrow> 'a \<Rightarrow> ('p, 'a) tla \<Rightarrow> ('p, 'a) tla option" where
  "Vote p a s =
     (let P = prop_state s p; Q = acc_state s a in
      if p_phase P = Campaign \<and> a_term Q < p_term P
      then Some (upd_prop p (\<lambda>P. P\<lparr>p_votes := (p_votes P)(a \<mapsto>
               \<lparr>v_history = AcceptorTermHistory Q, v_flush = FlushLsn Q\<rparr>)\<rparr>)
             (upd_acc a (\<lambda>Q. Q\<lparr>a_term := p_term P\<rparr>) s))
      else None)"

definition BecomeLeader :: "'a set \<Rightarrow> 'p \<Rightarrow> 'a \<Rightarrow> ('p, 'a) tla \<Rightarrow> ('p, 'a) tla option" where
  "BecomeLeader A p m s =
     (let P = prop_state s p in
      if p_phase P = Campaign \<and> FormsQuorum (dom (p_votes P)) A \<and> MaxVoteAcc (p_votes P) m
         \<and> a_term (acc_state s m) = p_term P
      then let v = the (p_votes P m) in
        Some ((upd_prop p (\<lambda>P. P\<lparr>p_phase := Leader, p_history := v_history v @ [(p_term P, v_flush v)],
                 p_wal := a_wal (acc_state s m)\<rparr>) s)
               \<lparr>elected_history := (elected_history s)(p_term P := elected_history s (p_term P) + 1)\<rparr>)
      else None)"

definition UpdateTerm :: "'p \<Rightarrow> 'a \<Rightarrow> ('p, 'a) tla \<Rightarrow> ('p, 'a) tla option" where
  "UpdateTerm p a s =
     (let P = prop_state s p in
      if p_phase P = Leader \<and> a_term (acc_state s a) < p_term P
      then Some (upd_acc a (\<lambda>Q. Q\<lparr>a_term := p_term P\<rparr>) s) else None)"

text \<open>What the announcement of the election does to an acceptor.\<close>

definition truncate_acc :: "hist \<Rightarrow> nat \<Rightarrow> tla_acc \<Rightarrow> tla_acc" where
  "truncate_acc th lsn Q = Q\<lparr>a_history := th, a_wal := take (lsn - 1) (a_wal Q)\<rparr>"

definition TruncateWal :: "'p \<Rightarrow> 'a \<Rightarrow> ('p, 'a) tla \<Rightarrow> ('p, 'a) tla option" where
  "TruncateWal p a s =
     (let P = prop_state s p; Q = acc_state s a in
      if p_phase P = Leader \<and> a_term Q = p_term P
      then let hcp = FindHighestCommonPoint (p_history P) (AcceptorTermHistory Q) (FlushLsn Q) in
        Some (upd_prop p (\<lambda>P. P\<lparr>p_next := (p_next P)(a \<mapsto> snd hcp)\<rparr>)
               (upd_acc a (truncate_acc (p_history P) (snd hcp)) s))
      else None)"

definition NewEntry :: "'p \<Rightarrow> ('p, 'a) tla \<Rightarrow> ('p, 'a) tla option" where
  "NewEntry p s =
     (if p_phase (prop_state s p) = Leader
      then Some (upd_prop p (\<lambda>P. P\<lparr>p_wal := p_wal P @ [p_term P]\<rparr>) s) else None)"

definition AppendEntry :: "'p \<Rightarrow> 'a \<Rightarrow> ('p, 'a) tla \<Rightarrow> ('p, 'a) tla option" where
  "AppendEntry p a s =
     (let P = prop_state s p; Q = acc_state s a in
      if p_phase P = Leader \<and> a_term Q = p_term P then
        (case p_next P a of
           None \<Rightarrow> None
         | Some send_lsn \<Rightarrow>
             if send_lsn \<le> length (p_wal P)
             then Some (upd_prop p (\<lambda>P. P\<lparr>p_next := (p_next P)(a \<mapsto> send_lsn + 1)\<rparr>)
                    (upd_acc a (\<lambda>Q. Q\<lparr>a_wal := a_wal Q @ [p_wal P ! (send_lsn - 1)]\<rparr>) s))
             else None)
      else None)"

definition PropStartLsn :: "'a tla_prop \<Rightarrow> nat option" where
  "PropStartLsn P = (if p_phase P = Leader then Some (snd (last (p_history P))) else None)"

definition QuorumCommitLsn :: "'p \<Rightarrow> 'a set \<Rightarrow> ('p, 'a) tla \<Rightarrow> nat option" where
  "QuorumCommitLsn p q s =
     (let P = prop_state s p in
      if p_phase P = Leader
         \<and> (\<forall>a \<in> q. a_term (acc_state s a) = p_term P \<and> p_next P a \<noteq> None)
      then let quorum_lsn = Min ((\<lambda>a. FlushLsn (acc_state s a)) ` q) in
        (if the (PropStartLsn P) \<le> quorum_lsn then Some quorum_lsn else None)
      else None)"

definition CommitEntries :: "'a set \<Rightarrow> 'p \<Rightarrow> 'a set \<Rightarrow> ('p, 'a) tla \<Rightarrow> ('p, 'a) tla option" where
  "CommitEntries A p q s =
     (if p_phase (prop_state s p) = Leader \<and> q \<subseteq> A \<and> FormsMinQuorum q A then
        map_option (\<lambda>commit_lsn. s\<lparr>committed := committed s
          \<union> (\<lambda>lsn. (p_wal (prop_state s p) ! (lsn - 1), lsn)) ` {1..<commit_lsn}\<rparr>) (QuorumCommitLsn p q s)
      else None)"

inductive Next :: "'a set \<Rightarrow> ('p, 'a) tla \<Rightarrow> ('p, 'a) tla \<Rightarrow> bool" for A :: "'a set" where
  next_restart: "RestartProposer A p q s = Some s' \<Longrightarrow> Next A s s'"
| next_vote: "a \<in> A \<Longrightarrow> Vote p a s = Some s' \<Longrightarrow> Next A s s'"
| next_leader: "BecomeLeader A p m s = Some s' \<Longrightarrow> Next A s s'"
| next_update: "a \<in> A \<Longrightarrow> UpdateTerm p a s = Some s' \<Longrightarrow> Next A s s'"
| next_truncate: "a \<in> A \<Longrightarrow> TruncateWal p a s = Some s' \<Longrightarrow> Next A s s'"
| next_entry: "NewEntry p s = Some s' \<Longrightarrow> Next A s s'"
| next_append: "a \<in> A \<Longrightarrow> AppendEntry p a s = Some s' \<Longrightarrow> Next A s s'"
| next_commit: "CommitEntries A p q s = Some s' \<Longrightarrow> Next A s s'"

inductive reachable :: "'a set \<Rightarrow> ('p, 'a) tla \<Rightarrow> bool" for A :: "'a set" where
  reachable_init: "reachable A Init"
| reachable_next: "reachable A s \<Longrightarrow> Next A s s' \<Longrightarrow> reachable A s'"

section \<open>Invariants of the specification\<close>

text \<open>What of \<open>TypeOk\<close> the types of the records do not say already.\<close>

definition prop_type_ok :: "'a set \<Rightarrow> 'a tla_prop \<Rightarrow> bool" where
  "prop_type_ok A P \<longleftrightarrow> dom (p_votes P) \<subseteq> A \<and> dom (p_next P) \<subseteq> A \<and> (p_phase P = Campaign \<longrightarrow> p_history P = [])"

definition TypeOk :: "'a set \<Rightarrow> ('p, 'a) tla \<Rightarrow> bool" where
  "TypeOk A s \<longleftrightarrow> (\<forall>p. prop_type_ok A (prop_state s p))"

definition ElectionSafety :: "('p, 'a) tla \<Rightarrow> bool" where
  "ElectionSafety s \<longleftrightarrow> (\<forall>p p'. p_phase (prop_state s p) = Leader \<and> p_phase (prop_state s p') = Leader
     \<and> p_term (prop_state s p) = p_term (prop_state s p') \<longrightarrow> p = p')"

definition ElectionSafetyFull :: "('p, 'a) tla \<Rightarrow> bool" where
  "ElectionSafetyFull s \<longleftrightarrow> (\<forall>t. elected_history s t \<le> 1)"

definition LogIsMonotonic :: "'a set \<Rightarrow> ('p, 'a) tla \<Rightarrow> bool" where
  "LogIsMonotonic A s \<longleftrightarrow> (\<forall>a \<in> A. sorted (a_wal (acc_state s a)))"

definition LogSafety :: "('p, 'a) tla \<Rightarrow> bool" where
  "LogSafety s \<longleftrightarrow> (\<forall>c \<in> committed s. \<forall>c' \<in> committed s. snd c = snd c' \<longrightarrow> c = c')"

text \<open>Not an invariant; see \<open>Consensus_Claims\<close>.\<close>

definition CommittedNotTruncated :: "'a set \<Rightarrow> ('p, 'a) tla \<Rightarrow> bool" where
  "CommittedNotTruncated A s \<longleftrightarrow> (\<forall>p. \<forall>a \<in> A.
     (let P = prop_state s p; Q = acc_state s a in
      p_phase P = Leader \<and> p_term P = a_term Q \<longrightarrow>
        (let hcp = FindHighestCommonPoint (p_history P) (AcceptorTermHistory Q) (FlushLsn Q);
             truncated_lsns = {lsn \<in> {1..length (a_wal Q)}. snd hcp \<le> lsn} in
         \<forall>lsn \<in> truncated_lsns. (a_wal Q ! (lsn - 1), lsn) \<notin> committed s)))"

end
