(* ===== verification/Consensus_Safety.thy ===== *)
theory Consensus_Safety
  imports Consensus
begin

text \<open>
  Safety of the protocol. The histories of all terms that were ever elected form a tree,
  and every log is a path in it; a commit is a point of this tree that every later leader's
  history passes through.
\<close>

section \<open>Histories\<close>

text \<open>\<open>H\<close> gives the history of an elected term; 0 stands for the initial history.\<close>

definition hist_ok :: "(nat \<Rightarrow> hist option) \<Rightarrow> hist \<Rightarrow> bool" where
  "hist_ok H th \<longleftrightarrow> th \<noteq> [] \<and> (\<forall>k < length th. H (fst (th ! k)) = Some (take (Suc k) th))"

definition hist_tree :: "(nat \<Rightarrow> hist option) \<Rightarrow> bool" where
  "hist_tree H \<longleftrightarrow> H 0 = Some [(0, 1)]
     \<and> (\<forall>t th. H t = Some th \<longrightarrow> hist_ok H th \<and> fst (last th) = t \<and> hd th = (0, 1)
          \<and> sorted_wrt (<) (map fst th) \<and> sorted (map snd th))"

text \<open>The term of the entry at a position of a log with the history \<open>th\<close>, and the log.\<close>

definition entry_term :: "hist \<Rightarrow> nat \<Rightarrow> nat" where
  "entry_term th l = fst (last (takeWhile (\<lambda>e. snd e \<le> l) th))"

definition log_of :: "hist \<Rightarrow> nat \<Rightarrow> nat list" where
  "log_of th n = map (\<lambda>i. entry_term th (Suc i)) [0..<n]"

text \<open>A log with the history \<open>th\<close> passes through position \<open>c\<close> in term \<open>t\<close>.\<close>

definition passes :: "hist \<Rightarrow> nat \<Rightarrow> nat \<Rightarrow> bool" where
  "passes th t c \<longleftrightarrow> (\<exists>k < length th. fst (th ! k) = t \<and> snd (th ! k) \<le> c
     \<and> (Suc k < length th \<longrightarrow> c \<le> snd (th ! Suc k)))"

lemma hist_ok_last:
  assumes "hist_ok H th"
  shows "H (fst (last th)) = Some th"
proof -
  have "th \<noteq> []" using assms by (simp add: hist_ok_def)
  then have "length th - 1 < length th" "th ! (length th - 1) = last th" by (simp_all add: last_conv_nth)
  with assms have "H (fst (last th)) = Some (take (Suc (length th - 1)) th)" unfolding hist_ok_def by metis
  with \<open>th \<noteq> []\<close> show ?thesis by simp
qed

lemma hist_ok_tree:
  assumes "hist_tree H" and "hist_ok H th"
  shows "hd th = (0, 1)" and "sorted_wrt (<) (map fst th)" and "sorted (map snd th)" and "th \<noteq> []"
  using assms hist_ok_last [OF assms(2)] by (auto simp: hist_tree_def hist_ok_def)

lemma hist_ok_take: "hist_ok H th \<Longrightarrow> k < length th \<Longrightarrow> hist_ok H (take (Suc k) th)"
  by (auto simp: hist_ok_def min_def)

lemma hist_ok_same_term:
  assumes "hist_ok H th" and "hist_ok H th'" and "k < length th" and "j < length th'" and "fst (th ! k) = fst (th' ! j)"
  shows "k = j" and "take (Suc k) th = take (Suc k) th'"
proof -
  have eq: "take (Suc k) th = take (Suc j) th'" using assms by (auto simp: hist_ok_def)
  then have "length (take (Suc k) th) = length (take (Suc j) th')" by simp
  with assms(3,4) show "k = j" by simp
  with eq show "take (Suc k) th = take (Suc k) th'" by simp
qed

lemma hist_mono:
  assumes "hist_tree H" and "hist_ok H th" and "j \<le> k" and "k < length th"
  shows "snd (th ! j) \<le> snd (th ! k)"
  using hist_ok_tree(3) [OF assms(1,2)] assms(3,4) by (auto simp: sorted_iff_nth_mono)

lemma hist_pos:
  assumes "hist_tree H" and "hist_ok H th" and "k < length th"
  shows "1 \<le> snd (th ! k)"
  using hist_mono [OF assms(1,2) _ assms(3), of 0] hist_ok_tree(1,4) [OF assms(1,2)] by (simp add: hd_conv_nth)

lemma hist_terms:
  assumes "hist_tree H" and "hist_ok H th" and "k < length th"
  shows "fst (th ! k) \<le> fst (last th)"
proof -
  have "k \<le> length th - 1" using assms(3) by simp
  moreover have "sorted (map fst th)" using hist_ok_tree(2) [OF assms(1,2)] by (simp add: strict_sorted_iff)
  ultimately show ?thesis
    using assms(3) sorted_nth_mono [of "map fst th" k "length th - 1"] by (cases th rule: rev_cases) (auto simp: last_conv_nth nth_append)
qed

text \<open>The part of a history that a log of some length has reached is one of the histories.\<close>

lemma takeWhile_eq_filter_sorted: "sorted (map f xs) \<Longrightarrow> filter (\<lambda>x. f x \<le> (n :: nat)) xs = takeWhile (\<lambda>x. f x \<le> n) xs"
  by (induction xs) (auto simp: takeWhile_eq_Nil_iff dest!: hd_in_set)

lemma effective_history:
  assumes "hist_tree H" and "hist_ok H th" and "1 \<le> n"
  shows "\<exists>k < length th. filter (\<lambda>e. snd e \<le> n) th = take (Suc k) th \<and> snd (th ! k) \<le> n
     \<and> (Suc k < length th \<longrightarrow> n < snd (th ! Suc k))"
proof -
  note t = hist_ok_tree [OF assms(1,2)]
  let ?es = "takeWhile (\<lambda>e. snd e \<le> n) th"
  have es: "filter (\<lambda>e. snd e \<le> n) th = ?es" by (rule takeWhile_eq_filter_sorted [OF t(3)])
  have "?es \<noteq> []" using t(1,4) assms(3) by (cases th) auto
  then obtain k where k: "length ?es = Suc k" by (cases ?es) auto
  then have lt: "k < length th" using length_takeWhile_le [of "\<lambda>e. snd e \<le> n" th] by simp
  have take: "?es = take (Suc k) th" using takeWhile_eq_take [of "\<lambda>e. snd e \<le> n" th] k by simp
  have "th ! k \<in> set ?es" using take lt by (simp add: in_set_conv_nth) (metis lessI min_less_iff_conj nth_take)
  then have "snd (th ! k) \<le> n" using set_takeWhileD by fastforce
  moreover have "n < snd (th ! Suc k)" if "Suc k < length th"
    using nth_length_takeWhile [of "\<lambda>e. snd e \<le> n" th] k that by simp
  ultimately show ?thesis using lt es take by auto
qed

section \<open>Entries\<close>

lemma entry_term_prefix:
  assumes "\<And>e. e \<in> set rest \<Longrightarrow> l < snd e"
  shows "entry_term (th @ rest) l = entry_term th l"
proof -
  have "takeWhile (\<lambda>e. snd e \<le> l) rest = []" using assms by (cases rest) (auto simp: not_le)
  then have "takeWhile (\<lambda>e. snd e \<le> l) (th @ rest) = takeWhile (\<lambda>e. snd e \<le> l) th"
    by (induction th) auto
  then show ?thesis by (simp add: entry_term_def)
qed

lemma entry_term_take:
  assumes "hist_tree H" and "hist_ok H th" and "Suc k < length th \<Longrightarrow> l < snd (th ! Suc k)"
  shows "entry_term th l = entry_term (take (Suc k) th) l"
proof -
  have "l < snd e" if e: "e \<in> set (drop (Suc k) th)" for e
  proof -
    obtain j where j: "j < length (drop (Suc k) th)" "e = drop (Suc k) th ! j" using e by (auto simp: in_set_conv_nth)
    then have "e = th ! (Suc k + j)" "Suc k + j < length th" by simp_all
    with assms(3) hist_mono [OF assms(1,2), of "Suc k" "Suc k + j"] show ?thesis by simp
  qed
  then show ?thesis using entry_term_prefix [of "drop (Suc k) th" l "take (Suc k) th"] by simp
qed

lemma entry_term_mono:
  assumes "hist_tree H" and "hist_ok H th" and "1 \<le> l" and "l \<le> l'"
  shows "entry_term th l \<le> entry_term th l'"
proof -
  obtain k where k: "k < length th" "filter (\<lambda>e. snd e \<le> l) th = take (Suc k) th" "snd (th ! k) \<le> l"
    using effective_history [OF assms(1,2,3)] by blast
  obtain j where j: "j < length th" "filter (\<lambda>e. snd e \<le> l') th = take (Suc j) th"
      "Suc j < length th \<longrightarrow> l' < snd (th ! Suc j)"
    using effective_history [OF assms(1,2), of l'] assms(3,4) by auto
  have "\<not> j < k"
  proof
    assume "j < k"
    then have "l' < snd (th ! k)" using j(3) k(1) hist_mono [OF assms(1,2), of "Suc j" k] by auto
    with k(3) assms(4) show False by simp
  qed
  moreover have "entry_term th l = fst (th ! k)" "entry_term th l' = fst (th ! j)"
    using k(1,2) j(1,2) takeWhile_eq_filter_sorted [OF hist_ok_tree(3) [OF assms(1,2)]]
    by (auto simp: entry_term_def take_Suc_conv_app_nth)
  moreover have "sorted (map fst th)" using hist_ok_tree(2) [OF assms(1,2)] by (simp add: strict_sorted_iff)
  ultimately show ?thesis using j(1) sorted_nth_mono [of "map fst th" k j] by simp
qed

lemma entry_term_last:
  assumes "th \<noteq> []" and "sorted (map snd th)" and "snd (last th) \<le> l"
  shows "entry_term th l = fst (last th)"
proof -
  have "\<forall>e \<in> set th. snd e \<le> l"
    using assms by (cases th rule: rev_cases) (auto simp: sorted_append intro: order_trans)
  then have all: "takeWhile (\<lambda>e. snd e \<le> l) th = th" by (simp add: takeWhile_eq_all_conv)
  show ?thesis unfolding entry_term_def all ..
qed

lemma length_log_of [simp]: "length (log_of th n) = n"
  by (simp add: log_of_def)

lemma log_of_nth: "i < n \<Longrightarrow> log_of th n ! i = entry_term th (Suc i)"
  by (simp add: log_of_def)

lemma log_of_Suc: "log_of th (Suc n) = log_of th n @ [entry_term th (Suc n)]"
  by (simp add: log_of_def)

lemma log_of_cong: "(\<And>l. 1 \<le> l \<Longrightarrow> l \<le> n \<Longrightarrow> entry_term th l = entry_term th' l) \<Longrightarrow> log_of th n = log_of th' n"
  by (simp add: log_of_def)

lemma take_log_of: "m \<le> n \<Longrightarrow> take m (log_of th n) = log_of th m"
  by (rule nth_equalityI) (simp_all add: log_of_nth)

lemma sorted_log_of:
  assumes "hist_tree H" and "hist_ok H th"
  shows "sorted (log_of th n)"
  using entry_term_mono [OF assms] by (auto simp: log_of_def sorted_map intro!: sorted_wrt_mono_rel [OF _ sorted_wrt_upt])

text \<open>Logs that pass through a point agree up to it.\<close>

lemma passes_entries:
  assumes "hist_tree H" and "hist_ok H th" and "passes th t c" and "H t = Some h" and "l < c"
  shows "entry_term th l = entry_term h l"
proof -
  obtain k where k: "k < length th" "fst (th ! k) = t" "Suc k < length th \<longrightarrow> c \<le> snd (th ! Suc k)"
    using assms(3) by (auto simp: passes_def)
  then have "h = take (Suc k) th" using assms(2,4) by (auto simp: hist_ok_def)
  then show ?thesis using entry_term_take [OF assms(1,2), of k l] k(3) assms(5) by (simp add: less_le_trans)
qed

lemma passes_last: "th \<noteq> [] \<Longrightarrow> snd (last th) \<le> c \<Longrightarrow> passes th (fst (last th)) c"
  by (auto simp: passes_def last_conv_nth intro!: exI [of _ "length th - 1"])

section \<open>The common point\<close>

text \<open>
  The point the proposer finds lies on both logs, within the log of the acceptor, and not
  below any position both logs pass through.
\<close>

lemma common_idx_props:
  assumes "hist_tree H" and "hist_ok H p" and "hist_ok H s"
  defines "i \<equiv> common_idx p s"
  shows "i < length p" and "i < length s" and "take (Suc i) p = take (Suc i) s"
    and "j < length p \<Longrightarrow> j < length s \<Longrightarrow> fst (p ! j) = fst (s ! j) \<Longrightarrow> j \<le> i"
proof -
  let ?is = "filter (\<lambda>i. fst (p ! i) = fst (s ! i)) [0..<min (length p) (length s)]"
  have "p ! 0 = s ! 0" "p \<noteq> []" "s \<noteq> []"
    using hist_ok_tree(1,4) [OF assms(1,2)] hist_ok_tree(1,4) [OF assms(1,3)] by (auto simp: hd_conv_nth)
  then have "0 \<in> set ?is" by simp
  then have ne: "?is \<noteq> []" by (intro notI) (simp only: list.set empty_iff)
  then have "i \<in> set ?is" unfolding i_def common_idx_def by (rule last_in_set)
  then show i: "i < length p" "i < length s" and "take (Suc i) p = take (Suc i) s"
    using hist_ok_same_term(2) [OF assms(2,3), of i i] by auto
  assume "j < length p" "j < length s" "fst (p ! j) = fst (s ! j)"
  then have "j \<in> set ?is" by simp
  moreover have "sorted ?is" by (simp add: sorted_wrt_filter)
  ultimately show "j \<le> i"
    unfolding i_def common_idx_def by (cases ?is rule: rev_cases) (auto simp: sorted_append)
qed

lemma common_point:
  assumes H: "hist_tree H" and p: "hist_ok H p" and s: "hist_ok H s" and n: "1 \<le> n"
  defines "i \<equiv> common_idx p (filter (\<lambda>e. snd e \<le> n) s)"
    and "x \<equiv> snd (FindHighestCommonPoint p (filter (\<lambda>e. snd e \<le> n) s) n)"
  shows "1 \<le> x" and "x \<le> n" and "i < length p" and "i < length s" and "take (Suc i) p = take (Suc i) s"
    and "Suc i < length p \<Longrightarrow> x \<le> snd (p ! Suc i)" and "Suc i < length s \<Longrightarrow> x \<le> snd (s ! Suc i)"
    and "passes p t c \<Longrightarrow> passes s t c \<Longrightarrow> c \<le> n \<Longrightarrow> c \<le> x"
proof -
  obtain k where k: "k < length s" "filter (\<lambda>e. snd e \<le> n) s = take (Suc k) s" "snd (s ! k) \<le> n"
      "Suc k < length s \<longrightarrow> n < snd (s ! Suc k)"
    using effective_history [OF H s n] by blast
  let ?e = "take (Suc k) s"
  have e: "hist_ok H ?e" "length ?e = Suc k" using hist_ok_take [OF s k(1)] k(1) by simp_all
  note c = common_idx_props [OF H p e(1), folded k(2), folded i_def, unfolded k(2) e(2)]
  have x: "x = min (if i = k then n else snd (s ! Suc i)) (if Suc i = length p then n else snd (p ! Suc i))"
    using c(2) k(1) by (simp add: x_def FindHighestCommonPoint_def Let_def i_def [symmetric]) (simp add: k(2) min_def)
  show "i < length p" "i < length s" using c(1,2) k(1) by simp_all
  show take: "take (Suc i) p = take (Suc i) s" using c(2,3) by (simp add: min_def split: if_splits)
  have pos: "1 \<le> snd (p ! j)" if "j < length p" for j using hist_pos [OF H p that] .
  have pos': "1 \<le> snd (s ! j)" if "j < length s" for j using hist_pos [OF H s that] .
  show "1 \<le> x" using x n pos [of "Suc i"] pos' [of "Suc i"] c(1,2) k(1) by (auto simp: not_less less_Suc_eq)
  have "snd (s ! Suc i) \<le> n" if "i < k" using that hist_mono [OF H s, of "Suc i" k] k(1,3) by simp
  then show "x \<le> n" using x c(2) by (auto simp: min_def less_Suc_eq)
  show "x \<le> snd (p ! Suc i)" if "Suc i < length p" using x that by simp
  show "x \<le> snd (s ! Suc i)" if "Suc i < length s"
    using x k(4) c(2) that by (cases "i = k") auto
  show "c \<le> x" if pp: "passes p t c" and ps: "passes s t c" and "c \<le> n"
  proof -
    obtain j where j: "j < length p" "fst (p ! j) = t" "Suc j < length p \<longrightarrow> c \<le> snd (p ! Suc j)"
      using pp by (auto simp: passes_def)
    obtain j' where j': "j' < length s" "fst (s ! j') = t" "snd (s ! j') \<le> c" "Suc j' < length s \<longrightarrow> c \<le> snd (s ! Suc j')"
      using ps by (auto simp: passes_def)
    have "j' = j" using hist_ok_same_term(1) [OF p s j(1) j'(1)] j(2) j'(2) by simp
    have "j \<le> k"
    proof (rule ccontr)
      assume "\<not> j \<le> k"
      then have "n < snd (s ! j)" using k(4) hist_mono [OF H s, of "Suc k" j] j'(1) \<open>j' = j\<close> by auto
      with j'(3) \<open>c \<le> n\<close> \<open>j' = j\<close> show False by simp
    qed
    then have "j \<le> i" using c(4) [of j] j j' \<open>j' = j\<close> by simp
    have "c \<le> snd (s ! Suc i)" if "i < k"
      using that \<open>j \<le> i\<close> j' \<open>j' = j\<close> k(1) hist_mono [OF H s, of "Suc j" "Suc i"] by auto
    moreover have "c \<le> snd (p ! Suc i)" if "Suc i < length p"
      using that \<open>j \<le> i\<close> j(3) hist_mono [OF H p, of "Suc j" "Suc i"] by auto
    ultimately show "c \<le> x" using x c(1,2) \<open>c \<le> n\<close> by (auto simp: less_Suc_eq not_less)
  qed
qed

end
