(* ===== verification/Consensus_Inv.thy ===== *)
theory Consensus_Inv
  imports Consensus_Safety
begin

text \<open>
  The inductive invariant of the protocol and what follows from it: at most one leader per
  term, monotone logs, and one committed entry per position.
\<close>

section \<open>Invariant\<close>

text \<open>
  Beside the state: the history of every term ever elected, its voters, and the commits as
  the term, the position and the quorum of each.
\<close>

record 'a ghost =
  g_hist :: "nat \<Rightarrow> hist option"
  g_voters :: "nat \<Rightarrow> 'a set"
  g_commits :: "(nat \<times> nat \<times> 'a set) set"

definition vote_of_acc :: "tla_acc \<Rightarrow> tla_vote" where
  "vote_of_acc Q = \<lparr>v_history = AcceptorTermHistory Q, v_flush = FlushLsn Q\<rparr>"

definition acc_inv :: "(nat \<Rightarrow> hist option) \<Rightarrow> tla_acc \<Rightarrow> bool" where
  "acc_inv H Q \<longleftrightarrow> hist_ok H (a_history Q) \<and> fst (last (a_history Q)) \<le> a_term Q
     \<and> a_wal Q = log_of (a_history Q) (length (a_wal Q))"

definition leader_inv :: "'a ghost \<Rightarrow> ('a \<Rightarrow> tla_acc) \<Rightarrow> 'a tla_prop \<Rightarrow> bool" where
  "leader_inv g accs P \<longleftrightarrow>
     g_hist g (p_term P) = Some (p_history P) \<and> p_wal P = log_of (p_history P) (length (p_wal P))
     \<and> snd (last (p_history P)) \<le> length (p_wal P) + 1
     \<and> (\<forall>a n. p_next P a = Some n \<longrightarrow> p_term P \<le> a_term (accs a)
          \<and> (a_term (accs a) = p_term P \<longrightarrow> a_history (accs a) = p_history P \<and> n = FlushLsn (accs a)))
     \<and> (\<forall>a. a_history (accs a) = p_history P \<longrightarrow> FlushLsn (accs a) \<le> length (p_wal P) + 1)"

definition vote_inv :: "'a ghost \<Rightarrow> nat \<Rightarrow> 'a \<Rightarrow> tla_acc \<Rightarrow> tla_vote \<Rightarrow> bool" where
  "vote_inv g t a Q v \<longleftrightarrow>
     hist_ok (g_hist g) (v_history v) \<and> LastLogTerm (v_history v) < t \<and> snd (last (v_history v)) \<le> v_flush v
     \<and> (g_hist g t = None \<and> a_term Q = t \<longrightarrow> v = vote_of_acc Q)
     \<and> (\<forall>(ct, c, q) \<in> g_commits g. ct < t \<and> a \<in> q \<longrightarrow> passes (v_history v) ct c \<and> c \<le> v_flush v)"

definition campaign_inv :: "'a ghost \<Rightarrow> ('a \<Rightarrow> tla_acc) \<Rightarrow> 'a tla_prop \<Rightarrow> bool" where
  "campaign_inv g accs P \<longleftrightarrow> p_next P = (\<lambda>_. None)
     \<and> (g_hist g (p_term P) \<noteq> None \<longrightarrow> dom (p_votes P) \<inter> g_voters g (p_term P) = {})
     \<and> (\<forall>a v. p_votes P a = Some v \<longrightarrow> vote_inv g (p_term P) a (accs a) v)"

definition prop_inv :: "'a ghost \<Rightarrow> ('a \<Rightarrow> tla_acc) \<Rightarrow> 'a tla_prop \<Rightarrow> bool" where
  "prop_inv g accs P \<longleftrightarrow> 0 < p_term P \<and> (\<forall>a \<in> dom (p_votes P). p_term P \<le> a_term (accs a))
     \<and> (if p_phase P = Leader then leader_inv g accs P else campaign_inv g accs P)"

definition props_inv :: "('p \<Rightarrow> 'a tla_prop) \<Rightarrow> bool" where
  "props_inv props \<longleftrightarrow> (\<forall>p p'. p \<noteq> p' \<and> p_term (props p) = p_term (props p') \<longrightarrow>
     dom (p_votes (props p)) \<inter> dom (p_votes (props p')) = {}
     \<and> \<not> (p_phase (props p) = Leader \<and> p_phase (props p') = Leader))"

definition elected_inv :: "'a set \<Rightarrow> 'a ghost \<Rightarrow> ('a \<Rightarrow> tla_acc) \<Rightarrow> (nat \<Rightarrow> nat) \<Rightarrow> bool" where
  "elected_inv A g accs elected \<longleftrightarrow>
     (\<forall>t. 0 < t \<and> g_hist g t \<noteq> None \<longrightarrow>
        FormsQuorum (g_voters g t) A \<and> (\<forall>a \<in> g_voters g t. t \<le> a_term (accs a)))
     \<and> (\<forall>t. elected t = (if 0 < t \<and> g_hist g t \<noteq> None then 1 else 0))"

definition commit_inv :: "'a set \<Rightarrow> 'a ghost \<Rightarrow> ('a \<Rightarrow> tla_acc) \<Rightarrow> nat \<times> nat \<times> 'a set \<Rightarrow> bool" where
  "commit_inv A g accs = (\<lambda>(t, c, q).
     FormsQuorum q A \<and> g_hist g t \<noteq> None
     \<and> (\<forall>t' th. g_hist g t' = Some th \<and> t \<le> t' \<longrightarrow> passes th t c)
     \<and> (\<forall>a \<in> q. t \<le> a_term (accs a) \<and> passes (a_history (accs a)) t c \<and> c \<le> FlushLsn (accs a)))"

definition committed_by :: "'a ghost \<Rightarrow> (nat \<times> nat) set" where
  "committed_by g = {(entry_term th l, l) | th l t c q. (t, c, q) \<in> g_commits g \<and> g_hist g t = Some th \<and> 1 \<le> l \<and> l < c}"

definition sys_inv :: "'a set \<Rightarrow> 'a ghost \<Rightarrow> ('p, 'a) tla \<Rightarrow> bool" where
  "sys_inv A g s \<longleftrightarrow>
     hist_tree (g_hist g) \<and> (\<forall>a. acc_inv (g_hist g) (acc_state s a))
     \<and> (\<forall>p. prop_inv g (acc_state s) (prop_state s p)) \<and> props_inv (prop_state s)
     \<and> elected_inv A g (acc_state s) (elected_history s)
     \<and> (\<forall>x \<in> g_commits g. commit_inv A g (acc_state s) x) \<and> committed s \<subseteq> committed_by g"

section \<open>Quorums\<close>

lemma quorums_intersect:
  assumes "finite A" and "FormsQuorum q A" and "FormsQuorum q' A"
  obtains a where "a \<in> A" and "a \<in> q" and "a \<in> q'"
proof -
  have "q \<inter> A \<inter> (q' \<inter> A) \<noteq> {}"
  proof
    assume "q \<inter> A \<inter> (q' \<inter> A) = {}"
    then have "card (q \<inter> A) + card (q' \<inter> A) = card ((q \<inter> A) \<union> (q' \<inter> A))"
      using assms(1) by (simp add: card_Un_disjoint)
    also have "\<dots> \<le> card A" using assms(1) by (intro card_mono) auto
    finally show False using assms(2,3) by (simp add: FormsQuorum_def)
  qed
  then show ?thesis using that by auto
qed

lemma quorum_nonempty: "FormsQuorum q A \<Longrightarrow> q \<noteq> {}"
  by (auto simp: FormsQuorum_def)

section \<open>Acceptors\<close>

lemma FlushLsn_pos [simp]: "1 \<le> FlushLsn Q"
  by (simp add: FlushLsn_def)

lemma vote_of_acc_ok:
  assumes "hist_tree H" and "acc_inv H Q"
  shows "hist_ok H (v_history (vote_of_acc Q))" and "LastLogTerm (v_history (vote_of_acc Q)) \<le> a_term Q"
    and "snd (last (v_history (vote_of_acc Q))) \<le> v_flush (vote_of_acc Q)"
    and "passes (a_history Q) t c \<Longrightarrow> c \<le> FlushLsn Q \<Longrightarrow> passes (v_history (vote_of_acc Q)) t c"
proof -
  have ok: "hist_ok H (a_history Q)" and le: "fst (last (a_history Q)) \<le> a_term Q" using assms(2) by (simp_all add: acc_inv_def)
  obtain k where k: "k < length (a_history Q)" "AcceptorTermHistory Q = take (Suc k) (a_history Q)"
      "snd (a_history Q ! k) \<le> FlushLsn Q" "Suc k < length (a_history Q) \<longrightarrow> FlushLsn Q < snd (a_history Q ! Suc k)"
    using effective_history [OF assms(1) ok FlushLsn_pos] unfolding AcceptorTermHistory_def by blast
  have last: "last (take (Suc k) (a_history Q)) = a_history Q ! k" using k(1) by (simp add: take_Suc_conv_app_nth)
  show "hist_ok H (v_history (vote_of_acc Q))" using hist_ok_take [OF ok k(1)] by (simp add: vote_of_acc_def k(2))
  show "LastLogTerm (v_history (vote_of_acc Q)) \<le> a_term Q"
    using hist_terms [OF assms(1) ok k(1)] le by (simp add: vote_of_acc_def k(2) LastLogTerm_def last)
  show "snd (last (v_history (vote_of_acc Q))) \<le> v_flush (vote_of_acc Q)"
    using k(3) by (simp add: vote_of_acc_def k(2) last)
  assume "passes (a_history Q) t c" and "c \<le> FlushLsn Q"
  then obtain j where j: "j < length (a_history Q)" "fst (a_history Q ! j) = t" "snd (a_history Q ! j) \<le> c"
      "Suc j < length (a_history Q) \<longrightarrow> c \<le> snd (a_history Q ! Suc j)" by (auto simp: passes_def)
  have "j \<le> k"
  proof (rule ccontr)
    assume "\<not> j \<le> k"
    then have "FlushLsn Q < snd (a_history Q ! j)" using k(4) j(1) hist_mono [OF assms(1) ok, of "Suc k" j] by auto
    with j(3) \<open>c \<le> FlushLsn Q\<close> show False by simp
  qed
  then show "passes (v_history (vote_of_acc Q)) t c"
    using j k(1) by (auto simp: vote_of_acc_def k(2) passes_def intro!: exI [of _ j])
qed

section \<open>Steps\<close>

lemma upd_simps [simp]:
  "prop_state (upd_prop p f s) = (prop_state s)(p := f (prop_state s p))" "acc_state (upd_prop p f s) = acc_state s"
  "committed (upd_prop p f s) = committed s" "elected_history (upd_prop p f s) = elected_history s"
  "acc_state (upd_acc a h s) = (acc_state s)(a := h (acc_state s a))" "prop_state (upd_acc a h s) = prop_state s"
  "committed (upd_acc a h s) = committed s" "elected_history (upd_acc a h s) = elected_history s"
  by (simp_all add: upd_prop_def upd_acc_def)

lemma prop_inv_transfer:
  assumes "prop_inv g accs P" and "\<And>b. a_term (accs b) \<le> a_term (accs' b)"
      and "p_phase P = Leader \<Longrightarrow> leader_inv g accs P \<Longrightarrow> leader_inv g accs' P"
      and "\<And>t b v. vote_inv g t b (accs b) v \<Longrightarrow> t \<le> a_term (accs b) \<Longrightarrow> vote_inv g t b (accs' b) v"
  shows "prop_inv g accs' P"
proof -
  have "p_term P \<le> a_term (accs' b)" if "b \<in> dom (p_votes P)" for b
    using assms(1) assms(2) [of b] that order_trans unfolding prop_inv_def by blast
  moreover have "campaign_inv g accs' P" if "campaign_inv g accs P"
    using that assms(1,4) unfolding campaign_inv_def prop_inv_def by blast
  ultimately show ?thesis using assms(1,3) unfolding prop_inv_def by (cases "p_phase P = Leader") simp_all
qed

lemma elected_inv_transfer:
  assumes "elected_inv A g accs e" and "\<And>b. a_term (accs b) \<le> a_term (accs' b)"
  shows "elected_inv A g accs' e"
  using assms unfolding elected_inv_def by (meson order_trans)

lemma props_inv_cong:
  assumes "props_inv props" and "\<And>p. p_term (props' p) = p_term (props p)"
      and "\<And>p. p_votes (props' p) = p_votes (props p)" and "\<And>p. p_phase (props' p) = p_phase (props p)"
  shows "props_inv props'"
  using assms by (simp add: props_inv_def)

text \<open>A proposer changes alone.\<close>

lemma props_inv_upd:
  assumes "props_inv props"
      and "\<And>p'. p' \<noteq> p \<Longrightarrow> p_term (props p') = p_term P \<Longrightarrow>
        dom (p_votes (props p')) \<inter> dom (p_votes P) = {} \<and> \<not> (p_phase (props p') = Leader \<and> p_phase P = Leader)"
  shows "props_inv (props(p := P))"
  unfolding props_inv_def
proof (intro allI impI, elim conjE)
  fix p1 p2
  assume "p1 \<noteq> p2" "p_term ((props(p := P)) p1) = p_term ((props(p := P)) p2)"
  then show "dom (p_votes ((props(p := P)) p1)) \<inter> dom (p_votes ((props(p := P)) p2)) = {}
      \<and> \<not> (p_phase ((props(p := P)) p1) = Leader \<and> p_phase ((props(p := P)) p2) = Leader)"
    using assms(1) assms(2) [of p1] assms(2) [of p2]
    by (cases "p1 = p"; cases "p2 = p") (auto simp: props_inv_def)
qed

lemma prop_step:
  assumes "sys_inv A g s" and "prop_inv g (acc_state s) (f (prop_state s p))"
      and "\<And>p'. p' \<noteq> p \<Longrightarrow> p_term (prop_state s p') = p_term (f (prop_state s p)) \<Longrightarrow>
        dom (p_votes (prop_state s p')) \<inter> dom (p_votes (f (prop_state s p))) = {}
        \<and> \<not> (p_phase (prop_state s p') = Leader \<and> p_phase (f (prop_state s p)) = Leader)"
  shows "sys_inv A g (upd_prop p f s)"
  using assms props_inv_upd [of "prop_state s" p "f (prop_state s p)"] by (simp add: sys_inv_def)

text \<open>An acceptor moves to a higher term.\<close>

lemma raise_step:
  assumes "sys_inv A g s" and "a_term (acc_state s a) < t"
  shows "sys_inv A g (upd_acc a (\<lambda>Q. Q\<lparr>a_term := t\<rparr>) s)"
proof -
  let ?accs = "acc_state s" and ?accs' = "(acc_state s)(a := (acc_state s a)\<lparr>a_term := t\<rparr>)"
  have flush: "FlushLsn (Q\<lparr>a_term := t\<rparr>) = FlushLsn Q" "vote_of_acc (Q\<lparr>a_term := t\<rparr>) = vote_of_acc Q" for Q
    by (simp_all add: FlushLsn_def vote_of_acc_def AcceptorTermHistory_def)
  have up: "a_term (?accs b) \<le> a_term (?accs' b)" for b using assms(2) by simp
  have "leader_inv g ?accs' P" if "leader_inv g ?accs P" for P
    using that assms(2) flush by (fastforce simp: leader_inv_def)
  moreover have "vote_inv g t' b (?accs' b) v" if "vote_inv g t' b (?accs b) v" "t' \<le> a_term (?accs b)" for t' b v
    using that assms(2) flush by (auto simp: vote_inv_def)
  ultimately have "prop_inv g ?accs' P" if "prop_inv g ?accs P" for P
    using prop_inv_transfer [OF that up] by blast
  moreover have "commit_inv A g ?accs' x" if "commit_inv A g ?accs x" for x
    using that assms(2) flush by (fastforce simp: commit_inv_def split: prod.splits)
  moreover have "elected_inv A g ?accs' e" if "elected_inv A g ?accs e" for e
    using elected_inv_transfer [OF that up] .
  moreover have "acc_inv (g_hist g) (?accs' b)" if "acc_inv (g_hist g) (?accs b)" for b
    using that assms(2) by (auto simp: acc_inv_def)
  ultimately show ?thesis using assms(1) by (simp add: sys_inv_def)
qed

text \<open>An acceptor follows the leader of its term.\<close>

lemma follow_step:
  assumes "sys_inv A g s" and "p_phase (prop_state s p) = Leader" and "a_term (acc_state s a) = p_term (prop_state s p)"
      and "a_term Q = p_term (prop_state s p)" and "a_history Q = p_history (prop_state s p)" and "acc_inv (g_hist g) Q"
      and "FlushLsn Q \<le> length (p_wal (prop_state s p)) + 1"
      and "\<And>t c q. (t, c, q) \<in> g_commits g \<Longrightarrow> a \<in> q \<Longrightarrow> c \<le> FlushLsn Q"
  shows "sys_inv A g (upd_prop p (\<lambda>P. P\<lparr>p_next := (p_next P)(a \<mapsto> FlushLsn Q)\<rparr>) (upd_acc a (\<lambda>_. Q) s))"
proof -
  let ?P = "prop_state s p" and ?accs = "acc_state s" and ?accs' = "(acc_state s)(a := Q)"
  note inv = assms(1) [unfolded sys_inv_def]
  have lead: "leader_inv g ?accs ?P" using inv assms(2) by (auto simp: prop_inv_def)
  then have H: "g_hist g (p_term ?P) = Some (p_history ?P)" by (simp add: leader_inv_def)
  have other: "\<not> (p_phase (prop_state s p') = Leader \<and> p_term (prop_state s p') = p_term ?P)" if "p' \<noteq> p" for p'
    using inv assms(2) that by (auto simp: props_inv_def)
  have lead': "leader_inv g ?accs' P'" if "leader_inv g ?accs P'" "p_term P' \<noteq> p_term ?P" for P'
  proof -
    have "p_history P' \<noteq> p_history ?P"
      using that H inv unfolding leader_inv_def hist_tree_def by metis
    then show ?thesis using that assms(3-5) by (fastforce simp: leader_inv_def)
  qed
  have same: "a_term (?accs' b) = a_term (?accs b)" for b using assms(3,4) by simp
  have votes: "vote_inv g t b (?accs' b) v" if "vote_inv g t b (?accs b) v" for t b v
    using that H assms(4) by (auto simp: vote_inv_def)
  have others: "prop_inv g ?accs' (prop_state s p')" if "p' \<noteq> p" for p'
  proof (rule prop_inv_transfer)
    show "prop_inv g ?accs (prop_state s p')" using inv by blast
    show "a_term (?accs b) \<le> a_term (?accs' b)" for b using same by simp
    show "leader_inv g ?accs' (prop_state s p')" if "p_phase (prop_state s p') = Leader" "leader_inv g ?accs (prop_state s p')"
      using lead' [OF that(2)] other [OF \<open>p' \<noteq> p\<close>] that(1) by blast
  qed (rule votes)
  have self: "leader_inv g ?accs' (?P\<lparr>p_next := (p_next ?P)(a \<mapsto> FlushLsn Q)\<rparr>)"
    using lead assms(3-5,7) by (auto simp: leader_inv_def)
  have elected: "elected_inv A g ?accs' e" if "elected_inv A g ?accs e" for e
    using elected_inv_transfer [OF that] same by simp
  have commits: "commit_inv A g ?accs' x" if "x \<in> g_commits g" for x
  proof -
    obtain t c q where x: "x = (t, c, q)" by (cases x)
    have old: "commit_inv A g ?accs x" using inv that by blast
    show ?thesis
      using old assms(3,4,5) assms(8) [of t c q] that H by (auto simp: x commit_inv_def)
  qed
  have "prop_inv g ?accs' (?P\<lparr>p_next := (p_next ?P)(a \<mapsto> FlushLsn Q)\<rparr>)"
    using self inv assms(2,3,4) by (auto simp: prop_inv_def)
  moreover have "props_inv ((prop_state s)(p := ?P\<lparr>p_next := (p_next ?P)(a \<mapsto> FlushLsn Q)\<rparr>))"
    by (rule props_inv_cong [of "prop_state s"]) (use inv in simp_all)
  ultimately show ?thesis using inv others elected commits assms(6) by (simp add: sys_inv_def)
qed

end
