(* ===== verification/Consensus_Steps.thy ===== *)
theory Consensus_Steps
  imports Consensus_Inv
begin

text \<open>
  Every action of the protocol keeps the invariant of \<open>Consensus_Inv\<close>; with the ghost state
  changed by an election and by a commit only.
\<close>

section \<open>Start, restart, votes\<close>

definition init_ghost :: "'a ghost" where
  "init_ghost = \<lparr>g_hist = [0 \<mapsto> [(0, 1)]], g_voters = (\<lambda>_. {}), g_commits = {}\<rparr>"

lemma init_inv: "sys_inv A init_ghost Init"
  by (auto simp: sys_inv_def init_ghost_def Init_def hist_tree_def hist_ok_def acc_inv_def InitAcc_def log_of_def
      prop_inv_def campaign_inv_def new_prop_def props_inv_def elected_inv_def)

lemma restart_inv:
  assumes "sys_inv A g s" and "RestartProposer A p q s = Some s'"
  shows "sys_inv A g s'"
proof -
  have "s' = upd_prop p (\<lambda>_. new_prop (Max ((\<lambda>a. a_term (acc_state s a)) ` q) + 1)) s"
    using assms(2) by (simp add: RestartProposer_def split: if_splits)
  then show ?thesis
    by (auto simp: prop_inv_def campaign_inv_def new_prop_def intro!: prop_step [OF assms(1)])
qed

lemma vote_inv_new:
  assumes "sys_inv A g s" and "a_term (acc_state s a) < t"
  shows "vote_inv g t a ((acc_state s a)\<lparr>a_term := t\<rparr>) (vote_of_acc (acc_state s a))"
proof -
  note inv = assms(1) [unfolded sys_inv_def]
  have H: "hist_tree (g_hist g)" and acc: "acc_inv (g_hist g) (acc_state s a)" using inv by blast+
  have "passes (v_history (vote_of_acc (acc_state s a))) ct c \<and> c \<le> v_flush (vote_of_acc (acc_state s a))"
    if "(ct, c, q) \<in> g_commits g" "a \<in> q" for ct c q
  proof -
    have "commit_inv A g (acc_state s) (ct, c, q)" using inv that by blast
    then have "passes (a_history (acc_state s a)) ct c" "c \<le> FlushLsn (acc_state s a)"
      using that(2) by (simp_all add: commit_inv_def)
    then show ?thesis using vote_of_acc_ok(4) [OF H acc] by (simp add: vote_of_acc_def)
  qed
  moreover have "vote_of_acc ((acc_state s a)\<lparr>a_term := t\<rparr>) = vote_of_acc (acc_state s a)"
    by (simp add: vote_of_acc_def AcceptorTermHistory_def FlushLsn_def)
  ultimately show ?thesis
    using vote_of_acc_ok(1-3) [OF H acc] assms(2) by (auto simp: vote_inv_def)
qed

lemma campaign_vote:
  assumes "campaign_inv g accs P" and "vote_inv g (p_term P) a (accs a) v"
      and "g_hist g (p_term P) \<noteq> None \<Longrightarrow> a \<notin> g_voters g (p_term P)"
  shows "campaign_inv g accs (P\<lparr>p_votes := (p_votes P)(a \<mapsto> v)\<rparr>)"
  using assms by (auto simp: campaign_inv_def)

lemma vote_step_inv:
  assumes "sys_inv A g s" and "Vote p a s = Some s'"
  shows "sys_inv A g s'"
proof -
  let ?P = "prop_state s p" and ?t = "p_term (prop_state s p)"
  let ?s1 = "upd_acc a (\<lambda>Q. Q\<lparr>a_term := ?t\<rparr>) s"
  let ?f = "\<lambda>P. P\<lparr>p_votes := (p_votes P)(a \<mapsto> vote_of_acc (acc_state s a))\<rparr>"
  note inv = assms(1) [unfolded sys_inv_def]
  have camp: "p_phase ?P = Campaign" and lt: "a_term (acc_state s a) < ?t" and s': "s' = upd_prop p ?f ?s1"
    using assms(2) by (auto simp: Vote_def Let_def vote_of_acc_def split: if_splits)
  have raised: "sys_inv A g ?s1" using raise_step [OF assms(1) lt] .
  have old: "prop_inv g (acc_state ?s1) ?P" using raised by (simp add: sys_inv_def)
  have fresh: "a \<notin> g_voters g ?t" if "g_hist g ?t \<noteq> None"
  proof
    assume "a \<in> g_voters g ?t"
    moreover have "0 < ?t" using lt by simp
    moreover have "elected_inv A g (acc_state s) (elected_history s)" using inv by blast
    ultimately have "?t \<le> a_term (acc_state s a)" using that by (auto simp: elected_inv_def)
    with lt show False by simp
  qed
  have novote: "a \<notin> dom (p_votes (prop_state s p'))" if "p_term (prop_state s p') = ?t" for p'
  proof
    assume "a \<in> dom (p_votes (prop_state s p'))"
    moreover have "prop_inv g (acc_state s) (prop_state s p')" using inv by blast
    ultimately have "?t \<le> a_term (acc_state s a)" using that by (auto simp: prop_inv_def)
    with lt show False by simp
  qed
  have "campaign_inv g (acc_state ?s1) (?f ?P)"
    using old camp fresh vote_inv_new [OF assms(1) lt] by (intro campaign_vote) (simp_all add: prop_inv_def)
  then have new: "prop_inv g (acc_state ?s1) (?f (prop_state ?s1 p))"
    using old camp by (auto simp: prop_inv_def)
  show ?thesis unfolding s'
  proof (rule prop_step [where f = ?f, OF raised])
    show "prop_inv g (acc_state ?s1) (?f (prop_state ?s1 p))" by (rule new)
  next
    fix p' assume p': "p' \<noteq> p" "p_term (prop_state ?s1 p') = p_term (?f (prop_state ?s1 p))"
    then have "dom (p_votes (prop_state s p')) \<inter> dom (p_votes ?P) = {}"
      using inv by (auto simp: props_inv_def)
    then show "dom (p_votes (prop_state ?s1 p')) \<inter> dom (p_votes (?f (prop_state ?s1 p))) = {}
        \<and> \<not> (p_phase (prop_state ?s1 p') = Leader \<and> p_phase (?f (prop_state ?s1 p)) = Leader)"
      using novote [of p'] p'(2) camp by auto
  qed
qed

lemma update_inv:
  assumes "sys_inv A g s" and "UpdateTerm p a s = Some s'"
  shows "sys_inv A g s'"
  using assms raise_step by (auto simp: UpdateTerm_def Let_def split: if_splits)

section \<open>Entries\<close>

lemma leader_of:
  assumes "sys_inv A g s" and "p_phase (prop_state s p) = Leader"
  shows "leader_inv g (acc_state s) (prop_state s p)" and "hist_ok (g_hist g) (p_history (prop_state s p))"
    and "fst (last (p_history (prop_state s p))) = p_term (prop_state s p)"
proof -
  note inv = assms(1) [unfolded sys_inv_def]
  show lead: "leader_inv g (acc_state s) (prop_state s p)" using inv assms(2) by (auto simp: prop_inv_def)
  then have "g_hist g (p_term (prop_state s p)) = Some (p_history (prop_state s p))" by (simp add: leader_inv_def)
  then show "hist_ok (g_hist g) (p_history (prop_state s p))"
    and "fst (last (p_history (prop_state s p))) = p_term (prop_state s p)"
    using inv unfolding hist_tree_def by blast+
qed

lemma entry_inv:
  assumes "sys_inv A g s" and "NewEntry p s = Some s'"
  shows "sys_inv A g s'"
proof -
  let ?P = "prop_state s p" and ?f = "\<lambda>P. P\<lparr>p_wal := p_wal P @ [p_term P]\<rparr>"
  note inv = assms(1) [unfolded sys_inv_def]
  have l: "p_phase ?P = Leader" and s': "s' = upd_prop p ?f s"
    using assms(2) by (auto simp: NewEntry_def split: if_splits)
  note lead = leader_of [OF assms(1) l]
  have "entry_term (p_history ?P) (Suc (length (p_wal ?P))) = p_term ?P"
    using entry_term_last [of "p_history ?P"] hist_ok_tree(3,4) [OF _ lead(2)] inv lead(1,3)
    by (auto simp: leader_inv_def)
  then have "leader_inv g (acc_state s) (?f ?P)"
    using lead(1) by (auto simp: leader_inv_def log_of_Suc le_SucI)
  then have "prop_inv g (acc_state s) (?f ?P)" using inv l by (auto simp: prop_inv_def)
  then show ?thesis unfolding s' by (rule prop_step [OF assms(1)]) (use inv l in \<open>auto simp: props_inv_def\<close>)
qed

lemma append_inv:
  assumes "sys_inv A g s" and "AppendEntry p a s = Some s'"
  shows "sys_inv A g s'"
proof -
  let ?P = "prop_state s p" and ?Q = "acc_state s a"
  note inv = assms(1) [unfolded sys_inv_def]
  obtain n where l: "p_phase ?P = Leader" and t: "a_term ?Q = p_term ?P" and n: "p_next ?P a = Some n" "n \<le> length (p_wal ?P)"
      and s': "s' = upd_prop p (\<lambda>P. P\<lparr>p_next := (p_next P)(a \<mapsto> n + 1)\<rparr>)
                (upd_acc a (\<lambda>Q. Q\<lparr>a_wal := a_wal Q @ [p_wal ?P ! (n - 1)]\<rparr>) s)"
    using assms(2) by (auto simp: AppendEntry_def Let_def split: if_splits option.splits)
  note lead = leader_of [OF assms(1) l]
  let ?Q' = "?Q\<lparr>a_wal := a_wal ?Q @ [p_wal ?P ! (n - 1)]\<rparr>"
  have h: "a_history ?Q = p_history ?P" "n = FlushLsn ?Q" using lead(1) t n(1) by (auto simp: leader_inv_def)
  have fl: "FlushLsn ?Q' = n + 1" using h(2) by (simp add: FlushLsn_def)
  have wal: "p_wal ?P = log_of (p_history ?P) (length (p_wal ?P))" using lead(1) by (simp add: leader_inv_def)
  have "length (a_wal ?Q) < length (p_wal ?P)" using n(2) h(2) by (simp add: FlushLsn_def)
  then have "p_wal ?P ! (n - 1) = entry_term (p_history ?P) (Suc (length (a_wal ?Q)))"
    using h(2) by (subst wal) (simp add: log_of_nth FlushLsn_def)
  moreover have "acc_inv (g_hist g) ?Q" using inv by blast
  ultimately have "acc_inv (g_hist g) ?Q'" using h(1) by (simp add: acc_inv_def log_of_Suc)
  moreover have "c \<le> FlushLsn ?Q'" if c: "(ct, c, q) \<in> g_commits g" "a \<in> q" for ct c q
  proof -
    have "commit_inv A g (acc_state s) (ct, c, q)" using inv c(1) by blast
    then have "c \<le> FlushLsn ?Q" using c(2) by (simp add: commit_inv_def)
    then show ?thesis using fl h(2) by simp
  qed
  ultimately have "sys_inv A g (upd_prop p (\<lambda>P. P\<lparr>p_next := (p_next P)(a \<mapsto> FlushLsn ?Q')\<rparr>) (upd_acc a (\<lambda>_. ?Q') s))"
    by (intro follow_step [OF assms(1) l t]) (use t h fl n in simp_all)
  then show ?thesis unfolding s' fl by (simp add: upd_acc_def)
qed

section \<open>Truncation\<close>

text \<open>The log of an acceptor in the term of the leader ends, after the truncation, within the log of the leader.\<close>

lemma truncate_end:
  assumes "hist_tree (g_hist g)" and "leader_inv g accs P" and "hist_ok (g_hist g) (p_history P)"
      and "fst (last (p_history P)) = p_term P" and "acc_inv (g_hist g) (accs a)" and "a_term (accs a) = p_term P"
      and "x \<le> FlushLsn (accs a)" and "i < length (p_history P)" and "i < length (a_history (accs a))"
      and "take (Suc i) (p_history P) = take (Suc i) (a_history (accs a))"
      and "Suc i < length (p_history P) \<Longrightarrow> x \<le> snd (p_history P ! Suc i)"
  shows "x \<le> length (p_wal P) + 1"
proof (cases "Suc i < length (p_history P)")
  case True
  then have "p_history P ! (length (p_history P) - 1) = last (p_history P)" by (cases "p_history P") (simp_all add: last_conv_nth)
  then have "snd (p_history P ! Suc i) \<le> snd (last (p_history P))"
    using True hist_mono [OF assms(1,3), of "Suc i" "length (p_history P) - 1"] by simp
  also have "\<dots> \<le> length (p_wal P) + 1" using assms(2) by (simp add: leader_inv_def)
  finally show ?thesis using assms(11) [OF True] by simp
next
  case False
  let ?s = "a_history (accs a)"
  have ok: "hist_ok (g_hist g) ?s" and le: "fst (last ?s) \<le> p_term P" using assms(5,6) by (simp_all add: acc_inv_def)
  have i: "Suc i = length (p_history P)" using False assms(8) by simp
  have p: "p_history P = take (Suc i) ?s" using assms(10) i by simp
  then have "last (p_history P) = ?s ! i" using assms(9) by (simp add: take_Suc_conv_app_nth)
  moreover have "fst (?s ! i) < fst (?s ! Suc i)" if "Suc i < length ?s"
    using that hist_ok_tree(2) [OF assms(1) ok] by (auto simp: sorted_wrt_iff_nth_less)
  ultimately have "\<not> Suc i < length ?s"
    using hist_terms [OF assms(1) ok, of "Suc i"] le assms(4) by force
  then have "?s = p_history P" using p assms(9) by simp
  then show ?thesis using assms(2,7) by (fastforce simp: leader_inv_def)
qed

lemma truncate_inv:
  assumes "sys_inv A g s" and "TruncateWal p a s = Some s'"
  shows "sys_inv A g s'"
proof -
  let ?P = "prop_state s p" and ?Q = "acc_state s a"
  note inv = assms(1) [unfolded sys_inv_def]
  define x where "x = snd (FindHighestCommonPoint (p_history ?P) (AcceptorTermHistory ?Q) (FlushLsn ?Q))"
  define i where "i = common_idx (p_history ?P) (AcceptorTermHistory ?Q)"
  have l: "p_phase ?P = Leader" and t: "a_term ?Q = p_term ?P"
      and s': "s' = upd_prop p (\<lambda>P. P\<lparr>p_next := (p_next P)(a \<mapsto> x)\<rparr>) (upd_acc a (truncate_acc (p_history ?P) x) s)"
    using assms(2) by (auto simp: TruncateWal_def Let_def x_def split: if_splits)
  note lead = leader_of [OF assms(1) l]
  have H: "hist_tree (g_hist g)" and acc: "acc_inv (g_hist g) ?Q" using inv by blast+
  then have ok: "hist_ok (g_hist g) (a_history ?Q)" by (simp add: acc_inv_def)
  note cp = common_point [OF H lead(2) ok FlushLsn_pos [of ?Q],
      folded AcceptorTermHistory_def, folded x_def i_def]
  let ?Q' = "truncate_acc (p_history ?P) x ?Q"
  have fl: "FlushLsn ?Q' = x" using cp(1,2) by (auto simp: FlushLsn_def truncate_acc_def)
  have "entry_term (a_history ?Q) n = entry_term (p_history ?P) n" if "n < x" for n
    using that cp(5,6,7) entry_term_take [OF H ok, of i n] entry_term_take [OF H lead(2), of i n] by fastforce
  then have "log_of (a_history ?Q) (x - 1) = log_of (p_history ?P) (x - 1)" using cp(1) by (intro log_of_cong) simp
  moreover have "a_wal ?Q = log_of (a_history ?Q) (length (a_wal ?Q))" using acc by (simp add: acc_inv_def)
  moreover have "x - 1 \<le> length (a_wal ?Q)" using cp(2) by (simp add: FlushLsn_def)
  ultimately have "take (x - 1) (a_wal ?Q) = log_of (p_history ?P) (x - 1)" by (metis take_log_of)
  then have acc': "acc_inv (g_hist g) ?Q'"
    using lead(2,3) t by (simp add: acc_inv_def truncate_acc_def)
  have end_le: "x \<le> length (p_wal ?P) + 1" using truncate_end [OF H lead acc t cp(2,3,4,5,6)] .
  have "c \<le> x" if c: "(ct, c, q) \<in> g_commits g" "a \<in> q" for ct c q
  proof -
    have "commit_inv A g (acc_state s) (ct, c, q)" using inv c(1) by blast
    then have "passes (p_history ?P) ct c" "passes (a_history ?Q) ct c" "c \<le> FlushLsn ?Q"
      using c(2) t lead(1) by (auto simp: commit_inv_def leader_inv_def)
    then show ?thesis by (rule cp(8))
  qed
  then have "sys_inv A g (upd_prop p (\<lambda>P. P\<lparr>p_next := (p_next P)(a \<mapsto> FlushLsn ?Q')\<rparr>) (upd_acc a (\<lambda>_. ?Q') s))"
    by (intro follow_step [OF assms(1) l t]) (use t acc' end_le fl in \<open>simp_all add: truncate_acc_def\<close>)
  then show ?thesis unfolding s' fl by (simp add: upd_acc_def)
qed

section \<open>Commit\<close>

lemma prop_inv_ghost:
  assumes "prop_inv g accs P" and "p_phase P = Leader \<Longrightarrow> leader_inv g accs P \<Longrightarrow> leader_inv g' accs P"
      and "\<And>a v. p_term P \<le> a_term (accs a) \<Longrightarrow> vote_inv g (p_term P) a (accs a) v \<Longrightarrow> vote_inv g' (p_term P) a (accs a) v"
      and "p_phase P \<noteq> Leader \<Longrightarrow> g_hist g' (p_term P) \<noteq> None \<Longrightarrow>
        (g_hist g (p_term P) \<noteq> None \<longrightarrow> dom (p_votes P) \<inter> g_voters g (p_term P) = {}) \<Longrightarrow>
        dom (p_votes P) \<inter> g_voters g' (p_term P) = {}"
  shows "prop_inv g' accs P"
proof (cases "p_phase P = Leader")
  case True
  then show ?thesis using assms(1,2) by (simp add: prop_inv_def)
next
  case False
  then have "campaign_inv g accs P" "\<forall>a \<in> dom (p_votes P). p_term P \<le> a_term (accs a)"
    using assms(1) by (simp_all add: prop_inv_def)
  then have "campaign_inv g' accs P"
    using assms(3,4) False unfolding campaign_inv_def by (metis domI)
  then show ?thesis using assms(1) False by (simp add: prop_inv_def)
qed

lemma committed_by_insert:
  assumes "g_hist g t = Some th"
  shows "committed_by (g\<lparr>g_commits := insert (t, c, q) (g_commits g)\<rparr>)
    = committed_by g \<union> (\<lambda>n. (entry_term th n, n)) ` {1..<c}"
  using assms unfolding committed_by_def by (auto simp: image_iff) metis+

lemma commit_step_inv:
  assumes "finite A" and "sys_inv A g s" and "CommitEntries A p q s = Some s'"
  shows "\<exists>g'. sys_inv A g' s'"
proof -
  let ?P = "prop_state s p" and ?T = "p_term (prop_state s p)"
  note inv = assms(2) [unfolded sys_inv_def]
  define c where "c = Min ((\<lambda>a. FlushLsn (acc_state s a)) ` q)"
  have l: "p_phase ?P = Leader" and q: "q \<subseteq> A" "FormsQuorum q A"
      and flw: "\<And>a. a \<in> q \<Longrightarrow> a_term (acc_state s a) = ?T \<and> p_next ?P a \<noteq> None"
      and start: "snd (last (p_history ?P)) \<le> c"
      and s': "s' = s\<lparr>committed := committed s \<union> (\<lambda>lsn. (p_wal ?P ! (lsn - 1), lsn)) ` {1..<c}\<rparr>"
    using assms(3) by (auto simp: CommitEntries_def QuorumCommitLsn_def Let_def c_def FormsMinQuorum_def FormsQuorum_def PropStartLsn_def
        split: if_splits)
  note lead = leader_of [OF assms(2) l]
  let ?g = "g\<lparr>g_commits := insert (?T, c, q) (g_commits g)\<rparr>"
  have H: "hist_tree (g_hist g)" "g_hist g ?T = Some (p_history ?P)" using inv lead(1) by (auto simp: leader_inv_def)
  have fin: "finite q" using q(1) assms(1) finite_subset by blast
  have cle: "c \<le> FlushLsn (acc_state s a)" if "a \<in> q" for a unfolding c_def using that fin by simp
  have pass: "passes (p_history ?P) ?T c" using passes_last start lead(3) hist_ok_tree(4) [OF H(1) lead(2)] by metis
  have hq: "a_history (acc_state s a) = p_history ?P" if "a \<in> q" for a using flw [OF that] lead(1) by (auto simp: leader_inv_def)
  have later: "passes th ?T c" if th: "g_hist g t' = Some th" "?T \<le> t'" for t' th
  proof (cases "t' = ?T")
    case False
    then have "FormsQuorum (g_voters g t') A" "\<forall>a \<in> g_voters g t'. t' \<le> a_term (acc_state s a)"
      using inv th by (auto simp: elected_inv_def)
    then show ?thesis using quorums_intersect [OF assms(1) q(2)] flw th(2) False by (metis le_antisym)
  qed (use H(2) th pass in simp)
  have "commit_inv A ?g (acc_state s) (?T, c, q)"
    using q(2) H(2) later pass flw hq cle by (auto simp: commit_inv_def)
  moreover have "commit_inv A ?g (acc_state s) x" if "x \<in> g_commits g" for x
  proof -
    have "commit_inv A g (acc_state s) x" using inv that by blast
    then show ?thesis by (auto simp: commit_inv_def split: prod.splits)
  qed
  moreover have "prop_inv ?g (acc_state s) (prop_state s p')" for p'
  proof (rule prop_inv_ghost [of g])
    show "prop_inv g (acc_state s) (prop_state s p')" using inv by blast
    show "vote_inv ?g (p_term (prop_state s p')) a (acc_state s a) v"
      if "vote_inv g (p_term (prop_state s p')) a (acc_state s a) v" "p_term (prop_state s p') \<le> a_term (acc_state s a)" for a v
      using that flw [of a] by (auto simp: vote_inv_def)
  qed (simp_all add: leader_inv_def)
  moreover have "elected_inv A ?g (acc_state s) (elected_history s)" using inv by (simp add: elected_inv_def)
  moreover have "p_wal ?P ! (n - 1) = entry_term (p_history ?P) n" if n: "1 \<le> n" "n < c" for n
  proof -
    obtain a where "a \<in> q" using quorum_nonempty [OF q(2)] by blast
    then have "n - 1 < length (p_wal ?P)" using cle [of a] hq [of a] lead(1) n by (fastforce simp: leader_inv_def)
    moreover have "p_wal ?P = log_of (p_history ?P) (length (p_wal ?P))" using lead(1) by (simp add: leader_inv_def)
    ultimately show ?thesis using n(1) log_of_nth by (metis One_nat_def Suc_pred' less_eq_Suc_le)
  qed
  then have "committed s' \<subseteq> committed_by ?g"
    using inv committed_by_insert [OF H(2), of c q] by (auto simp: s')
  ultimately have "sys_inv A ?g s'" using inv by (simp add: sys_inv_def s')
  then show ?thesis by blast
qed

section \<open>Election\<close>

lemma hist_ok_extend: "hist_ok H th \<Longrightarrow> H t = None \<Longrightarrow> hist_ok (H(t \<mapsto> h)) th"
  by (auto simp: hist_ok_def)

lemma hist_tree_extend:
  assumes "hist_tree H" and "H t = None" and "hist_ok H th" and "LastLogTerm th < t" and "snd (last th) \<le> n"
  shows "hist_tree (H(t \<mapsto> th @ [(t, n)]))"
proof -
  let ?H = "H(t \<mapsto> th @ [(t, n)])"
  note tree = hist_ok_tree [OF assms(1,3)]
  have "hist_ok ?H (th @ [(t, n)])"
    using assms(2,3) by (auto simp: hist_ok_def nth_append less_Suc_eq)
  moreover have "\<forall>e \<in> set th. fst e < t"
    using hist_terms [OF assms(1,3)] assms(4) by (fastforce simp: in_set_conv_nth LastLogTerm_def)
  then have "sorted_wrt (<) (map fst (th @ [(t, n)]))" using tree(2) by (auto simp: sorted_wrt_append)
  moreover have "sorted (map snd (th @ [(t, n)]))"
    using tree(3,4) assms(5) by (cases th rule: rev_cases) (auto simp: sorted_append intro: order_trans)
  ultimately show ?thesis
    using assms(1,2,4) tree(1,4) hist_ok_extend [where H = H and t = t] unfolding hist_tree_def by (auto simp: hd_append)
qed

lemma passes_extend:
  assumes "passes th t c" and "t = fst (last th) \<Longrightarrow> c \<le> n"
  shows "passes (th @ [(t', n)]) t c"
proof -
  obtain k where k: "k < length th" "fst (th ! k) = t" "snd (th ! k) \<le> c" "Suc k < length th \<longrightarrow> c \<le> snd (th ! Suc k)"
    using assms(1) by (auto simp: passes_def)
  have "Suc k < length th \<or> fst (last th) = t \<and> length th = Suc k"
  proof (cases "Suc k < length th")
    case False
    then have "length th = Suc k" using k(1) by simp
    then show ?thesis using k(2) by (cases th) (auto simp: last_conv_nth)
  qed simp
  then show ?thesis using k assms(2) by (auto simp: passes_def nth_append intro!: exI [of _ k])
qed

lemma campaign_of:
  assumes "sys_inv A g s" and "p_phase (prop_state s p) = Campaign"
  shows "campaign_inv g (acc_state s) (prop_state s p)" and "0 < p_term (prop_state s p)"
proof -
  have "prop_inv g (acc_state s) (prop_state s p)" using assms(1) unfolding sys_inv_def by blast
  then show "campaign_inv g (acc_state s) (prop_state s p)" "0 < p_term (prop_state s p)"
    using assms(2) by (simp_all add: prop_inv_def)
qed

text \<open>The history of a new leader passes through every earlier commit.\<close>

lemma leader_complete:
  assumes "finite A" and "sys_inv A g s" and "p_phase (prop_state s p) = Campaign"
      and "FormsQuorum (dom (p_votes (prop_state s p))) A" and "MaxVoteAcc (p_votes (prop_state s p)) m"
      and "p_votes (prop_state s p) m = Some v" and "(t, c, q) \<in> g_commits g" and "t < p_term (prop_state s p)"
  shows "passes (v_history v @ [(p_term (prop_state s p), v_flush v)]) t c"
proof -
  let ?P = "prop_state s p"
  note inv = assms(2) [unfolded sys_inv_def]
  have votes: "vote_inv g (p_term ?P) a (acc_state s a) w" if "p_votes ?P a = Some w" for a w
    using campaign_of(1) [OF assms(2,3)] that by (simp add: campaign_inv_def)
  have commit: "commit_inv A g (acc_state s) (t, c, q)" using inv assms(7) by blast
  then have "FormsQuorum q A" by (simp add: commit_inv_def)
  then obtain a where "a \<in> q" "a \<in> dom (p_votes ?P)" using quorums_intersect [OF assms(1) _ assms(4)] by metis
  then obtain w where w: "p_votes ?P a = Some w" by blast
  then have pw: "passes (v_history w) t c" "c \<le> v_flush w" "hist_ok (g_hist g) (v_history w)"
    using votes [OF w] assms(7,8) \<open>a \<in> q\<close> by (auto simp: vote_inv_def)
  have "t \<le> LastLogTerm (v_history w)"
    using pw(1) hist_terms [OF _ pw(3)] inv by (auto simp: passes_def LastLogTerm_def)
  moreover have ge: "TermLsnGE (vote_term_lsn v) (vote_term_lsn w)"
    using assms(5,6) w by (auto simp: MaxVoteAcc_def ran_def)
  ultimately have "t \<le> LastLogTerm (v_history v)" by (auto simp: TermLsnGE_def vote_term_lsn_def)
  moreover have "g_hist g (LastLogTerm (v_history v)) = Some (v_history v)"
    using votes [OF assms(6)] hist_ok_last by (auto simp: vote_inv_def LastLogTerm_def)
  ultimately have "passes (v_history v) t c" using commit by (auto simp: commit_inv_def)
  moreover have "c \<le> v_flush v" if "t = fst (last (v_history v))"
    using that ge pw(2) \<open>t \<le> LastLogTerm (v_history w)\<close> by (auto simp: TermLsnGE_def vote_term_lsn_def LastLogTerm_def)
  ultimately show ?thesis by (rule passes_extend)
qed

text \<open>The log of the acceptor that gave the best vote is the log of the new history.\<close>

lemma elected_log:
  assumes "hist_tree H" and "acc_inv H Q"
  shows "a_wal Q = log_of (v_history (vote_of_acc Q) @ [(t, FlushLsn Q)]) (length (a_wal Q))"
proof -
  have ok: "hist_ok H (a_history Q)" using assms(2) by (simp add: acc_inv_def)
  obtain k where k: "AcceptorTermHistory Q = take (Suc k) (a_history Q)"
      "Suc k < length (a_history Q) \<longrightarrow> FlushLsn Q < snd (a_history Q ! Suc k)"
    using effective_history [OF assms(1) ok FlushLsn_pos] unfolding AcceptorTermHistory_def by blast
  have "entry_term (a_history Q) n = entry_term (AcceptorTermHistory Q @ [(t, FlushLsn Q)]) n" if "n < FlushLsn Q" for n
  proof -
    have "entry_term (a_history Q) n = entry_term (take (Suc k) (a_history Q)) n"
      by (rule entry_term_take [OF assms(1) ok]) (use that k(2) in auto)
    then show ?thesis using that entry_term_prefix [of "[(t, FlushLsn Q)]" n] by (simp add: k(1))
  qed
  then have "log_of (a_history Q) (length (a_wal Q)) = log_of (AcceptorTermHistory Q @ [(t, FlushLsn Q)]) (length (a_wal Q))"
    by (intro log_of_cong) (simp add: FlushLsn_def)
  then show ?thesis using assms(2) by (simp add: acc_inv_def vote_of_acc_def)
qed

text \<open>No two elections in one term: their quorums of votes would meet.\<close>

lemma unelected:
  assumes "finite A" and "sys_inv A g s" and "p_phase (prop_state s p) = Campaign"
      and "FormsQuorum (dom (p_votes (prop_state s p))) A"
  shows "g_hist g (p_term (prop_state s p)) = None"
proof (rule ccontr)
  let ?T = "p_term (prop_state s p)"
  note inv = assms(2) [unfolded sys_inv_def]
  assume some: "g_hist g ?T \<noteq> None"
  note c = campaign_of [OF assms(2,3)]
  then have "FormsQuorum (g_voters g ?T) A" "dom (p_votes (prop_state s p)) \<inter> g_voters g ?T = {}"
    using inv some by (auto simp: elected_inv_def campaign_inv_def)
  then show False using quorums_intersect [OF assms(1,4)] by (metis disjoint_iff)
qed

lemma committed_by_mono:
  assumes "g_commits g' = g_commits g" and "\<And>t th. g_hist g t = Some th \<Longrightarrow> g_hist g' t = Some th"
  shows "committed_by g \<subseteq> committed_by g'"
  unfolding committed_by_def assms(1) using assms(2) by blast

lemma leader_step_inv:
  assumes "finite A" and "sys_inv A g s" and "BecomeLeader A p m s = Some s'"
  shows "\<exists>g'. sys_inv A g' s'"
proof -
  let ?P = "prop_state s p" and ?T = "p_term (prop_state s p)"
  note inv = assms(2) [unfolded sys_inv_def]
  define v where "v = the (p_votes ?P m)"
  define h where "h = v_history v @ [(?T, v_flush v)]"
  let ?P' = "?P\<lparr>p_phase := Leader, p_history := h, p_wal := a_wal (acc_state s m)\<rparr>"
  have camp: "p_phase ?P = Campaign" and q: "FormsQuorum (dom (p_votes ?P)) A" and best: "MaxVoteAcc (p_votes ?P) m"
      and t: "a_term (acc_state s m) = ?T"
      and s': "s' = (upd_prop p (\<lambda>_. ?P') s)\<lparr>elected_history := (elected_history s)(?T := elected_history s ?T + 1)\<rparr>"
    using assms(3) by (auto simp: BecomeLeader_def Let_def v_def h_def upd_prop_def split: if_splits)
  have v: "p_votes ?P m = Some v" using best by (auto simp: MaxVoteAcc_def v_def split: option.splits)
  note pos = campaign_of(2) [OF assms(2) camp] and ci = campaign_of(1) [OF assms(2) camp]
  have new: "g_hist g ?T = None" using unelected [OF assms(1,2) camp q] .
  then have vm: "v = vote_of_acc (acc_state s m)" using ci v t by (auto simp: campaign_inv_def vote_inv_def)
  have vi: "hist_ok (g_hist g) (v_history v)" "LastLogTerm (v_history v) < ?T" "snd (last (v_history v)) \<le> v_flush v"
    using ci v by (auto simp: campaign_inv_def vote_inv_def)
  let ?g = "g\<lparr>g_hist := (g_hist g)(?T \<mapsto> h), g_voters := (g_voters g)(?T := dom (p_votes ?P))\<rparr>"
  have H: "hist_tree (g_hist g)" "hist_tree (g_hist ?g)" using inv hist_tree_extend [OF _ new vi] by (auto simp: h_def)
  have ok: "hist_ok (g_hist ?g) th" if "hist_ok (g_hist g) th" for th using hist_ok_extend [OF that new] by simp
  have accs: "acc_inv (g_hist ?g) (acc_state s a)" for a using inv ok by (auto simp: acc_inv_def)
  have "a_history (acc_state s a) \<noteq> h" for a
  proof
    assume "a_history (acc_state s a) = h"
    then have "hist_ok (g_hist g) h" using inv by (auto simp: acc_inv_def)
    from hist_ok_last [OF this] new show False by (simp add: h_def)
  qed
  moreover have "a_wal (acc_state s m) = log_of h (length (a_wal (acc_state s m)))"
    using elected_log [OF H(1), of "acc_state s m" ?T] inv by (simp add: h_def vm vote_of_acc_def)
  ultimately have self: "leader_inv ?g (acc_state s) ?P'"
    using ci by (auto simp: leader_inv_def campaign_inv_def h_def vm vote_of_acc_def FlushLsn_def)
  then have "prop_inv ?g (acc_state s) ?P'" using inv by (auto simp: prop_inv_def)
  moreover have "prop_inv ?g (acc_state s) (prop_state s p')" if "p' \<noteq> p" for p'
  proof (rule prop_inv_ghost [of g])
    show "prop_inv g (acc_state s) (prop_state s p')" using inv by blast
    show "leader_inv ?g (acc_state s) (prop_state s p')" if "leader_inv g (acc_state s) (prop_state s p')"
      using that new by (auto simp: leader_inv_def)
    show "vote_inv ?g (p_term (prop_state s p')) a (acc_state s a) w"
      if "vote_inv g (p_term (prop_state s p')) a (acc_state s a) w" for a w
      using that ok by (auto simp: vote_inv_def split: if_splits)
    show "dom (p_votes (prop_state s p')) \<inter> g_voters ?g (p_term (prop_state s p')) = {}"
      if "g_hist ?g (p_term (prop_state s p')) \<noteq> None" "g_hist g (p_term (prop_state s p')) \<noteq> None \<longrightarrow>
        dom (p_votes (prop_state s p')) \<inter> g_voters g (p_term (prop_state s p')) = {}"
      using that inv \<open>p' \<noteq> p\<close> by (auto simp: props_inv_def)
  qed
  moreover have "props_inv ((prop_state s)(p := ?P'))"
  proof -
    have "\<not> (p_phase (prop_state s p') = Leader \<and> p_term (prop_state s p') = ?T)" for p'
      using new leader_of(1) [OF assms(2), of p'] by (auto simp: leader_inv_def)
    then show ?thesis using inv by (intro props_inv_upd) (auto simp: props_inv_def)
  qed
  moreover have "elected_inv A ?g (acc_state s) ((elected_history s)(?T := elected_history s ?T + 1))"
    using inv q pos new by (auto simp: elected_inv_def prop_inv_def)
  moreover have "commit_inv A ?g (acc_state s) (ct, c, cq)" if "(ct, c, cq) \<in> g_commits g" for ct c cq
  proof -
    have "commit_inv A g (acc_state s) (ct, c, cq)" using inv that by blast
    then show ?thesis
      using leader_complete [OF assms(1,2) camp q best v that] new by (auto simp: commit_inv_def h_def)
  qed
  moreover have "committed_by g \<subseteq> committed_by ?g" 
    using new by (intro committed_by_mono) auto
  ultimately have "sys_inv A ?g s'" using inv H(2) accs by (auto simp: sys_inv_def s')
  then show ?thesis by blast
qed

section \<open>Reachable states\<close>

lemma reachable_inv:
  assumes "finite A" and "reachable A s"
  obtains g where "sys_inv A g s"
proof -
  have "\<exists>g. sys_inv A g s"
    using assms(2)
  proof (induction rule: reachable.induct)
    case reachable_init
    show ?case using init_inv by blast
  next
    case (reachable_next s s')
    from reachable_next(3) obtain g where "sys_inv A g s" by blast
    from reachable_next(2) this show ?case
      by (cases rule: Next.cases)
        (blast intro: restart_inv vote_step_inv update_inv truncate_inv entry_inv append_inv
          leader_step_inv [OF assms(1)] commit_step_inv [OF assms(1)])+
  qed
  then show ?thesis using that by blast
qed

end
