(* ===== verification/Consensus_Claims.thy ===== *)
theory Consensus_Claims
  imports Consensus_Steps
begin

text \<open>
  What the protocol guarantees in every reachable state, with any number of proposers and a
  finite set of acceptors, and a run with two elections on which the guarantees are evaluated.
\<close>

section \<open>Runs\<close>

datatype ('p, 'a) tla_action =
  DoRestart 'p "'a set" | DoVote 'p 'a | DoLeader 'p 'a | DoUpdate 'p 'a | DoTruncate 'p 'a | DoEntry 'p | DoAppend 'p 'a
  | DoCommit 'p "'a set"

fun act :: "'a set \<Rightarrow> ('p, 'a) tla_action \<Rightarrow> ('p, 'a) tla \<Rightarrow> ('p, 'a) tla option" where
  "act A (DoRestart p q) s = RestartProposer A p q s"
| "act A (DoVote p a) s = (if a \<in> A then Vote p a s else None)"
| "act A (DoLeader p m) s = BecomeLeader A p m s"
| "act A (DoUpdate p a) s = (if a \<in> A then UpdateTerm p a s else None)"
| "act A (DoTruncate p a) s = (if a \<in> A then TruncateWal p a s else None)"
| "act A (DoEntry p) s = NewEntry p s"
| "act A (DoAppend p a) s = (if a \<in> A then AppendEntry p a s else None)"
| "act A (DoCommit p q) s = CommitEntries A p q s"

fun acts :: "'a set \<Rightarrow> ('p, 'a) tla_action list \<Rightarrow> ('p, 'a) tla \<Rightarrow> ('p, 'a) tla option" where
  "acts A [] s = Some s"
| "acts A (x # xs) s = Option.bind (act A x s) (acts A xs)"

lemma act_Next: "act A x s = Some s' \<Longrightarrow> Next A s s'"
  by (cases x) (auto split: if_splits intro: Next.intros)

lemma acts_reachable: "reachable A s \<Longrightarrow> acts A xs s = Some s' \<Longrightarrow> reachable A s'"
  by (induction xs arbitrary: s) (auto split: bind_splits, blast intro: reachable_next act_Next)

lemmas tla_defs = RestartProposer_def Vote_def BecomeLeader_def UpdateTerm_def TruncateWal_def NewEntry_def AppendEntry_def
  CommitEntries_def QuorumCommitLsn_def PropStartLsn_def truncate_acc_def FindHighestCommonPoint_def common_idx_def
  MaxVoteAcc_def vote_term_lsn_def TermLsnGE_def LastLogTerm_def AcceptorTermHistory_def FlushLsn_def
  FormsQuorum_def FormsMinQuorum_def upd_prop_def upd_acc_def

definition two_terms :: "(nat, nat) tla_action list" where
  "two_terms =
     [DoVote 0 0, DoVote 0 1, DoLeader 0 0, DoTruncate 0 0, DoTruncate 0 1, DoEntry 0, DoAppend 0 0, DoAppend 0 1, DoCommit 0 {0, 1},
      DoRestart 1 {1, 2}, DoVote 1 1, DoVote 1 2, DoLeader 1 1, DoTruncate 1 1, DoTruncate 1 2, DoEntry 1, DoAppend 1 1,
      DoAppend 1 2, DoAppend 1 2, DoCommit 1 {1, 2}]"

lemma small_halves: "Suc (Suc (Suc 0)) div Suc (Suc 0) = Suc 0" "Suc (Suc (Suc (Suc (Suc 0)))) div Suc (Suc 0) = Suc (Suc 0)"
  by code_simp+

lemmas tla_eval = tla_defs new_prop_def Init_def InitAcc_def small_halves ran_map_upd Let_def eval_nat_numeral
  atLeastLessThanSuc insert_commute

lemma two_terms_run: "\<exists>s. acts {0, 1, 2} two_terms Init = Some s \<and> committed s = {(1, 1), (2, 2)}"
  unfolding two_terms_def by (simp add: tla_eval)

text \<open>
  Five acceptors: 0, 1 and 2 commit a record of term 1 in term 3, while 3 holds it too and
  follows the leader of term 2.
\<close>

definition late_leader :: "(nat, nat) tla_action list" where
  "late_leader =
     [DoVote 0 0, DoVote 0 1, DoVote 0 2, DoLeader 0 0, DoUpdate 0 3, DoTruncate 0 0, DoTruncate 0 3, DoEntry 0, DoAppend 0 0,
      DoAppend 0 3, DoRestart 1 {0, 1, 2}, DoVote 1 1, DoVote 1 2, DoVote 1 4, DoLeader 1 1, DoUpdate 1 3,
      DoRestart 2 {1, 2, 4}, DoVote 2 0, DoVote 2 1, DoVote 2 2, DoLeader 2 0, DoTruncate 2 0, DoTruncate 2 1, DoTruncate 2 2,
      DoAppend 2 1, DoAppend 2 2, DoCommit 2 {0, 1, 2}]"

lemma late_leader_run:
  "\<exists>s. acts {0, 1, 2, 3, 4} late_leader Init = Some s \<and> (1, 1) \<in> committed s
     \<and> p_phase (prop_state s 1) = Leader \<and> p_term (prop_state s 1) = 2 \<and> p_history (prop_state s 1) = [(0, 1), (2, 1)]
     \<and> acc_state s 3 = \<lparr>a_term = 2, a_history = [(0, 1), (1, 1)], a_wal = [1]\<rparr>"
  unfolding late_leader_def by (simp add: tla_eval)

lemma two_terms_reachable:
  obtains s :: "(nat, nat) tla" where "reachable {0, 1, 2} s" and "committed s = {(1, 1), (2, 2)}"
  using two_terms_run acts_reachable [OF reachable_init] by blast

section \<open>Safety\<close>

text \<open>An entry that a commit covers is the entry of every log that passes through the commit.\<close>

lemma committed_entry:
  assumes "sys_inv A g s" and "(t, l) \<in> committed s"
  obtains ct c q th where "(ct, c, q) \<in> g_commits g" and "commit_inv A g (acc_state s) (ct, c, q)" and "g_hist g ct = Some th"
    and "t = entry_term th l" and "1 \<le> l" and "l < c"
  using assms unfolding sys_inv_def committed_by_def by blast

lemma commits_agree:
  assumes "hist_tree (g_hist g)" and "commit_inv A g accs (t, c, q)" and "g_hist g t = Some th" and "l < c"
      and "g_hist g t' = Some th'" and "t \<le> t'"
  shows "entry_term th' l = entry_term th l"
proof -
  have "passes th' t c" using assms(2,5,6) by (auto simp: commit_inv_def)
  moreover have "hist_ok (g_hist g) th'" using assms(1,5) unfolding hist_tree_def by blast
  ultimately show ?thesis using passes_entries [OF assms(1) _ _ assms(3,4)] by blast
qed

text \<open>
  C2: In every reachable state of the protocol, no two proposers lead in the same term, and
  no term has been elected more than once.
\<close>

theorem election_safety:
  assumes "finite A" and "reachable A s"
  shows "ElectionSafety s \<and> ElectionSafetyFull s"
proof -
  obtain g where "sys_inv A g s" using reachable_inv [OF assms] .
  then show ?thesis
    by (auto simp: sys_inv_def props_inv_def elected_inv_def ElectionSafety_def ElectionSafetyFull_def)
qed

theorem election_safety_witness:
  "\<exists>s :: (nat, nat) tla. reachable {0, 1, 2 :: nat} s \<and> committed s = {(1, 1), (2, 2)} \<and> ElectionSafety s \<and> ElectionSafetyFull s"
  using two_terms_reachable election_safety [of "{0, 1, 2}"] by (metis finite.emptyI finite.insertI)

text \<open>
  C1: The main invariant of the protocol: two entries committed at the same position, in
  whatever terms, by whatever leaders, are the same entry.
\<close>

theorem log_safety:
  assumes "finite A" and "reachable A s"
  shows "LogSafety s"
proof -
  obtain g where inv: "sys_inv A g s" using reachable_inv [OF assms] .
  then have H: "hist_tree (g_hist g)" by (simp add: sys_inv_def)
  have "t = t'" if e: "(t, l) \<in> committed s" "(t', l) \<in> committed s" for t t' l
  proof -
    obtain ct c q th where c: "commit_inv A g (acc_state s) (ct, c, q)" "g_hist g ct = Some th" "t = entry_term th l" "l < c"
      using committed_entry [OF inv e(1)] by metis
    obtain ct' c' q' th' where c': "commit_inv A g (acc_state s) (ct', c', q')" "g_hist g ct' = Some th'"
        "t' = entry_term th' l" "l < c'"
      using committed_entry [OF inv e(2)] by metis
    show ?thesis
      using commits_agree [OF H c(1,2,4) c'(2)] commits_agree [OF H c'(1,2,4) c(2)] c(3) c'(3)
      by (cases "ct \<le> ct'") auto
  qed
  then show ?thesis by (auto simp: LogSafety_def)
qed

theorem log_safety_witness:
  "\<exists>s :: (nat, nat) tla. reachable {0, 1, 2 :: nat} s \<and> committed s = {(1, 1), (2, 2)} \<and> LogSafety s"
  using two_terms_reachable log_safety [of "{0, 1, 2}"] by (metis finite.emptyI finite.insertI)

text \<open>
  C3: A committed entry is never lost: in every later state a majority of the acceptors has
  it in the log at its position.
\<close>

theorem committed_on_quorum:
  assumes "finite A" and "reachable A s" and "(t, l) \<in> committed s"
  shows "FormsQuorum {a \<in> A. 1 \<le> l \<and> l \<le> length (a_wal (acc_state s a)) \<and> a_wal (acc_state s a) ! (l - 1) = t} A"
proof -
  obtain g where inv: "sys_inv A g s" using reachable_inv [OF assms(1,2)] .
  then have H: "hist_tree (g_hist g)" by (simp add: sys_inv_def)
  obtain ct c q th where c: "commit_inv A g (acc_state s) (ct, c, q)" "g_hist g ct = Some th" "t = entry_term th l"
      "1 \<le> l" "l < c"
    using committed_entry [OF inv assms(3)] by metis
  have "l \<le> length (a_wal (acc_state s a)) \<and> a_wal (acc_state s a) ! (l - 1) = t" if "a \<in> q" for a
  proof -
    have acc: "acc_inv (g_hist g) (acc_state s a)" using inv unfolding sys_inv_def by blast
    have p: "passes (a_history (acc_state s a)) ct c" "c \<le> FlushLsn (acc_state s a)"
      using c(1) that by (simp_all add: commit_inv_def)
    then have "l \<le> length (a_wal (acc_state s a))" using c(5) by (simp add: FlushLsn_def)
    moreover have "entry_term (a_history (acc_state s a)) l = t"
      using passes_entries [OF H _ p(1) c(2,5)] acc c(3) by (simp add: acc_inv_def)
    ultimately show ?thesis
      using log_of_nth [of "l - 1" "length (a_wal (acc_state s a))" "a_history (acc_state s a)"] acc c(4)
      by (simp add: acc_inv_def)
  qed
  then have "q \<inter> A \<subseteq> {a \<in> A. 1 \<le> l \<and> l \<le> length (a_wal (acc_state s a)) \<and> a_wal (acc_state s a) ! (l - 1) = t} \<inter> A"
    using c(4) by auto
  then have "card (q \<inter> A) \<le> card ({a \<in> A. 1 \<le> l \<and> l \<le> length (a_wal (acc_state s a)) \<and> a_wal (acc_state s a) ! (l - 1) = t} \<inter> A)"
    using assms(1) by (intro card_mono) auto
  then show ?thesis using c(1) by (simp add: commit_inv_def FormsQuorum_def)
qed

theorem committed_on_quorum_witness:
  "\<exists>s :: (nat, nat) tla. reachable {0, 1, 2 :: nat} s \<and> (2, 2) \<in> committed s
     \<and> FormsQuorum {a \<in> {0, 1, 2}. 1 \<le> (2 :: nat) \<and> 2 \<le> length (a_wal (acc_state s a)) \<and> a_wal (acc_state s a) ! (2 - 1) = 2} {0, 1, 2 :: nat}"
proof -
  obtain s :: "(nat, nat) tla" where s: "reachable {0, 1, 2 :: nat} s" "committed s = {(1, 1), (2, 2)}"
    using two_terms_reachable .
  then show ?thesis using committed_on_quorum [OF _ s(1), of 2 2] by (intro exI [of _ s]) simp
qed

text \<open>C35: The log of every acceptor is ordered by term in every reachable state.\<close>

theorem log_is_monotonic:
  assumes "finite A" and "reachable A s"
  shows "LogIsMonotonic A s"
proof -
  obtain g where inv: "sys_inv A g s" using reachable_inv [OF assms] .
  have "sorted (a_wal (acc_state s a))" for a
  proof -
    have "hist_tree (g_hist g)" "acc_inv (g_hist g) (acc_state s a)" using inv unfolding sys_inv_def by blast+
    then show ?thesis using sorted_log_of by (metis acc_inv_def)
  qed
  then show ?thesis by (simp add: LogIsMonotonic_def)
qed

theorem log_is_monotonic_witness:
  "\<exists>s :: (nat, nat) tla. reachable {0, 1, 2 :: nat} s \<and> committed s = {(1, 1), (2, 2)} \<and> LogIsMonotonic {0, 1, 2} s"
  using two_terms_reachable log_is_monotonic [of "{0, 1, 2}"] by (metis finite.emptyI finite.insertI)

lemma prop_type_ok_new [simp]: "prop_type_ok A (new_prop t)"
  by (simp add: prop_type_ok_def new_prop_def)

lemma prop_type_ok_upd [simp]:
  "a \<in> A \<Longrightarrow> prop_type_ok A P \<Longrightarrow> prop_type_ok A (P\<lparr>p_votes := (p_votes P)(a \<mapsto> v)\<rparr>)"
  "a \<in> A \<Longrightarrow> prop_type_ok A P \<Longrightarrow> prop_type_ok A (P\<lparr>p_next := (p_next P)(a \<mapsto> n)\<rparr>)"
  "prop_type_ok A P \<Longrightarrow> prop_type_ok A (P\<lparr>p_wal := w\<rparr>)"
  "prop_type_ok A P \<Longrightarrow> prop_type_ok A (P\<lparr>p_phase := Leader, p_history := h, p_wal := w\<rparr>)"
  by (auto simp: prop_type_ok_def)

lemmas type_defs = RestartProposer_def Vote_def BecomeLeader_def UpdateTerm_def TruncateWal_def NewEntry_def AppendEntry_def
  CommitEntries_def

text \<open>
  C37: The votes a proposer holds and the positions it sends from are those of acceptors of the
  configuration, and a proposer that is not elected has no history.
\<close>

theorem type_ok:
  assumes "reachable A s"
  shows "TypeOk A s"
  using assms
proof (induction rule: reachable.induct)
  case reachable_init
  show ?case by (simp add: TypeOk_def Init_def)
next
  case (reachable_next s s')
  from reachable_next(2,3) show ?case
    by (cases rule: Next.cases)
      (auto simp: type_defs TypeOk_def Let_def split: if_splits option.splits)
qed

theorem type_ok_witness:
  "\<exists>s :: (nat, nat) tla. reachable {0, 1, 2 :: nat} s \<and> committed s = {(1, 1), (2, 2)} \<and> TypeOk {0, 1, 2} s"
  using two_terms_reachable type_ok [of "{0, 1, 2}"] by metis


end
