(* ===== verification/Wal_Bytes.thy ===== *)
theory Wal_Bytes
  imports Wal_Positions
begin

text \<open>
  The bytes of the WAL in the segment files. Writing puts the data at its position and, on a
  disk without faults, leaves every other byte alone; flushing changes no byte.
\<close>

section \<open>Named files\<close>

text \<open>The content of each name, and directories in which names denote different files.\<close>

definition file_data :: "fs \<Rightarrow> string \<Rightarrow> bytes option" where
  "file_data s n = map_option (\<lambda>i. f_data (fs_files s ! i)) (map_of (fs_dir s) n)"

definition dir_ok :: "fs \<Rightarrow> bool" where
  "dir_ok s \<longleftrightarrow>
     (\<forall>n i. map_of (fs_dir s) n = Some i \<longrightarrow> i < length (fs_files s))
     \<and> (\<forall>m n i. map_of (fs_dir s) m = Some i \<longrightarrow> map_of (fs_dir s) n = Some i \<longrightarrow> m = n)"

lemma file_data_upd [simp]:
  "file_data (s\<lparr>fs_faults := fl\<rparr>) = file_data s" "dir_ok (s\<lparr>fs_faults := fl\<rparr>) = dir_ok s"
  "file_data (s\<lparr>fs_pending := p\<rparr>) = file_data s" "dir_ok (s\<lparr>fs_pending := p\<rparr>) = dir_ok s"
  by (simp_all add: file_data_def [abs_def] dir_ok_def)

lemma file_data_None: "file_data s n = None \<longleftrightarrow> map_of (fs_dir s) n = None"
  by (simp add: file_data_def)

lemma upd_file_data:
  assumes "dir_ok s" and "map_of (fs_dir s) n = Some i"
  shows "dir_ok (upd_file i g s)" and "file_data (upd_file i g s) = (file_data s)(n \<mapsto> f_data (g (fs_files s ! i)))"
proof -
  show "dir_ok (upd_file i g s)" using assms(1) by (simp add: dir_ok_def)
  show "file_data (upd_file i g s) = (file_data s)(n \<mapsto> f_data (g (fs_files s ! i)))"
  proof
    fix m
    show "file_data (upd_file i g s) m = ((file_data s)(n \<mapsto> f_data (g (fs_files s ! i)))) m"
      using assms unfolding dir_ok_def file_data_def
      by (cases "map_of (fs_dir s) m") (auto simp: nth_list_update)
  qed
qed

lemma rename_data:
  assumes "dir_ok s" and "map_of (fs_dir s) a = Some i" and "a \<noteq> b"
  shows "dir_ok (set_dir (AList.update b i (AList.delete a (fs_dir s))) s)"
    and "file_data (set_dir (AList.update b i (AList.delete a (fs_dir s))) s) = (file_data s)(a := None, b := file_data s a)"
proof -
  have dir: "map_of (AList.update b i (AList.delete a (fs_dir s))) = (map_of (fs_dir s))(a := None, b \<mapsto> i)"
    by (simp add: update_conv' delete_conv')
  show "dir_ok (set_dir (AList.update b i (AList.delete a (fs_dir s))) s)"
    using assms unfolding dir_ok_def by (auto simp: dir split: if_splits) 
  show "file_data (set_dir (AList.update b i (AList.delete a (fs_dir s))) s) = (file_data s)(a := None, b := file_data s a)"
    using assms by (auto simp: file_data_def dir fun_eq_iff)
qed

lemma new_file_data:
  assumes "dir_ok s" and "map_of (fs_dir s) n = None"
  defines "t \<equiv> set_dir (AList.update n (length (fs_files s)) (fs_dir s))
     (s\<lparr>fs_files := fs_files s @ [\<lparr>f_data = [], f_dirty = [], f_resized = True\<rparr>]\<rparr>)"
  shows "dir_ok t" and "map_of (fs_dir t) n = Some (length (fs_files s))" and "file_data t = (file_data s)(n \<mapsto> [])"
proof -
  have dir: "map_of (fs_dir t) = (map_of (fs_dir s))(n \<mapsto> length (fs_files s))" by (simp add: t_def update_conv')
  have files: "fs_files t = fs_files s @ [\<lparr>f_data = [], f_dirty = [], f_resized = True\<rparr>]" by (simp add: t_def)
  have old: "i < length (fs_files s)" if "map_of (fs_dir s) m = Some i" for m i
    using assms(1) that by (auto simp: dir_ok_def)
  show "dir_ok t" using assms(1) old unfolding dir_ok_def dir files by (fastforce split: if_splits)
  show "map_of (fs_dir t) n = Some (length (fs_files s))" by (simp add: dir)
  have "file_data t m = ((file_data s)(n \<mapsto> [])) m" for m
    using old by (cases "map_of (fs_dir s) m") (auto simp: file_data_def dir files nth_append)
  then show "file_data t = (file_data s)(n \<mapsto> [])" by blast
qed

lemma create_data:
  assumes "dir_ok s"
  shows "wp (file_create n)
     (\<lambda>i t. dir_ok t \<and> map_of (fs_dir t) n = Some i \<and> file_data t = (file_data s)(n \<mapsto> []))
     (\<lambda>_ t. dir_ok t) s"
proof (rule wp_file_create)
  fix fl i assume i: "map_of (fs_dir s) n = Some i"
  show "dir_ok (upd_file i (resize 0) (s\<lparr>fs_faults := fl\<rparr>)) \<and> map_of (fs_dir (upd_file i (resize 0) (s\<lparr>fs_faults := fl\<rparr>))) n = Some i
     \<and> file_data (upd_file i (resize 0) (s\<lparr>fs_faults := fl\<rparr>)) = (file_data s)(n \<mapsto> [])"
    using upd_file_data [OF assms i, of "resize 0"] i by simp
next
  fix fl assume n: "map_of (fs_dir s) n = None"
  have "s\<lparr>fs_faults := fl, fs_files := xs\<rparr> = (s\<lparr>fs_files := xs\<rparr>)\<lparr>fs_faults := fl\<rparr>" for xs by simp
  then show "dir_ok (set_dir (AList.update n (length (fs_files s)) (fs_dir s))
                 (s\<lparr>fs_faults := fl, fs_files := fs_files s @ [\<lparr>f_data = [], f_dirty = [], f_resized = True\<rparr>]\<rparr>))
     \<and> map_of (fs_dir (set_dir (AList.update n (length (fs_files s)) (fs_dir s))
                 (s\<lparr>fs_faults := fl, fs_files := fs_files s @ [\<lparr>f_data = [], f_dirty = [], f_resized = True\<rparr>]\<rparr>))) n = Some (length (fs_files s))
     \<and> file_data (set_dir (AList.update n (length (fs_files s)) (fs_dir s))
                 (s\<lparr>fs_faults := fl, fs_files := fs_files s @ [\<lparr>f_data = [], f_dirty = [], f_resized = True\<rparr>]\<rparr>)) = (file_data s)(n \<mapsto> [])"
    using new_file_data [OF assms n] by (simp only: fs_faults_out file_data_upd) simp
qed (use assms in simp)

text \<open>Writing, resizing and syncing an open file, under the name it has.\<close>

lemma write_data:
  assumes "dir_ok s" and "map_of (fs_dir s) n = Some i" and "file_data s n = Some old"
  shows "wp (file_write i pos data)
     (\<lambda>_ t. dir_ok t \<and> fs_dir t = fs_dir s \<and> file_data t = (file_data s)(n \<mapsto> splice pos data old)) (\<lambda>_ t. dir_ok t) s"
  by (rule wp_file_write) (use upd_file_data [OF assms(1,2)] assms(2,3) in \<open>simp_all add: file_data_def\<close>)

lemma set_len_data:
  assumes "dir_ok s" and "map_of (fs_dir s) n = Some i" and "file_data s n = Some old"
  shows "wp (file_set_len i k)
     (\<lambda>_ t. dir_ok t \<and> fs_dir t = fs_dir s
        \<and> file_data t = (file_data s)(n \<mapsto> take k old @ replicate (k - length old) 0)) (\<lambda>_ t. dir_ok t) s"
  by (rule wp_file_set_len)
    (use upd_file_data [OF assms(1,2)] assms in \<open>simp_all add: file_data_def resize_def\<close>)

lemma sync_data:
  assumes "dir_ok s" and "map_of (fs_dir s) n = Some i"
  shows "wp (file_sync i) (\<lambda>_ t. dir_ok t \<and> fs_dir t = fs_dir s \<and> file_data t = file_data s) (\<lambda>_ t. dir_ok t) s"
  by (rule wp_file_sync)
    (use upd_file_data [OF assms, of clean] assms in \<open>auto simp: file_data_def fun_eq_iff\<close>)

lemma rename_file_data:
  assumes "dir_ok s" and "map_of (fs_dir s) a = Some i" and "a \<noteq> b"
  shows "wp (file_rename a b)
     (\<lambda>_ t. dir_ok t \<and> map_of (fs_dir t) b = Some i \<and> file_data t = (file_data s)(a := None, b := file_data s a))
     (\<lambda>_ t. dir_ok t) s"
  by (rule wp_file_rename) (use rename_data [OF assms] assms in \<open>simp_all add: update_conv'\<close>)

lemma remove_data:
  assumes "dir_ok s"
  shows "wp (file_remove a) (\<lambda>_ t. dir_ok t) (\<lambda>_ t. dir_ok t) s"
  by (rule wp_file_remove) (use assms in \<open>auto simp: dir_ok_def delete_conv' split: if_splits\<close>)

lemma durable_rename_data:
  assumes "dir_ok s" and "map_of (fs_dir s) a = Some i" and "a \<noteq> b"
  shows "wp (durable_rename a b do_fsync)
     (\<lambda>_ t. dir_ok t \<and> map_of (fs_dir t) b = Some i \<and> file_data t = (file_data s)(a := None, b := file_data s a))
     (\<lambda>_ t. dir_ok t) s"
proof -
  let ?Q = "\<lambda>_ t. dir_ok t \<and> map_of (fs_dir t) b = Some i \<and> file_data t = (file_data s)(a := None, b := file_data s a)"
  have rename: "wp (file_rename a b) (\<lambda>_. wp (whenp do_fsync dir_sync) ?Q (\<lambda>_ t. dir_ok t)) (\<lambda>_ t. dir_ok t) t"
    if "dir_ok t" "map_of (fs_dir t) a = Some i" "file_data t = file_data s" for t
    by (rule wp_cons [OF rename_file_data [OF that(1,2) assms(3)]])
      (use that(3) in \<open>auto simp: wp intro!: wp_dir_sync\<close>)
  have "wp (file_open a) (\<lambda>j. wp (file_sync j) (\<lambda>_. wp (file_rename a b)
      (\<lambda>_. wp (whenp do_fsync dir_sync) ?Q (\<lambda>_ t. dir_ok t)) (\<lambda>_ t. dir_ok t)) (\<lambda>_ t. dir_ok t)) (\<lambda>_ t. dir_ok t) s"
    by (rule wp_file_open)
      (use assms in \<open>auto intro!: wp_cons [OF sync_data [where n = a]] rename\<close>)
  then show ?thesis
    using rename [OF assms(1,2) refl]
    by (cases do_fsync) (simp_all add: durable_rename_def fsync_async_opt_def fsync_async_def wp)
qed

section \<open>Segments\<close>

abbreviation full_name :: "xlog_segno \<Rightarrow> string" where
  "full_name segno \<equiv> fst (wal_file_paths segno WAL_SEGMENT_SIZE)"

abbreviation part_name :: "xlog_segno \<Rightarrow> string" where
  "part_name segno \<equiv> snd (wal_file_paths segno WAL_SEGMENT_SIZE)"

text \<open>Segments of positions: below the end of the name space.\<close>

abbreviation segno_ok :: "xlog_segno \<Rightarrow> bool" where
  "segno_ok segno \<equiv> unat segno < 2 ^ 40"

lemma segment_size: "unat WAL_SEGMENT_SIZE = 16777216" "0 < WAL_SEGMENT_SIZE" "unat (XLogSegmentsPerXLogId WAL_SEGMENT_SIZE) = 256"
  by (simp add: WAL_SEGMENT_SIZE_def, code_simp, code_simp)

lemma segment_names:
  assumes "segno_ok a" and "segno_ok b"
  shows "full_name a = full_name b \<longleftrightarrow> a = b" "part_name a = part_name b \<longleftrightarrow> a = b" "full_name a \<noteq> part_name b"
    "full_name a \<noteq> WAL_TMP" "part_name a \<noteq> WAL_TMP"
proof -
  have lim: "unat WAL_SEGMENT_SIZE \<le> 2 ^ 32" "unat x < 2 ^ 32 * unat (XLogSegmentsPerXLogId WAL_SEGMENT_SIZE)"
    if "segno_ok x" for x :: xlog_segno using that by (simp_all add: segment_size)
  note inj = XLogFileName_inj [OF segment_size(2) lim(1) [OF assms(1)] lim(2) [OF assms(1)] lim(2) [OF assms(2)], of PG_TLI]
  show "full_name a = full_name b \<longleftrightarrow> a = b" using inj [of "[]" "[]"] by (auto simp: wal_file_paths_def Let_def)
  show "part_name a = part_name b \<longleftrightarrow> a = b" using inj [of partial_suffix partial_suffix] by (auto simp: wal_file_paths_def Let_def)
  show "full_name a \<noteq> part_name b" using inj [of "[]" partial_suffix] by (auto simp: wal_file_paths_def Let_def partial_suffix_def)
  have "length (full_name a) = 24"
    using XLogFileName_is(1) [OF segment_size(2) lim(1) lim(2), OF assms(1) assms(1), of PG_TLI]
    by (simp add: IsXLogFileName_def XLOG_FNAME_LEN_def wal_file_paths_def Let_def)
  then show "full_name a \<noteq> WAL_TMP" "part_name a \<noteq> WAL_TMP"
    by (auto simp: WAL_TMP_def wal_file_paths_def Let_def partial_suffix_def)
qed

text \<open>A segment is read from its partial file, and from the complete one when there is none.\<close>

definition seg_data :: "(string \<Rightarrow> bytes option) \<Rightarrow> xlog_segno \<Rightarrow> bytes option" where
  "seg_data F segno = (case F (part_name segno) of Some d \<Rightarrow> Some d | None \<Rightarrow> F (full_name segno))"

lemma seg_data_eq: "F (part_name b) = G (part_name b) \<Longrightarrow> F (full_name b) = G (full_name b) \<Longrightarrow> seg_data F b = seg_data G b"
  by (simp add: seg_data_def split: option.split)

definition wal_byte :: "fs \<Rightarrow> nat \<Rightarrow> u8 option" where
  "wal_byte s l =
     (case seg_data (file_data s) (of_nat (l div 16777216)) of
        None \<Rightarrow> None
      | Some d \<Rightarrow> if l mod 16777216 < length d then Some (d ! (l mod 16777216)) else None)"

text \<open>
  The open file of the storage is the partial segment of the write position, with the file
  position there.
\<close>

definition wal_files_ok :: "phys_storage \<Rightarrow> bool" where
  "wal_files_ok w \<longleftrightarrow>
     dir_ok (pst_fs w)
     \<and> (case pst_file w of
          None \<Rightarrow> True
        | Some (i, pos) \<Rightarrow>
            map_of (fs_dir (pst_fs w)) (part_name (segment_number (pst_write_lsn w) WAL_SEGMENT_SIZE)) = Some i
            \<and> pos = unat (segment_offset (pst_write_lsn w) WAL_SEGMENT_SIZE))"

abbreviation data_of :: "phys_storage \<Rightarrow> string \<Rightarrow> bytes option" where
  "data_of w \<equiv> file_data (pst_fs w)"

text \<open>What opening a segment for writing leaves: the file as it was, or a new one of zeros.\<close>

definition opened_part :: "xlog_segno \<Rightarrow> phys_storage \<Rightarrow> inode \<Rightarrow> phys_storage \<Rightarrow> bool" where
  "opened_part segno w i t \<longleftrightarrow>
     dir_ok (pst_fs t) \<and> map_of (fs_dir (pst_fs t)) (part_name segno) = Some i
     \<and> (data_of t = data_of w
        \<or> data_of t = (data_of w)(WAL_TMP := None, part_name segno \<mapsto> replicate 16777216 0)
          \<and> (fs_faults (pst_fs w) = [] \<longrightarrow> seg_data (data_of w) segno = None))"

lemma wp_file_open_calm:
  assumes "\<And>fl i. map_of (fs_dir s) name = Some i \<Longrightarrow> Q i (s\<lparr>fs_faults := fl\<rparr>)"
      and "\<And>fl e. fs_faults s = [] \<longrightarrow> fl = [] \<and> map_of (fs_dir s) name = None \<Longrightarrow> E e (s\<lparr>fs_faults := fl\<rparr>)"
  shows "wp (file_open name) Q E s"
proof (cases "fs_faults s")
  case Nil
  have s: "s\<lparr>fs_faults := []\<rparr> = s" using Nil by simp
  show ?thesis
    using assms(1) [of _ "[]", unfolded s] assms(2) [of "[]" NotFound, unfolded s] Nil
    by (auto simp: file_open_def io_try_def draw_def wp_def prog_defs split: option.splits)
next
  case (Cons f fl)
  then show ?thesis using assms by (intro wp_file_open) auto
qed

lemma create_segment_data:
  assumes "dir_ok (pst_fs w)" and "segno_ok segno" and "pst_wal_seg_size w = WAL_SEGMENT_SIZE"
  shows "wp (create_segment (part_name segno))
     (\<lambda>i t. dir_ok (pst_fs t) \<and> map_of (fs_dir (pst_fs t)) (part_name segno) = Some i
        \<and> data_of t = (data_of w)(WAL_TMP := None, part_name segno \<mapsto> replicate 16777216 0)
        \<and> pst_file t = pst_file w)
     (\<lambda>_ t. dir_ok (pst_fs t) \<and> pst_file t = pst_file w) w"
proof -
  note names = segment_names [OF assms(2,2)]
  show ?thesis
    unfolding create_segment_def wp in_fs_def
    apply (rule wp_cons [OF create_data [OF assms(1)]])
     apply (elim conjE)
     apply (simp add: assms(3))
     apply (rule wp_cons [OF set_len_data [where n = WAL_TMP]])
         apply (simp_all add: segment_size)
    apply (rule wp_cons [OF durable_rename_data])
        apply (use names in \<open>auto intro!: wp_cons [OF remove_data] simp: ignore_not_found_def wp\<close>)
    done
qed

lemma open_or_create_data:
  assumes "dir_ok (pst_fs w)" and "segno_ok segno" and "pst_wal_seg_size w = WAL_SEGMENT_SIZE"
  shows "wp (open_or_create segno)
     (\<lambda>r t. dir_ok (pst_fs t) \<and> pst_file t = pst_file w \<and> (snd r \<longrightarrow> opened_part segno w (fst r) t))
     (\<lambda>_ t. dir_ok (pst_fs t) \<and> pst_file t = pst_file w) w"
    (is "wp _ ?Q ?E w")
proof -
  let ?w = "\<lambda>fl. w\<lparr>pst_fs := (pst_fs w)\<lparr>fs_faults := fl\<rparr>\<rparr>"
  have new: "wp (create_segment (part_name segno)) (\<lambda>file. ?Q (file, True)) ?E (?w fl)"
    if "fs_faults (pst_fs w) = [] \<longrightarrow> map_of (fs_dir (pst_fs w)) (full_name segno) = None
      \<and> map_of (fs_dir (pst_fs w)) (part_name segno) = None" for fl
    by (rule wp_cons [OF create_segment_data [of "?w fl"]])
      (use assms that in \<open>auto simp: opened_part_def seg_data_def file_data_def\<close>)
  have part: "wp (file_open (part_name segno))
      (\<lambda>x t. ?Q (x, True) (w\<lparr>pst_fs := t\<rparr>))
      (\<lambda>_ t. wp (create_segment (part_name segno)) (\<lambda>file. ?Q (file, True)) ?E (w\<lparr>pst_fs := t\<rparr>)) ((pst_fs w)\<lparr>fs_faults := fl\<rparr>)"
    if "fs_faults (pst_fs w) = [] \<longrightarrow> fl = [] \<and> map_of (fs_dir (pst_fs w)) (full_name segno) = None" for fl
    by (rule wp_file_open_calm) (use assms(1) that in \<open>auto simp: opened_part_def intro!: new [simplified]\<close>)
  show ?thesis
    unfolding open_or_create_def wp in_fs_def assms(3)
    by (rule wp_file_open_calm) (use assms(1) part in \<open>auto simp: wp\<close>)
qed

lemma opened_part_old:
  assumes "opened_part segno w i t"
  obtains old where "data_of t (part_name segno) = Some old"
    "fs_faults (pst_fs w) = [] \<longrightarrow> seg_data (data_of w) segno = None \<or> seg_data (data_of w) segno = Some old"
proof -
  have "data_of t (part_name segno) \<noteq> None" using assms by (auto simp: opened_part_def file_data_def)
  then obtain old where "data_of t (part_name segno) = Some old" by blast
  then show ?thesis using that assms by (auto simp: opened_part_def seg_data_def)
qed

lemma opened_part_others:
  assumes "opened_part segno w i t" and "segno_ok segno" and "segno_ok b" and "b \<noteq> segno"
  shows "seg_data (data_of t) b = seg_data (data_of w) b"
  using assms(1,4) segment_names [OF assms(3,2)] segment_names [OF assms(2,3)]
  by (auto simp: opened_part_def intro!: seg_data_eq)

text \<open>The segment after a piece of WAL is written into it at an offset.\<close>

definition piece_written :: "xlog_segno \<Rightarrow> nat \<Rightarrow> bytes \<Rightarrow> phys_storage \<Rightarrow> bool \<Rightarrow> phys_storage \<Rightarrow> bool" where
  "piece_written segno off buf w flushed t \<longleftrightarrow>
     dir_ok (pst_fs t)
     \<and> (\<exists>old. seg_data (data_of t) segno = Some (splice off buf old)
          \<and> (fs_faults (pst_fs w) = [] \<longrightarrow>
               seg_data (data_of w) segno = None \<or> seg_data (data_of w) segno = Some old))
     \<and> (\<forall>b. segno_ok b \<longrightarrow> b \<noteq> segno \<longrightarrow> seg_data (data_of t) b = seg_data (data_of w) b)
     \<and> flushed = (off + length buf = 16777216)
     \<and> (if flushed then pst_file t = None
        else \<exists>i. pst_file t = Some (i, off + length buf) \<and> map_of (fs_dir (pst_fs t)) (part_name segno) = Some i)"

text \<open>The end of write_in_segment: the file is open as the partial segment.\<close>

lemma write_open_part:
  assumes "opened_part segno w i v" and "segno_ok segno" and "pst_wal_seg_size v = WAL_SEGMENT_SIZE"
      and "pst_file v = None"
  shows "wp (andthen (in_fs (file_write i off buf)) (\<lambda>_.
     andthen (in_fs (file_flush i)) (\<lambda>_.
     andthen (reads pst_wal_seg_size) (\<lambda>sz.
     if off + length buf = unat sz then
       andthen (fdatasync_file i) (\<lambda>_.
       andthen (in_fs (file_rename (snd (wal_file_paths segno sz)) (fst (wal_file_paths segno sz)))) (\<lambda>_.
       ret True))
     else
       andthen (modify (\<lambda>w. w\<lparr>pst_file := Some (i, off + length buf)\<rparr>)) (\<lambda>_.
       ret False)))))
     (piece_written segno off buf w) (\<lambda>_ t. dir_ok (pst_fs t) \<and> pst_file t = None) v"
proof -
  obtain old where old: "data_of v (part_name segno) = Some old"
    "fs_faults (pst_fs w) = [] \<longrightarrow> seg_data (data_of w) segno = None \<or> seg_data (data_of w) segno = Some old"
    using opened_part_old [OF assms(1)] .
  have v: "dir_ok (pst_fs v)" "map_of (fs_dir (pst_fs v)) (part_name segno) = Some i"
    using assms(1) by (simp_all add: opened_part_def)
  note names = segment_names [OF assms(2,2)] and others = opened_part_others [OF assms(1,2)]
  let ?E = "\<lambda>_ t. dir_ok t"
  have written: "dir_ok t \<and> map_of (fs_dir t) (part_name segno) = Some i
      \<and> file_data t = (data_of v)(part_name segno \<mapsto> splice off buf old)"
    if "dir_ok t" "fs_dir t = fs_dir (pst_fs v)" "file_data t = (data_of v)(part_name segno \<mapsto> splice off buf old)" for t
    using that v(2) by simp
  have frame: "seg_data ((data_of v)(part_name segno := x, full_name segno := y)) b = seg_data (data_of w) b"
    "seg_data ((data_of v)(part_name segno := x)) b = seg_data (data_of w) b"
    if "segno_ok b" "b \<noteq> segno" for b x y
    unfolding others [OF that, symmetric]
    using that(2) segment_names [OF that(1) assms(2)] segment_names [OF assms(2) that(1)]
    by (auto intro!: seg_data_eq)
  have renamed: "piece_written segno off buf w True (v\<lparr>pst_fs := t\<rparr>)"
    if "dir_ok t" "file_data t = (data_of v)(part_name segno := None, full_name segno \<mapsto> splice off buf old)"
      "off + length buf = 16777216" for t
    using that old(2) frame names assms(4) by (auto simp: piece_written_def seg_data_def)
  have kept: "piece_written segno off buf w False (v\<lparr>pst_fs := t, pst_file := Some (i, off + length buf)\<rparr>)"
    if "dir_ok t" "map_of (fs_dir t) (part_name segno) = Some i"
      "file_data t = (data_of v)(part_name segno \<mapsto> splice off buf old)" "off + length buf \<noteq> 16777216" for t
    using that old(2) frame by (auto simp: piece_written_def seg_data_def)
  have rename: "wp (file_rename (part_name segno) (full_name segno))
      (\<lambda>_ u. piece_written segno off buf w True (v\<lparr>pst_fs := u\<rparr>)) ?E t"
    if "dir_ok t" "map_of (fs_dir t) (part_name segno) = Some i"
      "file_data t = (data_of v)(part_name segno \<mapsto> splice off buf old)" "off + length buf = 16777216" for t
    by (rule wp_cons [OF rename_file_data [OF that(1,2)]])
      (use names that(3,4) in \<open>auto intro!: renamed simp: fun_upd_twist\<close>)
  have sync: "wp (file_sync i) (\<lambda>_. wp (file_rename (part_name segno) (full_name segno))
      (\<lambda>_ u. piece_written segno off buf w True (v\<lparr>pst_fs := u\<rparr>)) ?E) ?E t"
    if "dir_ok t" "map_of (fs_dir t) (part_name segno) = Some i"
      "file_data t = (data_of v)(part_name segno \<mapsto> splice off buf old)" "off + length buf = 16777216" for t
    by (rule wp_cons [OF sync_data [OF that(1,2)]]) (use that in \<open>auto intro!: rename\<close>)
  show ?thesis
    unfolding wp in_fs_def fdatasync_file_def
    apply (rule wp_cons [OF write_data [OF v old(1)]])
     apply (elim conjE)
     apply (rule wp_file_flush)
    using assms(3,4) rename sync kept v(2)
    by (auto simp: segment_size)
qed

lemma take_file_run: "andthen take_file f w = f (pst_file w) (w\<lparr>pst_file := None\<rparr>)"
  by (simp add: take_file_def andthen_def reads_def modify_def ret_def)

text \<open>The file to write: the cached one or the partial segment, opened or created.\<close>

lemma write_in_segment_data:
  assumes "wal_files_ok w" and "pst_wal_seg_size w = WAL_SEGMENT_SIZE"
      and "segno = segment_number (pst_write_lsn w) WAL_SEGMENT_SIZE"
      and "off = unat (segment_offset (pst_write_lsn w) WAL_SEGMENT_SIZE)"
  shows "wp (write_in_segment segno off buf) (piece_written segno off buf w)
     (\<lambda>_ t. dir_ok (pst_fs t) \<and> pst_file t = None) w"
proof -
  have segno: "segno_ok segno"
    using assms(3) unsigned_less [of "pst_write_lsn w", where 'a = nat]
    by (simp add: unat_segment_number segment_size less_mult_imp_div_less)
  let ?w = "w\<lparr>pst_file := None\<rparr>" and ?E = "\<lambda>_ t. dir_ok (pst_fs t) \<and> pst_file t = None"
  define rest where "rest h = andthen (in_fs (file_write (fst h) (snd h) buf)) (\<lambda>_.
     andthen (in_fs (file_flush (fst h))) (\<lambda>_.
     andthen (reads pst_wal_seg_size) (\<lambda>sz.
     if off + length buf = unat sz then
       andthen (fdatasync_file (fst h)) (\<lambda>_.
       andthen (in_fs (file_rename (snd (wal_file_paths segno sz)) (fst (wal_file_paths segno sz)))) (\<lambda>_.
       ret True))
     else
       andthen (modify (\<lambda>w. w\<lparr>pst_file := Some (fst h, snd h + length buf)\<rparr>)) (\<lambda>_.
       ret False))))" for h :: "inode \<times> nat"
  have rest: "wp (rest (i, off)) (piece_written segno off buf w) ?E v"
    if "opened_part segno w i v" "sans_io v = sans_io ?w" "pst_file v = None" for i v
    unfolding rest_def fst_conv snd_conv
    by (rule write_open_part [OF that(1) segno _ that(3)]) (use sans_io_fields(2) [OF that(2)] assms(2) in simp)
  have run: "write_in_segment segno off buf w =
     andthen (case pst_file w of Some file \<Rightarrow> ret file
       | None \<Rightarrow>
           andthen (open_or_create segno) (\<lambda>opened.
           andthen (ensure (snd opened) WalPanic) (\<lambda>_.
           andthen (in_fs (file_seek (fst opened))) (\<lambda>_.
           ret (fst opened, off))))) rest ?w"
    unfolding write_in_segment_def take_file_run rest_def [abs_def] ..
  have "wp (andthen (case pst_file w of Some file \<Rightarrow> ret file
       | None \<Rightarrow>
           andthen (open_or_create segno) (\<lambda>opened.
           andthen (ensure (snd opened) WalPanic) (\<lambda>_.
           andthen (in_fs (file_seek (fst opened))) (\<lambda>_.
           ret (fst opened, off))))) rest) (piece_written segno off buf w) ?E ?w"
  proof (cases "pst_file w")
    case None
    have dir: "dir_ok (pst_fs ?w)" using assms(1) by (simp add: wal_files_ok_def)
    note open_it = wp_conj [OF open_or_create_data [OF dir segno] wp_io_only [OF io_only_segments(4)]]
    have seek: "wp (in_fs (file_seek i)) (\<lambda>_. wp (rest (i, off)) (piece_written segno off buf w) ?E) ?E v"
      if "opened_part segno ?w i v" "sans_io v = sans_io ?w" "pst_file v = None" "dir_ok (pst_fs v)" for i v
      unfolding in_fs_def wp_zoom
      by (rule wp_file_flush) (use that in \<open>auto intro!: rest simp: opened_part_def\<close>)
    have opened: "wp (ensure (snd r) WalPanic) (\<lambda>_. wp (in_fs (file_seek (fst r)))
        (\<lambda>_. wp (ret (fst r, off)) (\<lambda>h. wp (rest h) (piece_written segno off buf w) ?E) ?E) ?E) ?E v"
      if "(dir_ok (pst_fs v) \<and> pst_file v = pst_file ?w \<and> (snd r \<longrightarrow> opened_part segno ?w (fst r) v))
        \<and> sans_io v = sans_io ?w" for r v
      unfolding wp_ensure wp_ret using that seek [of "fst r" v] by simp
    show ?thesis
      unfolding None option.case wp_andthen
      by (rule wp_cons [OF open_it]) (use assms(2) in simp, erule opened, simp)
  next
    case (Some h)
    then have "opened_part segno w (fst h) ?w" "snd h = off"
      using assms by (auto simp: opened_part_def wal_files_ok_def split: prod.splits)
    moreover have "h = (fst h, snd h)" by simp
    ultimately show ?thesis using rest [of "fst h" ?w] unfolding Some option.case wp_andthen wp_ret by simp
  qed
  then show ?thesis by (simp add: wp_def run)
qed

section \<open>Disks without faults\<close>

text \<open>\<open>keeps P m\<close>: \<open>m\<close> leaves \<open>P\<close> true, also when it fails.\<close>

definition keeps :: "('s \<Rightarrow> bool) \<Rightarrow> ('s, 'e, 'a) prog \<Rightarrow> bool" where
  "keeps P m \<longleftrightarrow> (\<forall>s. P s \<longrightarrow> P (snd (m s)))"

named_theorems keeps
  \<comment> \<open>programs that keep a predicate\<close>

lemma keeps_const [keeps]: "keeps P (ret x)" "keeps P (throw e)" "keeps P (reads f)" "keeps P (ensure b e)" "keeps P (of_option e y)"
  by (simp_all add: keeps_def prog_defs split: option.split)

lemma keeps_wp: "keeps P m \<longleftrightarrow> (\<forall>s. P s \<longrightarrow> wp m (\<lambda>_. P) (\<lambda>_. P) s)"
  by (simp add: keeps_def wp_snd)

lemma keeps_andthen [keeps]: "keeps P m \<Longrightarrow> (\<And>x. keeps P (f x)) \<Longrightarrow> keeps P (andthen m f)"
  unfolding keeps_wp wp by (blast intro: wp_cons)

lemma keeps_attempt [keeps]: "keeps P m \<Longrightarrow> keeps P (attempt m)"
  unfolding keeps_wp wp by blast

lemma keeps_or_else [keeps]: "keeps P m \<Longrightarrow> (\<And>e. keeps P (h e)) \<Longrightarrow> keeps P (or_else m h)"
  unfolding keeps_wp wp by (blast intro: wp_cons)

lemma keeps_whenp [keeps]: "keeps P m \<Longrightarrow> keeps P (whenp b m)"
  by (simp add: whenp_def keeps_const)

lemma keeps_if [keeps]: "keeps P m \<Longrightarrow> keeps P n \<Longrightarrow> keeps P (if b then m else n)"
  by simp

lemma keeps_option [keeps]: "keeps P m \<Longrightarrow> (\<And>x. keeps P (f x)) \<Longrightarrow> keeps P (case x of None \<Rightarrow> m | Some x \<Rightarrow> f x)"
  by (cases x) simp_all

definition calm :: "fs \<Rightarrow> bool" where
  "calm s \<longleftrightarrow> fs_faults s = []"

lemma keeps_modify [keeps]: "(\<And>s. P s \<Longrightarrow> P (f s)) \<Longrightarrow> keeps P (modify f)"
  by (simp add: keeps_def modify_def)

lemma keeps_draw [keeps]: "keeps calm draw" "keeps calm m \<Longrightarrow> keeps calm (io_try m)"
proof -
  show draw: "keeps calm draw" by (simp add: keeps_def calm_def draw_def)
  show "keeps calm (io_try m)" if "keeps calm m" unfolding io_try_def by (intro keeps draw that)
qed

lemma calm_upd [simp]: "calm (upd_file i g s) = calm s" "calm (set_dir d s) = calm s" "calm (s\<lparr>fs_pending := p\<rparr>) = calm s"
  "calm (s\<lparr>fs_files := fi\<rparr>) = calm s"
  by (simp_all add: calm_def upd_file_def set_dir_def)

lemma keeps_calm [keeps]:
  "keeps calm (file_open n)" "keeps calm (file_write i pos data)" "keeps calm (file_flush i)"
  "keeps calm (file_seek i)" "keeps calm (file_set_len i k)" "keeps calm (file_sync i)" "keeps calm dir_sync"
  "keeps calm (file_rename a b)" "keeps calm (file_remove a)"
  unfolding file_open_def file_write_def file_flush_def file_seek_def file_set_len_def
    file_sync_def dir_sync_def file_rename_def file_remove_def
  by (intro keeps; simp)+

lemma keeps_create [keeps]: "keeps calm (file_create n)"
  unfolding file_create_def by (rule keeps_draw) (simp add: keeps_def Let_def split: option.split)

lemma keeps_in_fs [keeps]: "keeps calm m \<Longrightarrow> keeps (\<lambda>w. calm (pst_fs w)) (in_fs m)"
  unfolding keeps_wp in_fs_def wp by (auto intro: wp_cons)

lemma keeps_write_in_segment: "keeps (\<lambda>w. calm (pst_fs w)) (write_in_segment segno off buf)"
  unfolding write_in_segment_def take_file_def open_or_create_def create_segment_def durable_rename_def fsync_async_opt_def
    fsync_async_def ignore_not_found_def fdatasync_file_def
  by (intro keeps) simp_all


section \<open>Writing\<close>

lemma splice_new:
  assumes "pos \<le> k" and "k < pos + length new"
  shows "k < length (splice pos new old)" "splice pos new old ! k = new ! (k - pos)"
proof -
  show "k < length (splice pos new old)" using assms by (auto simp: splice_def)
  show "splice pos new old ! k = new ! (k - pos)"
    using assms by (auto simp: splice_def nth_append min_def)
qed

lemma splice_old:
  assumes "k < length old" and "\<not> (pos \<le> k \<and> k < pos + length new)"
  shows "k < length (splice pos new old)" "splice pos new old ! k = old ! k"
proof -
  show "k < length (splice pos new old)" using assms by (auto simp: splice_def)
  show "splice pos new old ! k = old ! k"
  proof (cases "k < pos")
    case True
    then show ?thesis using assms(1) by (simp add: splice_def nth_append)
  next
    case False
    then have "pos \<le> length old" "pos + length new \<le> k" "\<not> k - pos < length new" using assms by auto
    then show ?thesis using assms(1) by (simp add: splice_def nth_append min_def)
  qed
qed

text \<open>Positions and their places in segments.\<close>

lemma position_segment:
  "of_nat (unat l div 16777216) = segment_number l WAL_SEGMENT_SIZE" "unat l mod 16777216 = unat (segment_offset l WAL_SEGMENT_SIZE)"
  "p < 2 ^ 64 \<Longrightarrow> segno_ok (of_nat (p div 16777216))"
  "p < 2 ^ 64 \<Longrightarrow> q < 2 ^ 64 \<Longrightarrow> (of_nat (p div 16777216) :: xlog_segno) = of_nat (q div 16777216) \<longleftrightarrow> p div 16777216 = q div 16777216"
proof -
  have "unat (segment_number l WAL_SEGMENT_SIZE) = unat l div 16777216" by (simp add: unat_segment_number segment_size)
  then have "of_nat (unat l div 16777216) = (of_nat (unat (segment_number l WAL_SEGMENT_SIZE)) :: xlog_segno)" by simp
  then show "of_nat (unat l div 16777216) = segment_number l WAL_SEGMENT_SIZE" by simp
  show "unat l mod 16777216 = unat (segment_offset l WAL_SEGMENT_SIZE)"
    by (simp add: segment_offset_def unat_mod_distrib segment_size)
  have nat: "unat (of_nat (p div 16777216) :: xlog_segno) = p div 16777216" if "p < 2 ^ 64" for p
    using that by (simp add: unat_of_nat div_le_dividend order_le_less_trans [OF div_le_dividend])
  show "p < 2 ^ 64 \<Longrightarrow> segno_ok (of_nat (p div 16777216))" by (simp add: nat less_mult_imp_div_less)
  show "p < 2 ^ 64 \<Longrightarrow> q < 2 ^ 64 \<Longrightarrow> (of_nat (p div 16777216) :: xlog_segno) = of_nat (q div 16777216) \<longleftrightarrow> p div 16777216 = q div 16777216"
    by (metis nat)
qed

definition bytes_at :: "fs \<Rightarrow> nat \<Rightarrow> bytes \<Rightarrow> bool" where
  "bytes_at s l buf \<longleftrightarrow> (\<forall>k < length buf. wal_byte s (l + k) = Some (buf ! k))"

text \<open>
  Bytes outside a range stay: in the segments before it always, and in all when no operation
  of the disk fails.
\<close>

definition kept_outside :: "nat \<Rightarrow> nat \<Rightarrow> fs \<Rightarrow> fs \<Rightarrow> bool" where
  "kept_outside l n s t \<longleftrightarrow>
     (\<forall>p b. p < 2 ^ 64 \<and> wal_byte s p = Some b \<and> \<not> (l \<le> p \<and> p < l + n)
        \<and> (calm s \<or> p div 16777216 < l div 16777216) \<longrightarrow> wal_byte t p = Some b)"

lemma piece_bytes:
  assumes "piece_written segno off buf w flushed t" and "segno = segment_number l WAL_SEGMENT_SIZE"
      and "off = unat (segment_offset l WAL_SEGMENT_SIZE)" and "off + length buf \<le> 16777216"
  shows "bytes_at (pst_fs t) (unat l) buf" and "kept_outside (unat l) (length buf) (pst_fs w) (pst_fs t)"
proof -
  let ?l = "unat l"
  have lim: "?l < 2 ^ 64" using unsigned_less [of l, where 'a = nat] by simp
  have off: "off = ?l mod 16777216" "segno = of_nat (?l div 16777216)" using assms(2,3) position_segment by simp_all
  obtain old where old: "seg_data (data_of t) segno = Some (splice off buf old)"
    "calm (pst_fs w) \<longrightarrow> seg_data (data_of w) segno = None \<or> seg_data (data_of w) segno = Some old"
    using assms(1) by (auto simp: piece_written_def calm_def)
  have others: "seg_data (data_of t) b = seg_data (data_of w) b" if "segno_ok b" "b \<noteq> segno" for b
    using assms(1) that by (auto simp: piece_written_def)
  have place: "(?l + k) div 16777216 = ?l div 16777216" "(?l + k) mod 16777216 = off + k" if "k < length buf" for k
  proof -
    have k: "off + k < 16777216" using that assms(4) by simp
    have sum: "?l + k = (off + k) + ?l div 16777216 * 16777216" using off(1) by simp
    show "(?l + k) div 16777216 = ?l div 16777216" unfolding sum using k by simp
    show "(?l + k) mod 16777216 = off + k" unfolding sum mod_mult_self1 using k by simp
  qed
  show "bytes_at (pst_fs t) ?l buf"
    using old(1) place splice_new [of off "off + _" buf old] off(2) by (auto simp: bytes_at_def wal_byte_def)
  show "kept_outside ?l (length buf) (pst_fs w) (pst_fs t)"
    unfolding kept_outside_def
  proof (intro allI impI, elim conjE)
    fix p b
    assume p: "p < 2 ^ 64" "wal_byte (pst_fs w) p = Some b" "\<not> (?l \<le> p \<and> p < ?l + length buf)"
      and c: "calm (pst_fs w) \<or> p div 16777216 < ?l div 16777216"
    show "wal_byte (pst_fs t) p = Some b"
    proof (cases "p div 16777216 = ?l div 16777216")
      case False
      then have "of_nat (p div 16777216) \<noteq> segno" using position_segment(4) [OF p(1) lim] off(2) by simp
      then show ?thesis using p(2) others [OF position_segment(3) [OF p(1)]] by (simp add: wal_byte_def)
    next
      case True
      then have d: "seg_data (data_of w) segno = Some old" "p mod 16777216 < length old" "old ! (p mod 16777216) = b"
        using p(2) c old(2) off(2) by (auto simp: wal_byte_def split: option.splits if_splits)
      have "\<not> (off \<le> p mod 16777216 \<and> p mod 16777216 < off + length buf)"
      proof -
        have "p = ?l div 16777216 * 16777216 + p mod 16777216" unfolding True [symmetric] by simp
        moreover have "?l = ?l div 16777216 * 16777216 + off" using off(1) by simp
        ultimately show ?thesis using p(3) by linarith
      qed
      from splice_old [OF d(2) this] show ?thesis using d(3) old(1) off(2) True by (simp add: wal_byte_def)
    qed
  qed
qed

lemma wal_files_ok_closed: "dir_ok (pst_fs w) \<Longrightarrow> pst_file w = None \<Longrightarrow> wal_files_ok w"
  by (simp add: wal_files_ok_def)

text \<open>The write position moves to the end of a piece.\<close>

lemma piece_files_ok:
  assumes "piece_written segno off buf w flushed w1" and "segno = segment_number l WAL_SEGMENT_SIZE"
      and "off = unat (segment_offset l WAL_SEGMENT_SIZE)" and "off + length buf \<le> 16777216"
      and "unat l' = unat l + length buf" and "pst_fs w3 = pst_fs w1" and "pst_file w3 = pst_file w1" and "pst_write_lsn w3 = l'"
  shows "wal_files_ok w3"
proof (cases flushed)
  case True
  then show ?thesis using assms(1,6,7) by (intro wal_files_ok_closed) (auto simp: piece_written_def)
next
  case False
  then have less: "off + length buf < 16777216" using assms(1,4) by (auto simp: piece_written_def)
  have "unat l = unat l div 16777216 * 16777216 + off" unfolding assms(3) position_segment(2) [symmetric] by simp
  then have sum: "unat l' = (off + length buf) + unat l div 16777216 * 16777216" using assms(5) by simp
  have "unat l' div 16777216 = unat l div 16777216" "unat l' mod 16777216 = off + length buf"
    unfolding sum using less by simp_all
  then have "segment_number l' WAL_SEGMENT_SIZE = segno" "unat (segment_offset l' WAL_SEGMENT_SIZE) = off + length buf"
    using position_segment(1,2) [of l'] position_segment(1) [of l] assms(2) by simp_all
  then show ?thesis using assms(1,6-8) False by (auto simp: wal_files_ok_def piece_written_def)
qed

lemma bytes_pieces:
  assumes "bytes_at s1 l (take n buf)" and "kept_outside l n s s1"
      and "bytes_at s2 (l + n) (drop n buf)" and "kept_outside (l + n) (length buf - n) s1 s2"
      and "drop n buf = [] \<Longrightarrow> s2 = s1" and "drop n buf \<noteq> [] \<Longrightarrow> (l + n) mod 16777216 = 0"
      and "n \<le> length buf" and "l + length buf < 2 ^ 64" and "calm s \<Longrightarrow> calm s1"
  shows "bytes_at s2 l buf" and "kept_outside l (length buf) s s2"
proof -
  have first: "wal_byte s2 (l + k) = Some (buf ! k)" if "k < n" for k
  proof (cases "drop n buf = []")
    case True
    then show ?thesis using assms(1,5,7) that by (simp add: bytes_at_def)
  next
    case False
    have "(l + k) div 16777216 < (l + n) div 16777216"
      using assms(6) [OF False] that by (metis add_less_cancel_left div_mult_mod_eq add.right_neutral less_mult_imp_div_less)
    then show ?thesis
      using assms(1,4,7,8) that unfolding bytes_at_def kept_outside_def by auto
  qed
  have "wal_byte s2 (l + k) = Some (buf ! k)" if "n \<le> k" "k < length buf" for k
    using assms(3) that unfolding bytes_at_def by (auto dest: spec [of _ "k - n"])
  with first show "bytes_at s2 l buf" unfolding bytes_at_def by (metis not_less)
  show "kept_outside l (length buf) s s2"
    unfolding kept_outside_def
  proof (intro allI impI, elim conjE)
    fix p b
    assume p: "p < 2 ^ 64" "wal_byte s p = Some b" "\<not> (l \<le> p \<and> p < l + length buf)" "calm s \<or> p div 16777216 < l div 16777216"
    have "wal_byte s1 p = Some b" using assms(2,7) p unfolding kept_outside_def by auto
    moreover have "\<not> (l + n \<le> p \<and> p < l + n + (length buf - n))" using p(3) assms(7) by auto
    moreover have "calm s1 \<or> p div 16777216 < (l + n) div 16777216"
      using p(4) assms(9) div_le_mono [of l "l + n" 16777216] by auto
    ultimately show "wal_byte s2 p = Some b" using assms(4) p(1) unfolding kept_outside_def by blast
  qed
qed

lemma write_segments_bytes:
  assumes "wal_files_ok w" and "pst_wal_seg_size w = WAL_SEGMENT_SIZE" and "unat (pst_write_lsn w) + length buf \<le> LSN_LIMIT"
  shows "wp (write_segments buf)
     (\<lambda>_ t. wal_files_ok t \<and> bytes_at (pst_fs t) (unat (pst_write_lsn w)) buf
        \<and> kept_outside (unat (pst_write_lsn w)) (length buf) (pst_fs w) (pst_fs t))
     (\<lambda>_ t. wal_files_ok t) w"
  using assms
proof (induction buf w rule: write_segments.induct)
  case (1 buf w)
  define off where "off = unat (segment_offset (pst_write_lsn w) (pst_wal_seg_size w))"
  define segno where "segno = segment_number (pst_write_lsn w) (pst_wal_seg_size w)"
  define n where "n = (if off + length buf > unat (pst_wal_seg_size w)
                       then unat (pst_wal_seg_size w) - off else length buf)"
  have sz: "pst_wal_seg_size w \<noteq> 0" "unat (pst_wal_seg_size w) = 16777216" by (simp_all add: 1(3) segment_size) (simp add: WAL_SEGMENT_SIZE_def)
  have place: "segno = segment_number (pst_write_lsn w) WAL_SEGMENT_SIZE" "off = unat (segment_offset (pst_write_lsn w) WAL_SEGMENT_SIZE)"
    by (simp_all add: segno_def off_def 1(3))
  have off: "off < 16777216" unfolding place(2) position_segment(2) [symmetric] by simp
  have n: "n \<le> length buf" "off + length (take n buf) \<le> 16777216" using off by (auto simp: n_def sz(2))
  show ?case
  proof (cases "buf = []")
    case True
    then show ?thesis using 1(2) by (simp add: wp_def write_segments.simps bytes_at_def kept_outside_def)
  next
    case False
    obtain r w1 where step: "write_in_segment segno off (take n buf) w = (r, w1)" by force
    have piece: "wp (write_in_segment segno off (take n buf)) (piece_written segno off (take n buf) w)
       (\<lambda>_ t. dir_ok (pst_fs t) \<and> pst_file t = None) w"
      by (rule write_in_segment_data [OF 1(2,3) place])
    have io: "sans_io w1 = sans_io w"
      using io_only_write_in_segment step by (metis io_only_def snd_conv)
    note [simp] = sans_io_fields [OF io]
    have unfold: "write_segments buf w = (case r of Inl e \<Rightarrow> (Inl e, w1) | Inr flushed \<Rightarrow>
                (case lsn_add (pst_write_lsn w1) (of_nat n) of
                   None \<Rightarrow> (Inl WalPanic, w1)
                 | Some l \<Rightarrow>
                     (let w2 = w1\<lparr>pst_write_lsn := l\<rparr>;
                          w3 = (if flushed then w2\<lparr>pst_flush_lsn := l\<rparr> else w2)
                      in write_segments (drop n buf) w3)))"
      unfolding write_segments.simps [of buf w] Let_def off_def [symmetric] segno_def [symmetric]
        n_def [symmetric] step
      using False sz(1) by (simp only: if_False prod.case)
    show ?thesis
    proof (cases r)
      case (Inl e)
      then show ?thesis using wp_Inl [OF piece] step by (simp add: wp_def unfold wal_files_ok_closed)
    next
      case (Inr flushed)
      have piece: "piece_written segno off (take n buf) w flushed w1" using wp_Inr [OF piece] step Inr by simp
      have lim: "unat (pst_write_lsn w) + n < 2 ^ 64" "unat (pst_write_lsn w) + length buf < 2 ^ 64"
        using 1(4) n by (simp_all add: LSN_LIMIT_def)
      define l where "l = pst_write_lsn w + of_nat n"
      have l: "unat l = unat (pst_write_lsn w) + n" "lsn_add (pst_write_lsn w) (of_nat n) = Some l"
        using lim by (auto simp: l_def lsn_add_def checked_add_def unat_word_ariths unat_of_nat)
      define w3 where "w3 = (if flushed then w1\<lparr>pst_write_lsn := l, pst_flush_lsn := l\<rparr>
                             else w1\<lparr>pst_write_lsn := l\<rparr>)"
      have w3: "pst_wal_seg_size w3 = WAL_SEGMENT_SIZE" "pst_write_lsn w3 = l" "pst_fs w3 = pst_fs w1" "pst_file w3 = pst_file w1"
        using 1(3) by (auto simp: w3_def)
      have ok3: "wal_files_ok w3"
        by (rule piece_files_ok [OF piece place n(2) _ w3(3,4,2)]) (use l n(1) in simp)
      have "wp (write_segments (drop n buf))
         (\<lambda>_ t. wal_files_ok t \<and> bytes_at (pst_fs t) (unat l) (drop n buf)
            \<and> kept_outside (unat l) (length buf - n) (pst_fs w1) (pst_fs t))
         (\<lambda>_ t. wal_files_ok t) w3"
        using 1(1) [OF False sz(1) off_def segno_def n_def step [symmetric] Inr,
            of l "w1\<lparr>pst_write_lsn := l\<rparr>" w3, unfolded w3] ok3 l n 1(4)
        by (auto simp: w3_def)
      moreover have "write_segments buf w = write_segments (drop n buf) w3"
        using l Inr by (simp add: unfold w3_def Let_def)
      moreover have "wal_files_ok t \<and> bytes_at (pst_fs t) (unat (pst_write_lsn w)) buf
          \<and> kept_outside (unat (pst_write_lsn w)) (length buf) (pst_fs w) (pst_fs t)"
        if t: "wal_files_ok t" "bytes_at (pst_fs t) (unat l) (drop n buf)" "kept_outside (unat l) (length buf - n) (pst_fs w1) (pst_fs t)"
          and run: "write_segments (drop n buf) w3 = (Inr x, t)" for x t
      proof -
        note first = piece_bytes [OF piece place n(2)]
        have "pst_fs t = pst_fs w1" if "drop n buf = []" using run that w3(3) by (simp add: write_segments.simps)
        moreover have "(unat (pst_write_lsn w) + n) mod 16777216 = 0" if "drop n buf \<noteq> []"
        proof -
          have "n = 16777216 - off" using that by (simp add: n_def sz(2) split: if_splits)
          moreover have "unat (pst_write_lsn w) = unat (pst_write_lsn w) div 16777216 * 16777216 + off"
            unfolding place(2) position_segment(2) [symmetric] by simp
          ultimately have "unat (pst_write_lsn w) + n = (unat (pst_write_lsn w) div 16777216 + 1) * 16777216" using off by simp
          then show ?thesis by simp
        qed
        moreover have "calm (pst_fs w1)" if "calm (pst_fs w)"
          using keeps_write_in_segment [of segno off "take n buf"] step that unfolding keeps_def by (metis snd_conv)
        ultimately show ?thesis
          using bytes_pieces [of "pst_fs w1" "unat (pst_write_lsn w)" n buf "pst_fs w" "pst_fs t"] first t n(1) lim(2) l(1)
          by (simp add: min_absorb2)
      qed
      ultimately show ?thesis by (auto simp: wp_def split: prod.splits sum.splits)
    qed
  qed
qed

text \<open>Finding the records leaves the files and the write position alone.\<close>

lemma drain_same:
  assumes "\<And>l b s. g (f l b s) = g s"
  shows "g (snd (snd (drain pgs f d s))) = g s"
  using assms
proof (induction pgs f d s rule: drain.induct)
  case (1 pgs f d s)
  show ?case
    using 1 by (auto simp: drain.simps [of pgs f d s] split: prod.split sum.split option.split)
qed

definition files_view :: "phys_storage \<Rightarrow> fs \<times> (inode \<times> nat) option \<times> lsn" where
  "files_view w = (pst_fs w, pst_file w, pst_write_lsn w)"

lemma ingest_same: "files_view (snd (ingest_wal pgs pos buf w)) = files_view w"
proof -
  have note_same: "files_view (note_record l b v) = files_view v" for l b v
    by (simp add: note_record_def files_view_def Let_def)
  have "files_view (snd (drain_records pgs v)) = files_view v" for v
    using drain_same [of files_view note_record pgs "pst_decoder v" v, OF note_same]
    by (auto simp: drain_records_def files_view_def split: prod.split drain_end.split)
  moreover have "files_view (v\<lparr>pst_decoder := d\<rparr>) = files_view v" "files_view (v\<lparr>pst_flush_record_lsn := x\<rparr>) = files_view v"
    for v d x by (simp_all add: files_view_def)
  ultimately show ?thesis
    by (auto simp: ingest_wal_def andthen_def reads_def of_option_def whenp_def modify_def ret_def throw_def
        split: option.split)
qed

lemma wal_files_ok_view: "files_view t = files_view w \<Longrightarrow> wal_files_ok t = wal_files_ok w"
  by (auto simp: files_view_def wal_files_ok_def split: option.split)

text \<open>
  A write that succeeds starts at the write position, moves it to its end, and leaves exactly
  the data there.
\<close>

lemma write_wal_bytes:
  assumes "wal_ok w" and "wal_files_ok w" and "unat pos + length buf \<le> LSN_LIMIT" and "write_wal pgs pos buf w = (Inr (), t)"
  shows "pos = pst_write_lsn w" and "unat (pst_write_lsn t) = unat pos + length buf" and "wal_files_ok t"
    and "bytes_at (pst_fs t) (unat pos) buf" and "kept_outside (unat pos) (length buf) (pst_fs w) (pst_fs t)"
proof -
  have "pst_pending_wal_truncation w \<or> pst_write_lsn w \<noteq> 0" using assms(1) by (auto simp: wal_ok_def)
  then show pos: "pos = pst_write_lsn w"
    using assms(4) by (auto simp: write_wal_def andthen_def reads_def ensure_def throw_def ret_def split: if_splits)
  have sz: "pst_wal_seg_size w = WAL_SEGMENT_SIZE" using assms(1) by (simp add: wal_ok_def)
  have run: "write_wal pgs pos buf w = andthen (write_segments buf) (\<lambda>_. ingest_wal pgs pos buf) w \<or> (\<exists>e. fst (write_wal pgs pos buf w) = Inl e)"
    by (auto simp: write_wal_def write_exact_def pos andthen_def reads_def ensure_def throw_def ret_def whenp_def)
  with assms(4) have "andthen (write_segments buf) (\<lambda>_. ingest_wal pgs pos buf) w = (Inr (), t)" by auto
  then obtain u where u: "write_segments buf w = (Inr (), u)" "ingest_wal pgs pos buf u = (Inr (), t)"
    by (auto simp: andthen_eq_Inr)
  have same: "files_view t = files_view u" using ingest_same [of pgs pos buf u] u(2) by simp
  have lim: "unat (pst_write_lsn w) + length buf \<le> LSN_LIMIT" using assms(3) pos by simp
  from wp_Inr [OF write_segments_wp [OF sz lim] u(1)]
  show "unat (pst_write_lsn t) = unat pos + length buf" using same pos by (simp add: written_to_def files_view_def)
  from wp_Inr [OF write_segments_bytes [OF assms(2) sz lim] u(1)]
  show "wal_files_ok t" "bytes_at (pst_fs t) (unat pos) buf" "kept_outside (unat pos) (length buf) (pst_fs w) (pst_fs t)"
    using wal_files_ok_view [OF same] same pos by (simp_all add: files_view_def)
qed

lemma flush_wal_bytes:
  assumes "wal_files_ok w" and "flush_wal w = (Inr (), t)"
  shows "wal_files_ok t" and "pst_write_lsn t = pst_write_lsn w" and "data_of t = data_of w"
proof -
  have "wp flush_wal (\<lambda>_ t. wal_files_ok t \<and> pst_write_lsn t = pst_write_lsn w \<and> data_of t = data_of w) (\<lambda>_ t. True) w"
  proof (cases "pst_file w")
    case None
    then show ?thesis using assms(1) by (simp add: flush_wal_def take_file_def wp)
  next
    case (Some h)
    let ?n = "part_name (segment_number (pst_write_lsn w) WAL_SEGMENT_SIZE)"
    have h: "dir_ok (pst_fs w)" "map_of (fs_dir (pst_fs w)) ?n = Some (fst h)"
        "snd h = unat (segment_offset (pst_write_lsn w) WAL_SEGMENT_SIZE)"
      using assms(1) Some by (auto simp: wal_files_ok_def split: prod.splits)
    have ok: "wal_files_ok (w\<lparr>pst_fs := s, pst_file := Some h, pst_flush_lsn := a, pst_flush_record_lsn := b\<rparr>)"
      if "dir_ok s" "fs_dir s = fs_dir (pst_fs w)" for s a b
      using that h by (auto simp: wal_files_ok_def split: prod.split)
    show ?thesis
      using assms(1) h Some ok [OF h(1) refl]
      by (auto simp: flush_wal_def take_file_def fdatasync_file_def in_fs_def wp intro!: wp_cons [OF sync_data [OF h(1,2)]] ok)
  qed
  from wp_Inr [OF this assms(2)]
  show "wal_files_ok t" "pst_write_lsn t = pst_write_lsn w" "data_of t = data_of w" by simp_all
qed

lemma wal_byte_data: "file_data s = file_data t \<Longrightarrow> wal_byte s = wal_byte t"
  by (rule ext) (simp add: wal_byte_def)

section \<open>Truncation and opening\<close>

text \<open>No operation of the disk makes two names denote one file.\<close>

lemma keeps_dir_draw: "keeps dir_ok draw" "keeps dir_ok m \<Longrightarrow> keeps dir_ok (io_try m)"
proof -
  show draw: "keeps dir_ok draw" by (simp add: keeps_def draw_def split: list.split)
  show "keeps dir_ok (io_try m)" if "keeps dir_ok m" unfolding io_try_def by (intro keeps draw that)
qed

lemma dir_ok_upd [simp]: "dir_ok s \<Longrightarrow> dir_ok (upd_file i g s)"
  by (simp add: dir_ok_def)

lemma keeps_dir_ok [keeps]:
  "keeps dir_ok (file_open n)" "keeps dir_ok (file_flush i)" "keeps dir_ok (file_seek i)" "keeps dir_ok (file_set_len i k)"
  "keeps dir_ok (file_sync i)" "keeps dir_ok dir_sync"
  unfolding file_open_def file_flush_def file_seek_def file_set_len_def file_sync_def dir_sync_def
  by (intro keeps keeps_dir_draw; simp)+

lemma keeps_dir_ok_names [keeps]: "keeps dir_ok (file_create n)" "keeps dir_ok (file_remove n)"
  "keeps dir_ok (file_rename a b)"
proof -
  show "keeps dir_ok (file_create n)" unfolding keeps_wp by (blast intro: wp_cons [OF create_data])
  show "keeps dir_ok (file_remove n)" unfolding keeps_wp by (blast intro: remove_data)
  have rename: "dir_ok (set_dir (AList.update b i (AList.delete a (fs_dir s))) s)" if "dir_ok s" "map_of (fs_dir s) a = Some i" for s i
    using that by (auto simp: dir_ok_def update_conv' delete_conv' split: if_splits)
  show "keeps dir_ok (file_rename a b)"
    unfolding keeps_wp by (intro allI impI, rule wp_file_rename) (use rename in auto)
qed

definition closed_files :: "phys_storage \<Rightarrow> bool" where
  "closed_files w \<longleftrightarrow> dir_ok (pst_fs w) \<and> pst_file w = None"

lemma keeps_zoom [keeps]:
  "keeps P m \<Longrightarrow> keeps P (zoom id (\<lambda>f _. f) err m)"
  "keeps dir_ok p \<Longrightarrow> keeps closed_files (in_fs p)"
  "keeps dir_ok q \<Longrightarrow> keeps closed_files (in_dir_fs q)"
  unfolding keeps_wp in_fs_def in_dir_fs_def closed_files_def wp by (auto intro: wp_cons)

lemma keeps_remove: "keeps dir_ok (remove_segments_from_disk sz f)"
proof -
  have one: "keeps dir_ok (remove_entry sz f n)" for n
    unfolding remove_entry_def by (auto split: sum.split prod.split intro!: keeps)
  have "keeps dir_ok (remove_entries sz f ns)" for ns
    by (induction ns) (auto intro!: keeps keeps_dir_draw one)
  then show ?thesis unfolding remove_segments_from_disk_def by (intro keeps keeps_dir_draw)
qed

lemma keeps_dir_open: "keeps closed_files (open_or_create segno)"
  unfolding open_or_create_def create_segment_def durable_rename_def fsync_async_opt_def fsync_async_def ignore_not_found_def
  by (intro keeps)

text \<open>The files stay in order when the storage is truncated and opened.\<close>

lemma truncate_files_ok:
  assumes "wal_files_ok w"
  shows "wal_files_ok (snd (truncate_wal p w))"
proof -
  have segments: "closed_files (snd (truncate_segments p v))" if "dir_ok (pst_fs v)" for v
  proof -
    have "closed_files (v\<lparr>pst_file := None\<rparr>)" using that by (simp add: closed_files_def)
    moreover have "keeps closed_files (andthen (case pst_file v of None \<Rightarrow> ret () | Some unflushed_file \<Rightarrow> fdatasync_file (fst unflushed_file)) (\<lambda>_.
       andthen (reads pst_wal_seg_size) (\<lambda>sz.
       andthen (ensure (sz \<noteq> 0) WalPanic) (\<lambda>_.
       let xlogoff = segment_offset p sz;
           segno = segment_number p sz in
       andthen (in_dir_fs (remove_segments_from_disk sz (\<lambda>x. x > segno))) (\<lambda>_.
       andthen (open_or_create segno) (\<lambda>opened.
       andthen (in_fs (file_set_len (fst opened) (unat xlogoff))) (\<lambda>_.
       andthen (in_fs (file_set_len (fst opened) (unat sz))) (\<lambda>_.
       andthen (fsync_file (fst opened)) (\<lambda>_.
       whenp (\<not> snd opened)
         (in_fs (file_rename (fst (wal_file_paths segno sz)) (snd (wal_file_paths segno sz)))))))))))))"
      unfolding fdatasync_file_def fsync_file_def Let_def by (intro keeps keeps_remove keeps_dir_open)
    ultimately show ?thesis unfolding truncate_segments_def take_file_run keeps_def by blast
  qed
  have "closed_files v \<Longrightarrow> wal_files_ok (v\<lparr>pst_pending_wal_truncation := b\<rparr>)" for v b
    by (simp add: closed_files_def wal_files_ok_def)
  moreover have "dir_ok (pst_fs w)" using assms by (simp add: wal_files_ok_def)
  ultimately have "wp (truncate_segments p) (\<lambda>_ v. wal_files_ok (v\<lparr>pst_pending_wal_truncation := False\<rparr>)) (\<lambda>_. wal_files_ok)
      (w\<lparr>pst_pending_wal_truncation := True, pst_write_lsn := p, pst_flush_lsn := p, pst_write_record_lsn := p, pst_flush_record_lsn := p\<rparr>)"
    using segments [of "w\<lparr>pst_pending_wal_truncation := True, pst_write_lsn := p, pst_flush_lsn := p, pst_write_record_lsn := p, pst_flush_record_lsn := p\<rparr>"]
    by (auto simp: wp_def closed_files_def wal_files_ok_def split: prod.splits sum.splits)
  then have "wp (truncate_wal p) (\<lambda>_. wal_files_ok) (\<lambda>_. wal_files_ok) w"
    using assms by (simp add: truncate_wal_def wp)
  then show ?thesis by (simp add: wp_snd)
qed

lemma opened_files_ok:
  assumes "physical_storage_new pgs st no_sync s = (Inr w, t)" and "dir_ok t"
  shows "wal_files_ok w"
  using assms
  by (auto simp: physical_storage_new_def Let_def andthen_eq_Inr reads_def ret_def wal_files_ok_def)

end
