(* ===== verification/Sk_Refine.thy ===== *)
theory Sk_Refine
  imports Sk_Sample Consensus_Claims Wal_Bytes
begin

text \<open>
  The safekeeper refines the acceptor of the protocol specification: its handlers are the
  actions of \<open>Consensus\<close>. A byte position counts from the start of the timeline, which is
  position 1 there, and the log is the sequence of the terms its positions were written in.
\<close>

section \<open>Abstraction\<close>

definition abs_lsn :: "lsn \<Rightarrow> lsn \<Rightarrow> nat" where
  "abs_lsn b l = unat l - unat b + 1"

definition abs_entry :: "lsn \<Rightarrow> term_lsn \<Rightarrow> nat \<times> nat" where
  "abs_entry b e = (unat (tl_term e), abs_lsn b (tl_lsn e))"

definition abs_history :: "lsn \<Rightarrow> term_history \<Rightarrow> hist" where
  "abs_history b th = map (abs_entry b) th"

definition abs_log :: "lsn \<Rightarrow> sk_term \<Rightarrow> term_history \<Rightarrow> lsn \<Rightarrow> tla_acc" where
  "abs_log b t th flush = \<lparr>a_term = unat t, a_history = abs_history b th, a_wal = log_of (abs_history b th) (abs_lsn b flush - 1)\<rparr>"

definition abs_acc :: "lsn \<Rightarrow> 'c ctrl_ops \<Rightarrow> 'w wal_ops \<Rightarrow> ('c, 'w) safekeeper \<Rightarrow> tla_acc" where
  "abs_acc b cops wops s =
     abs_log b (sk_term_of cops s) (as_term_history (ps_acceptor_state (pers cops s))) (flush_lsn cops wops s)"

text \<open>A history of a timeline that starts at \<open>b\<close>.\<close>

definition hist_at :: "lsn \<Rightarrow> term_history \<Rightarrow> bool" where
  "hist_at b th \<longleftrightarrow> th \<noteq> [] \<and> hd th = \<lparr>tl_term = 0, tl_lsn = b\<rparr> \<and> th_wf th"

lemma abs_lsn_le [simp]: "b \<le> l \<Longrightarrow> b \<le> l' \<Longrightarrow> abs_lsn b l \<le> abs_lsn b l' \<longleftrightarrow> l \<le> l'"
  by (auto simp: abs_lsn_def word_le_nat_alt)

lemma abs_lsn_min: "abs_lsn b (min l l') = min (abs_lsn b l) (abs_lsn b l')"
  by (auto simp: abs_lsn_def min_def word_le_nat_alt)

lemma FlushLsn_abs [simp]: "FlushLsn (abs_log b t th e) = abs_lsn b e"
  by (simp add: FlushLsn_def abs_log_def abs_lsn_def)

lemma hist_at_above:
  assumes "hist_at b th" and "e \<in> set th"
  shows "b \<le> tl_lsn e"
  using assms by (cases th) (auto simp: hist_at_def th_wf_def)

lemma hist_at_up_to: "hist_at b th \<Longrightarrow> b \<le> e \<Longrightarrow> hist_at b (up_to th e)"
  using th_wf_up_to [of th e] by (cases th) (auto simp: hist_at_def)

lemma up_to_rest:
  assumes "th_wf th"
  obtains z where "th = up_to th e @ z" and "\<And>x. x \<in> set z \<Longrightarrow> e < tl_lsn x"
proof -
  have "sorted (map tl_lsn th)" using assms by (simp add: th_wf_def)
  then have "\<exists>z. th = up_to th e @ z \<and> (\<forall>x \<in> set z. e < tl_lsn x)"
  proof (induction th)
    case (Cons x th)
    show ?case
    proof (cases "e < tl_lsn x")
      case True
      then show ?thesis using Cons.prems by (auto intro: less_le_trans)
    next
      case False
      with Cons.IH Cons.prems obtain z where z: "th = up_to th e @ z" "\<forall>x \<in> set z. e < tl_lsn x" by auto
      then have "x # th = up_to (x # th) e @ z" using False by simp
      then show ?thesis using z(2) by blast
    qed
  qed simp
  then show ?thesis using that by blast
qed

lemma up_to_filter: "th_wf th \<Longrightarrow> up_to th e = filter (\<lambda>x. tl_lsn x \<le> e) th"
proof -
  assume "th_wf th"
  then obtain z where z: "th = up_to th e @ z" "\<And>x. x \<in> set z \<Longrightarrow> e < tl_lsn x" using up_to_rest by blast
  have "filter (\<lambda>x. tl_lsn x \<le> e) (up_to th e @ z) = up_to th e"
    using z(2) up_to_lsn by (auto simp: filter_empty_conv intro!: filter_True) (meson leD)
  then show ?thesis using z(1) by metis
qed

lemma AcceptorTermHistory_abs:
  assumes "hist_at b th" and "b \<le> e"
  shows "AcceptorTermHistory (abs_log b t th e) = abs_history b (up_to th e)"
proof -
  have "filter (\<lambda>x. abs_lsn b (tl_lsn x) \<le> abs_lsn b e) th = filter (\<lambda>x. tl_lsn x \<le> e) th"
    using hist_at_above [OF assms(1)] assms(2) by (intro filter_cong) auto
  moreover have "FlushLsn (abs_log b t th e) = abs_lsn b e" by simp
  ultimately show ?thesis
    unfolding AcceptorTermHistory_def using assms(1)
    by (simp add: abs_log_def abs_history_def filter_map comp_def abs_entry_def up_to_filter hist_at_def)
qed

section \<open>The common point\<close>

lemma last_filter_upt:
  assumes "i < n" and "P i" and "\<And>j. j < n \<Longrightarrow> P j \<Longrightarrow> j \<le> i"
  shows "last (filter P [0..<n]) = i"
proof -
  have "filter P [Suc i..<n] = []" using assms(3) by (fastforce simp: filter_empty_conv)
  moreover have "[0..<n] = [0..<i] @ i # [Suc i..<n]"
    using assms(1) upt_add_eq_append [of 0 i "n - i"] by (simp add: upt_conv_Cons)
  ultimately show ?thesis using assms(2) by simp
qed

lemma common_idx_abs:
  assumes "c \<noteq> []" and "tl_term ` set p' \<inter> tl_term ` set (c @ s') = {}"
  shows "common_idx (abs_history b (c @ p')) (abs_history b (c @ s')) = length c - 1"
  unfolding common_idx_def
proof (rule last_filter_upt)
  show "length c - 1 < min (length (abs_history b (c @ p'))) (length (abs_history b (c @ s')))"
    using assms(1) by (cases c) (auto simp: abs_history_def)
  show "fst (abs_history b (c @ p') ! (length c - 1)) = fst (abs_history b (c @ s') ! (length c - 1))"
    using assms(1) by (simp add: abs_history_def nth_append)
  fix j
  assume j: "j < min (length (abs_history b (c @ p'))) (length (abs_history b (c @ s')))"
    "fst (abs_history b (c @ p') ! j) = fst (abs_history b (c @ s') ! j)"
  then have eq: "tl_term ((c @ p') ! j) = tl_term ((c @ s') ! j)" 
    by (simp add: abs_history_def abs_entry_def word_unat_eq_iff del: map_append)
  have "j < length c"
  proof (rule ccontr)
    assume "\<not> j < length c"
    then have "(c @ p') ! j \<in> set p'" using j(1) by (auto simp: nth_append abs_history_def)
    moreover have "(c @ s') ! j \<in> set (c @ s')" using j(1) by (intro nth_mem) (simp add: abs_history_def)
    ultimately show False using assms(2) eq by (metis IntI empty_iff imageI)
  qed
  then show "j \<le> length c - 1" by simp
qed

text \<open>
  The search of the code gives the point of the specification; up to it the histories are the
  same list, and what follows in either starts at or after it.
\<close>

lemma common_point_refines:
  assumes "hist_at b p" and "hist_at b s" and "b \<le> e" and "th_compatible p (up_to s e)"
      and "tl_term (last (up_to s e)) \<le> tl_term (last p)"
  obtains c pre p' r where "find_highest_common_point p (up_to s e) e = Inr (Some c)"
    and "FindHighestCommonPoint (abs_history b p) (AcceptorTermHistory (abs_log b t s e)) (abs_lsn b e) = abs_entry b c"
    and "p = pre @ p'" and "s = pre @ r" and "\<And>x. x \<in> set p' \<union> set r \<Longrightarrow> tl_lsn c \<le> tl_lsn x"
    and "b \<le> tl_lsn c" and "tl_lsn c \<le> e"
proof -
  let ?u = "up_to s e"
  note u = hist_at_up_to [OF assms(2,3)]
  obtain pre p' s' where pre: "p = pre @ p'" "?u = pre @ s'" "p' = [] \<or> s' = [] \<or> hd p' \<noteq> hd s'"
    using longest_common_prefix [of p ?u] by blast
  have ne: "pre \<noteq> []" using assms(1) u pre by (auto simp: hist_at_def)
  have wf: "th_wf (pre @ p')" "th_wf (pre @ s')" using assms(1) u pre(1,2) by (simp_all add: hist_at_def)
  note dis = compatible_suffixes_disjoint [OF _ wf pre(3)]
  have lead: "s' = []" if "p' = []"
  proof (rule ccontr)
    assume "s' \<noteq> []"
    then have "tl_term (last pre) < tl_term (last s')" using wf(2) ne by (auto simp: th_wf_append)
    then show False using assms(5) pre that \<open>s' \<noteq> []\<close> by simp
  qed
  define l where "l = (if p' = [] then e else min (tl_lsn (hd p')) (if s' = [] then e else tl_lsn (hd s')))"
  let ?c = "\<lparr>tl_term = tl_term (last pre), tl_lsn = l\<rparr>"
  have dp: "tl_term ` set p' \<inter> tl_term ` set (pre @ s') = {}" using dis(1) assms(4) pre(1,2) by simp
  have "p' = [] \<or> s' = [] \<or> tl_term (hd p') \<noteq> tl_term (hd s')"
    using dp by (metis IntI Un_iff empty_iff image_eqI list.set_sel(1) set_append)
  moreover have "tl_lsn (last (pre @ s')) \<le> e" using last_up_to_le [of s e] pre(2) ne by simp
  ultimately have f: "find_highest_common_point p ?u e = Inr (Some ?c)"
    using find_highest_common_point_prefix [of p' s' pre e] ne by (simp add: pre l_def)
  obtain n where n: "length pre = Suc n" using ne by (cases pre) auto
  have nths: "(pre @ p') ! n = last pre" "p' \<noteq> [] \<Longrightarrow> (pre @ p') ! Suc n = hd p'" "s' \<noteq> [] \<Longrightarrow> (pre @ s') ! Suc n = hd s'"
    using n ne by (auto simp: nth_append last_conv_nth hd_conv_nth)
  have "common_idx (abs_history b p) (abs_history b ?u) = n"
    using common_idx_abs [OF ne dp, of b] n by (simp add: pre)
  then have "FindHighestCommonPoint (abs_history b p) (abs_history b ?u) (abs_lsn b e) = abs_entry b ?c"
    using n nths lead unfolding FindHighestCommonPoint_def Let_def
    by (auto simp: pre l_def abs_history_def abs_entry_def abs_lsn_min min.commute simp del: map_append)
  moreover obtain z where z: "s = pre @ s' @ z" "\<And>x. x \<in> set z \<Longrightarrow> e < tl_lsn x"
    using up_to_rest [of s e] assms(2) pre(2) by (metis append.assoc hist_at_def)
  moreover have le: "l \<le> e"
    using up_to_lsn [of "hd s'" s e] lead pre(2) by (auto simp: l_def min_le_iff_disj)
  moreover have "b \<le> l"
    using hist_at_above [OF assms(1), of "hd p'"] hist_at_above [OF assms(2), of "hd s'"] assms(3)
    by (auto simp: l_def pre(1) z(1))
  moreover have "l \<le> tl_lsn x" if "x \<in> set p' \<union> set (s' @ z)" for x
  proof -
    have "l \<le> tl_lsn x" if "x \<in> set p'" using th_wf_hd_le [OF wf(1) that] that by (auto simp: l_def min_le_iff_disj)
    moreover have "l \<le> tl_lsn x" if "x \<in> set s'"
      using th_wf_hd_le [OF wf(2) that] that lead by (auto simp: l_def min_le_iff_disj)
    moreover have "l \<le> tl_lsn x" if "x \<in> set z" using z(2) [OF that] le by simp
    ultimately show ?thesis using that by auto
  qed
  ultimately show ?thesis
    using that [of ?c pre p' "s' @ z"] f AcceptorTermHistory_abs [OF assms(2,3)] pre(1) by simp
qed

text \<open>Truncating the log there and taking over the history gives the log of the new history.\<close>

lemma truncate_refines:
  assumes "hist_at b p" and "hist_at b s" and "b \<le> e" and "th_compatible p (up_to s e)"
      and "tl_term (last (up_to s e)) \<le> tl_term (last p)"
  obtains c where "find_highest_common_point p (up_to s e) e = Inr (Some c)" and "b \<le> tl_lsn c"
    and "snd (FindHighestCommonPoint (abs_history b p) (AcceptorTermHistory (abs_log b t s e)) (abs_lsn b e)) = abs_lsn b (tl_lsn c)"
    and "truncate_acc (abs_history b p) (abs_lsn b (tl_lsn c)) (abs_log b t s e) = abs_log b t p (tl_lsn c)"
proof -
  obtain c pre p' r where c: "find_highest_common_point p (up_to s e) e = Inr (Some c)"
      "FindHighestCommonPoint (abs_history b p) (AcceptorTermHistory (abs_log b t s e)) (abs_lsn b e) = abs_entry b c"
      "p = pre @ p'" "s = pre @ r" "\<And>x. x \<in> set p' \<union> set r \<Longrightarrow> tl_lsn c \<le> tl_lsn x" "b \<le> tl_lsn c" "tl_lsn c \<le> e"
    using common_point_refines [OF assms] by blast
  let ?n = "abs_lsn b (tl_lsn c)"
  have above: "l < abs_lsn b (tl_lsn x)" if "l < ?n" "x \<in> set p' \<union> set r" for l x
    using that(1) c(5) [OF that(2)] c(6) by (auto simp: abs_lsn_def word_le_nat_alt)
  have "entry_term (abs_history b s) l = entry_term (abs_history b p) l" if "l < ?n" for l
  proof -
    have "entry_term (map (abs_entry b) pre @ map (abs_entry b) q) l = entry_term (map (abs_entry b) pre) l"
      if "set q \<subseteq> set p' \<union> set r" for q
      by (rule entry_term_prefix) (use that above [OF \<open>l < ?n\<close>] in \<open>auto simp: abs_entry_def\<close>)
    from this [of r] this [of p'] show ?thesis by (simp add: abs_history_def c(3,4))
  qed
  then have "log_of (abs_history b s) (?n - 1) = log_of (abs_history b p) (?n - 1)"
    by (intro log_of_cong) (simp add: abs_lsn_def)
  moreover have "?n \<le> abs_lsn b e" using c(6,7) assms(3) by simp
  ultimately have "truncate_acc (abs_history b p) ?n (abs_log b t s e) = abs_log b t p (tl_lsn c)"
    by (simp add: truncate_acc_def abs_log_def take_log_of diff_le_mono)
  then show ?thesis using that [OF c(1,6)] c(2) by (simp add: abs_entry_def)
qed

section \<open>Handlers\<close>

text \<open>A safekeeper of a timeline that starts at \<open>b\<close>.\<close>

abbreviation sk_history :: "'c ctrl_ops \<Rightarrow> ('c, 'w) safekeeper \<Rightarrow> term_history" where
  "sk_history cops s \<equiv> as_term_history (ps_acceptor_state (pers cops s))"

definition sk_at :: "lsn \<Rightarrow> 'c ctrl_ops \<Rightarrow> ('c, 'w) safekeeper \<Rightarrow> bool" where
  "sk_at b cops s \<longleftrightarrow> b \<noteq> 0 \<and> ps_timeline_start_lsn (pers cops s) = b \<and> hist_at b (sk_history cops s)
     \<and> tl_term (last (sk_history cops s)) \<le> sk_term_of cops s"

lemma sk_at_flush: "sk_at b cops s \<Longrightarrow> b \<le> flush_lsn cops wops s"
  by (auto simp: sk_at_def flush_lsn_def)

lemma th_compatible_up_to:
  assumes "th_compatible p s"
  shows "th_compatible p (up_to s e)"
proof -
  obtain z where z: "s = up_to s e @ z" using up_to_prefix by blast
  show ?thesis
    unfolding th_compatible_def
  proof (intro allI impI)
    fix i j
    assume ij: "i < length p" "j < length (up_to s e)" "tl_term (p ! i) = tl_term (up_to s e ! j)"
    then have "j < length s" "s ! j = up_to s e ! j" "take (Suc j) s = take (Suc j) (up_to s e)"
      using z by (metis trans_less_add1 length_append, metis nth_append, metis Suc_leI append_Nil2 diff_is_0_eq' take0 take_append)
    then show "take (Suc i) p = take (Suc j) (up_to s e)" using assms ij(1,3) by (metis th_compatible_def)
  qed
qed

lemma last_up_to_term:
  assumes "hist_at b s" and "b \<le> e"
  shows "tl_term (last (up_to s e)) \<le> tl_term (last s)"
proof -
  obtain z where z: "s = up_to s e @ z" using up_to_prefix by blast
  have ne: "up_to s e \<noteq> []" using hist_at_up_to [OF assms] by (simp add: hist_at_def)
  have "th_wf (up_to s e @ z)" using assms(1) z by (simp add: hist_at_def)
  then have "\<forall>y \<in> set z. tl_term (last (up_to s e)) < tl_term y" using ne by (auto simp: th_wf_append)
  then show ?thesis using z by (cases "z = []") (auto simp: less_imp_le, metis last_appendR last_in_set less_imp_le)
qed

context file_acceptor
begin

abbreviation cops :: "file_storage ctrl_ops" where "cops \<equiv> file_ctrl_ops codec"

abbreviation wops :: "phys_storage wal_ops" where "wops \<equiv> phys_wal_ops pgs"

lemma vote_view:
  assumes "file_sk_ok codec pgs s" and "process_msg cops wops (VoteRequest m) s = (Inr (Some (AVoteResponse v)), s')"
      and "sk_at b cops s" and "vp_vote_given v"
  shows "sk_term_of cops s < vr_term m" and "abs_acc b cops wops s' = abs_log b (vr_term m) (sk_history cops s) (flush_lsn cops wops s')"
    and "flush_lsn cops wops s \<le> flush_lsn cops wops s'" and "vp_flush_lsn v = flush_lsn cops wops s'"
    and "vp_term_history v = up_to (sk_history cops s) (flush_lsn cops wops s')"
proof -
  have "sk.ok s" using assms(1) by (simp add: file_sk_ok_def)
  from good_safe [OF assms(1) sk.vote_safe [OF this, of m]] assms(2,4)
  show "sk_term_of cops s < vr_term m" "abs_acc b cops wops s' = abs_log b (vr_term m) (sk_history cops s) (flush_lsn cops wops s')"
    "flush_lsn cops wops s \<le> flush_lsn cops wops s'" "vp_flush_lsn v = flush_lsn cops wops s'"
    "vp_term_history v = up_to (sk_history cops s) (flush_lsn cops wops s')"
    by (auto simp: abs_acc_def get_term_history_def)
qed

lemma append_view:
  assumes "file_sk_ok codec pgs s" and "process_msg cops wops m s = (Inr r, s')" and "msg_ok m"
      and "m = AppendRequest a \<or> m = NoFlushAppendRequest a"
  shows "sk_term_of cops s' = sk_term_of cops s" and "sk_history cops s' = sk_history cops s"
    and "flush_lsn cops wops s \<le> flush_lsn cops wops s'"
    and "ps_timeline_start_lsn (pers cops s') = ps_timeline_start_lsn (pers cops s)"
    and "ah_term (ar_h a) < sk_term_of cops s \<Longrightarrow> s' = s" and "ah_term (ar_h a) \<le> sk_term_of cops s"
    and "wal_ok (sk_wal_store s')"
proof -
  have ok: "sk.ok s" and len: "unat (ah_begin_lsn (ar_h a)) + length (ar_wal_data a) \<le> LSN_LIMIT"
    using assms(1,3,4) by (auto simp: file_sk_ok_def)
  obtain rf where "handle_append_request cops wops a rf s = (Inr r, s')" using assms(2,4) by auto
  from good_safe [OF assms(1) sk.append_safe [OF ok len, of rf] this]
  have good: "good s'" and ans: "append_answer cops wops a rf s r s'" and gr: "sk.grown s r s'"
    and t: "ah_term (ar_h a) \<le> sk_term_of cops s" by blast+
  show "sk_term_of cops s' = sk_term_of cops s" "sk_history cops s' = sk_history cops s"
    "flush_lsn cops wops s \<le> flush_lsn cops wops s'"
    "ps_timeline_start_lsn (pers cops s') = ps_timeline_start_lsn (pers cops s)"
    using gr by simp_all
  show "s' = s" if "ah_term (ar_h a) < sk_term_of cops s" using ans that by (simp add: append_answer_def)
  show "ah_term (ar_h a) \<le> sk_term_of cops s" by (rule t)
  show "wal_ok (sk_wal_store s')" using good by (simp add: file_sk_ok_def sk_inv_def)
qed

lemma elected_view:
  assumes "file_sk_ok codec pgs s" and "process_msg cops wops (Elected m) s = (Inr r, s')" and "msg_ok (Elected m)"
      and "sk_at b cops s" and "sk_term_of cops s \<le> pe_term m" and "hist_at b (pe_term_history m)"
      and "tl_term (last (pe_term_history m)) = pe_term m" and "th_compatible (pe_term_history m) (sk_history cops s)"
  obtains c :: term_lsn where "pe_start_streaming_at m = tl_lsn c"
    and "snd (FindHighestCommonPoint (abs_history b (pe_term_history m))
          (AcceptorTermHistory (abs_log b t (sk_history cops s) (flush_lsn cops wops s))) (abs_lsn b (flush_lsn cops wops s)))
        = abs_lsn b (tl_lsn c)"
    and "truncate_acc (abs_history b (pe_term_history m)) (abs_lsn b (tl_lsn c))
          (abs_log b (pe_term m) (sk_history cops s) (flush_lsn cops wops s)) = abs_acc b cops wops s'"
proof -
  have ok: "sk.ok s" and pos: "pe_start_streaming_at m \<noteq> 0" "unat (pe_start_streaming_at m) \<le> LSN_LIMIT"
    using assms(1,3) by (simp_all add: file_sk_ok_def)
  let ?h = "sk_history cops s" and ?e = "flush_lsn cops wops s" and ?p = "pe_term_history m"
  have h: "hist_at b ?h" "b \<le> ?e" "b \<noteq> 0" "ps_timeline_start_lsn (pers cops s) = b" "tl_term (last ?h) \<le> pe_term m"
    using assms(4,5) sk_at_flush by (auto simp: sk_at_def)
  have s': "sk_term_of cops s' = pe_term m" "sk_history cops s' = ?p"
      "wal_flush_lsn wops (sk_wal_store s') = pe_start_streaming_at m" "ahead (pers cops s) (pers cops s')"
      and pt: "agreed_point cops wops ?p s (pe_start_streaming_at m)"
    using good_safe [OF assms(1) sk.elected_safe [OF ok pos]] assms(2,5) by (auto simp: max_def sk_le_def)
  have le: "tl_term (last (up_to ?h ?e)) \<le> tl_term (last ?p)"
    using last_up_to_term [OF h(1,2)] h(5) assms(7) by simp
  obtain c where c: "find_highest_common_point ?p (up_to ?h ?e) ?e = Inr (Some c)" "b \<le> tl_lsn c"
      "snd (FindHighestCommonPoint (abs_history b ?p) (AcceptorTermHistory (abs_log b (pe_term m) ?h ?e)) (abs_lsn b ?e)) = abs_lsn b (tl_lsn c)"
      "truncate_acc (abs_history b ?p) (abs_lsn b (tl_lsn c)) (abs_log b (pe_term m) ?h ?e) = abs_log b (pe_term m) ?p (tl_lsn c)"
    using truncate_refines [OF assms(6) h(1,2) th_compatible_up_to [OF assms(8)] le] by blast
  have start: "pe_start_streaming_at m = tl_lsn c" using pt c(1) by (simp add: agreed_point_def get_term_history_def)
  have "flush_lsn cops wops s' = tl_lsn c"
    using s'(3,4) h(3,4) c(2) start by (auto simp: flush_lsn_def ahead_def max_def)
  then have "abs_acc b cops wops s' = abs_log b (pe_term m) ?p (tl_lsn c)" using s'(1,2) by (simp add: abs_acc_def)
  moreover have "AcceptorTermHistory (abs_log b t ?h ?e) = AcceptorTermHistory (abs_log b (pe_term m) ?h ?e)"
    using AcceptorTermHistory_abs [OF h(1,2)] by simp
  ultimately show ?thesis using that [OF start] c(3,4) by simp
qed

end

section \<open>Simulation\<close>

lemma abs_acc_term: "abs_acc b cops wops s = abs_log b (sk_term_of cops s) (sk_history cops s) (flush_lsn cops wops s)"
  by (simp add: abs_acc_def)

lemma abs_log_term [simp]: "(abs_log b t th e)\<lparr>a_term := unat t'\<rparr> = abs_log b t' th e" "a_term (abs_log b t th e) = unat t"
  "a_history (abs_log b t th e) = abs_history b th"
  by (simp_all add: abs_log_def)

text \<open>
  C5: The safekeeper votes as the specification says. When it gives its vote, the proposer
  that campaigns in that term can take the action \<open>Vote\<close> in every state of the specification
  in which the acceptor is as the safekeeper with the log it has flushed for the vote; the
  action gives the acceptor the state the safekeeper is left in, and the proposer receives the
  history and the end of the log that the response carries.
\<close>

theorem vote_refines:
  assumes "control_codec codec" and "wal_bindings pgs" and "file_sk_ok codec pgs s"
      and "process_msg (file_ctrl_ops codec) (phys_wal_ops pgs) (VoteRequest m) s = (Inr (Some (AVoteResponse v)), s')"
      and "vp_vote_given v" and "sk_at b (file_ctrl_ops codec) s"
      and "p_phase (prop_state S p) = Campaign" and "p_term (prop_state S p) = unat (vr_term m)"
      and "acc_state S a = abs_log b (sk_term_of (file_ctrl_ops codec) s) (sk_history (file_ctrl_ops codec) s)
             (flush_lsn (file_ctrl_ops codec) (phys_wal_ops pgs) s')"
  shows "\<exists>S'. Vote p a S = Some S' \<and> acc_state S' a = abs_acc b (file_ctrl_ops codec) (phys_wal_ops pgs) s'
     \<and> p_votes (prop_state S' p) a
         = Some \<lparr>v_history = abs_history b (vp_term_history v), v_flush = abs_lsn b (vp_flush_lsn v)\<rparr>"
proof -
  have "file_acceptor codec pgs" using assms(1,2) by (rule file_acceptor.intro)
  note v = file_acceptor.vote_view [OF this assms(3,4,6,5)]
  have h: "hist_at b (sk_history (file_ctrl_ops codec) s)" "b \<le> flush_lsn (file_ctrl_ops codec) (phys_wal_ops pgs) s'"
    using assms(6) sk_at_flush [OF assms(6)] v(3) order_trans by (simp_all add: sk_at_def) blast
  have "a_term (acc_state S a) < p_term (prop_state S p)" using v(1) by (simp add: assms(8,9) word_less_nat_alt)
  then show ?thesis
    using assms(7-9) v(2,4,5) AcceptorTermHistory_abs [OF h] by (simp add: Vote_def)
qed

text \<open>
  C4: The safekeeper follows an election as the specification says. A proposer that leads in
  the term of the message with the history in it can, in every state of the specification in
  which the acceptor is as the safekeeper, raise the acceptor's term by \<open>UpdateTerm\<close> where
  it is lower and take the action \<open>TruncateWal\<close>; the acceptor is then as the safekeeper that
  has handled the message, and the proposer sends from the position in the message.
\<close>

theorem elected_refines:
  assumes "control_codec codec" and "wal_bindings pgs" and "file_sk_ok codec pgs s"
      and "process_msg (file_ctrl_ops codec) (phys_wal_ops pgs) (Elected m) s = (Inr r, s')"
      and "msg_ok (Elected m)" and "sk_at b (file_ctrl_ops codec) s" and "sk_term_of (file_ctrl_ops codec) s \<le> pe_term m"
      and "hist_at b (pe_term_history m)" and "tl_term (last (pe_term_history m)) = pe_term m"
      and "th_compatible (pe_term_history m) (sk_history (file_ctrl_ops codec) s)"
      and "p_phase (prop_state S p) = Leader" and "p_term (prop_state S p) = unat (pe_term m)"
      and "p_history (prop_state S p) = abs_history b (pe_term_history m)"
      and "acc_state S a = abs_acc b (file_ctrl_ops codec) (phys_wal_ops pgs) s"
  shows "\<exists>S1 S'. (if a_term (acc_state S a) < p_term (prop_state S p) then UpdateTerm p a S = Some S1 else S1 = S)
     \<and> TruncateWal p a S1 = Some S' \<and> acc_state S' a = abs_acc b (file_ctrl_ops codec) (phys_wal_ops pgs) s'
     \<and> p_next (prop_state S' p) a = Some (abs_lsn b (pe_start_streaming_at m))"
proof -
  let ?h = "sk_history (file_ctrl_ops codec) s" and ?e = "flush_lsn (file_ctrl_ops codec) (phys_wal_ops pgs) s"
  have "file_acceptor codec pgs" using assms(1,2) by (rule file_acceptor.intro)
  from file_acceptor.elected_view [OF this assms(3,4,5,6,7,8,9,10)]
  obtain c :: term_lsn where c: "pe_start_streaming_at m = tl_lsn c"
    "snd (FindHighestCommonPoint (abs_history b (pe_term_history m)) (AcceptorTermHistory (abs_log b (pe_term m) ?h ?e)) (abs_lsn b ?e))
        = abs_lsn b (tl_lsn c)"
    "truncate_acc (abs_history b (pe_term_history m)) (abs_lsn b (tl_lsn c)) (abs_log b (pe_term m) ?h ?e)
        = abs_acc b (file_ctrl_ops codec) (phys_wal_ops pgs) s'"
    by blast
  define S1 where "S1 = upd_acc a (\<lambda>Q. Q\<lparr>a_term := unat (pe_term m)\<rparr>) S"
  have acc: "acc_state S a = abs_log b (sk_term_of (file_ctrl_ops codec) s) ?h ?e" using assms(14) by (simp add: abs_acc_term)
  then have S1: "acc_state S1 a = abs_log b (pe_term m) ?h ?e" "prop_state S1 = prop_state S" by (simp_all add: S1_def)
  have "if a_term (acc_state S a) < p_term (prop_state S p) then UpdateTerm p a S = Some S1 else S1 = S"
  proof (cases "sk_term_of (file_ctrl_ops codec) s < pe_term m")
    case True
    then show ?thesis using assms(11,12) acc by (simp add: UpdateTerm_def S1_def word_less_nat_alt)
  next
    case False
    then have "sk_term_of (file_ctrl_ops codec) s = pe_term m" using assms(7) by simp
    then have "(acc_state S)(a := (acc_state S a)\<lparr>a_term := unat (pe_term m)\<rparr>) = acc_state S" using acc by auto
    then show ?thesis using assms(12) acc \<open>sk_term_of _ s = pe_term m\<close> by (simp add: S1_def upd_acc_def)
  qed
  moreover have "\<exists>S'. TruncateWal p a S1 = Some S' \<and> acc_state S' a = abs_acc b (file_ctrl_ops codec) (phys_wal_ops pgs) s'
     \<and> p_next (prop_state S' p) a = Some (abs_lsn b (pe_start_streaming_at m))"
    using assms(11-13) c by (simp add: TruncateWal_def S1)
  ultimately show ?thesis by blast
qed

text \<open>A leader sends the entries of its log one by one.\<close>

lemma append_entries:
  assumes "p_phase (prop_state S p) = Leader" and "a_term (acc_state S a) = p_term (prop_state S p)"
      and "p_wal (prop_state S p) = log_of th (length (p_wal (prop_state S p)))"
      and "p_next (prop_state S p) a = Some (k + 1)" and "a_wal (acc_state S a) = log_of th k"
      and "k + n \<le> length (p_wal (prop_state S p))"
  shows "\<exists>S'. ((\<lambda>X Y. AppendEntry p a X = Some Y) ^^ n) S S'
     \<and> acc_state S' a = (acc_state S a)\<lparr>a_wal := log_of th (k + n)\<rparr>
     \<and> prop_state S' p = (prop_state S p)\<lparr>p_next := (p_next (prop_state S p))(a \<mapsto> k + n + 1)\<rparr>"
  using assms(6)
proof (induction n)
  case 0
  have "(p_next (prop_state S p))(a \<mapsto> k + 1) = p_next (prop_state S p)" using assms(4) by auto
  then show ?case using assms(5) by (auto intro!: exI [of _ S])
next
  case (Suc n)
  then obtain S1 where S1: "((\<lambda>X Y. AppendEntry p a X = Some Y) ^^ n) S S1"
      "acc_state S1 a = (acc_state S a)\<lparr>a_wal := log_of th (k + n)\<rparr>"
      "prop_state S1 p = (prop_state S p)\<lparr>p_next := (p_next (prop_state S p))(a \<mapsto> k + n + 1)\<rparr>"
    using Suc_leD by (metis add_Suc_right)
  have "p_wal (prop_state S p) ! (k + n) = entry_term th (Suc (k + n))"
    using Suc.prems by (subst assms(3)) (simp add: log_of_nth)
  then have "\<exists>S'. AppendEntry p a S1 = Some S' \<and> acc_state S' a = (acc_state S a)\<lparr>a_wal := log_of th (k + Suc n)\<rparr>
     \<and> prop_state S' p = (prop_state S p)\<lparr>p_next := (p_next (prop_state S p))(a \<mapsto> k + Suc n + 1)\<rparr>"
    using assms(1,2) Suc.prems S1(2,3) by (simp add: AppendEntry_def log_of_Suc)
  then show ?case using relpowp_Suc_I [OF S1(1)] by blast
qed

text \<open>An append request of the current term, step by step.\<close>

lemma append_run:
  assumes "handle_append_request cops (phys_wal_ops pgs) x rf s = (Inr r, s')" and "\<not> ah_term (ar_h x) < sk_term_of cops s"
  obtains w where "\<not> ah_begin_lsn (ar_h x) < pst_write_lsn (sk_wal_store s)"
    and "\<not> (pst_write_lsn (sk_wal_store s) < ah_begin_lsn (ar_h x) \<and> pst_write_lsn (sk_wal_store s) \<noteq> 0)"
    and "if ar_wal_data x = [] then w = sk_wal_store s
         else write_wal pgs (ah_begin_lsn (ar_h x)) (ar_wal_data x) (sk_wal_store s) = (Inr (), w)"
    and "if rf then flush_wal w = (Inr (), sk_wal_store s') else sk_wal_store s' = w"
proof -
  have commit: "sk_wal_store (snd (whenp b (update_commit_lsn cops wops c) u)) = sk_wal_store u"
    for b c wops and u :: "('a, phys_storage) safekeeper"
  proof -
    have "keeps (\<lambda>v. sk_wal_store v = sk_wal_store u) (whenp b (update_commit_lsn cops wops c))"
      unfolding update_commit_lsn_def Let_def by (intro keeps) (auto simp: keeps_def in_state_def zoom_def split: prod.split sum.split)
    then show ?thesis by (simp add: keeps_def)
  qed
  have wal: "in_wal m u = (Inr y, v) \<Longrightarrow> m (sk_wal_store u) = (Inr y, sk_wal_store v)"
    for m :: "(phys_storage, wal_error, unit) prog" and u v :: "('a, phys_storage) safekeeper" and y
    by (auto simp: in_wal_def zoom_def split: prod.splits sum.splits)
  from assms obtain u1 u2 u3 where u:
      "\<not> ah_begin_lsn (ar_h x) < pst_write_lsn (sk_wal_store s)"
      "\<not> (pst_write_lsn (sk_wal_store s) < ah_begin_lsn (ar_h x) \<and> pst_write_lsn (sk_wal_store s) \<noteq> 0)"
      "whenp (ar_wal_data x \<noteq> []) (in_wal (write_wal pgs (ah_begin_lsn (ar_h x)) (ar_wal_data x))) s = (Inr (), u1)"
      "whenp rf (in_wal flush_wal) u1 = (Inr (), u2)"
      "whenp (ah_commit_lsn (ar_h x) \<noteq> 0) (update_commit_lsn cops (phys_wal_ops pgs) (ah_commit_lsn (ar_h x))) u2 = (Inr (), u3)"
      "s' = raise_peer_horizon (ah_truncate_lsn (ar_h x)) u3"
    by (auto simp: handle_append_request_def append_in_term_def phys_wal_ops_def andthen_eq_Inr reads_def ensure_def
        throw_def ret_def modify_def split: if_splits)
  have "sk_wal_store s' = sk_wal_store u3" using u(6) by (simp add: raise_peer_horizon_def)
  also have "\<dots> = sk_wal_store u2" using commit [of "ah_commit_lsn (ar_h x) \<noteq> 0" _ _ u2] u(5) by (metis snd_conv)
  finally have "sk_wal_store s' = sk_wal_store u2" .
  then show ?thesis
    using that [of "sk_wal_store u1"] u(1-4) wal by (auto simp: whenp_def ret_def split: if_splits)
qed

text \<open>What the request does to the files.\<close>

lemma append_files:
  assumes "wal_ok (sk_wal_store s)" and "wal_files_ok (sk_wal_store s)"
      and "unat (ah_begin_lsn (ar_h x)) + length (ar_wal_data x) \<le> LSN_LIMIT"
      and "handle_append_request cops (phys_wal_ops pgs) x rf s = (Inr r, s')" and "\<not> ah_term (ar_h x) < sk_term_of cops s"
  shows "ah_begin_lsn (ar_h x) = pst_write_lsn (sk_wal_store s) \<or> pst_write_lsn (sk_wal_store s) = 0 \<and> ar_wal_data x = []"
    and "unat (pst_write_lsn (sk_wal_store s')) = unat (pst_write_lsn (sk_wal_store s)) + length (ar_wal_data x)"
    and "wal_files_ok (sk_wal_store s')"
    and "bytes_at (pst_fs (sk_wal_store s')) (unat (ah_begin_lsn (ar_h x))) (ar_wal_data x)"
    and "kept_outside (unat (ah_begin_lsn (ar_h x))) (length (ar_wal_data x)) (pst_fs (sk_wal_store s)) (pst_fs (sk_wal_store s'))"
proof -
  let ?b = "ah_begin_lsn (ar_h x)" and ?d = "ar_wal_data x" and ?w = "sk_wal_store s" and ?w' = "sk_wal_store s'"
  obtain w where run: "\<not> ?b < pst_write_lsn ?w" "\<not> (pst_write_lsn ?w < ?b \<and> pst_write_lsn ?w \<noteq> 0)"
      "if ?d = [] then w = ?w else write_wal pgs ?b ?d ?w = (Inr (), w)"
      "if rf then flush_wal w = (Inr (), ?w') else ?w' = w"
    using append_run [OF assms(4,5)] .
  have w: "(?b = pst_write_lsn ?w \<or> pst_write_lsn ?w = 0 \<and> ?d = []) \<and> unat (pst_write_lsn w) = unat (pst_write_lsn ?w) + length ?d
     \<and> wal_files_ok w \<and> bytes_at (pst_fs w) (unat ?b) ?d \<and> kept_outside (unat ?b) (length ?d) (pst_fs ?w) (pst_fs w)"
  proof (cases "?d = []")
    case True
    then show ?thesis using run(1-3) assms(2) by (auto simp: bytes_at_def kept_outside_def)
  next
    case False
    then have "write_wal pgs ?b ?d ?w = (Inr (), w)" using run(3) by simp
    from write_wal_bytes [OF assms(1-3) this] show ?thesis by simp
  qed
  have w': "wal_files_ok ?w' \<and> pst_write_lsn ?w' = pst_write_lsn w \<and> data_of ?w' = data_of w"
    using run(4) w flush_wal_bytes [of w ?w'] by (auto split: if_splits)
  then have "wal_byte (pst_fs ?w') = wal_byte (pst_fs w)" by (intro wal_byte_data) simp
  then show "?b = pst_write_lsn ?w \<or> pst_write_lsn ?w = 0 \<and> ?d = []"
    "unat (pst_write_lsn ?w') = unat (pst_write_lsn ?w) + length ?d" "wal_files_ok ?w'" "bytes_at (pst_fs ?w') (unat ?b) ?d"
    "kept_outside (unat ?b) (length ?d) (pst_fs ?w) (pst_fs ?w')"
    using w w' by (simp_all add: bytes_at_def kept_outside_def)
qed

text \<open>The flushed position stays within the segment of what was sent.\<close>

lemma append_flush_bound:
  assumes "wal_ok w'" and "ps_timeline_start_lsn (pers cops s') = ps_timeline_start_lsn (pers cops s)"
      and "w' = sk_wal_store s'" and "unat (pst_write_lsn w') \<le> e"
  shows "unat (flush_lsn cops (phys_wal_ops pgs) s') \<le> max (unat (flush_lsn cops (phys_wal_ops pgs) s)) (seg_up e)"
proof -
  have "unat (pst_flush_record_lsn w') \<le> seg_up (unat (pst_write_lsn w'))"
    using assms(1) by (auto simp: wal_ok_def word_le_nat_alt)
  also have "\<dots> \<le> seg_up e" using assms(4) by (rule seg_up_mono)
  finally show ?thesis
    using assms(2,3) by (auto simp: flush_lsn_def phys_wal_ops_def max_def word_le_nat_alt)
qed

text \<open>
  C6: The safekeeper appends as the specification says, and its files hold what was sent. A
  request of an earlier term leaves the safekeeper as it is, and the specification has no
  \<open>AppendEntry\<close> of such a leader. A request that is accepted is of the safekeeper's term and
  starts where its WAL ends (or is a heartbeat before any WAL); afterwards the segment files
  hold the data at its position, bytes outside it are unchanged in the segments before it,
  and in every segment when no operation of the disk fails, and the write position is at the
  end of the data. The acceptor that is as the safekeeper before the request comes to be as
  the safekeeper after it by one \<open>AppendEntry\<close> of the leader of its term for every position
  newly flushed, provided the log of the leader reaches to the end of the segment of what it
  sends.
\<close>

theorem append_refines:
  assumes "control_codec codec" and "wal_bindings pgs" and "file_sk_ok codec pgs s" and "wal_files_ok (sk_wal_store s)"
      and "process_msg (file_ctrl_ops codec) (phys_wal_ops pgs) m s = (Inr r, s')" and "msg_ok m"
      and "m = AppendRequest x \<or> m = NoFlushAppendRequest x"
      and "p_phase (prop_state S p) = Leader" and "p_term (prop_state S p) = unat (ah_term (ar_h x))"
      and "p_wal (prop_state S p) = log_of (abs_history b (sk_history (file_ctrl_ops codec) s)) (length (p_wal (prop_state S p)))"
      and "p_next (prop_state S p) a = Some (abs_lsn b (flush_lsn (file_ctrl_ops codec) (phys_wal_ops pgs) s))"
      and "abs_lsn b (flush_lsn (file_ctrl_ops codec) (phys_wal_ops pgs) s) \<le> length (p_wal (prop_state S p)) + 1"
      and "seg_up (unat (ah_begin_lsn (ar_h x)) + length (ar_wal_data x)) \<le> unat b + length (p_wal (prop_state S p))"
      and "acc_state S a = abs_acc b (file_ctrl_ops codec) (phys_wal_ops pgs) s"
  shows "if ah_term (ar_h x) < sk_term_of (file_ctrl_ops codec) s then s' = s \<and> AppendEntry p a S = None
    else ah_term (ar_h x) = sk_term_of (file_ctrl_ops codec) s
     \<and> (ah_begin_lsn (ar_h x) = pst_write_lsn (sk_wal_store s) \<or> pst_write_lsn (sk_wal_store s) = 0 \<and> ar_wal_data x = [])
     \<and> unat (pst_write_lsn (sk_wal_store s')) = unat (pst_write_lsn (sk_wal_store s)) + length (ar_wal_data x)
     \<and> wal_files_ok (sk_wal_store s')
     \<and> bytes_at (pst_fs (sk_wal_store s')) (unat (ah_begin_lsn (ar_h x))) (ar_wal_data x)
     \<and> kept_outside (unat (ah_begin_lsn (ar_h x))) (length (ar_wal_data x)) (pst_fs (sk_wal_store s)) (pst_fs (sk_wal_store s'))
     \<and> (\<exists>S'. ((\<lambda>X Y. AppendEntry p a X = Some Y)
           ^^ (abs_lsn b (flush_lsn (file_ctrl_ops codec) (phys_wal_ops pgs) s')
               - abs_lsn b (flush_lsn (file_ctrl_ops codec) (phys_wal_ops pgs) s))) S S'
       \<and> acc_state S' a = abs_acc b (file_ctrl_ops codec) (phys_wal_ops pgs) s'
       \<and> p_next (prop_state S' p) a = Some (abs_lsn b (flush_lsn (file_ctrl_ops codec) (phys_wal_ops pgs) s')))"
proof -
  let ?C = "file_ctrl_ops codec" and ?W = "phys_wal_ops pgs"
  let ?e = "flush_lsn ?C ?W s" and ?e' = "flush_lsn ?C ?W s'" and ?h = "abs_history b (sk_history ?C s)"
  have "file_acceptor codec pgs" using assms(1,2) by (rule file_acceptor.intro)
  note v = file_acceptor.append_view [OF this assms(3,5,6,7)]
  have acc: "acc_state S a = abs_log b (sk_term_of ?C s) (sk_history ?C s) ?e" using assms(14) by (simp add: abs_acc_term)
  show ?thesis
  proof (cases "ah_term (ar_h x) < sk_term_of ?C s")
    case True
    then have "AppendEntry p a S = None" using acc assms(9) by (simp add: AppendEntry_def word_less_nat_alt)
    then show ?thesis using v(5) True by simp
  next
    case False
    then have t: "ah_term (ar_h x) = sk_term_of ?C s" using v(6) by simp
    obtain rf where "handle_append_request ?C ?W x rf s = (Inr r, s')" using assms(5,7) by auto
    moreover have "wal_ok (sk_wal_store s)" "unat (ah_begin_lsn (ar_h x)) + length (ar_wal_data x) \<le> LSN_LIMIT"
      using assms(3,6,7) by (auto simp: file_sk_ok_def sk_inv_def)
    ultimately have f: "ah_begin_lsn (ar_h x) = pst_write_lsn (sk_wal_store s) \<or> pst_write_lsn (sk_wal_store s) = 0 \<and> ar_wal_data x = []"
        "unat (pst_write_lsn (sk_wal_store s')) = unat (pst_write_lsn (sk_wal_store s)) + length (ar_wal_data x)"
        "wal_files_ok (sk_wal_store s')"
        "bytes_at (pst_fs (sk_wal_store s')) (unat (ah_begin_lsn (ar_h x))) (ar_wal_data x)"
        "kept_outside (unat (ah_begin_lsn (ar_h x))) (length (ar_wal_data x)) (pst_fs (sk_wal_store s)) (pst_fs (sk_wal_store s'))"
      using append_files [OF _ assms(4) _ _ False] by blast+
    have le: "abs_lsn b ?e \<le> abs_lsn b ?e'" using v(3) by (simp add: abs_lsn_def word_le_nat_alt diff_le_mono)
    have pos: "abs_lsn b ?e = (abs_lsn b ?e - 1) + 1" "abs_lsn b ?e' = (abs_lsn b ?e' - 1) + 1" by (simp_all add: abs_lsn_def)
    have "unat ?e' \<le> max (unat ?e) (seg_up (unat (ah_begin_lsn (ar_h x)) + length (ar_wal_data x)))"
      by (rule append_flush_bound [OF v(7,4) refl]) (use f(1,2) in auto)
    then have top: "abs_lsn b ?e' \<le> length (p_wal (prop_state S p)) + 1"
      using assms(12,13) by (auto simp: abs_lsn_def max_def split: if_splits)
    have "\<exists>S'. ((\<lambda>X Y. AppendEntry p a X = Some Y) ^^ (abs_lsn b ?e' - abs_lsn b ?e)) S S'
       \<and> acc_state S' a = (acc_state S a)\<lparr>a_wal := log_of ?h ((abs_lsn b ?e - 1) + (abs_lsn b ?e' - abs_lsn b ?e))\<rparr>
       \<and> prop_state S' p = (prop_state S p)\<lparr>p_next := (p_next (prop_state S p))
            (a \<mapsto> (abs_lsn b ?e - 1) + (abs_lsn b ?e' - abs_lsn b ?e) + 1)\<rparr>"
      by (rule append_entries) (use assms(8-11) t top acc le pos in \<open>auto simp: abs_log_def\<close>)
    moreover have "(abs_lsn b ?e - 1) + (abs_lsn b ?e' - abs_lsn b ?e) = abs_lsn b ?e' - 1" using le pos by linarith
    moreover have "(acc_state S a)\<lparr>a_wal := log_of ?h (abs_lsn b ?e' - 1)\<rparr> = abs_acc b ?C ?W s'"
      unfolding acc abs_acc_term v(1,2) by (simp add: abs_log_def)
    ultimately show ?thesis using pos(2) f t False by auto
  qed
qed

section \<open>Samples\<close>

text \<open>A state of the specification with one proposer state and one acceptor state.\<close>

definition spec_with :: "nat tla_prop \<Rightarrow> tla_acc \<Rightarrow> (nat, nat) tla" where
  "spec_with P Q = \<lparr>prop_state = (\<lambda>_. P), acc_state = (\<lambda>_. Q), committed = {}, elected_history = (\<lambda>_. 0)\<rparr>"

lemma spec_with_simps [simp]: "prop_state (spec_with P Q) p = P" "acc_state (spec_with P Q) a = Q"
  by (simp_all add: spec_with_def)

lemma sample_at:
  assumes "pers sample_ctrl s = sample_state sample_commit"
  shows "sk_at sample_commit sample_ctrl s"
  using assms by (simp add: sk_at_def sample_history hist_at_def th_wf_def sample_state_server)

theorem vote_refines_witness:
  "\<exists>s v s' S S'. process_msg sample_ctrl sample_wal (VoteRequest (vote_for 5)) s = (Inr (Some (AVoteResponse v)), s')
     \<and> vp_vote_given v \<and> Vote (0 :: nat) (0 :: nat) S = Some S'
     \<and> acc_state S' 0 = abs_acc sample_commit sample_ctrl sample_wal s'"
proof -
  obtain s where s: "file_sk_ok plain_codec (\<lambda>_. sample_pg) s" "pers sample_ctrl s = sample_state sample_commit"
    "fs_faults (fst_fs (ts_pers (sk_state s))) = []"
    "pst_flush_record_lsn (sk_wal_store s) = pst_write_record_lsn (sk_wal_store s)"
    using sample_disk sample_start by blast
  have dur: "cf_durable plain_codec (ts_pers (sk_state s)) {r. ahead (pers sample_ctrl s) r}"
    using s(1) by (simp add: file_sk_ok_def sk_inv_def)
  obtain v s' where v: "process_msg sample_ctrl sample_wal (VoteRequest (vote_for 5)) s
      = (Inr (Some (AVoteResponse v)), s')" "vp_vote_given v"
    using sample_vote [OF _ _ _ s(4), of 5] s(2,3) durable_any [OF dur] by (auto simp: sample_state_server)
  define S :: "(nat, nat) tla" where "S = spec_with (new_prop 5)
    (abs_log sample_commit (sk_term_of sample_ctrl s) (sk_history sample_ctrl s) (flush_lsn sample_ctrl sample_wal s'))"
  have "p_phase (prop_state S 0) = Campaign" "p_term (prop_state S 0) = unat (vr_term (vote_for 5))"
      "acc_state S 0 = abs_log sample_commit (sk_term_of sample_ctrl s) (sk_history sample_ctrl s)
         (flush_lsn sample_ctrl sample_wal s')"
    by (simp_all add: S_def new_prop_def vote_for_def)
  from vote_refines [OF plain.control_codec_axioms sample.wal_bindings_axioms s(1) v sample_at [OF s(2)] this] v
  show ?thesis by blast
qed

theorem elected_refines_witness:
  "\<exists>s s' S S1 S'. process_msg sample_ctrl sample_wal (Elected sample_elected) s = (Inr None, s')
     \<and> UpdateTerm (0 :: nat) (0 :: nat) S = Some S1 \<and> TruncateWal 0 0 S1 = Some S'
     \<and> acc_state S' 0 = abs_acc sample_commit sample_ctrl sample_wal s'"
proof -
  obtain f where f: "sample_ctl f" using sample_disk by blast
  obtain c where c: "fst_state c = sample_state sample_commit"
    "cf_durable plain_codec c {sample_state sample_commit}" "fs_faults (fst_fs c) = []"
    using restore_after_crash [OF f crashed_settled] by auto
  obtain s s' where s: "file_sk_ok plain_codec (\<lambda>_. sample_pg) s" "pers sample_ctrl s = sample_state sample_commit"
    "process_msg sample_ctrl sample_wal (Elected sample_elected) s = (Inr None, s')"
    using sample_adopts [OF c] by blast
  have m: "msg_ok (Elected sample_elected)" "pe_term sample_elected = 1" "hist_at sample_commit (pe_term_history sample_elected)"
      "tl_term (last (pe_term_history sample_elected)) = pe_term sample_elected"
      "th_compatible (pe_term_history sample_elected) [\<lparr>tl_term = 0, tl_lsn = sample_commit\<rparr>]"
    by (simp_all add: sample_elected_def LSN_LIMIT_def hist_at_def th_wf_def th_compatible_def less_Suc_eq)
  have t: "sk_term_of sample_ctrl s = 0" "sk_history sample_ctrl s = [\<lparr>tl_term = 0, tl_lsn = sample_commit\<rparr>]"
    using s(2) by (simp_all add: sample_state_server sample_history)
  define S :: "(nat, nat) tla" where "S = spec_with
    ((new_prop 1)\<lparr>p_phase := Leader, p_history := abs_history sample_commit (pe_term_history sample_elected)\<rparr>)
    (abs_acc sample_commit sample_ctrl sample_wal s)"
  have S: "p_phase (prop_state S 0) = Leader" "p_term (prop_state S 0) = unat (pe_term sample_elected)"
      "p_history (prop_state S 0) = abs_history sample_commit (pe_term_history sample_elected)"
      "acc_state S 0 = abs_acc sample_commit sample_ctrl sample_wal s"
    by (simp_all add: S_def new_prop_def m(2))
  have "a_term (acc_state S 0) < p_term (prop_state S 0)" by (simp add: S(2,4) abs_acc_term t m(2))
  moreover have "sk_term_of sample_ctrl s \<le> pe_term sample_elected"
      "th_compatible (pe_term_history sample_elected) (sk_history sample_ctrl s)" using t m(2,5) by simp_all
  note elected_refines [OF plain.control_codec_axioms sample.wal_bindings_axioms s(1,3) m(1) sample_at [OF s(2)]
      this(1) m(3,4) this(2) S]
  ultimately have "\<exists>S1 S'. UpdateTerm 0 0 S = Some S1 \<and> TruncateWal 0 0 S1 = Some S'
     \<and> acc_state S' 0 = abs_acc sample_commit sample_ctrl sample_wal s'" by (auto split: if_splits)
  then show ?thesis using s(3) by blast
qed

text \<open>A storage at the end of its WAL, past the truncation of its term, and a record for it.\<close>

definition sample_live :: phys_storage where
  "sample_live = sample_storage\<lparr>pst_pending_wal_truncation := False\<rparr>"

lemma drain_fold:
  "drain pgs f d (fold (\<lambda>(l, b). f l b) acc s)
     = (case drain pgs (\<lambda>l b acc. acc @ [(l, b)]) d acc of (r, d', recs) \<Rightarrow> (r, d', fold (\<lambda>(l, b). f l b) recs s))"
proof (induction pgs "\<lambda>(l :: lsn) (b :: bytes) acc. acc @ [(l, b)]" d acc rule: drain.induct)
  case (1 pgs d acc)
  show ?case
    unfolding drain.simps [of pgs _ d] using 1
    by (auto split: prod.split sum.split option.split)
qed

lemma sample_write:
  "\<exists>f. write_exact sample_commit sample_record sample_live
      = (Inr (), sample_live\<lparr>pst_fs := f, pst_write_lsn := 0x2000040, pst_file := Some (0, 64)\<rparr>) \<and> fs_faults f = []"
proof -
  have paths: "wal_file_paths 2 WAL_SEGMENT_SIZE
      = (''000000010000000000000002'', ''000000010000000000000002.partial'')" by code_simp
  have seg: "segment_number sample_commit WAL_SEGMENT_SIZE = 2" "unat (segment_offset sample_commit WAL_SEGMENT_SIZE) = 40"
    "unat WAL_SEGMENT_SIZE = 16777216" "lsn_add sample_commit 24 = Some 0x2000040" "WAL_SEGMENT_SIZE \<noteq> 0" by code_simp+
  have len: "length sample_record = 24" "sample_record \<noteq> []" by code_simp+
  moreover have "fs_faults (upd_file i g f) = fs_faults f" for i g f by (simp add: upd_file_def)
  ultimately show ?thesis
    by (simp add: write_exact_def write_segments.simps [of "sample_record"] write_segments.simps [of "[]"]
        write_in_segment_def sample_live_def sample_storage_def sample_dir_def prog_defs
        take_file_def zoom_def open_or_create_def seg paths in_fs_def file_open_def attempt_def file_write_def file_seek_def file_flush_def
        draw_def Let_def)
qed

lemma sample_ingest:
  assumes "pst_write_record_lsn w = sample_commit" and "pst_flush_lsn w = sample_commit" and "pst_flush_record_lsn w = sample_commit"
      and "pst_decoder w = decoder_new sample_commit PG17"
  shows "\<exists>d. ingest_wal (\<lambda>_. sample_pg) sample_commit sample_record w
    = (Inr (), w\<lparr>pst_flush_record_lsn := sample_commit, pst_write_record_lsn := 0x2000040, pst_decoder := d\<rparr>)"
proof -
  let ?d = "feed_bytes sample_record (decoder_new sample_commit PG17)"
  have "case decode_records (\<lambda>_. sample_pg) ?d of (r, d, recs) \<Rightarrow> r = Drained \<and> recs = [(0x2000040, sample_record)]"
    by code_simp
  then obtain d where "drain (\<lambda>_. sample_pg) (\<lambda>l b acc. acc @ [(l, b)]) ?d [] = (Drained, d, [(0x2000040, sample_record)])"
    unfolding decode_records_def by (auto split: prod.splits)
  then have "drain (\<lambda>_. sample_pg) note_record ?d v = (Drained, d, note_record 0x2000040 sample_record v)" for v
    using drain_fold [of "\<lambda>_. sample_pg" note_record ?d "[]" v] by simp
  moreover have "available (decoder_new sample_commit PG17) = Some sample_commit" by code_simp
  ultimately show ?thesis
    using assms by (auto simp: ingest_wal_def prog_defs drain_records_def note_record_def)
qed

lemma sample_appends:
  "\<exists>f v d. write_wal (\<lambda>_. sample_pg) sample_commit sample_record sample_live = (Inr (), v)
     \<and> flush_wal v = (Inr (), v\<lparr>pst_fs := f, pst_flush_lsn := 0x2000040, pst_flush_record_lsn := 0x2000040\<rparr>)
     \<and> v = sample_live\<lparr>pst_fs := pst_fs v, pst_write_lsn := 0x2000040, pst_file := Some (0, 64),
         pst_flush_record_lsn := sample_commit, pst_write_record_lsn := 0x2000040, pst_decoder := d\<rparr>"
proof -
  obtain f where f: "write_exact sample_commit sample_record sample_live
      = (Inr (), sample_live\<lparr>pst_fs := f, pst_write_lsn := 0x2000040, pst_file := Some (0, 64)\<rparr>)" "fs_faults f = []"
    using sample_write by blast
  let ?w = "sample_live\<lparr>pst_fs := f, pst_write_lsn := 0x2000040, pst_file := Some (0, 64)\<rparr>"
  obtain d where d: "ingest_wal (\<lambda>_. sample_pg) sample_commit sample_record ?w
      = (Inr (), ?w\<lparr>pst_flush_record_lsn := sample_commit, pst_write_record_lsn := 0x2000040, pst_decoder := d\<rparr>)"
    using sample_ingest [of ?w] by (auto simp: sample_live_def sample_storage_def)
  define v where "v = ?w\<lparr>pst_flush_record_lsn := sample_commit, pst_write_record_lsn := 0x2000040, pst_decoder := d\<rparr>"
  have 1: "write_wal (\<lambda>_. sample_pg) sample_commit sample_record sample_live = (Inr (), v)"
    using f d v_def by (simp add: write_wal_def prog_defs sample_live_def sample_storage_def)
  have "\<exists>f. flush_wal v = (Inr (), v\<lparr>pst_fs := f, pst_flush_lsn := 0x2000040, pst_flush_record_lsn := 0x2000040\<rparr>)"
    using f(2) by (simp add: v_def flush_wal_def take_file_def prog_defs sample_live_def sample_storage_def fdatasync_file_def
       in_fs_def zoom_def file_sync_def draw_def upd_file_def Let_def)
  moreover have "v = sample_live\<lparr>pst_fs := pst_fs v, pst_write_lsn := 0x2000040, pst_file := Some (0, 64),
         pst_flush_record_lsn := sample_commit, pst_write_record_lsn := 0x2000040, pst_decoder := d\<rparr>"
   by (simp add: v_def)
  ultimately show ?thesis using 1 by blast
qed

lemma sample_ready:
  assumes "fst_state c = sample_state sample_commit" and "cf_durable plain_codec c {sample_state sample_commit}"
  shows "\<exists>s. file_sk_ok plain_codec (\<lambda>_. sample_pg) s \<and> pers sample_ctrl s = sample_state sample_commit
     \<and> sk_wal_store s = sample_live"
proof -
  define s where "s = \<lparr>sk_term_start_lsn = 0, sk_state = timeline_state_new sample_ctrl c,
     sk_wal_store = sample_live, sk_node_id = 1\<rparr>"
  have views: "pers sample_ctrl s = sample_state sample_commit" "commit_of s = sample_commit"
    "sk_wal_store s = sample_live" "ts_pers (sk_state s) = c"
    using assms(1) by (simp_all add: s_def timeline_state_new_def file_ctrl_ops_def pers_def ts_state_def
        inmem_def mem_of_def)
  have "wal_ok sample_storage"
    unfolding sample_storage_def by (rule wal_ok_fresh) (simp add: LSN_LIMIT_def)
  then have "wal_ok sample_live" by (simp add: wal_ok_def sample_live_def sample_storage_def)
  moreover have "cf_durable plain_codec c {r. ahead (sample_state sample_commit) r}"
    using assms(2) by (auto simp: cf_durable_def elim: ctl_holds_mono)
  ultimately have "file_sk_ok plain_codec (\<lambda>_. sample_pg) s"
    by (simp add: file_sk_ok_def sk_inv_def views sample_state_server flush_lsn_def phys_wal_ops_def
        sample_live_def sample_storage_def le_max_iff_disj)
  then show ?thesis using views by blast
qed

definition sample_append :: append_request where
  "sample_append = \<lparr>ar_h = \<lparr>ah_generation = INITIAL_GENERATION, ah_term = 0, ah_begin_lsn = sample_commit,
     ah_end_lsn = 0x2000040, ah_commit_lsn = 0, ah_truncate_lsn = 0\<rparr>, ar_wal_data = sample_record\<rparr>"

lemma sample_handles:
  assumes "pers sample_ctrl s = sample_state sample_commit" and "sk_wal_store s = sample_live"
  shows "\<exists>r s'. process_msg sample_ctrl sample_wal (AppendRequest sample_append) s = (Inr r, s')
     \<and> flush_lsn sample_ctrl sample_wal s' = 0x2000040"
proof -
  obtain f v d where "write_wal (\<lambda>_. sample_pg) sample_commit sample_record sample_live = (Inr (), v)"
     "flush_wal v = (Inr (), v\<lparr>pst_fs := f, pst_flush_lsn := 0x2000040, pst_flush_record_lsn := 0x2000040\<rparr>)"
     "v = sample_live\<lparr>pst_fs := pst_fs v, pst_write_lsn := 0x2000040, pst_file := Some (0, 64),
         pst_flush_record_lsn := sample_commit, pst_write_record_lsn := 0x2000040, pst_decoder := d\<rparr>"
    using sample_appends by blast
  moreover have "sample_record \<noteq> []" by code_simp
  moreover have "pst_write_lsn sample_live = sample_commit" by (simp add: sample_live_def sample_storage_def)
  ultimately show ?thesis
    using assms by (simp add: handle_append_request_def append_in_term_def sample_append_def prog_defs sample_state_server
      sample_history phys_wal_ops_def in_wal_def zoom_def flush_lsn_def raise_peer_horizon_def pers_def ts_state_def)
qed

theorem append_refines_witness:
  "\<exists>s r s' S S'. process_msg sample_ctrl sample_wal (AppendRequest sample_append) s = (Inr r, s')
     \<and> bytes_at (pst_fs (sk_wal_store s')) 0x2000028 sample_record
     \<and> ((\<lambda>X Y. AppendEntry (0 :: nat) (0 :: nat) X = Some Y) ^^ 24) S S'
     \<and> acc_state S' 0 = abs_acc sample_commit sample_ctrl sample_wal s'"
proof -
  obtain f where f: "sample_ctl f" using sample_disk by blast
  obtain c where c: "fst_state c = sample_state sample_commit"
    "cf_durable plain_codec c {sample_state sample_commit}"
    using restore_after_crash [OF f crashed_settled] by auto
  obtain s where s: "file_sk_ok plain_codec (\<lambda>_. sample_pg) s" "pers sample_ctrl s = sample_state sample_commit"
    "sk_wal_store s = sample_live"
    using sample_ready [OF c] by blast
  obtain r s' where p: "process_msg sample_ctrl sample_wal (AppendRequest sample_append) s = (Inr r, s')"
      "flush_lsn sample_ctrl sample_wal s' = 0x2000040"
    using sample_handles [OF s(2,3)] by blast
  have len: "length sample_record = 24" by code_simp
  then have m: "msg_ok (AppendRequest sample_append)" by (simp add: sample_append_def LSN_LIMIT_def)
  have files: "wal_files_ok (sk_wal_store s)"
    by (simp add: s(3) wal_files_ok_def dir_ok_def sample_live_def sample_storage_def sample_dir_def)
  have t: "sk_term_of sample_ctrl s = 0" "flush_lsn sample_ctrl sample_wal s = sample_commit"
    using s(2,3) by (simp_all add: sample_state_server flush_lsn_def phys_wal_ops_def sample_live_def sample_storage_def sample_history)
  let ?l = "abs_lsn sample_commit" and ?f = "flush_lsn sample_ctrl sample_wal"
  define S :: "(nat, nat) tla" where "S = spec_with
    ((new_prop 0)\<lparr>p_phase := Leader, p_next := [0 \<mapsto> ?l (?f s)],
      p_wal := log_of (abs_history sample_commit (sk_history sample_ctrl s)) 0x1000000\<rparr>)
    (abs_acc sample_commit sample_ctrl sample_wal s)"
  have S: "p_phase (prop_state S 0) = Leader" "p_term (prop_state S 0) = unat (ah_term (ar_h sample_append))"
      "p_wal (prop_state S 0) = log_of (abs_history sample_commit (sk_history sample_ctrl s)) (length (p_wal (prop_state S 0)))"
      "p_next (prop_state S 0) 0 = Some (?l (?f s))" "?l (?f s) \<le> length (p_wal (prop_state S 0)) + 1"
      "seg_up (unat (ah_begin_lsn (ar_h sample_append)) + length (ar_wal_data sample_append))
         \<le> unat sample_commit + length (p_wal (prop_state S 0))"
      "acc_state S 0 = abs_acc sample_commit sample_ctrl sample_wal s"
    by (simp_all add: S_def new_prop_def sample_append_def t len seg_up_def abs_lsn_def)
  have "?l (?f s') - ?l (?f s) = 24" by (simp add: p(2) t abs_lsn_def)
  with append_refines [OF plain.control_codec_axioms sample.wal_bindings_axioms s(1) files p(1) m disjI1 [OF refl] S]
  have "bytes_at (pst_fs (sk_wal_store s')) 0x2000028 sample_record
     \<and> (\<exists>S'. ((\<lambda>X Y. AppendEntry 0 0 X = Some Y) ^^ 24) S S' \<and> acc_state S' 0 = abs_acc sample_commit sample_ctrl sample_wal s')"
    using t(1) by (simp add: sample_append_def split: if_splits) blast
  then show ?thesis using p(1) by blast
qed

end
