(* ===== verification/Sk_Proto.thy ===== *)
theory Sk_Proto
  imports Sk_Messages Byte_Codec Text_Format
begin

text \<open>
  The wire format of the proposer-acceptor protocol on the safekeeper's side
  (safekeeper/src/safekeeper.rs): parsing of the proposer's messages and serialisation of the
  acceptor's, with the feedback of the pageserver (libs/utils/src/pageserver_feedback.rs) and
  the ids (libs/utils/src/id.rs).

  A parser runs on the bytes left in the buffer. The decoder of hex strings (crate hex) and
  the decoders of the structs of version 2 (bincode) are parameters.
\<close>

section \<open>Readers\<close>

datatype proto_error =
    ShortBuffer
  | NoTerminator
  | BadUtf8
  | EmptyMembers
  | BadMember membership_error
  | BadHex
  | VersionPanic
  | UnknownTag u8
  | BeginAfterEnd
  | LongerThanMaxSendSize
  | V2Deserialize
  | UnsupportedVersion
  | MissingTag
  | ReadPanic

type_synonym 'a reader = "(bytes, proto_error, 'a) prog"

text \<open>get_u8_f, get_u16_f, get_u32_f and get_u64_f, and the reads in little-endian order.\<close>

definition get_uN_f :: "nat \<Rightarrow> 'w::len word reader" where
  "get_uN_f n bs = (case get_be n bs of None \<Rightarrow> (Inl ShortBuffer, bs) | Some (x, r) \<Rightarrow> (Inr x, r))"

definition get_uN_le :: "nat \<Rightarrow> 'w::len word reader" where
  "get_uN_le n bs = (case get_le n bs of None \<Rightarrow> (Inl ShortBuffer, bs) | Some (x, r) \<Rightarrow> (Inr x, r))"

text \<open>\<open>std::str::from_utf8\<close>: the well-formed byte sequences of the Unicode standard.\<close>

definition utf8_cont :: "u8 \<Rightarrow> bool" where
  "utf8_cont b \<longleftrightarrow> 0x80 \<le> b \<and> b \<le> 0xBF"

fun utf8_valid :: "bytes \<Rightarrow> bool" where
  "utf8_valid [] \<longleftrightarrow> True"
| "utf8_valid (a # bs) \<longleftrightarrow>
     (if a \<le> 0x7F then utf8_valid bs
      else case bs of
        b # cs \<Rightarrow>
          if 0xC2 \<le> a \<and> a \<le> 0xDF then utf8_cont b \<and> utf8_valid cs
          else (case cs of
            c # ds \<Rightarrow>
              if 0xE0 \<le> a \<and> a \<le> 0xEF then
                (if a = 0xE0 then 0xA0 \<le> b \<and> b \<le> 0xBF else if a = 0xED then 0x80 \<le> b \<and> b \<le> 0x9F
                 else utf8_cont b) \<and> utf8_cont c \<and> utf8_valid ds
              else (case ds of
                d # es \<Rightarrow>
                  0xF0 \<le> a \<and> a \<le> 0xF4
                  \<and> (if a = 0xF0 then 0x90 \<le> b \<and> b \<le> 0xBF else if a = 0xF4 then 0x80 \<le> b \<and> b \<le> 0x8F
                     else utf8_cont b) \<and> utf8_cont c \<and> utf8_cont d \<and> utf8_valid es
              | [] \<Rightarrow> False)
          | [] \<Rightarrow> False)
      | [] \<Rightarrow> False)"

definition get_cstr :: "bytes reader" where
  "get_cstr bs =
     (let result = takeWhile (\<lambda>b. b \<noteq> 0) bs in
      if length result = length bs then (Inl NoTerminator, bs)
      else if utf8_valid result then (Inr result, drop (length result + 1) bs)
      else (Inl BadUtf8, drop (length result + 1) bs))"

fun get_members :: "nat \<Rightarrow> member_set \<Rightarrow> member_set reader" where
  "get_members 0 members = ret members"
| "get_members (Suc n) members =
     andthen (get_uN_f 8) (\<lambda>node_id.
     andthen get_cstr (\<lambda>host.
     andthen (get_uN_f 2) (\<lambda>pg_port.
     case member_set_add members \<lparr>sk_id = node_id, sk_host = host, sk_pg_port = pg_port\<rparr> of
       Inl e \<Rightarrow> throw (BadMember e)
     | Inr members' \<Rightarrow> get_members n members')))"

definition get_mconf :: "configuration reader" where
  "get_mconf =
     andthen (get_uN_f 4) (\<lambda>generation.
     andthen (get_uN_f 4) (\<lambda>members_len :: u32.
     andthen (ensure (\<not> (generation \<noteq> INVALID_GENERATION \<and> members_len = 0)) EmptyMembers) (\<lambda>_.
     andthen (get_members (unat members_len) member_set_empty) (\<lambda>members.
     andthen (get_uN_f 4) (\<lambda>new_members_len :: u32.
     if new_members_len = 0 then
       ret \<lparr>conf_generation = generation, conf_members = members, conf_new_members = None\<rparr>
     else
       andthen (get_members (unat new_members_len) member_set_empty) (\<lambda>new_members.
       ret \<lparr>conf_generation = generation, conf_members = members,
            conf_new_members = Some new_members\<rparr>))))))"

text \<open>TermHistory::from_bytes and from_bytes_le\<close>

fun history_entries :: "nat \<Rightarrow> term_history reader" where
  "history_entries 0 = ret []"
| "history_entries (Suc n) =
     andthen (get_uN_f 8) (\<lambda>t. andthen (get_uN_f 8) (\<lambda>l.
     andthen (history_entries n) (\<lambda>res. ret (\<lparr>tl_term = t, tl_lsn = l\<rparr> # res))))"

definition history_from_bytes :: "term_history reader" where
  "history_from_bytes = andthen (get_uN_f 4) (\<lambda>n_entries :: u32. history_entries (unat n_entries))"

fun history_entries_le :: "nat \<Rightarrow> term_history reader" where
  "history_entries_le 0 = ret []"
| "history_entries_le (Suc n) =
     andthen (reads length) (\<lambda>remaining.
     andthen (ensure (\<not> remaining < 16) ShortBuffer) (\<lambda>_.
     andthen (get_uN_le 8) (\<lambda>t. andthen (get_uN_le 8) (\<lambda>l.
     andthen (history_entries_le n) (\<lambda>res. ret (\<lparr>tl_term = t, tl_lsn = l\<rparr> # res))))))"

definition history_from_bytes_le :: "term_history reader" where
  "history_from_bytes_le = andthen (get_uN_le 4) (\<lambda>n_entries :: u32. history_entries_le (unat n_entries))"

section \<open>Ids\<close>

definition hex_digit :: "nat \<Rightarrow> u8" where
  "hex_digit n = (if n < 10 then 48 + of_nat n else 87 + of_nat n)"

definition hex_encode :: "bytes \<Rightarrow> bytes" where
  "hex_encode bs = concat (map (\<lambda>b.
     [hex_digit (unat (drop_bit 4 b AND 0xF)), hex_digit (unat (b AND 0xF))]) bs)"

text \<open>\<open>hex\<close> stands for hex::decode_to_slice with a slice of 16 bytes.\<close>

definition id_from_str :: "(bytes \<Rightarrow> bytes option) \<Rightarrow> bytes \<Rightarrow> tl_id reader" where
  "id_from_str hex s = of_option BadHex (hex s)"

section \<open>Messages of the proposer\<close>

definition SK_PROTO_VERSION_2 :: u32 where
  "SK_PROTO_VERSION_2 = 2"

definition SK_PROTO_VERSION_3 :: u32 where
  "SK_PROTO_VERSION_3 = 3"

definition SK_PROTO_VERSION_4 :: u32 where
  "SK_PROTO_VERSION_4 = 4"

definition MAX_SEND_SIZE :: nat where
  "MAX_SEND_SIZE = 8192 * 16"

definition tag_byte :: "char \<Rightarrow> u8" where
  "tag_byte c = of_nat (of_char c)"

definition parse_greeting :: "(bytes \<Rightarrow> bytes option) \<Rightarrow> proposer_acceptor_message reader" where
  "parse_greeting hex =
     andthen get_cstr (\<lambda>tenant_id_str.
     andthen (id_from_str hex tenant_id_str) (\<lambda>tenant_id.
     andthen get_cstr (\<lambda>timeline_id_str.
     andthen (id_from_str hex timeline_id_str) (\<lambda>timeline_id.
     andthen get_mconf (\<lambda>mconf.
     andthen (get_uN_f 4) (\<lambda>pg_version.
     andthen (get_uN_f 8) (\<lambda>system_id.
     andthen (get_uN_f 4) (\<lambda>wal_seg_size.
     andthen (of_option VersionPanic (from_full_pg_version pg_version)) (\<lambda>pg_version.
     ret (Greeting \<lparr>pg_tenant_id = tenant_id, pg_timeline_id = timeline_id, pg_mconf = mconf,
        pg_pg_version = pg_version, pg_system_id = system_id, pg_wal_seg_size = wal_seg_size\<rparr>))))))))))"

definition parse_vote_request :: "proposer_acceptor_message reader" where
  "parse_vote_request =
     andthen (get_uN_f 4) (\<lambda>generation.
     andthen (get_uN_f 8) (\<lambda>t.
     ret (VoteRequest \<lparr>vr_generation = generation, vr_term = t\<rparr>)))"

definition parse_elected :: "proposer_acceptor_message reader" where
  "parse_elected =
     andthen (get_uN_f 4) (\<lambda>generation.
     andthen (get_uN_f 8) (\<lambda>t.
     andthen (get_uN_f 8) (\<lambda>start_streaming_at.
     andthen history_from_bytes (\<lambda>term_history.
     ret (Elected \<lparr>pe_generation = generation, pe_term = t,
        pe_start_streaming_at = start_streaming_at, pe_term_history = term_history\<rparr>)))))"

text \<open>\<open>end_lsn - begin_lsn\<close>, checked\<close>

definition record_size :: "append_request_header \<Rightarrow> nat reader" where
  "record_size hdr =
     andthen (of_option BeginAfterEnd (checked_sub (ah_end_lsn hdr) (ah_begin_lsn hdr))) (\<lambda>l.
     andthen (ensure (\<not> MAX_SEND_SIZE < unat l) LongerThanMaxSendSize) (\<lambda>_.
     ret (unat l)))"

definition wal_data_of :: "append_request_header \<Rightarrow> proposer_acceptor_message reader" where
  "wal_data_of hdr =
     andthen (record_size hdr) (\<lambda>rec_size.
     andthen (reads (\<lambda>bs. (length bs, take rec_size bs))) (\<lambda>(remaining, wal_data).
     andthen (ensure (\<not> remaining < rec_size) ShortBuffer) (\<lambda>_.
     andthen (modify (drop rec_size)) (\<lambda>_.
     ret (AppendRequest \<lparr>ar_h = hdr, ar_wal_data = wal_data\<rparr>)))))"

definition parse_append_request :: "proposer_acceptor_message reader" where
  "parse_append_request =
     andthen (get_uN_f 4) (\<lambda>generation.
     andthen (get_uN_f 8) (\<lambda>t.
     andthen (get_uN_f 8) (\<lambda>begin_lsn.
     andthen (get_uN_f 8) (\<lambda>end_lsn.
     andthen (get_uN_f 8) (\<lambda>commit_lsn.
     andthen (get_uN_f 8) (\<lambda>truncate_lsn.
     wal_data_of \<lparr>ah_generation = generation, ah_term = t, ah_begin_lsn = begin_lsn,
       ah_end_lsn = end_lsn, ah_commit_lsn = commit_lsn, ah_truncate_lsn = truncate_lsn\<rparr>))))))"

definition parse_v3 :: "(bytes \<Rightarrow> bytes option) \<Rightarrow> proposer_acceptor_message reader" where
  "parse_v3 hex =
     andthen (reads (\<lambda>bs. bs = [])) (\<lambda>is_empty.
     andthen (ensure (\<not> is_empty) MissingTag) (\<lambda>_.
     andthen (get_uN_f 1) (\<lambda>tag.
     if tag = tag_byte (CHR ''g'') then parse_greeting hex
     else if tag = tag_byte (CHR ''v'') then parse_vote_request
     else if tag = tag_byte (CHR ''e'') then parse_elected
     else if tag = tag_byte (CHR ''a'') then parse_append_request
     else throw (UnknownTag tag))))"

text \<open>Version 2 packs structs as they are.\<close>

record proposer_greeting_v2 =
  g2_protocol_version :: u32
  g2_pg_version :: pg_version_id
  g2_proposer_id :: bytes
  g2_system_id :: system_id
  g2_timeline_id :: tl_id
  g2_tenant_id :: tl_id
  g2_tli :: u32
  g2_wal_seg_size :: u32

record vote_request_v2 =
  v2_term :: sk_term

record append_request_header_v2 =
  a2_term :: sk_term
  a2_term_start_lsn :: lsn
  a2_begin_lsn :: lsn
  a2_end_lsn :: lsn
  a2_commit_lsn :: lsn
  a2_truncate_lsn :: lsn
  a2_proposer_uuid :: bytes

record v2_decoders =
  des_greeting_v2 :: "bytes \<Rightarrow> (proposer_greeting_v2 \<times> bytes) option"
  des_vote_request_v2 :: "bytes \<Rightarrow> (vote_request_v2 \<times> bytes) option"
  des_append_header_v2 :: "bytes \<Rightarrow> (append_request_header_v2 \<times> bytes) option"

definition des_from :: "(bytes \<Rightarrow> ('a \<times> bytes) option) \<Rightarrow> 'a reader" where
  "des_from d bs = (case d bs of None \<Rightarrow> (Inl V2Deserialize, bs) | Some (x, r) \<Rightarrow> (Inr x, r))"

definition parse_elected_v2 :: "proposer_acceptor_message reader" where
  "parse_elected_v2 =
     andthen (reads length) (\<lambda>remaining.
     andthen (ensure (\<not> remaining < 16) ShortBuffer) (\<lambda>_.
     andthen (get_uN_le 8) (\<lambda>t.
     andthen (get_uN_le 8) (\<lambda>start_streaming_at.
     andthen history_from_bytes_le (\<lambda>term_history.
     andthen (get_uN_le 8) (\<lambda>timeline_start_lsn :: u64.
     ret (Elected \<lparr>pe_generation = INVALID_GENERATION, pe_term = t,
        pe_start_streaming_at = start_streaming_at, pe_term_history = term_history\<rparr>)))))))"

definition parse_v2 :: "v2_decoders \<Rightarrow> proposer_acceptor_message reader" where
  "parse_v2 ds =
     andthen (get_uN_le 8) (\<lambda>tag64 :: u64.
     let tag = ucast tag64 in
     if tag = tag_byte (CHR ''g'') then
       andthen (des_from (des_greeting_v2 ds)) (\<lambda>m.
       ret (Greeting \<lparr>pg_tenant_id = g2_tenant_id m, pg_timeline_id = g2_timeline_id m,
         pg_mconf = configuration_empty, pg_pg_version = g2_pg_version m,
         pg_system_id = g2_system_id m, pg_wal_seg_size = g2_wal_seg_size m\<rparr>))
     else if tag = tag_byte (CHR ''v'') then
       andthen (des_from (des_vote_request_v2 ds)) (\<lambda>m.
       ret (VoteRequest \<lparr>vr_generation = INVALID_GENERATION, vr_term = v2_term m\<rparr>))
     else if tag = tag_byte (CHR ''e'') then parse_elected_v2
     else if tag = tag_byte (CHR ''a'') then
       andthen (des_from (des_append_header_v2 ds)) (\<lambda>h.
       wal_data_of \<lparr>ah_generation = INVALID_GENERATION, ah_term = a2_term h,
         ah_begin_lsn = a2_begin_lsn h, ah_end_lsn = a2_end_lsn h,
         ah_commit_lsn = a2_commit_lsn h, ah_truncate_lsn = a2_truncate_lsn h\<rparr>)
     else throw (UnknownTag tag))"

definition parse_msg ::
  "(bytes \<Rightarrow> bytes option) \<Rightarrow> v2_decoders \<Rightarrow> u32 \<Rightarrow> proposer_acceptor_message reader" where
  "parse_msg hex ds proto_version =
     (if proto_version = SK_PROTO_VERSION_3 \<or> proto_version = SK_PROTO_VERSION_4 then parse_v3 hex
      else if proto_version = SK_PROTO_VERSION_2 then parse_v2 ds
      else throw UnsupportedVersion)"

text \<open>size, with \<open>base\<close> for the size of the enum in memory.\<close>

fun message_size :: "nat \<Rightarrow> proposer_acceptor_message \<Rightarrow> nat" where
  "message_size base (AppendRequest m) = base + length (ar_wal_data m)"
| "message_size base (NoFlushAppendRequest m) = base + length (ar_wal_data m)"
| "message_size base _ = base"

section \<open>Messages of the acceptor\<close>

definition put_cstr :: "bytes \<Rightarrow> bytes" where
  "put_cstr s = s @ [0]"

definition put_member :: "safekeeper_id \<Rightarrow> bytes" where
  "put_member sk = put_be 8 (sk_id sk) @ put_cstr (sk_host sk) @ put_be 2 (sk_pg_port sk)"

definition serialize_mconf :: "configuration \<Rightarrow> bytes" where
  "serialize_mconf mconf =
     put_be 4 (conf_generation mconf)
     @ put_be 4 (of_nat (length (members_m (conf_members mconf))) :: u32)
     @ concat (map put_member (members_m (conf_members mconf)))
     @ (case conf_new_members mconf of
          Some new_members \<Rightarrow> put_be 4 (of_nat (length (members_m new_members)) :: u32)
            @ concat (map put_member (members_m new_members))
        | None \<Rightarrow> put_be 4 (0 :: u32))"

definition put_history :: "term_history \<Rightarrow> bytes" where
  "put_history th = put_be 4 (of_nat (length th) :: u32)
     @ concat (map (\<lambda>e. put_be 8 (tl_term e) @ put_be 8 (tl_lsn e)) th)"

definition put_history_le :: "term_history \<Rightarrow> bytes" where
  "put_history_le th = put_le 4 (of_nat (length th) :: u32)
     @ concat (map (\<lambda>e. put_le 8 (tl_term e) @ put_le 8 (tl_lsn e)) th)"

section \<open>Feedback of the pageserver\<close>

definition feedback_empty :: pageserver_feedback where
  "feedback_empty = \<lparr>pf_current_timeline_size = 0, pf_last_received_lsn = lsn_invalid,
     pf_disk_consistent_lsn = lsn_invalid, pf_remote_consistent_lsn = lsn_invalid,
     pf_replytime = 0, pf_shard_number = 0, pf_corruption_detected = False\<rparr>"

definition key :: "string \<Rightarrow> bytes" where
  "key s = map tag_byte s"

definition put_field :: "string \<Rightarrow> nat \<Rightarrow> 'w::len word \<Rightarrow> bytes" where
  "put_field k n x = key k @ [0] @ put_be 4 (of_nat n :: u32) @ put_be n x"

text \<open>\<open>None\<close> is the panic on a time before PG_EPOCH.\<close>

definition feedback_serialize :: "pageserver_feedback \<Rightarrow> bytes option" where
  "feedback_serialize rf =
     (if pf_replytime rf < 0 then None
      else
        (let timestamp = word_of_int (pf_replytime rf div 1000) :: u64;
             fields = [put_field ''current_timeline_size'' 8 (pf_current_timeline_size rf),
               put_field ''ps_writelsn'' 8 (pf_last_received_lsn rf),
               put_field ''ps_flushlsn'' 8 (pf_disk_consistent_lsn rf),
               put_field ''ps_applylsn'' 8 (pf_remote_consistent_lsn rf),
               put_field ''ps_replytime'' 8 timestamp]
               @ (if 0 < pf_shard_number rf then [put_field ''shard_number'' 4 (pf_shard_number rf)] else [])
               @ (if pf_corruption_detected rf then [put_field ''corruption_detected'' 1 (1 :: u8)] else [])
         in Some (of_nat (length fields) # concat fields)))"

text \<open>Reads of a short buffer panic here.\<close>

definition get_uN :: "nat \<Rightarrow> 'w::len word reader" where
  "get_uN n bs = (case get_be n bs of None \<Rightarrow> (Inl ReadPanic, bs) | Some (x, r) \<Rightarrow> (Inr x, r))"

definition read_cstr :: "bytes reader" where
  "read_cstr bs =
     (let result = takeWhile (\<lambda>b. b \<noteq> 0) bs in
      if length result = length bs then (Inl ReadPanic, bs)
      else (Inr result, drop (length result + 1) bs))"

definition get_value :: "nat \<Rightarrow> 'w::len word reader" where
  "get_value n =
     andthen (get_uN 4) (\<lambda>len :: u32.
     andthen (ensure (len = of_nat n) ReadPanic) (\<lambda>_.
     get_uN n))"

definition skip_value :: "unit reader" where
  "skip_value =
     andthen (get_uN 4) (\<lambda>len :: u32.
     andthen (reads length) (\<lambda>remaining.
     andthen (ensure (0 \<le> sint len \<and> unat len \<le> remaining) ReadPanic) (\<lambda>_.
     modify (drop (unat len)))))"

definition replytime_of :: "u64 \<Rightarrow> int" where
  "replytime_of raw_time =
     (if 0 < sint raw_time then 1000 * int (unat raw_time) else - 1000 * int (unat (- raw_time)))"

definition parse_field :: "pageserver_feedback \<Rightarrow> pageserver_feedback reader" where
  "parse_field rf =
     andthen read_cstr (\<lambda>k.
     if k = key ''current_timeline_size'' then
       andthen (get_value 8) (\<lambda>x. ret (rf\<lparr>pf_current_timeline_size := x\<rparr>))
     else if k = key ''ps_writelsn'' then
       andthen (get_value 8) (\<lambda>x. ret (rf\<lparr>pf_last_received_lsn := x\<rparr>))
     else if k = key ''ps_flushlsn'' then
       andthen (get_value 8) (\<lambda>x. ret (rf\<lparr>pf_disk_consistent_lsn := x\<rparr>))
     else if k = key ''ps_applylsn'' then
       andthen (get_value 8) (\<lambda>x. ret (rf\<lparr>pf_remote_consistent_lsn := x\<rparr>))
     else if k = key ''ps_replytime'' then
       andthen (get_value 8) (\<lambda>x. ret (rf\<lparr>pf_replytime := replytime_of x\<rparr>))
     else if k = key ''shard_number'' then
       andthen (get_value 4) (\<lambda>x. ret (rf\<lparr>pf_shard_number := x\<rparr>))
     else if k = key ''corruption_detected'' then
       andthen (get_value 1) (\<lambda>x :: u8. ret (rf\<lparr>pf_corruption_detected := x \<noteq> 0\<rparr>))
     else andthen skip_value (\<lambda>_. ret rf))"

fun parse_fields :: "nat \<Rightarrow> pageserver_feedback \<Rightarrow> pageserver_feedback reader" where
  "parse_fields 0 rf = ret rf"
| "parse_fields (Suc n) rf = andthen (parse_field rf) (parse_fields n)"

definition feedback_parse :: "pageserver_feedback reader" where
  "feedback_parse = andthen (get_uN 1) (\<lambda>nfields :: u8. parse_fields (unat nfields) feedback_empty)"

section \<open>Serialisation\<close>

definition put_feedback :: "pageserver_feedback option \<Rightarrow> bytes option" where
  "put_feedback f = (case f of None \<Rightarrow> Some [] | Some rf \<Rightarrow> feedback_serialize rf)"

definition bool_byte :: "bool \<Rightarrow> 'w::len word" where
  "bool_byte b = (if b then 1 else 0)"

fun serialize_v3 :: "acceptor_proposer_message \<Rightarrow> bytes option" where
  "serialize_v3 (AGreeting m) =
     Some (tag_byte (CHR ''g'') # put_be 8 (ag_node_id m) @ serialize_mconf (ag_mconf m) @ put_be 8 (ag_term m))"
| "serialize_v3 (AVoteResponse m) =
     Some (tag_byte (CHR ''v'') # put_be 4 (vp_generation m) @ put_be 8 (vp_term m)
       @ put_be 1 (bool_byte (vp_vote_given m) :: u8) @ put_be 8 (vp_flush_lsn m)
       @ put_be 8 (vp_truncate_lsn m) @ put_history (vp_term_history m))"
| "serialize_v3 (AAppendResponse m) =
     map_option (\<lambda>fb. tag_byte (CHR ''a'') # put_be 4 (ap_generation m) @ put_be 8 (ap_term m)
       @ put_be 8 (ap_flush_lsn m) @ put_be 8 (ap_commit_lsn m) @ put_be 8 (hs_ts (ap_hs_feedback m))
       @ put_be 8 (hs_xmin (ap_hs_feedback m)) @ put_be 8 (hs_catalog_xmin (ap_hs_feedback m)) @ fb)
     (put_feedback (ap_pageserver_feedback m))"

definition tag64 :: "char \<Rightarrow> u64" where
  "tag64 c = of_nat (of_char c)"

fun serialize_v2 :: "acceptor_proposer_message \<Rightarrow> bytes option" where
  "serialize_v2 (AGreeting m) =
     Some (put_le 8 (tag64 (CHR ''g'')) @ put_le 8 (ag_term m) @ put_le 8 (ag_node_id m))"
| "serialize_v2 (AVoteResponse m) =
     Some (put_le 8 (tag64 (CHR ''v'')) @ put_le 8 (vp_term m)
       @ put_le 8 (bool_byte (vp_vote_given m) :: u64) @ put_le 8 (vp_flush_lsn m)
       @ put_le 8 (vp_truncate_lsn m) @ put_history_le (vp_term_history m) @ put_le 8 (0 :: u64))"
| "serialize_v2 (AAppendResponse m) =
     map_option (\<lambda>fb. put_le 8 (tag64 (CHR ''a'')) @ put_le 8 (ap_term m)
       @ put_le 8 (ap_flush_lsn m) @ put_le 8 (ap_commit_lsn m) @ put_le 8 (hs_ts (ap_hs_feedback m))
       @ put_le 8 (hs_xmin (ap_hs_feedback m)) @ put_le 8 (hs_catalog_xmin (ap_hs_feedback m)) @ fb)
     (put_feedback (ap_pageserver_feedback m))"

definition serialize_msg :: "acceptor_proposer_message \<Rightarrow> u32 \<Rightarrow> proto_error + bytes" where
  "serialize_msg m proto_version =
     (if proto_version = SK_PROTO_VERSION_3 \<or> proto_version = SK_PROTO_VERSION_4 then
        (case serialize_v3 m of None \<Rightarrow> Inl ReadPanic | Some b \<Rightarrow> Inr b)
      else if proto_version = SK_PROTO_VERSION_2 then
        (case serialize_v2 m of None \<Rightarrow> Inl ReadPanic | Some b \<Rightarrow> Inr b)
      else Inl UnsupportedVersion)"

section \<open>The readers on their encodings\<close>

lemma get_uN_f_put [wire]:
  "LENGTH('w) \<le> 8 * n \<Longrightarrow> get_uN_f n (put_be n x @ r) = (Inr x, r)" for x :: "'w::len word"
  by (simp add: get_uN_f_def)

lemma get_uN_le_put [wire]:
  "LENGTH('w) \<le> 8 * n \<Longrightarrow> get_uN_le n (put_le n x @ r) = (Inr x, r)" for x :: "'w::len word"
  by (simp add: get_uN_le_def)

lemma get_uN_put [wire]:
  "LENGTH('w) \<le> 8 * n \<Longrightarrow> get_uN n (put_be n x @ r) = (Inr x, r)" for x :: "'w::len word"
  by (simp add: get_uN_def)

lemmas get_end [wire] = get_uN_f_put [where r = "[]", unfolded append_Nil2]
  get_uN_le_put [where r = "[]", unfolded append_Nil2] get_uN_put [where r = "[]", unfolded append_Nil2]

lemma get_uN_f_byte [wire]: "get_uN_f 1 (x # r) = (Inr x, r)" for x :: u8
  by (simp add: get_uN_f_def get_be_def of_be_def)

lemma get_uN_byte [wire]: "get_uN 1 (x # r) = (Inr x, r)" for x :: u8
  by (simp add: get_uN_def get_be_def of_be_def)

lemma takeWhile_cstr: "0 \<notin> set s \<Longrightarrow> takeWhile (\<lambda>b. b \<noteq> 0) (s @ 0 # r) = s" for s :: bytes
  by (induction s) auto

lemma get_cstr_put [wire]:
  "0 \<notin> set s \<Longrightarrow> utf8_valid s \<Longrightarrow> get_cstr (s @ 0 # r) = (Inr s, r)"
  by (simp add: get_cstr_def takeWhile_cstr Let_def)

lemma read_cstr_put [wire]: "0 \<notin> set s \<Longrightarrow> read_cstr (s @ 0 # r) = (Inr s, r)"
  by (simp add: read_cstr_def takeWhile_cstr Let_def)

text \<open>A member whose host is a C string and valid UTF-8; lengths that fit the wire.\<close>

definition member_sendable :: "safekeeper_id \<Rightarrow> bool" where
  "member_sendable sk \<longleftrightarrow> 0 \<notin> set (sk_host sk) \<and> utf8_valid (sk_host sk)"

lemma get_members_put:
  assumes "\<forall>sk \<in> set sks. member_sendable sk" and "distinct (map sk_id (members_m ms @ sks))"
  shows "get_members (length sks) ms (concat (map put_member sks) @ r)
           = (Inr (ms\<lparr>members_m := members_m ms @ sks\<rparr>), r)"
  using assms
proof (induction sks arbitrary: ms)
  case Nil
  then show ?case by (simp add: ret_def)
next
  case (Cons sk sks)
  have eta: "\<lparr>sk_id = sk_id sk, sk_host = sk_host sk, sk_pg_port = sk_pg_port sk\<rparr> = sk" by (cases sk) simp
  have "member_set_add ms sk = Inr (ms\<lparr>members_m := members_m ms @ [sk]\<rparr>)"
    using Cons.prems(2) by (auto simp: member_set_add_def member_set_contains_iff)
  with Cons show ?case
    by (simp add: andthen_def put_member_def put_cstr_def wire eta member_sendable_def)
qed

definition set_sendable :: "member_set \<Rightarrow> bool" where
  "set_sendable ms \<longleftrightarrow> member_set_ok ms \<and> length (members_m ms) < 2 ^ 32
     \<and> (\<forall>sk \<in> set (members_m ms). member_sendable sk)"

definition conf_sendable :: "configuration \<Rightarrow> bool" where
  "conf_sendable c \<longleftrightarrow> set_sendable (conf_members c)
     \<and> (conf_generation c \<noteq> INVALID_GENERATION \<longrightarrow> members_m (conf_members c) \<noteq> [])
     \<and> (case conf_new_members c of None \<Rightarrow> True | Some ms \<Rightarrow> set_sendable ms \<and> members_m ms \<noteq> [])"

lemma u32_length:
  assumes "length xs < 2 ^ 32"
  shows "unat (of_nat (length xs) :: u32) = length xs" "(of_nat (length xs) :: u32) = 0 \<longleftrightarrow> xs = []"
  using assms by (simp_all add: word_unat_eq_iff unat_of_nat)

lemma get_set_put:
  assumes "set_sendable ms"
  shows "get_members (length (members_m ms)) member_set_empty (concat (map put_member (members_m ms)) @ r)
           = (Inr ms, r)"
  using get_members_put [of "members_m ms" member_set_empty] assms
  by (cases ms) (simp add: set_sendable_def member_set_ok_def member_set_empty_def)

lemma set_sendable_length:
  assumes "set_sendable ms"
  shows "unat (of_nat (length (members_m ms)) :: u32) = length (members_m ms)"
    "(of_nat (length (members_m ms)) :: u32) = 0 \<longleftrightarrow> members_m ms = []"
  using assms u32_length by (auto simp: set_sendable_def)

lemma get_mconf_put [wire]:
  assumes "conf_sendable c"
  shows "get_mconf (serialize_mconf c @ r) = (Inr c, r)"
proof (cases "conf_new_members c")
  case None
  then have eta: "\<lparr>conf_generation = conf_generation c, conf_members = conf_members c, conf_new_members = None\<rparr> = c"
    by (cases c) simp
  show ?thesis
    using assms None
    by (auto simp: get_mconf_def serialize_mconf_def andthen_def ensure_def ret_def wire get_set_put eta
        set_sendable_length conf_sendable_def)
next
  case (Some nm)
  then have eta: "\<lparr>conf_generation = conf_generation c, conf_members = conf_members c, conf_new_members = Some nm\<rparr> = c"
    by (cases c) simp
  show ?thesis
    using assms Some
    by (auto simp: get_mconf_def serialize_mconf_def andthen_def ensure_def ret_def wire get_set_put eta
        set_sendable_length conf_sendable_def)
qed

lemma history_entries_put:
  "history_entries (length th) (concat (map (\<lambda>e. put_be 8 (tl_term e) @ put_be 8 (tl_lsn e)) th) @ r) = (Inr th, r)"
proof (induction th)
  case (Cons e th)
  have "\<lparr>tl_term = tl_term e, tl_lsn = tl_lsn e\<rparr> = e" by (cases e) simp
  with Cons show ?case by (simp add: andthen_def wire ret_def)
qed (simp add: ret_def)

lemma history_put [wire]:
  "length th < 2 ^ 32 \<Longrightarrow> history_from_bytes (put_history th @ r) = (Inr th, r)"
  by (simp add: history_from_bytes_def put_history_def andthen_def wire u32_length history_entries_put)

lemmas history_end [wire] = history_put [where r = "[]", unfolded append_Nil2]

lemma history_entries_le_put:
  "history_entries_le (length th) (concat (map (\<lambda>e. put_le 8 (tl_term e) @ put_le 8 (tl_lsn e)) th) @ r) = (Inr th, r)"
proof (induction th)
  case (Cons e th)
  have "\<lparr>tl_term = tl_term e, tl_lsn = tl_lsn e\<rparr> = e" by (cases e) simp
  with Cons show ?case by (simp add: andthen_def wire ret_def reads_def ensure_def)
qed (simp add: ret_def)

lemma history_le_put [wire]:
  "length th < 2 ^ 32 \<Longrightarrow> history_from_bytes_le (put_history_le th @ r) = (Inr th, r)"
  by (simp add: history_from_bytes_le_def put_history_le_def andthen_def wire u32_length history_entries_le_put)

text \<open>Keys are compared as the strings they are.\<close>

lemma tag_byte_eq [simp]: "tag_byte c = tag_byte d \<longleftrightarrow> c = d"
proof -
  have "unat (tag_byte x) = of_char x" for x
    by (simp add: tag_byte_def unat_of_nat of_char_mod_256)
  then have "tag_byte c = tag_byte d \<longleftrightarrow> (of_char c :: nat) = of_char d"
    by (metis word_unat_eq_iff)
  then show ?thesis by simp
qed

lemma key_eq [simp]: "key s = key t \<longleftrightarrow> s = t"
  unfolding key_def by (rule inj_map_eq_map) (simp add: inj_on_def)

lemma key_no_nul: "CHR 0x00 \<notin> set s \<Longrightarrow> 0 \<notin> set (key s)"
proof -
  have "0 = tag_byte c \<longleftrightarrow> c = CHR 0x00" for c
    using tag_byte_eq [of "CHR 0x00" c] by (auto simp: tag_byte_def [of "CHR 0x00"])
  then show "CHR 0x00 \<notin> set s \<Longrightarrow> 0 \<notin> set (key s)" by (auto simp: key_def image_iff)
qed

lemma read_key [wire]: "CHR 0x00 \<notin> set s \<Longrightarrow> read_cstr (key s @ 0 # r) = (Inr (key s), r)"
  by (rule read_cstr_put [OF key_no_nul])

lemma get_value_put [wire]:
  "LENGTH('w) \<le> 8 * n \<Longrightarrow> len = of_nat n \<Longrightarrow> get_value n (put_be 4 (len :: u32) @ put_be n x @ r) = (Inr x, r)"
  for x :: "'w::len word"
  by (simp add: get_value_def andthen_def ensure_def ret_def wire)

lemma replytime_micros:
  assumes "0 \<le> t" and "t mod 1000 = 0" and "t div 1000 < 2 ^ 63"
  shows "replytime_of (word_of_int (t div 1000)) = t"
proof -
  have m: "0 \<le> t div 1000" "t = 1000 * (t div 1000)" using assms by auto
  have "int (unat (word_of_int (t div 1000) :: u64)) = t div 1000"
    using m(1) assms(3) by (simp add: unsigned_of_int take_bit_int_eq_self)
  moreover have "sint (word_of_int (t div 1000) :: u64) = t div 1000"
    using m(1) assms(3) by (simp add: signed_of_int signed_take_bit_int_eq_self)
  ultimately show ?thesis
    using m by (cases "t div 1000 = 0") (simp_all add: replytime_of_def)
qed

lemma parse_field_put [wire]:
  "parse_field rf (put_field ''current_timeline_size'' 8 (x :: u64) @ r) = (Inr (rf\<lparr>pf_current_timeline_size := x\<rparr>), r)"
  "parse_field rf (put_field ''ps_writelsn'' 8 x @ r) = (Inr (rf\<lparr>pf_last_received_lsn := x\<rparr>), r)"
  "parse_field rf (put_field ''ps_flushlsn'' 8 x @ r) = (Inr (rf\<lparr>pf_disk_consistent_lsn := x\<rparr>), r)"
  "parse_field rf (put_field ''ps_applylsn'' 8 x @ r) = (Inr (rf\<lparr>pf_remote_consistent_lsn := x\<rparr>), r)"
  "parse_field rf (put_field ''ps_replytime'' 8 x @ r) = (Inr (rf\<lparr>pf_replytime := replytime_of x\<rparr>), r)"
  "parse_field rf (put_field ''shard_number'' 4 (n :: u32) @ r) = (Inr (rf\<lparr>pf_shard_number := n\<rparr>), r)"
  "parse_field rf (put_field ''corruption_detected'' 1 (b :: u8) @ r) = (Inr (rf\<lparr>pf_corruption_detected := b \<noteq> 0\<rparr>), r)"
  by (simp_all add: parse_field_def put_field_def andthen_def ret_def wire)

lemma parse_fields_numeral:
  "parse_fields (numeral k) rf = andthen (parse_field rf) (parse_fields (pred_numeral k))"
  "parse_fields 1 rf = andthen (parse_field rf) (parse_fields 0)"
  by (simp_all add: numeral_eq_Suc)

text \<open>
  C33: the feedback of the pageserver survives the wire. Times are kept in microseconds;
  whatever follows in the buffer is left alone.
\<close>

theorem feedback_roundtrip:
  assumes "0 \<le> pf_replytime rf" and "pf_replytime rf mod 1000 = 0" and "pf_replytime rf div 1000 < 2 ^ 63"
  shows "\<exists>b. feedback_serialize rf = Some b \<and> (\<forall>r. feedback_parse (b @ r) = (Inr rf, r))"
proof -
  note t = replytime_micros [OF assms]
  note run = feedback_serialize_def feedback_parse_def Let_def andthen_def wire ret_def feedback_empty_def
    parse_fields_numeral word_neq_0_conv [symmetric]
  show ?thesis
    by (cases "pf_shard_number rf = 0"; cases "pf_corruption_detected rf"; cases rf)
       (use assms t in \<open>simp_all add: run del: One_nat_def\<close>)
qed

end
