(* ===== verification/Wp_Wire.thy ===== *)
theory Wp_Wire
  imports Sk_Proto
begin

text \<open>
  The wire format of the proposer-acceptor protocol on the proposer's side
  (pgxn/neon/walproposer.c and neon_utils.c), and that both sides agree: what the proposer
  serialises is what the safekeeper parses, and the other way round, in all protocol versions.

  PostgreSQL's pqformat is a parameter. Integers are passed at 64 bits.
\<close>

section \<open>Messages in memory\<close>

record c_mconf = \<comment> \<open>MembershipConfiguration; no new members stand for a configuration that is not joint\<close>
  mc_generation :: sk_generation
  mc_members :: "safekeeper_id list"
  mc_new_members :: "safekeeper_id list"

definition c_mconf_zero :: c_mconf where
  "c_mconf_zero = \<lparr>mc_generation = 0, mc_members = [], mc_new_members = []\<rparr>"

definition mconf_of :: "c_mconf \<Rightarrow> configuration" where
  "mconf_of c = \<lparr>conf_generation = mc_generation c, conf_members = \<lparr>members_m = mc_members c\<rparr>,
     conf_new_members = (if mc_new_members c = [] then None else Some \<lparr>members_m = mc_new_members c\<rparr>)\<rparr>"

record c_proposer_greeting =
  cpg_tenant_id :: bytes \<comment> \<open>C string in hex notation\<close>
  cpg_timeline_id :: bytes
  cpg_mconf :: c_mconf
  cpg_pg_version :: u32
  cpg_system_id :: u64
  cpg_wal_seg_size :: u32

datatype pa_message =
    PAGreeting c_proposer_greeting
  | PAVoteRequest vote_request
  | PAElected proposer_elected
  | PAAppend append_request_header

record c_acceptor_greeting =
  cag_node_id :: u64
  cag_mconf :: c_mconf
  cag_term :: sk_term

record c_vote_response =
  cvr_generation :: sk_generation
  cvr_term :: sk_term
  cvr_vote_given :: u8
  cvr_flush_lsn :: lsn
  cvr_truncate_lsn :: lsn
  cvr_term_history :: term_history

record c_feedback =
  cf_present :: bool
  cf_current_cluster_size :: u64
  cf_last_received_lsn :: lsn
  cf_disk_consistent_lsn :: lsn
  cf_remote_consistent_lsn :: lsn
  cf_replytime :: u64
  cf_shard_number :: u32
  cf_corruption_detected :: bool

record c_append_response =
  car_generation :: sk_generation
  car_term :: sk_term
  car_flush_lsn :: lsn
  car_commit_lsn :: lsn
  car_hs :: hot_standby_feedback
  car_ps_feedback :: c_feedback

section \<open>Formatting\<close>

record pq_format =
  pq_sendint :: "nat \<Rightarrow> u64 \<Rightarrow> bytes" \<comment> \<open>pq_sendint8, 16, 32 and 64\<close>
  pq_send_ascii_string :: "bytes \<Rightarrow> bytes"
  pq_getmsgint :: "nat \<Rightarrow> bytes \<Rightarrow> (u64 \<times> bytes) option" \<comment> \<open>pq_getmsgbyte, pq_getmsgint and pq_getmsgint64\<close>
  pq_getmsgrawstring :: "bytes \<Rightarrow> (bytes \<times> bytes) option"
  pq_getmsgbytes :: "nat \<Rightarrow> bytes \<Rightarrow> (bytes \<times> bytes) option" \<comment> \<open>and pq_copymsgbytes\<close>
  MAXCONNINFO :: nat

datatype c_error = PqError | UnexpectedTag | FatalTag | FatalVersion | FatalHex | Indeterminate | AssertFailed

type_synonym 'a c_reader = "(bytes, c_error, 'a) prog"

definition of_read :: "(bytes \<Rightarrow> ('a \<times> bytes) option) \<Rightarrow> 'a c_reader" where
  "of_read d bs = (case d bs of None \<Rightarrow> (Inl PqError, bs) | Some (x, r) \<Rightarrow> (Inr x, r))"

definition c_getint :: "pq_format \<Rightarrow> nat \<Rightarrow> 'w::len word c_reader" where
  "c_getint pq n = andthen (of_read (pq_getmsgint pq n)) (\<lambda>x. ret (ucast x))"

definition c_sendint :: "pq_format \<Rightarrow> nat \<Rightarrow> 'w::len word \<Rightarrow> bytes" where
  "c_sendint pq n x = pq_sendint pq n (ucast x)"

text \<open>pq_getmsgint32_le and pq_getmsgint64_le copy the bytes of a little-endian machine.\<close>

definition pq_getmsgint_le :: "pq_format \<Rightarrow> nat \<Rightarrow> 'w::len word c_reader" where
  "pq_getmsgint_le pq n = andthen (of_read (pq_getmsgbytes pq n)) (\<lambda>b. ret (of_le b))"

definition pq_sendint_le :: "nat \<Rightarrow> 'w::len word \<Rightarrow> bytes" where
  "pq_sendint_le n x = put_le n x"

definition pq_getmsgend :: "unit c_reader" where
  "pq_getmsgend = andthen (reads (\<lambda>bs. bs = [])) (\<lambda>at_end. ensure at_end PqError)"

definition HexDecodeChar :: "u8 \<Rightarrow> nat option" where
  "HexDecodeChar c =
     (if 48 \<le> c \<and> c \<le> 57 then Some (unat c - 48)
      else if 97 \<le> c \<and> c \<le> 102 then Some (unat c - 97 + 10)
      else if 65 \<le> c \<and> c \<le> 70 then Some (unat c - 65 + 10)
      else None)"

text \<open>Reads the terminating zero when the string ends, and rejects it there.\<close>

fun HexDecodeString :: "nat \<Rightarrow> bytes \<Rightarrow> bytes option" where
  "HexDecodeString 0 s = Some []"
| "HexDecodeString (Suc n) (a # b # s) =
     (case HexDecodeChar a of None \<Rightarrow> None
      | Some n1 \<Rightarrow> (case HexDecodeChar b of None \<Rightarrow> None
        | Some n2 \<Rightarrow> map_option (Cons (of_nat (n1 * 16 + n2))) (HexDecodeString n s)))"
| "HexDecodeString (Suc n) s = None"

lemma length_HexDecodeString: "HexDecodeString n s = Some b \<Longrightarrow> length b = n"
  by (induction n s arbitrary: b rule: HexDecodeString.induct) (auto split: option.splits)

lemma HexDecodeString_code [code]:
  "HexDecodeString n s =
     (if n = 0 then Some []
      else case s of
        a # b # s' \<Rightarrow>
          (case HexDecodeChar a of None \<Rightarrow> None
           | Some n1 \<Rightarrow> (case HexDecodeChar b of None \<Rightarrow> None
             | Some n2 \<Rightarrow> map_option (Cons (of_nat (n1 * 16 + n2))) (HexDecodeString (n - 1) s')))
      | _ \<Rightarrow> None)"
  by (cases "(n, s)" rule: HexDecodeString.cases) (auto split: option.split)

section \<open>Serialisation\<close>

definition c_put_member :: "pq_format \<Rightarrow> safekeeper_id \<Rightarrow> bytes" where
  "c_put_member pq m = c_sendint pq 8 (sk_id m) @ pq_send_ascii_string pq (sk_host m) @ c_sendint pq 2 (sk_pg_port m)"

definition MembershipConfigurationSerialize :: "pq_format \<Rightarrow> c_mconf \<Rightarrow> bytes" where
  "MembershipConfigurationSerialize pq mconf =
     c_sendint pq 4 (mc_generation mconf)
     @ c_sendint pq 4 (of_nat (length (mc_members mconf)) :: u32)
     @ concat (map (c_put_member pq) (mc_members mconf))
     @ c_sendint pq 4 (of_nat (length (mc_new_members mconf)) :: u32)
     @ concat (map (c_put_member pq) (mc_new_members mconf))"

fun PAMessageSerialize_v3 :: "pq_format \<Rightarrow> pa_message \<Rightarrow> bytes" where
  "PAMessageSerialize_v3 pq (PAGreeting m) =
     c_sendint pq 1 (tag_byte (CHR ''g''))
     @ pq_send_ascii_string pq (cpg_tenant_id m) @ pq_send_ascii_string pq (cpg_timeline_id m)
     @ MembershipConfigurationSerialize pq (cpg_mconf m)
     @ c_sendint pq 4 (cpg_pg_version m) @ c_sendint pq 8 (cpg_system_id m) @ c_sendint pq 4 (cpg_wal_seg_size m)"
| "PAMessageSerialize_v3 pq (PAVoteRequest m) =
     c_sendint pq 1 (tag_byte (CHR ''v'')) @ c_sendint pq 4 (vr_generation m) @ c_sendint pq 8 (vr_term m)"
| "PAMessageSerialize_v3 pq (PAElected m) =
     c_sendint pq 1 (tag_byte (CHR ''e'')) @ c_sendint pq 4 (pe_generation m) @ c_sendint pq 8 (pe_term m)
     @ c_sendint pq 8 (pe_start_streaming_at m)
     @ c_sendint pq 4 (of_nat (length (pe_term_history m)) :: u32)
     @ concat (map (\<lambda>e. c_sendint pq 8 (tl_term e) @ c_sendint pq 8 (tl_lsn e)) (pe_term_history m))"
| "PAMessageSerialize_v3 pq (PAAppend m) =
     c_sendint pq 1 (tag_byte (CHR ''a'')) @ c_sendint pq 4 (ah_generation m) @ c_sendint pq 8 (ah_term m)
     @ c_sendint pq 8 (ah_begin_lsn m) @ c_sendint pq 8 (ah_end_lsn m)
     @ c_sendint pq 8 (ah_commit_lsn m) @ c_sendint pq 8 (ah_truncate_lsn m)"

text \<open>The configuration of the walproposer that goes into the greeting of version 2.\<close>

record wp_wire_config =
  wc_system_id :: u64
  wc_pg_timeline :: u32
  wc_wal_segment_size :: u32

definition c_id_bytes :: "bytes \<Rightarrow> c_error + bytes" where
  "c_id_bytes s = (if s = [] then Inl Indeterminate
     else case HexDecodeString 16 s of None \<Rightarrow> Inl FatalHex | Some b \<Rightarrow> Inr b)"

fun PAMessageSerialize_v2 :: "wp_wire_config \<Rightarrow> pa_message \<Rightarrow> c_error + bytes" where
  "PAMessageSerialize_v2 cfg (PAGreeting m) =
     (case c_id_bytes (cpg_timeline_id m) of Inl e \<Rightarrow> Inl e
      | Inr timeline_id \<Rightarrow>
        (case c_id_bytes (cpg_tenant_id m) of Inl e \<Rightarrow> Inl e
         | Inr tenant_id \<Rightarrow> Inr (put_le 8 (tag64 (CHR ''g'')) @ put_le 4 (2 :: u32) @ put_le 4 (cpg_pg_version m)
             @ replicate 16 0 @ put_le 8 (wc_system_id cfg) @ timeline_id @ tenant_id
             @ put_le 4 (wc_pg_timeline cfg) @ put_le 4 (wc_wal_segment_size cfg))))"
| "PAMessageSerialize_v2 cfg (PAVoteRequest m) =
     Inr (put_le 8 (tag64 (CHR ''v'')) @ put_le 8 (vr_term m) @ replicate 16 0)"
| "PAMessageSerialize_v2 cfg (PAElected m) =
     (case pe_term_history m of [] \<Rightarrow> Inl Indeterminate
      | e # _ \<Rightarrow> Inr (pq_sendint_le 8 (tag64 (CHR ''e'')) @ pq_sendint_le 8 (pe_term m)
          @ pq_sendint_le 8 (pe_start_streaming_at m)
          @ pq_sendint_le 4 (of_nat (length (pe_term_history m)) :: u32)
          @ concat (map (\<lambda>e. pq_sendint_le 8 (tl_term e) @ pq_sendint_le 8 (tl_lsn e)) (pe_term_history m))
          @ pq_sendint_le 8 (tl_lsn e)))"
| "PAMessageSerialize_v2 cfg (PAAppend m) =
     Inr (put_le 8 (tag64 (CHR ''a'')) @ put_le 8 (ah_term m) @ put_le 8 (0 :: u64)
       @ put_le 8 (ah_begin_lsn m) @ put_le 8 (ah_end_lsn m) @ put_le 8 (ah_commit_lsn m)
       @ put_le 8 (ah_truncate_lsn m) @ replicate 16 0)"

definition PAMessageSerialize :: "pq_format \<Rightarrow> wp_wire_config \<Rightarrow> u32 \<Rightarrow> pa_message \<Rightarrow> c_error + bytes" where
  "PAMessageSerialize pq cfg proto_version m =
     (if proto_version = 3 \<or> proto_version = 4 then Inr (PAMessageSerialize_v3 pq m)
      else if proto_version = 2 then PAMessageSerialize_v2 cfg m
      else Inl FatalVersion)"

section \<open>Reading\<close>

fun c_get_members :: "pq_format \<Rightarrow> nat \<Rightarrow> safekeeper_id list c_reader" where
  "c_get_members pq 0 = ret []"
| "c_get_members pq (Suc n) =
     andthen (c_getint pq 8) (\<lambda>node_id.
     andthen (of_read (pq_getmsgrawstring pq)) (\<lambda>buf_host.
     andthen (c_getint pq 2) (\<lambda>port.
     andthen (c_get_members pq n) (\<lambda>ms.
     ret (\<lparr>sk_id = node_id, sk_host = take (MAXCONNINFO pq - 1) buf_host, sk_pg_port = port\<rparr> # ms)))))"

definition MembershipConfigurationDeserialize :: "pq_format \<Rightarrow> c_mconf c_reader" where
  "MembershipConfigurationDeserialize pq =
     andthen (c_getint pq 4) (\<lambda>generation.
     andthen (c_getint pq 4) (\<lambda>members_len :: u32.
     andthen (c_get_members pq (unat members_len)) (\<lambda>members.
     andthen (c_getint pq 4) (\<lambda>new_members_len :: u32.
     andthen (c_get_members pq (unat new_members_len)) (\<lambda>new_members.
     ret \<lparr>mc_generation = generation, mc_members = members, mc_new_members = new_members\<rparr>)))))"

definition c_value :: "pq_format \<Rightarrow> nat \<Rightarrow> u32 \<Rightarrow> 'w::len word c_reader" where
  "c_value pq n value_len = andthen (ensure (value_len = of_nat n) AssertFailed) (\<lambda>_. c_getint pq n)"

definition c_parse_field :: "pq_format \<Rightarrow> c_feedback \<Rightarrow> c_feedback c_reader" where
  "c_parse_field pq fb =
     andthen (of_read (pq_getmsgrawstring pq)) (\<lambda>k.
     andthen (c_getint pq 4) (\<lambda>value_len :: u32.
     if k = key ''current_timeline_size'' then
       andthen (c_value pq 8 value_len) (\<lambda>x. ret (fb\<lparr>cf_current_cluster_size := x\<rparr>))
     else if k = key ''ps_writelsn'' \<or> k = key ''last_received_lsn'' then
       andthen (c_value pq 8 value_len) (\<lambda>x. ret (fb\<lparr>cf_last_received_lsn := x\<rparr>))
     else if k = key ''ps_flushlsn'' \<or> k = key ''disk_consistent_lsn'' then
       andthen (c_value pq 8 value_len) (\<lambda>x. ret (fb\<lparr>cf_disk_consistent_lsn := x\<rparr>))
     else if k = key ''ps_applylsn'' \<or> k = key ''remote_consistent_lsn'' then
       andthen (c_value pq 8 value_len) (\<lambda>x. ret (fb\<lparr>cf_remote_consistent_lsn := x\<rparr>))
     else if k = key ''ps_replytime'' \<or> k = key ''replytime'' then
       andthen (c_value pq 8 value_len) (\<lambda>x. ret (fb\<lparr>cf_replytime := x\<rparr>))
     else if k = key ''shard_number'' then
       andthen (c_value pq 4 value_len) (\<lambda>x. ret (fb\<lparr>cf_shard_number := x\<rparr>))
     else if k = key ''corruption_detected'' then
       andthen (c_value pq 1 value_len) (\<lambda>x :: u8. ret (fb\<lparr>cf_corruption_detected := x \<noteq> 0\<rparr>))
     else andthen (of_read (pq_getmsgbytes pq (unat value_len))) (\<lambda>_. ret fb)))"

fun c_parse_fields :: "pq_format \<Rightarrow> nat \<Rightarrow> c_feedback \<Rightarrow> c_feedback c_reader" where
  "c_parse_fields pq 0 fb = ret fb"
| "c_parse_fields pq (Suc n) fb = andthen (c_parse_field pq fb) (c_parse_fields pq n)"

definition c_feedback_zero :: c_feedback where
  "c_feedback_zero = \<lparr>cf_present = False, cf_current_cluster_size = 0, cf_last_received_lsn = 0,
     cf_disk_consistent_lsn = 0, cf_remote_consistent_lsn = 0, cf_replytime = 0, cf_shard_number = 0,
     cf_corruption_detected = False\<rparr>"

definition ParsePageserverFeedbackMessage :: "pq_format \<Rightarrow> c_feedback c_reader" where
  "ParsePageserverFeedbackMessage pq =
     andthen (c_getint pq 1) (\<lambda>nkeys :: u8.
     c_parse_fields pq (unat nkeys) (c_feedback_zero\<lparr>cf_present := True\<rparr>))"

text \<open>The optional tail of an append response, in all versions.\<close>

definition c_read_feedback :: "pq_format \<Rightarrow> c_feedback \<Rightarrow> c_feedback c_reader" where
  "c_read_feedback pq old =
     andthen (reads (\<lambda>bs. bs \<noteq> [])) (\<lambda>more.
     if more then ParsePageserverFeedbackMessage pq else ret (old\<lparr>cf_present := False\<rparr>))"

fun c_read_history :: "pq_format \<Rightarrow> nat \<Rightarrow> term_history c_reader" where
  "c_read_history pq 0 = ret []"
| "c_read_history pq (Suc n) =
     andthen (c_getint pq 8) (\<lambda>t. andthen (c_getint pq 8) (\<lambda>l.
     andthen (c_read_history pq n) (\<lambda>es. ret (\<lparr>tl_term = t, tl_lsn = l\<rparr> # es))))"

fun c_read_history_le :: "pq_format \<Rightarrow> nat \<Rightarrow> term_history c_reader" where
  "c_read_history_le pq 0 = ret []"
| "c_read_history_le pq (Suc n) =
     andthen (pq_getmsgint_le pq 8) (\<lambda>t. andthen (pq_getmsgint_le pq 8) (\<lambda>l.
     andthen (c_read_history_le pq n) (\<lambda>es. ret (\<lparr>tl_term = t, tl_lsn = l\<rparr> # es))))"

text \<open>AsyncReadMessage behind the read: the tag, which has to be the expected one, and the message.\<close>

definition c_read_tag :: "pq_format \<Rightarrow> u32 \<Rightarrow> char \<Rightarrow> unit c_reader" where
  "c_read_tag pq proto_version expected =
     (if proto_version = 3 \<or> proto_version = 4 then
        andthen (c_getint pq 1) (\<lambda>tag. ensure (tag = tag_byte expected) UnexpectedTag)
      else if proto_version = 2 then
        andthen (pq_getmsgint_le pq 8) (\<lambda>tag64 :: u64. ensure (ucast tag64 = tag_byte expected) UnexpectedTag)
      else throw FatalVersion)"

definition read_greeting :: "pq_format \<Rightarrow> u32 \<Rightarrow> c_acceptor_greeting \<Rightarrow> c_acceptor_greeting c_reader" where
  "read_greeting pq proto_version msg =
     andthen (c_read_tag pq proto_version (CHR ''g'')) (\<lambda>_.
     if proto_version = 2 then
       andthen (pq_getmsgint_le pq 8) (\<lambda>t.
       andthen (pq_getmsgint_le pq 8) (\<lambda>node_id.
       andthen pq_getmsgend (\<lambda>_.
       ret (msg\<lparr>cag_term := t, cag_node_id := node_id\<rparr>))))
     else
       andthen (c_getint pq 8) (\<lambda>node_id.
       andthen (MembershipConfigurationDeserialize pq) (\<lambda>mconf.
       andthen (c_getint pq 8) (\<lambda>t.
       andthen pq_getmsgend (\<lambda>_.
       ret \<lparr>cag_node_id = node_id, cag_mconf = mconf, cag_term = t\<rparr>)))))"

definition read_vote_response :: "pq_format \<Rightarrow> u32 \<Rightarrow> c_vote_response \<Rightarrow> c_vote_response c_reader" where
  "read_vote_response pq proto_version msg =
     andthen (c_read_tag pq proto_version (CHR ''v'')) (\<lambda>_.
     if proto_version = 2 then
       andthen (pq_getmsgint_le pq 8) (\<lambda>t.
       andthen (pq_getmsgint_le pq 8) (\<lambda>vote_given :: u64.
       andthen (pq_getmsgint_le pq 8) (\<lambda>flush_lsn.
       andthen (pq_getmsgint_le pq 8) (\<lambda>truncate_lsn.
       andthen (pq_getmsgint_le pq 4) (\<lambda>n_entries :: u32.
       andthen (c_read_history_le pq (unat n_entries)) (\<lambda>th.
       andthen (pq_getmsgint_le pq 8) (\<lambda>timeline_start_lsn :: u64.
       andthen pq_getmsgend (\<lambda>_.
       ret (msg\<lparr>cvr_term := t, cvr_vote_given := ucast vote_given, cvr_flush_lsn := flush_lsn,
         cvr_truncate_lsn := truncate_lsn, cvr_term_history := th\<rparr>)))))))))
     else
       andthen (c_getint pq 4) (\<lambda>generation.
       andthen (c_getint pq 8) (\<lambda>t.
       andthen (c_getint pq 1) (\<lambda>vote_given.
       andthen (c_getint pq 8) (\<lambda>flush_lsn.
       andthen (c_getint pq 8) (\<lambda>truncate_lsn.
       andthen (c_getint pq 4) (\<lambda>n_entries :: u32.
       andthen (c_read_history pq (unat n_entries)) (\<lambda>th.
       andthen pq_getmsgend (\<lambda>_.
       ret \<lparr>cvr_generation = generation, cvr_term = t, cvr_vote_given = vote_given,
         cvr_flush_lsn = flush_lsn, cvr_truncate_lsn = truncate_lsn, cvr_term_history = th\<rparr>)))))))))"

definition read_append_response :: "pq_format \<Rightarrow> u32 \<Rightarrow> c_append_response \<Rightarrow> c_append_response c_reader" where
  "read_append_response pq proto_version msg =
     andthen (c_read_tag pq proto_version (CHR ''a'')) (\<lambda>_.
     if proto_version = 2 then
       andthen (pq_getmsgint_le pq 8) (\<lambda>t.
       andthen (pq_getmsgint_le pq 8) (\<lambda>flush_lsn.
       andthen (pq_getmsgint_le pq 8) (\<lambda>commit_lsn.
       andthen (pq_getmsgint_le pq 8) (\<lambda>ts.
       andthen (pq_getmsgint_le pq 8) (\<lambda>xmin.
       andthen (pq_getmsgint_le pq 8) (\<lambda>catalog_xmin.
       andthen (c_read_feedback pq (car_ps_feedback msg)) (\<lambda>fb.
       andthen pq_getmsgend (\<lambda>_.
       ret (msg\<lparr>car_term := t, car_flush_lsn := flush_lsn, car_commit_lsn := commit_lsn,
         car_hs := \<lparr>hs_ts = ts, hs_xmin = xmin, hs_catalog_xmin = catalog_xmin\<rparr>, car_ps_feedback := fb\<rparr>)))))))))
     else
       andthen (c_getint pq 4) (\<lambda>generation.
       andthen (c_getint pq 8) (\<lambda>t.
       andthen (c_getint pq 8) (\<lambda>flush_lsn.
       andthen (c_getint pq 8) (\<lambda>commit_lsn.
       andthen (c_getint pq 8) (\<lambda>ts.
       andthen (c_getint pq 8) (\<lambda>xmin.
       andthen (c_getint pq 8) (\<lambda>catalog_xmin.
       andthen (c_read_feedback pq (car_ps_feedback msg)) (\<lambda>fb.
       andthen pq_getmsgend (\<lambda>_.
       ret \<lparr>car_generation = generation, car_term = t, car_flush_lsn = flush_lsn, car_commit_lsn = commit_lsn,
         car_hs = \<lparr>hs_ts = ts, hs_xmin = xmin, hs_catalog_xmin = catalog_xmin\<rparr>, car_ps_feedback = fb\<rparr>))))))))))"

section \<open>The formatting functions\<close>

lemma tag64_byte: "ucast (tag64 c) = tag_byte c"
proof -
  have "(of_char c :: nat) < 256" by (metis of_char_mod_256 mod_less_divisor zero_less_numeral)
  then have "(of_char c :: nat) mod 18446744073709551616 = of_char c" by (intro mod_less) linarith
  then show ?thesis
    by (simp add: tag64_def tag_byte_def word_unat_eq_iff unsigned_ucast_eq unat_of_nat take_bit_eq_mod)
qed

text \<open>Strings both sides take unchanged.\<close>

definition ascii :: "bytes \<Rightarrow> bool" where
  "ascii s \<longleftrightarrow> (\<forall>b \<in> set s. b \<noteq> 0 \<and> b < 128)"

lemma ascii_sendable:
  assumes "ascii s"
  shows "0 \<notin> set s" and "utf8_valid s"
proof -
  show "0 \<notin> set s" using assms by (auto simp: ascii_def)
  show "utf8_valid s"
    using assms
  proof (induction s)
    case (Cons a s)
    then have "a \<le> 0x7F" by (auto simp: ascii_def word_le_nat_alt word_less_nat_alt)
    with Cons show ?case by (simp add: ascii_def)
  qed simp
qed

text \<open>
  \<open>pa_sendable hex m wal p\<close>: \<open>p\<close> is the message that \<open>m\<close>, followed by \<open>wal\<close>, stands for,
  within the limits of the protocol.
\<close>

definition mconf_sendable :: "c_mconf \<Rightarrow> bool" where
  "mconf_sendable c \<longleftrightarrow> conf_sendable (mconf_of c)
     \<and> (\<forall>m \<in> set (mc_members c) \<union> set (mc_new_members c). ascii (sk_host m))"

fun pa_sendable :: "(bytes \<Rightarrow> bytes option) \<Rightarrow> pa_message \<Rightarrow> bytes \<Rightarrow> proposer_acceptor_message \<Rightarrow> bool" where
  "pa_sendable hex (PAGreeting g) wal (Greeting p) \<longleftrightarrow> wal = []
     \<and> ascii (cpg_tenant_id g) \<and> hex (cpg_tenant_id g) = Some (pg_tenant_id p)
     \<and> ascii (cpg_timeline_id g) \<and> hex (cpg_timeline_id g) = Some (pg_timeline_id p)
     \<and> mconf_sendable (cpg_mconf g) \<and> pg_mconf p = mconf_of (cpg_mconf g)
     \<and> from_full_pg_version (cpg_pg_version g) = Some (pg_pg_version p)
     \<and> pg_system_id p = cpg_system_id g \<and> pg_wal_seg_size p = cpg_wal_seg_size g"
| "pa_sendable hex (PAVoteRequest v) wal (VoteRequest p) \<longleftrightarrow> wal = [] \<and> p = v"
| "pa_sendable hex (PAElected e) wal (Elected p) \<longleftrightarrow> wal = [] \<and> p = e \<and> length (pe_term_history e) < 2 ^ 32"
| "pa_sendable hex (PAAppend h) wal (AppendRequest p) \<longleftrightarrow> p = \<lparr>ar_h = h, ar_wal_data = wal\<rparr>
     \<and> length wal \<le> MAX_SEND_SIZE \<and> unat (ah_end_lsn h) = unat (ah_begin_lsn h) + length wal"
| "pa_sendable hex _ wal _ \<longleftrightarrow> False"

text \<open>The same for version 2, which has no configurations and takes some fields from \<open>cfg\<close>.\<close>

fun pa_sendable_v2 :: "wp_wire_config \<Rightarrow> pa_message \<Rightarrow> bytes \<Rightarrow> proposer_acceptor_message \<Rightarrow> bool" where
  "pa_sendable_v2 cfg (PAGreeting g) wal (Greeting p) \<longleftrightarrow> wal = []
     \<and> c_id_bytes (cpg_tenant_id g) = Inr (pg_tenant_id p)
     \<and> c_id_bytes (cpg_timeline_id g) = Inr (pg_timeline_id p)
     \<and> pg_mconf p = configuration_empty \<and> pg_pg_version p = cpg_pg_version g
     \<and> pg_system_id p = wc_system_id cfg \<and> pg_wal_seg_size p = wc_wal_segment_size cfg"
| "pa_sendable_v2 cfg (PAVoteRequest v) wal (VoteRequest p) \<longleftrightarrow>
     wal = [] \<and> p = v\<lparr>vr_generation := INVALID_GENERATION\<rparr>"
| "pa_sendable_v2 cfg (PAElected e) wal (Elected p) \<longleftrightarrow> wal = [] \<and> p = e\<lparr>pe_generation := INVALID_GENERATION\<rparr>
     \<and> pe_term_history e \<noteq> [] \<and> length (pe_term_history e) < 2 ^ 32"
| "pa_sendable_v2 cfg (PAAppend h) wal (AppendRequest p) \<longleftrightarrow>
     p = \<lparr>ar_h = h\<lparr>ah_generation := INVALID_GENERATION\<rparr>, ar_wal_data = wal\<rparr>
     \<and> length wal \<le> MAX_SEND_SIZE \<and> unat (ah_end_lsn h) = unat (ah_begin_lsn h) + length wal"
| "pa_sendable_v2 cfg _ wal _ \<longleftrightarrow> False"

text \<open>The proposer keeps host names in buffers of a fixed size.\<close>

definition mconf_fits :: "nat \<Rightarrow> configuration \<Rightarrow> bool" where
  "mconf_fits n c \<longleftrightarrow> (\<forall>sk \<in> set (members_m (conf_members c))
       \<union> (case conf_new_members c of None \<Rightarrow> {} | Some ms \<Rightarrow> set (members_m ms)). length (sk_host sk) < n)"

text \<open>What the proposer holds after it has read a message of the acceptor.\<close>

definition c_mconf_of :: "configuration \<Rightarrow> c_mconf" where
  "c_mconf_of c = \<lparr>mc_generation = conf_generation c, mc_members = members_m (conf_members c),
     mc_new_members = (case conf_new_members c of None \<Rightarrow> [] | Some ms \<Rightarrow> members_m ms)\<rparr>"

definition c_greeting_of :: "u32 \<Rightarrow> c_acceptor_greeting \<Rightarrow> acceptor_greeting \<Rightarrow> c_acceptor_greeting" where
  "c_greeting_of v old m = \<lparr>cag_node_id = ag_node_id m,
     cag_mconf = (if v = 2 then cag_mconf old else c_mconf_of (ag_mconf m)), cag_term = ag_term m\<rparr>"

definition c_vote_response_of :: "u32 \<Rightarrow> c_vote_response \<Rightarrow> vote_response \<Rightarrow> c_vote_response" where
  "c_vote_response_of v old m =
     \<lparr>cvr_generation = (if v = 2 then cvr_generation old else vp_generation m), cvr_term = vp_term m,
      cvr_vote_given = bool_byte (vp_vote_given m), cvr_flush_lsn = vp_flush_lsn m,
      cvr_truncate_lsn = vp_truncate_lsn m, cvr_term_history = vp_term_history m\<rparr>"

definition c_feedback_of :: "c_feedback \<Rightarrow> pageserver_feedback option \<Rightarrow> c_feedback" where
  "c_feedback_of old f = (case f of None \<Rightarrow> old\<lparr>cf_present := False\<rparr>
     | Some rf \<Rightarrow> \<lparr>cf_present = True, cf_current_cluster_size = pf_current_timeline_size rf,
         cf_last_received_lsn = pf_last_received_lsn rf, cf_disk_consistent_lsn = pf_disk_consistent_lsn rf,
         cf_remote_consistent_lsn = pf_remote_consistent_lsn rf,
         cf_replytime = word_of_int (pf_replytime rf div 1000), cf_shard_number = pf_shard_number rf,
         cf_corruption_detected = pf_corruption_detected rf\<rparr>)"

definition c_append_response_of :: "u32 \<Rightarrow> c_append_response \<Rightarrow> append_response \<Rightarrow> c_append_response" where
  "c_append_response_of v old m =
     \<lparr>car_generation = (if v = 2 then car_generation old else ap_generation m), car_term = ap_term m,
      car_flush_lsn = ap_flush_lsn m, car_commit_lsn = ap_commit_lsn m, car_hs = ap_hs_feedback m,
      car_ps_feedback = c_feedback_of (car_ps_feedback old) (ap_pageserver_feedback m)\<rparr>"

text \<open>
  What the protocol relies on: integers in network byte order, strings with a terminating
  zero, ASCII strings sent unchanged, and errors when bytes are missing.
\<close>

locale pq_wire =
  fixes pq :: pq_format
  assumes sendint: "n \<in> {1, 2, 4, 8} \<Longrightarrow> pq_sendint pq n x = put_be n x"
      and send_ascii: "\<forall>b \<in> set s. b \<noteq> 0 \<and> b < 128 \<Longrightarrow> pq_send_ascii_string pq s = s @ [0]"
      and getmsgint: "n \<in> {1, 2, 4, 8} \<Longrightarrow> pq_getmsgint pq n bs = get_be n bs"
      and getmsgrawstring: "0 \<notin> set s \<Longrightarrow> pq_getmsgrawstring pq (s @ 0 # r) = Some (s, r)"
      and getmsgbytes: "pq_getmsgbytes pq n bs = (if length bs < n then None else Some (take n bs, drop n bs))"
begin

lemma c_sendint_be:
  fixes x :: "'w::len word"
  assumes "n \<in> {1, 2, 4, 8}" and "LENGTH('w) \<le> 64"
  shows "c_sendint pq n x = put_be n x"
proof -
  have "unat (ucast x :: u64) = unat x"
    using assms(2) unat_less_256 [of 8 x] by (simp add: unsigned_ucast_eq take_bit_nat_eq_self_iff)
  then show ?thesis using sendint [OF assms(1)] by (simp add: c_sendint_def put_be_def)
qed

lemma c_getint_put:
  fixes x :: "'w::len word"
  assumes "n \<in> {1, 2, 4, 8}" and "LENGTH('w) \<le> 8 * n"
  shows "c_getint pq n (put_be n x @ r) = (Inr x, r)"
proof -
  have "LENGTH('w) \<le> 64" using assms by auto
  then have "unat x < 2 ^ 64"
    using unat_less_256 [of 8 x] by simp
  then have "ucast (word_of_nat (unat x) :: u64) = x"
    by (simp add: word_unat_eq_iff unsigned_ucast_eq unat_of_nat unat_take_bit)
  moreover have "le_nat (rev (put_be n x)) = unat x"
    using assms(2) by (simp add: put_be_def le_nat_le_bytes unat_less_256)
  ultimately show ?thesis
    using getmsgint [OF assms(1)]
    by (simp add: c_getint_def andthen_def of_read_def ret_def get_be_def of_be_def)
qed

lemma getmsgint_le_put:
  fixes x :: "'w::len word"
  assumes "LENGTH('w) \<le> 8 * n"
  shows "pq_getmsgint_le pq n (put_le n x @ r) = (Inr x, r)"
  using assms by (simp add: pq_getmsgint_le_def andthen_def of_read_def ret_def getmsgbytes)

lemma read_string_put: "0 \<notin> set s \<Longrightarrow> of_read (pq_getmsgrawstring pq) (s @ 0 # r) = (Inr s, r)"
  by (simp add: of_read_def getmsgrawstring)

lemmas c_wire = c_sendint_be c_getint_put getmsgint_le_put read_string_put

lemma send_ascii_cstr: "ascii s \<Longrightarrow> pq_send_ascii_string pq s = s @ [0]"
  using send_ascii by (simp add: ascii_def)

lemma c_put_member_eq: "ascii (sk_host m) \<Longrightarrow> c_put_member pq m = put_member m"
  by (simp add: c_put_member_def put_member_def put_cstr_def c_wire send_ascii_cstr)

lemma mconf_serialize_eq:
  assumes "\<forall>m \<in> set (mc_members c) \<union> set (mc_new_members c). ascii (sk_host m)"
  shows "MembershipConfigurationSerialize pq c = serialize_mconf (mconf_of c)"
proof -
  have "concat (map (c_put_member pq) ms) = concat (map put_member ms)"
    if "\<forall>m \<in> set ms. ascii (sk_host m)" for ms
    using that by (intro arg_cong [where f = concat]) (simp add: c_put_member_eq)
  then show ?thesis
    using assms by (simp add: MembershipConfigurationSerialize_def serialize_mconf_def mconf_of_def c_wire)
qed

text \<open>The safekeeper's parser on what the proposer serialises, version 3.\<close>

lemma parse_pa_message:
  assumes "pa_sendable hex m wal p"
  shows "parse_v3 hex (PAMessageSerialize_v3 pq m @ wal) = (Inr p, [])"
proof -
  have tag: "c_sendint pq 1 (tag_byte c) = [tag_byte c]" for c
    by (simp add: c_wire put_be_byte del: One_nat_def)
  note run = parse_v3_def andthen_def tag wire c_wire of_option_def ret_def ensure_def reads_def
    modify_def ascii_sendable
  show ?thesis
  proof (cases m)
    case (PAGreeting g)
    with assms obtain q where "p = Greeting q" by (cases p) auto
    with PAGreeting assms show ?thesis
      by (cases q) (simp add: run parse_greeting_def send_ascii_cstr mconf_serialize_eq id_from_str_def
          mconf_sendable_def del: One_nat_def)
  next
    case (PAVoteRequest v)
    with assms have "p = VoteRequest v" by (cases p) auto
    with PAVoteRequest assms show ?thesis
      by (cases v) (simp add: run parse_vote_request_def del: One_nat_def)
  next
    case (PAElected e)
    with assms have "p = Elected e" by (cases p) auto
    with PAElected assms show ?thesis
      by (cases e) (simp add: run parse_elected_def put_history_def [symmetric] del: One_nat_def)
  next
    case (PAAppend h)
    with assms have "p = AppendRequest \<lparr>ar_h = h, ar_wal_data = wal\<rparr>" by (cases p) auto
    with PAAppend assms show ?thesis
      by (cases h) (simp add: run parse_append_request_def wal_data_of_def record_size_def checked_sub_def
          word_le_nat_alt unat_sub_le del: One_nat_def)
  qed
qed

text \<open>The proposer's readers on what the safekeeper serialises.\<close>

lemmas c_end = c_getint_put [where r = "[]", unfolded append_Nil2]
  getmsgint_le_put [where r = "[]", unfolded append_Nil2]

lemma c_getint_byte: "c_getint pq 1 (x # r) = (Inr x, r)" for x :: u8
  using c_getint_put [of 1 x r] by (simp add: put_be_byte del: One_nat_def)

lemma c_get_members_put:
  assumes "\<forall>sk \<in> set sks. 0 \<notin> set (sk_host sk) \<and> length (sk_host sk) < MAXCONNINFO pq"
  shows "c_get_members pq (length sks) (concat (map put_member sks) @ r) = (Inr sks, r)"
  using assms
proof (induction sks)
  case (Cons sk sks)
  have "take (MAXCONNINFO pq - 1) (sk_host sk) = sk_host sk" using Cons.prems by auto
  then have "\<lparr>sk_id = sk_id sk, sk_host = take (MAXCONNINFO pq - 1) (sk_host sk), sk_pg_port = sk_pg_port sk\<rparr> = sk"
    by (cases sk) simp
  with Cons show ?case
    by (simp add: andthen_def put_member_def put_cstr_def c_wire ret_def del: One_nat_def)
qed (simp add: ret_def)

lemma c_read_history_put:
  "c_read_history pq (length th) (concat (map (\<lambda>e. put_be 8 (tl_term e) @ put_be 8 (tl_lsn e)) th) @ r) = (Inr th, r)"
proof (induction th)
  case (Cons e th)
  have "\<lparr>tl_term = tl_term e, tl_lsn = tl_lsn e\<rparr> = e" by (cases e) simp
  with Cons show ?case by (simp add: andthen_def c_wire ret_def)
qed (simp add: ret_def)

lemma c_read_history_le_put:
  "c_read_history_le pq (length th) (concat (map (\<lambda>e. put_le 8 (tl_term e) @ put_le 8 (tl_lsn e)) th) @ r) = (Inr th, r)"
proof (induction th)
  case (Cons e th)
  have "\<lparr>tl_term = tl_term e, tl_lsn = tl_lsn e\<rparr> = e" by (cases e) simp
  with Cons show ?case by (simp add: andthen_def c_wire ret_def)
qed (simp add: ret_def)

lemma mconf_deserialize_put:
  assumes "conf_sendable c" and "mconf_fits (MAXCONNINFO pq) c"
  shows "MembershipConfigurationDeserialize pq (serialize_mconf c @ r) = (Inr (c_mconf_of c), r)"
  using assms
  by (cases "conf_new_members c")
     (auto simp: MembershipConfigurationDeserialize_def serialize_mconf_def andthen_def c_wire ret_def
      c_get_members_put c_mconf_of_def conf_sendable_def set_sendable_length mconf_fits_def set_sendable_def
      member_sendable_def)

lemma c_value_put:
  fixes x :: "'w::len word"
  assumes "n \<in> {1, 2, 4, 8}" and "LENGTH('w) \<le> 8 * n" and "len = of_nat n"
  shows "c_value pq n len (put_be n x @ r) = (Inr x, r)"
  using assms by (simp add: c_value_def andthen_def ensure_def ret_def c_wire)

lemma c_read_key: "CHR 0x00 \<notin> set s \<Longrightarrow> of_read (pq_getmsgrawstring pq) (key s @ 0 # r) = (Inr (key s), r)"
  by (rule read_string_put [OF key_no_nul])

lemma c_parse_field_put:
  "c_parse_field pq fb (put_field ''current_timeline_size'' 8 (x :: u64) @ r) = (Inr (fb\<lparr>cf_current_cluster_size := x\<rparr>), r)"
  "c_parse_field pq fb (put_field ''ps_writelsn'' 8 x @ r) = (Inr (fb\<lparr>cf_last_received_lsn := x\<rparr>), r)"
  "c_parse_field pq fb (put_field ''ps_flushlsn'' 8 x @ r) = (Inr (fb\<lparr>cf_disk_consistent_lsn := x\<rparr>), r)"
  "c_parse_field pq fb (put_field ''ps_applylsn'' 8 x @ r) = (Inr (fb\<lparr>cf_remote_consistent_lsn := x\<rparr>), r)"
  "c_parse_field pq fb (put_field ''ps_replytime'' 8 x @ r) = (Inr (fb\<lparr>cf_replytime := x\<rparr>), r)"
  "c_parse_field pq fb (put_field ''shard_number'' 4 (n :: u32) @ r) = (Inr (fb\<lparr>cf_shard_number := n\<rparr>), r)"
  "c_parse_field pq fb (put_field ''corruption_detected'' 1 (b :: u8) @ r) = (Inr (fb\<lparr>cf_corruption_detected := b \<noteq> 0\<rparr>), r)"
  by (simp_all add: c_parse_field_def put_field_def andthen_def ret_def c_wire c_read_key c_value_put)

lemma c_parse_fields_numeral:
  "c_parse_fields pq (numeral k) fb = andthen (c_parse_field pq fb) (c_parse_fields pq (pred_numeral k))"
  "c_parse_fields pq 1 fb = andthen (c_parse_field pq fb) (c_parse_fields pq 0)"
  by (simp_all add: numeral_eq_Suc)

lemma c_read_feedback_put:
  assumes "put_feedback f = Some b"
  shows "c_read_feedback pq old b = (Inr (c_feedback_of old f), [])"
proof (cases f)
  case None
  then show ?thesis
    using assms by (simp add: put_feedback_def c_read_feedback_def c_feedback_of_def andthen_def reads_def ret_def)
next
  case (Some rf)
  note parse_end = c_parse_field_put [where r = "[]", unfolded append_Nil2]
  note run = feedback_serialize_def Let_def ParsePageserverFeedbackMessage_def andthen_def ret_def reads_def
    c_getint_byte c_parse_fields_numeral c_parse_field_put parse_end c_feedback_of_def c_feedback_zero_def
    word_neq_0_conv [symmetric] c_read_feedback_def
  show ?thesis
    using assms Some
    by (cases "pf_shard_number rf = 0"; cases "pf_corruption_detected rf"; cases rf)
       (auto simp: put_feedback_def run simp del: One_nat_def split: if_splits)
qed

lemma pq_getmsgend_end: "pq_getmsgend [] = (Inr (), [])"
  by (simp add: pq_getmsgend_def andthen_def reads_def ensure_def ret_def)


lemma c_read_tag_put:
  "v = 3 \<or> v = 4 \<Longrightarrow> c_read_tag pq v c (tag_byte c # r) = (Inr (), r)"
  "c_read_tag pq 2 c (put_le 8 (tag64 c) @ r) = (Inr (), r)"
  by (auto simp: c_read_tag_def andthen_def ensure_def ret_def c_getint_byte c_wire tag64_byte simp del: One_nat_def)

lemmas c_run = andthen_def ret_def c_read_tag_put c_wire c_end pq_getmsgend_end c_getint_byte

lemma read_greeting_put:
  assumes "v \<in> {2, 3, 4}" and "conf_sendable (ag_mconf m)" and "mconf_fits (MAXCONNINFO pq) (ag_mconf m)"
      and "serialize_msg (AGreeting m) v = Inr b"
  shows "read_greeting pq v old b = (Inr (c_greeting_of v old m), [])"
  using assms
  by (cases m; cases old)
     (auto simp: read_greeting_def serialize_msg_def SK_PROTO_VERSION_2_def SK_PROTO_VERSION_3_def
      SK_PROTO_VERSION_4_def c_run mconf_deserialize_put c_greeting_of_def simp del: One_nat_def)

lemma read_vote_response_put:
  assumes "v \<in> {2, 3, 4}" and "length (vp_term_history m) < 2 ^ 32"
      and "serialize_msg (AVoteResponse m) v = Inr b"
  shows "read_vote_response pq v old b = (Inr (c_vote_response_of v old m), [])"
proof -
  have vote: "put_be 1 (bool_byte g :: u8) = [bool_byte g]" "ucast (bool_byte g :: u64) = (bool_byte g :: u8)" for g
    by (simp_all add: put_be_byte bool_byte_def del: One_nat_def)
  note hist_end = c_read_history_put [where r = "[]", unfolded append_Nil2]
  show ?thesis
    using assms
    by (cases m; cases old)
       (auto simp: read_vote_response_def serialize_msg_def SK_PROTO_VERSION_2_def SK_PROTO_VERSION_3_def
        SK_PROTO_VERSION_4_def c_run vote put_history_def put_history_le_def c_read_history_le_put hist_end u32_length
        c_vote_response_of_def simp del: One_nat_def)
qed

lemma read_append_response_put:
  assumes "v \<in> {2, 3, 4}" and "serialize_msg (AAppendResponse m) v = Inr b"
  shows "read_append_response pq v old b = (Inr (c_append_response_of v old m), [])"
  using assms
  by (cases m; cases old; cases "ap_hs_feedback m")
     (auto simp: read_append_response_def serialize_msg_def SK_PROTO_VERSION_2_def SK_PROTO_VERSION_3_def
      SK_PROTO_VERSION_4_def c_run c_read_feedback_put c_append_response_of_def simp del: One_nat_def
      split: option.splits)

end

section \<open>Version 2 structs\<close>

text \<open>The decoders of the structs read their fields in order, little endian.\<close>

locale v2_wire =
  fixes ds :: v2_decoders
  assumes des_greeting: "length proposer_id = 16 \<Longrightarrow> length timeline_id = 16 \<Longrightarrow> length tenant_id = 16 \<Longrightarrow>
    des_greeting_v2 ds (put_le 4 pv @ put_le 4 pg @ proposer_id @ put_le 8 sys @ timeline_id @ tenant_id
        @ put_le 4 tli @ put_le 4 seg @ r)
      = Some (\<lparr>g2_protocol_version = pv, g2_pg_version = pg, g2_proposer_id = proposer_id, g2_system_id = sys,
          g2_timeline_id = timeline_id, g2_tenant_id = tenant_id, g2_tli = tli, g2_wal_seg_size = seg\<rparr>, r)"
      and des_vote_request: "des_vote_request_v2 ds (put_le 8 t @ r) = Some (\<lparr>v2_term = t\<rparr>, r)"
      and des_append_header: "length uuid = 16 \<Longrightarrow>
    des_append_header_v2 ds (put_le 8 t @ put_le 8 ts @ put_le 8 b @ put_le 8 e @ put_le 8 c @ put_le 8 tr @ uuid @ r)
      = Some (\<lparr>a2_term = t, a2_term_start_lsn = ts, a2_begin_lsn = b, a2_end_lsn = e, a2_commit_lsn = c,
          a2_truncate_lsn = tr, a2_proposer_uuid = uuid\<rparr>, r)"
begin

lemma parse_pa_message_v2:
  assumes "pa_sendable_v2 cfg m wal p"
  shows "\<exists>b. PAMessageSerialize_v2 cfg m = Inr b \<and> fst (parse_v2 ds (b @ wal)) = Inr p"
proof -
  note run = parse_v2_def andthen_def wire ret_def Let_def tag64_byte des_from_def
  have ids: "c_id_bytes s = Inr b \<Longrightarrow> length b = 16" for s b
    by (auto simp: c_id_bytes_def length_HexDecodeString split: if_splits option.splits)
  show ?thesis
  proof (cases m)
    case (PAGreeting g)
    with assms obtain q where q: "p = Greeting q" by (cases p) auto
    have "length (pg_tenant_id q) = 16" "length (pg_timeline_id q) = 16"
      using PAGreeting q assms ids by auto
    with PAGreeting q assms show ?thesis
      by (cases q) (simp add: run des_greeting [where r = "[]", unfolded append_Nil2])
  next
    case (PAVoteRequest v)
    with assms have "p = VoteRequest (v\<lparr>vr_generation := INVALID_GENERATION\<rparr>)" by (cases p) auto
    with PAVoteRequest assms show ?thesis
      by (cases v) (simp add: run des_vote_request)
  next
    case (PAElected e)
    with assms have p: "p = Elected (e\<lparr>pe_generation := INVALID_GENERATION\<rparr>)" by (cases p) auto
    obtain h hs where h: "pe_term_history e = h # hs" using PAElected p assms by (cases "pe_term_history e") auto
    have "PAMessageSerialize_v2 cfg m = Inr (put_le 8 (tag64 (CHR ''e'')) @ put_le 8 (pe_term e)
        @ put_le 8 (pe_start_streaming_at e) @ put_history_le (pe_term_history e) @ put_le 8 (tl_lsn h))"
      by (simp add: PAElected h put_history_le_def pq_sendint_le_def)
    moreover have "length (pe_term_history e) < 2 ^ 32" "wal = []" using PAElected assms p by auto
    ultimately show ?thesis
      using p by (cases e) (simp add: run parse_elected_v2_def reads_def ensure_def)
  next
    case (PAAppend h)
    with assms have "p = AppendRequest \<lparr>ar_h = h\<lparr>ah_generation := INVALID_GENERATION\<rparr>, ar_wal_data = wal\<rparr>"
      by (cases p) auto
    with PAAppend assms show ?thesis
      by (cases h) (simp add: run des_append_header wal_data_of_def record_size_def checked_sub_def
          word_le_nat_alt unat_sub_le of_option_def ensure_def reads_def modify_def)
  qed
qed

end

section \<open>Agreement of both sides\<close>

text \<open>
  C31: what the proposer sends is what the safekeeper receives, in every protocol version:
  parsing a serialised message with the WAL behind it gives the message it stands for.
\<close>

theorem proposer_to_safekeeper:
  assumes "pq_wire pq" and "v2_wire ds" and "v = 3 \<or> v = 4 \<or> v = 2"
      and "if v = 2 then pa_sendable_v2 cfg m wal p else pa_sendable hex m wal p"
  shows "\<exists>b. PAMessageSerialize pq cfg v m = Inr b \<and> fst (parse_msg hex ds v (b @ wal)) = Inr p"
proof (cases "v = 2")
  case True
  then show ?thesis
    using v2_wire.parse_pa_message_v2 [OF assms(2), of cfg m wal p] assms(4)
    by (auto simp: PAMessageSerialize_def parse_msg_def SK_PROTO_VERSION_2_def SK_PROTO_VERSION_3_def
        SK_PROTO_VERSION_4_def)
next
  case False
  then show ?thesis
    using pq_wire.parse_pa_message [OF assms(1), of hex m wal p] assms(3,4)
    by (auto simp: PAMessageSerialize_def parse_msg_def SK_PROTO_VERSION_2_def SK_PROTO_VERSION_3_def
        SK_PROTO_VERSION_4_def)
qed

text \<open>
  C32: what the safekeeper answers is what the proposer reads, in every protocol version and
  with nothing left in the message: greetings, votes, and append responses with the
  pageserver's feedback.
\<close>

theorem safekeeper_to_proposer:
  assumes "pq_wire pq" and "v = 3 \<or> v = 4 \<or> v = 2"
  shows "(\<forall>m b. conf_sendable (ag_mconf m) \<and> mconf_fits (MAXCONNINFO pq) (ag_mconf m)
             \<and> serialize_msg (AGreeting m) v = Inr b \<longrightarrow>
             read_greeting pq v g b = (Inr (c_greeting_of v g m), []))
       \<and> (\<forall>m b. length (vp_term_history m) < 2 ^ 32 \<and> serialize_msg (AVoteResponse m) v = Inr b \<longrightarrow>
             read_vote_response pq v r b = (Inr (c_vote_response_of v r m), []))
       \<and> (\<forall>m b. serialize_msg (AAppendResponse m) v = Inr b \<longrightarrow>
             read_append_response pq v a b = (Inr (c_append_response_of v a m), []))"
proof -
  have v: "v \<in> {2, 3, 4}" using assms(2) by auto
  show ?thesis
    using pq_wire.read_greeting_put [OF assms(1) v] pq_wire.read_vote_response_put [OF assms(1) v]
      pq_wire.read_append_response_put [OF assms(1) v] by blast
qed

section \<open>Ids\<close>

lemma HexDecodeChar_digit: "n < 16 \<Longrightarrow> HexDecodeChar (hex_digit n) = Some n"
proof -
  have "\<forall>n \<in> set [0..<16]. HexDecodeChar (hex_digit n) = Some n" by code_simp
  then show "n < 16 \<Longrightarrow> HexDecodeChar (hex_digit n) = Some n" by simp
qed

lemma nibbles:
  fixes x :: u8
  shows "unat (x AND 0xF) = unat x mod 16"
    and "(of_nat (unat x div 16 mod 16) * 16 + of_nat (unat x mod 16) :: u8) = x"
proof -
  have mask: "(0xF :: u8) = mask 4" by (simp add: mask_eq_exp_minus_1)
  show "unat (x AND 0xF) = unat x mod 16"
    unfolding mask take_bit_eq_mask [symmetric] by (simp add: unat_take_bit)
  have "unat x div 16 < 16" using unsigned_less [of x, where 'a = nat] by (simp add: div_less_iff_less_mult del: unsigned_less)
  then have "(of_nat (unat x div 16 mod 16 * 16 + unat x mod 16) :: u8) = x" by simp
  then show "(of_nat (unat x div 16 mod 16) * 16 + of_nat (unat x mod 16) :: u8) = x" by simp
qed

text \<open>
  C34: the proposer's hex decoder restores the bytes of a tenant or timeline id from the text
  that the storage prints for it.
\<close>

theorem id_hex_roundtrip: "HexDecodeString (length b) (hex_encode b) = Some b"
proof (induction b)
  case (Cons x b)
  then show ?case
    using nibbles(2) [of x] by (simp add: hex_encode_def nibbles(1) HexDecodeChar_digit unat_drop_bit)
qed (simp add: hex_encode_def)

end
