(* ===== verification/Wire_Sample.thy ===== *)
theory Wire_Sample
  imports Wp_Wire
begin

text \<open>
  Concrete formatting functions and struct decoders with the laws the protocol asks of
  pqformat and bincode, and messages on which the properties of the wire are evaluated.
\<close>

definition plain_pq :: pq_format where
  "plain_pq = \<lparr>pq_sendint = put_be,
     pq_send_ascii_string = (\<lambda>s. map (\<lambda>b. if b < 128 then b else 63) s @ [0]),
     pq_getmsgint = get_be,
     pq_getmsgrawstring = (\<lambda>bs. let s = takeWhile (\<lambda>b. b \<noteq> 0) bs in
        if length s = length bs then None else Some (s, drop (length s + 1) bs)),
     pq_getmsgbytes = (\<lambda>n bs. if length bs < n then None else Some (take n bs, drop n bs)),
     MAXCONNINFO = 1024\<rparr>"

interpretation plain_pq: pq_wire plain_pq
proof
  show "\<forall>b \<in> set s. b \<noteq> 0 \<and> b < 128 \<Longrightarrow> pq_send_ascii_string plain_pq s = s @ [0]" for s
    by (induction s) (auto simp: plain_pq_def)
qed (auto simp: plain_pq_def Let_def takeWhile_cstr)

definition get_bytes :: "nat \<Rightarrow> bytes \<Rightarrow> (bytes \<times> bytes) option" where
  "get_bytes n bs = (if length bs < n then None else Some (take n bs, drop n bs))"

definition plain_v2 :: v2_decoders where
  "plain_v2 = \<lparr>
     des_greeting_v2 = (\<lambda>bs. Option.bind (get_le 4 bs) (\<lambda>(pv, bs). Option.bind (get_le 4 bs) (\<lambda>(pg, bs).
       Option.bind (get_bytes 16 bs) (\<lambda>(pid, bs). Option.bind (get_le 8 bs) (\<lambda>(sys, bs).
       Option.bind (get_bytes 16 bs) (\<lambda>(timeline, bs). Option.bind (get_bytes 16 bs) (\<lambda>(tenant, bs).
       Option.bind (get_le 4 bs) (\<lambda>(tli, bs). Option.bind (get_le 4 bs) (\<lambda>(seg, bs).
       Some (\<lparr>g2_protocol_version = pv, g2_pg_version = pg, g2_proposer_id = pid, g2_system_id = sys,
          g2_timeline_id = timeline, g2_tenant_id = tenant, g2_tli = tli, g2_wal_seg_size = seg\<rparr>, bs)))))))))),
     des_vote_request_v2 = (\<lambda>bs. Option.bind (get_le 8 bs) (\<lambda>(t, bs). Some (\<lparr>v2_term = t\<rparr>, bs))),
     des_append_header_v2 = (\<lambda>bs. Option.bind (get_le 8 bs) (\<lambda>(t, bs). Option.bind (get_le 8 bs) (\<lambda>(ts, bs).
       Option.bind (get_le 8 bs) (\<lambda>(b, bs). Option.bind (get_le 8 bs) (\<lambda>(e, bs).
       Option.bind (get_le 8 bs) (\<lambda>(c, bs). Option.bind (get_le 8 bs) (\<lambda>(tr, bs).
       Option.bind (get_bytes 16 bs) (\<lambda>(uuid, bs).
       Some (\<lparr>a2_term = t, a2_term_start_lsn = ts, a2_begin_lsn = b, a2_end_lsn = e, a2_commit_lsn = c,
          a2_truncate_lsn = tr, a2_proposer_uuid = uuid\<rparr>, bs)))))))))\<rparr>"

interpretation plain_v2: v2_wire plain_v2
  by unfold_locales (simp_all add: plain_v2_def get_bytes_def)

definition sample_append_header :: append_request_header where
  "sample_append_header = \<lparr>ah_generation = 1, ah_term = 7, ah_begin_lsn = 100, ah_end_lsn = 103,
     ah_commit_lsn = 90, ah_truncate_lsn = 50\<rparr>"

definition sample_wire_config :: wp_wire_config where
  "sample_wire_config = \<lparr>wc_system_id = 7, wc_pg_timeline = 1, wc_wal_segment_size = 16777216\<rparr>"

theorem proposer_to_safekeeper_witness:
  "\<exists>b. PAMessageSerialize plain_pq sample_wire_config 3 (PAAppend sample_append_header) = Inr b
     \<and> fst (parse_msg (HexDecodeString 16) plain_v2 3 (b @ [1, 2, 3]))
         = Inr (AppendRequest \<lparr>ar_h = sample_append_header, ar_wal_data = [1, 2, 3]\<rparr>)"
  by (rule proposer_to_safekeeper [OF plain_pq.pq_wire_axioms plain_v2.v2_wire_axioms])
     (simp_all add: sample_append_header_def MAX_SEND_SIZE_def)

definition sample_vote_response :: vote_response where
  "sample_vote_response = \<lparr>vp_generation = 1, vp_term = 7, vp_vote_given = True, vp_flush_lsn = 100,
     vp_truncate_lsn = 50, vp_term_history = [\<lparr>tl_term = 3, tl_lsn = 20\<rparr>]\<rparr>"

definition sample_old_response :: c_vote_response where
  "sample_old_response = \<lparr>cvr_generation = 0, cvr_term = 0, cvr_vote_given = 0, cvr_flush_lsn = 0,
     cvr_truncate_lsn = 0, cvr_term_history = []\<rparr>"

theorem safekeeper_to_proposer_witness:
  "\<exists>b. serialize_msg (AVoteResponse sample_vote_response) 3 = Inr b
     \<and> read_vote_response plain_pq 3 sample_old_response b
         = (Inr \<lparr>cvr_generation = 1, cvr_term = 7, cvr_vote_given = 1, cvr_flush_lsn = 100,
              cvr_truncate_lsn = 50, cvr_term_history = [\<lparr>tl_term = 3, tl_lsn = 20\<rparr>]\<rparr>, [])"
proof -
  obtain b where b: "serialize_msg (AVoteResponse sample_vote_response) 3 = Inr b"
    by (simp add: serialize_msg_def SK_PROTO_VERSION_3_def)
  moreover have "length (vp_term_history sample_vote_response) < 2 ^ 32"
    by (simp add: sample_vote_response_def)
  ultimately have "read_vote_response plain_pq 3 sample_old_response b
      = (Inr (c_vote_response_of 3 sample_old_response sample_vote_response), [])"
    using safekeeper_to_proposer [OF plain_pq.pq_wire_axioms, of 3] by blast
  then show ?thesis
    using b by (simp add: c_vote_response_of_def sample_vote_response_def bool_byte_def)
qed

theorem feedback_roundtrip_witness:
  "\<exists>b. feedback_serialize (feedback_empty\<lparr>pf_last_received_lsn := 5, pf_replytime := 9000, pf_shard_number := 2\<rparr>)
        = Some b
     \<and> feedback_parse (b @ [42])
        = (Inr (feedback_empty\<lparr>pf_last_received_lsn := 5, pf_replytime := 9000, pf_shard_number := 2\<rparr>), [42])"
proof -
  have "pf_replytime (feedback_empty\<lparr>pf_last_received_lsn := 5, pf_replytime := 9000, pf_shard_number := 2\<rparr>) = 9000"
    by simp
  then show ?thesis
    using feedback_roundtrip [of "feedback_empty\<lparr>pf_last_received_lsn := 5, pf_replytime := 9000, pf_shard_number := 2\<rparr>"]
    by auto
qed

end
