(* ===== verification/Wp_State.thy ===== *)
theory Wp_State
  imports Wp_Wire
begin

text \<open>
  State of the walproposer (pgxn/neon/walproposer.h) and the functions of walproposer.c that
  manage connections and the mapping from members to connections.

  The hooks of \<open>walproposer_api\<close> are a parameter: functions on an opaque world of type
  \<open>'w\<close>, which holds sockets, event set, local WAL and the shared memory they update. A slot of the
  array of safekeepers is named by its index; the array has one element per configured
  safekeeper. Log messages below FATAL are left out; FATAL, PANIC, a failing Assert and the
  exit of sync-safekeepers end the process and are errors. \<open>wp_sent\<close> records what is
  handed to the connections.
\<close>

section \<open>Types\<close>

datatype safekeeper_state =
    SS_OFFLINE | SS_CONNECTING_WRITE | SS_CONNECTING_READ | SS_WAIT_EXEC_RESULT | SS_HANDSHAKE_RECV
  | SS_WAIT_VOTING | SS_WAIT_VERDICT | SS_SEND_ELECTED_FLUSH | SS_WAIT_ELECTED | SS_ACTIVE

fun ss_rank :: "safekeeper_state \<Rightarrow> nat" where
  "ss_rank SS_OFFLINE = 0"
| "ss_rank SS_CONNECTING_WRITE = 1"
| "ss_rank SS_CONNECTING_READ = 2"
| "ss_rank SS_WAIT_EXEC_RESULT = 3"
| "ss_rank SS_HANDSHAKE_RECV = 4"
| "ss_rank SS_WAIT_VOTING = 5"
| "ss_rank SS_WAIT_VERDICT = 6"
| "ss_rank SS_SEND_ELECTED_FLUSH = 7"
| "ss_rank SS_WAIT_ELECTED = 8"
| "ss_rank SS_ACTIVE = 9"

lemma ss_rank_inject: "ss_rank x = ss_rank y \<Longrightarrow> x = y"
  by (cases x; cases y) auto

text \<open>The order of the enumerators.\<close>

instantiation safekeeper_state :: linorder
begin

definition less_eq_safekeeper_state :: "safekeeper_state \<Rightarrow> safekeeper_state \<Rightarrow> bool" where
  "x \<le> y \<longleftrightarrow> ss_rank x \<le> ss_rank y"

definition less_safekeeper_state :: "safekeeper_state \<Rightarrow> safekeeper_state \<Rightarrow> bool" where
  "x < y \<longleftrightarrow> ss_rank x < ss_rank y"

instance
  by standard (auto simp: less_eq_safekeeper_state_def less_safekeeper_state_def ss_rank_inject)

end

datatype safekeeper_active_state = SS_ACTIVE_SEND | SS_ACTIVE_READ_WAL | SS_ACTIVE_FLUSH

datatype wp_phase = WPS_COLLECTING_TERMS | WPS_CAMPAIGN | WPS_ELECTED

datatype wl_event =
    WL_LATCH_SET | WL_SOCKET_READABLE | WL_SOCKET_WRITEABLE | WL_SOCKET_CONNECTED | WL_SOCKET_CLOSED

type_synonym timestamp = "64 word" \<comment> \<open>TimestampTz, microseconds, signed\<close>

text \<open>
  Descriptor of a safekeeper. \<open>wsk_history_freed\<close> says that the array of term switches of
  the vote has been freed, with its length left in place.
\<close>

record wp_safekeeper =
  wsk_host :: bytes
  wsk_port :: bytes
  wsk_index :: nat
  wsk_conninfo :: bytes
  wsk_start_streaming_at :: lsn
  wsk_streaming_at :: lsn
  wsk_append_request :: append_request_header
  wsk_state :: safekeeper_state
  wsk_active_state :: safekeeper_active_state
  wsk_latest_msg_received_at :: timestamp
  wsk_greet_response :: c_acceptor_greeting
  wsk_vote_response :: c_vote_response
  wsk_history_freed :: bool
  wsk_append_response :: c_append_response

record wp_config =
  wpc_neon_tenant :: "bytes option" \<comment> \<open>may be a null pointer\<close>
  wpc_neon_timeline :: "bytes option"
  wpc_safekeepers_list :: bytes
  wpc_safekeeper_conninfo_options :: bytes
  wpc_safekeeper_reconnect_timeout :: "32 word" \<comment> \<open>C int\<close>
  wpc_safekeeper_connection_timeout :: "32 word"
  wpc_wal_segment_size :: u32
  wpc_sync_safekeepers :: bool
  wpc_system_id :: u64
  wpc_pg_timeline :: u32
  wpc_proto_version :: u32

text \<open>The fields of the shared memory that elections use.\<close>

record wp_shmem =
  shm_prop_epoch_start_lsn :: lsn
  shm_mine_last_elected_term :: sk_term
  shm_replica_promote :: bool

record 'w wal_proposer =
  wp_config :: wp_config
  wp_phase :: wp_phase
  wp_mconf :: c_mconf
  wp_members_safekeepers :: "nat option list"
  wp_new_members_safekeepers :: "nat option list"
  wp_quorum :: nat
  wp_safekeepers_generation :: sk_generation
  wp_safekeeper :: "wp_safekeeper list"
  wp_available_lsn :: lsn
  wp_commit_lsn :: lsn
  wp_greet_request :: c_proposer_greeting
  wp_vote_request :: vote_request
  wp_truncate_lsn :: lsn
  wp_prop_term :: sk_term
  wp_prop_term_history :: term_history
  wp_prop_term_start_lsn :: lsn
  wp_donor_last_log_term :: sk_term
  wp_donor :: "nat option"
  wp_n_connected :: nat
  wp_last_reconnect_attempt :: timestamp
  wp_shmem :: wp_shmem
  wp_world :: 'w
  wp_sent :: "(nat \<times> pa_message \<times> bytes) list"

datatype conn_poll_status = WP_CONN_POLLING_OK | WP_CONN_POLLING_READING | WP_CONN_POLLING_WRITING | WP_CONN_POLLING_FAILED

datatype exec_status = WP_EXEC_SUCCESS_COPYBOTH | WP_EXEC_NEEDS_INPUT | WP_EXEC_FAILED | WP_EXEC_UNEXPECTED_SUCCESS

datatype async_read = PG_ASYNC_READ_SUCCESS bytes | PG_ASYNC_READ_TRY_AGAIN | PG_ASYNC_READ_FAIL

datatype async_write = PG_ASYNC_WRITE_SUCCESS | PG_ASYNC_WRITE_TRY_FLUSH | PG_ASYNC_WRITE_FAIL

datatype flush_result = FlushDone | FlushPending | FlushFailed

datatype wal_read_result = NEON_WALREAD_SUCCESS bytes | NEON_WALREAD_WOULDBLOCK | NEON_WALREAD_ERROR

text \<open>
  The hooks, and the parts of PostgreSQL the walproposer calls directly. A hook takes the slot
  of the safekeeper it is called for.
\<close>

record 'w wp_api =
  api_init_event_set :: "nat \<Rightarrow> 'w \<Rightarrow> 'w" \<comment> \<open>and the reset of the statuses for metrics\<close>
  api_get_current_timestamp :: "'w \<Rightarrow> timestamp \<times> 'w"
  api_conn_connect_start :: "nat \<Rightarrow> 'w \<Rightarrow> bool \<times> 'w" \<comment> \<open>and conn_status: is the connection alive?\<close>
  api_conn_connect_poll :: "nat \<Rightarrow> 'w \<Rightarrow> conn_poll_status \<times> 'w"
  api_conn_send_query :: "nat \<Rightarrow> bytes \<Rightarrow> 'w \<Rightarrow> bool \<times> 'w"
  api_conn_get_query_result :: "nat \<Rightarrow> 'w \<Rightarrow> exec_status \<times> 'w"
  api_conn_flush :: "nat \<Rightarrow> 'w \<Rightarrow> flush_result \<times> 'w"
  api_conn_finish :: "nat \<Rightarrow> 'w \<Rightarrow> 'w"
  api_conn_async_read :: "nat \<Rightarrow> 'w \<Rightarrow> async_read \<times> 'w"
  api_conn_async_write :: "nat \<Rightarrow> bytes \<Rightarrow> 'w \<Rightarrow> async_write \<times> 'w"
  api_conn_blocking_write :: "nat \<Rightarrow> bytes \<Rightarrow> 'w \<Rightarrow> bool \<times> 'w"
  api_recovery_download :: "nat \<Rightarrow> 'w \<Rightarrow> bool \<times> 'w"
  api_wal_reader_allocate :: "nat \<Rightarrow> 'w \<Rightarrow> 'w"
  api_wal_read :: "nat \<Rightarrow> lsn \<Rightarrow> nat \<Rightarrow> 'w \<Rightarrow> wal_read_result \<times> 'w"
  api_wal_reader_events :: "nat \<Rightarrow> 'w \<Rightarrow> wl_event set"
  api_update_event_set :: "nat \<Rightarrow> wl_event set \<Rightarrow> 'w \<Rightarrow> 'w"
  api_active_state_update_event_set :: "nat \<Rightarrow> 'w \<Rightarrow> 'w"
  api_add_safekeeper_event_set :: "nat \<Rightarrow> wl_event set \<Rightarrow> 'w \<Rightarrow> 'w"
  api_rm_safekeeper_event_set :: "nat \<Rightarrow> 'w \<Rightarrow> 'w"
  api_wait_event_set :: "64 word \<Rightarrow> 'w \<Rightarrow> (nat option \<times> wl_event set) option \<times> 'w" \<comment> \<open>\<open>None\<close>: timeout\<close>
  api_get_flush_rec_ptr :: "'w \<Rightarrow> lsn \<times> 'w"
  api_get_redo_start_lsn :: "'w \<Rightarrow> lsn"
  api_update_donor :: "nat \<Rightarrow> lsn \<Rightarrow> 'w \<Rightarrow> 'w"
  api_process_safekeeper_feedback :: "nat \<Rightarrow> 'w \<Rightarrow> 'w"
  api_update_metrics :: "nat \<Rightarrow> 'w \<Rightarrow> 'w"
  api_get_outbound_traceparent :: "'w \<Rightarrow> (string \<times> string) option \<times> 'w" \<comment> \<open>traceparent and tracestate\<close>
  api_pq :: pq_format
  api_timestamp_difference_exceeds :: "timestamp \<Rightarrow> timestamp \<Rightarrow> 32 word \<Rightarrow> bool"
  api_pg_version_num :: u32
  api_size_of_long_phd :: u64
  api_size_of_short_phd :: u64

text \<open>
  How an operation ends early. \<open>WpStreaming\<close> is the call of the hook start_streaming: it loops
  over WalProposerBroadcast and WalProposerPoll and never returns.
\<close>

datatype wp_error =
    WpFatal | WpPanic | WpAssert | WpNullHistory | WpPq c_error | WpFinished lsn | WpStreaming lsn | WpMoreMessages

type_synonym ('w, 'a) wp_prog = "('w wal_proposer, wp_error, 'a) prog"

definition MAX_SAFEKEEPERS :: nat where
  "MAX_SAFEKEEPERS = 32"

section \<open>Access to the state\<close>

definition in_world :: "('w \<Rightarrow> 'a \<times> 'w) \<Rightarrow> ('w, 'a) wp_prog" where
  "in_world f p = (case f (wp_world p) of (x, w) \<Rightarrow> (Inr x, p\<lparr>wp_world := w\<rparr>))"

definition call :: "('w \<Rightarrow> 'w) \<Rightarrow> ('w, unit) wp_prog" where
  "call f = modify (\<lambda>p. p\<lparr>wp_world := f (wp_world p)\<rparr>)"

abbreviation the_sk :: "nat \<Rightarrow> 'w wal_proposer \<Rightarrow> wp_safekeeper" where
  "the_sk i p \<equiv> wp_safekeeper p ! i"

definition upd_sk :: "nat \<Rightarrow> (wp_safekeeper \<Rightarrow> wp_safekeeper) \<Rightarrow> 'w wal_proposer \<Rightarrow> 'w wal_proposer" where
  "upd_sk i f p = p\<lparr>wp_safekeeper := (wp_safekeeper p)[i := f (wp_safekeeper p ! i)]\<rparr>"

definition set_state :: "nat \<Rightarrow> safekeeper_state \<Rightarrow> ('w, unit) wp_prog" where
  "set_state i st = modify (upd_sk i (\<lambda>sk. sk\<lparr>wsk_state := st\<rparr>))"

definition wp_assert :: "bool \<Rightarrow> ('w, unit) wp_prog" where
  "wp_assert b = ensure b WpAssert"

text \<open>\<open>for (i = 0; i < n; i++)\<close>\<close>

fun for_each :: "'i list \<Rightarrow> ('i \<Rightarrow> ('s, 'e, unit) prog) \<Rightarrow> ('s, 'e, unit) prog" where
  "for_each [] body = ret ()"
| "for_each (i # is) body = andthen (body i) (\<lambda>_. for_each is body)"

definition all_slots :: "'w wal_proposer \<Rightarrow> nat list" where
  "all_slots p = [0..<length (wp_safekeeper p)]"

section \<open>Connections\<close>

definition WalProposerGenerationsEnabled :: "'w wal_proposer \<Rightarrow> bool" where
  "WalProposerGenerationsEnabled p \<longleftrightarrow> wp_safekeepers_generation p \<noteq> INVALID_GENERATION"

definition ShutdownConnection :: "'w wp_api \<Rightarrow> nat \<Rightarrow> ('w, unit) wp_prog" where
  "ShutdownConnection api i =
     andthen (modify (upd_sk i (\<lambda>sk. sk\<lparr>wsk_state := SS_OFFLINE, wsk_streaming_at := lsn_invalid\<rparr>))) (\<lambda>_.
     andthen (call (api_update_metrics api i)) (\<lambda>_.
     andthen (modify (upd_sk i (\<lambda>sk. sk\<lparr>wsk_history_freed := True\<rparr>))) (\<lambda>_.
     andthen (call (api_conn_finish api i)) (\<lambda>_.
     call (api_rm_safekeeper_event_set api i)))))"

definition ResetConnection :: "'w wp_api \<Rightarrow> nat \<Rightarrow> ('w, unit) wp_prog" where
  "ResetConnection api i =
     andthen (reads (\<lambda>p. wsk_state (the_sk i p))) (\<lambda>state.
     andthen (whenp (state \<noteq> SS_OFFLINE) (ShutdownConnection api i)) (\<lambda>_.
     andthen (in_world (api_conn_connect_start api i)) (\<lambda>alive.
     if \<not> alive then call (api_conn_finish api i)
     else
       andthen (set_state i SS_CONNECTING_WRITE) (\<lambda>_.
       andthen (in_world (api_get_current_timestamp api)) (\<lambda>now.
       andthen (modify (upd_sk i (\<lambda>sk. sk\<lparr>wsk_latest_msg_received_at := now\<rparr>))) (\<lambda>_.
       call (api_add_safekeeper_event_set api i {WL_SOCKET_WRITEABLE})))))))"

text \<open>
  The timeout is multiplied as a 32-bit integer; PostgreSQL is compiled with wrapping
  arithmetic.
\<close>

definition TimeToReconnect :: "'w wal_proposer \<Rightarrow> timestamp \<Rightarrow> 64 word" where
  "TimeToReconnect p now =
     (let timeout = wpc_safekeeper_reconnect_timeout (wp_config p) in
      if sint timeout \<le> 0 then - 1
      else
        let passed = now - wp_last_reconnect_attempt p;
            till_reconnect = scast (timeout * 1000) - passed
        in if sint till_reconnect \<le> 0 then 0 else word_of_int (sint till_reconnect div 1000))"

definition ReconnectSafekeepers :: "'w wp_api \<Rightarrow> ('w, unit) wp_prog" where
  "ReconnectSafekeepers api =
     andthen (in_world (api_get_current_timestamp api)) (\<lambda>now.
     andthen (reads (\<lambda>p. TimeToReconnect p now)) (\<lambda>left.
     if left \<noteq> 0 then ret ()
     else
       andthen (modify (\<lambda>p. p\<lparr>wp_last_reconnect_attempt := now\<rparr>)) (\<lambda>_.
       andthen (reads all_slots) (\<lambda>slots.
       for_each slots (\<lambda>i.
         andthen (reads (\<lambda>p. wsk_state (the_sk i p))) (\<lambda>state.
         whenp (state = SS_OFFLINE) (ResetConnection api i)))))))"

definition SafekeeperStateDesiredEvents :: "'w wp_api \<Rightarrow> nat \<Rightarrow> 'w wal_proposer \<Rightarrow> wl_event set \<times> wl_event set" where
  "SafekeeperStateDesiredEvents api i p =
     (case wsk_state (the_sk i p) of
        SS_CONNECTING_READ \<Rightarrow> ({WL_SOCKET_READABLE}, {})
      | SS_CONNECTING_WRITE \<Rightarrow> ({WL_SOCKET_WRITEABLE}, {})
      | SS_WAIT_EXEC_RESULT \<Rightarrow> ({WL_SOCKET_READABLE}, {})
      | SS_HANDSHAKE_RECV \<Rightarrow> ({WL_SOCKET_READABLE}, {})
      | SS_WAIT_VERDICT \<Rightarrow> ({WL_SOCKET_READABLE}, {})
      | SS_WAIT_VOTING \<Rightarrow> ({WL_SOCKET_READABLE}, {})
      | SS_WAIT_ELECTED \<Rightarrow> ({WL_SOCKET_READABLE}, {})
      | SS_SEND_ELECTED_FLUSH \<Rightarrow> ({WL_SOCKET_READABLE, WL_SOCKET_WRITEABLE}, {})
      | SS_OFFLINE \<Rightarrow> ({}, {})
      | SS_ACTIVE \<Rightarrow>
          let reader = api_wal_reader_events api i (wp_world p);
              closed = (if 150000 \<le> api_pg_version_num api \<and> reader \<noteq> {} then {WL_SOCKET_CLOSED} else {})
          in (case wsk_active_state (the_sk i p) of
                SS_ACTIVE_SEND \<Rightarrow> ({WL_SOCKET_READABLE}, closed)
              | SS_ACTIVE_READ_WAL \<Rightarrow> ({WL_SOCKET_READABLE}, reader)
              | SS_ACTIVE_FLUSH \<Rightarrow> ({WL_SOCKET_READABLE, WL_SOCKET_WRITEABLE}, closed)))"

definition AssertEventsOkForState :: "'w wp_api \<Rightarrow> wl_event set \<Rightarrow> nat \<Rightarrow> ('w, unit) wp_prog" where
  "AssertEventsOkForState api events i =
     andthen (reads (SafekeeperStateDesiredEvents api i)) (\<lambda>(sk_events, nwr_events).
     wp_assert (events \<inter> (sk_events \<union> nwr_events) \<noteq> {}))"

section \<open>Writing\<close>

definition record_sent :: "nat \<Rightarrow> pa_message \<Rightarrow> bytes \<Rightarrow> ('w, unit) wp_prog" where
  "record_sent i m wal = modify (\<lambda>p. p\<lparr>wp_sent := wp_sent p @ [(i, m, wal)]\<rparr>)"

definition wire_config :: "wp_config \<Rightarrow> wp_wire_config" where
  "wire_config c = \<lparr>wc_system_id = wpc_system_id c, wc_pg_timeline = wpc_pg_timeline c,
     wc_wal_segment_size = wpc_wal_segment_size c\<rparr>"

definition serialize :: "'w wp_api \<Rightarrow> pa_message \<Rightarrow> ('w, bytes) wp_prog" where
  "serialize api m =
     andthen (reads wp_config) (\<lambda>c.
     case PAMessageSerialize (api_pq api) (wire_config c) (wpc_proto_version c) m of
       Inl e \<Rightarrow> throw (WpPq e)
     | Inr b \<Rightarrow> ret b)"

definition BlockingWrite :: "'w wp_api \<Rightarrow> nat \<Rightarrow> pa_message \<Rightarrow> safekeeper_state \<Rightarrow> ('w, bool) wp_prog" where
  "BlockingWrite api i m success_state =
     andthen (serialize api m) (\<lambda>b.
     andthen (in_world (api_conn_blocking_write api i b)) (\<lambda>written.
     if \<not> written then andthen (ShutdownConnection api i) (\<lambda>_. ret False)
     else
       andthen (record_sent i m []) (\<lambda>_.
       andthen (set_state i success_state) (\<lambda>_.
       andthen (reads (SafekeeperStateDesiredEvents api i)) (\<lambda>(sk_events, nwr_events).
       andthen (wp_assert (nwr_events = {})) (\<lambda>_.
       andthen (whenp (sk_events \<noteq> {}) (call (api_update_event_set api i sk_events))) (\<lambda>_.
       ret True)))))))"

definition AsyncWrite :: "'w wp_api \<Rightarrow> nat \<Rightarrow> pa_message \<Rightarrow> safekeeper_state \<Rightarrow> ('w, bool) wp_prog" where
  "AsyncWrite api i m flush_state =
     andthen (serialize api m) (\<lambda>b.
     andthen (in_world (api_conn_async_write api i b)) (\<lambda>res.
     case res of
       PG_ASYNC_WRITE_SUCCESS \<Rightarrow> andthen (record_sent i m []) (\<lambda>_. ret True)
     | PG_ASYNC_WRITE_TRY_FLUSH \<Rightarrow>
         andthen (record_sent i m []) (\<lambda>_.
         andthen (set_state i flush_state) (\<lambda>_.
         andthen (call (api_update_event_set api i {WL_SOCKET_READABLE, WL_SOCKET_WRITEABLE})) (\<lambda>_.
         ret False)))
     | PG_ASYNC_WRITE_FAIL \<Rightarrow> andthen (ShutdownConnection api i) (\<lambda>_. ret False)))"

definition AsyncFlush :: "'w wp_api \<Rightarrow> nat \<Rightarrow> ('w, bool) wp_prog" where
  "AsyncFlush api i =
     andthen (in_world (api_conn_flush api i)) (\<lambda>res.
     case res of
       FlushDone \<Rightarrow> ret True
     | FlushPending \<Rightarrow> ret False
     | FlushFailed \<Rightarrow> andthen (ResetConnection api i) (\<lambda>_. ret False))"

section \<open>Reading\<close>

definition AsyncRead :: "'w wp_api \<Rightarrow> nat \<Rightarrow> ('w, bytes option) wp_prog" where
  "AsyncRead api i =
     andthen (in_world (api_conn_async_read api i)) (\<lambda>res.
     case res of
       PG_ASYNC_READ_SUCCESS buf \<Rightarrow> ret (Some buf)
     | PG_ASYNC_READ_TRY_AGAIN \<Rightarrow> ret None
     | PG_ASYNC_READ_FAIL \<Rightarrow> andthen (ShutdownConnection api i) (\<lambda>_. ret None))"

text \<open>
  AsyncReadMessage; \<open>read\<close> is the branch of the message expected, given the protocol version
  and what the descriptor holds. Errors raised while parsing end the process.
\<close>

definition AsyncReadMessage ::
  "'w wp_api \<Rightarrow> nat \<Rightarrow> (pq_format \<Rightarrow> u32 \<Rightarrow> 'm \<Rightarrow> 'm c_reader) \<Rightarrow> (wp_safekeeper \<Rightarrow> 'm)
     \<Rightarrow> ('w, 'm option) wp_prog" where
  "AsyncReadMessage api i read old =
     andthen (AsyncRead api i) (\<lambda>r.
     case r of
       None \<Rightarrow> ret None
     | Some buf \<Rightarrow>
         andthen (in_world (api_get_current_timestamp api)) (\<lambda>now.
         andthen (modify (upd_sk i (\<lambda>sk. sk\<lparr>wsk_latest_msg_received_at := now\<rparr>))) (\<lambda>_.
         andthen (reads (\<lambda>p. (wpc_proto_version (wp_config p), old (the_sk i p)))) (\<lambda>(v, m).
         case fst (read (api_pq api) v m buf) of
           Inl UnexpectedTag \<Rightarrow> andthen (ResetConnection api i) (\<lambda>_. ret None)
         | Inl e \<Rightarrow> throw (WpPq e)
         | Inr m' \<Rightarrow> ret (Some m')))))"

section \<open>Members\<close>

fun map_members :: "safekeeper_id list \<Rightarrow> u64 \<Rightarrow> nat \<Rightarrow> nat option list \<Rightarrow> nat option list" where
  "map_members (m # ms) node_id i (p # ps) =
     (if sk_id m = node_id then Some i else p) # map_members ms node_id i ps"
| "map_members ms node_id i ps = ps"

definition UpdateMemberSafekeeperPtr :: "nat \<Rightarrow> ('w, unit) wp_prog" where
  "UpdateMemberSafekeeperPtr i =
     andthen (reads (\<lambda>p. (wp_mconf p, the_sk i p))) (\<lambda>(mconf, sk).
     andthen (ensure (length (mc_members mconf) \<le> MAX_SAFEKEEPERS) WpFatal) (\<lambda>_.
     andthen (ensure (length (mc_new_members mconf) \<le> MAX_SAFEKEEPERS) WpFatal) (\<lambda>_.
     if wsk_state sk < SS_WAIT_VOTING then ret ()
     else if cag_node_id (wsk_greet_response sk) = 0 then ret ()
     else modify (\<lambda>p. p\<lparr>
       wp_members_safekeepers :=
         map_members (mc_members mconf) (cag_node_id (wsk_greet_response sk)) i (wp_members_safekeepers p),
       wp_new_members_safekeepers :=
         map_members (mc_new_members mconf) (cag_node_id (wsk_greet_response sk)) i
           (wp_new_members_safekeepers p)\<rparr>))))"

definition ResetMemberSafekeeperPtrs :: "('w, unit) wp_prog" where
  "ResetMemberSafekeeperPtrs =
     andthen (modify (\<lambda>p. p\<lparr>wp_members_safekeepers := replicate MAX_SAFEKEEPERS None,
        wp_new_members_safekeepers := replicate MAX_SAFEKEEPERS None\<rparr>)) (\<lambda>_.
     andthen (reads all_slots) (\<lambda>slots.
     for_each slots (\<lambda>i.
       andthen (reads (\<lambda>p. wsk_state (the_sk i p))) (\<lambda>state.
       whenp (SS_WAIT_VOTING \<le> state) (UpdateMemberSafekeeperPtr i)))))"

definition MsetQuorum :: "safekeeper_id list \<Rightarrow> ('w, nat) wp_prog" where
  "MsetQuorum mset = andthen (wp_assert (mset \<noteq> [])) (\<lambda>_. ret (length mset div 2 + 1))"

definition MsetHasQuorum :: "safekeeper_id list \<Rightarrow> nat \<Rightarrow> ('w, bool) wp_prog" where
  "MsetHasQuorum mset n = andthen (MsetQuorum mset) (\<lambda>q. ret (q \<le> n))"

text \<open>The slots of the members of a set that are mapped.\<close>

definition member_slots :: "safekeeper_id list \<Rightarrow> nat option list \<Rightarrow> nat list" where
  "member_slots mset msk = List.map_filter id (take (length mset) msk)"

end
