(* ===== verification/Wp_Proposer.thy ===== *)
theory Wp_Proposer
  imports Wp_State
begin

text \<open>
  The walproposer (pgxn/neon/walproposer.c): elections, streaming of WAL to the safekeepers,
  the position acknowledged by a quorum, and the dispatch of events. The two unbounded loops
  take a bound on their iterations; running into it is the error \<open>WpMoreMessages\<close>.
\<close>

section \<open>Handshake\<close>

fun put_dec :: "nat \<Rightarrow> bytes" where
  "put_dec n = (if n < 10 then [] else put_dec (n div 10)) @ [of_nat (48 + n mod 10)]"

declare put_dec.simps [simp del]

definition quoted :: "bytes \<Rightarrow> bytes" where
  "quoted s = 39 # s @ [39]"

definition CMD_LEN :: nat where
  "CMD_LEN = 1024"

definition start_wal_push :: "u32 \<Rightarrow> bool \<Rightarrow> (string \<times> string) option \<Rightarrow> bytes" where
  "start_wal_push proto_version allow_creation trace =
     take (CMD_LEN - 1)
       (key ''START_WAL_PUSH (proto_version '' @ quoted (put_dec (unat proto_version))
        @ key '', allow_timeline_creation '' @ quoted (key (if allow_creation then ''true'' else ''false''))
        @ (case trace of
             None \<Rightarrow> []
           | Some (traceparent, tracestate) \<Rightarrow>
               key '', traceparent '' @ quoted (key traceparent)
               @ (if tracestate = [] then [] else key '', tracestate '' @ quoted (key tracestate)))
        @ key '')'')"

definition SendStartWALPush :: "'w wp_api \<Rightarrow> nat \<Rightarrow> ('w, unit) wp_prog" where
  "SendStartWALPush api i =
     andthen (reads (\<lambda>p. (wpc_proto_version (wp_config p), \<not> WalProposerGenerationsEnabled p)))
       (\<lambda>(proto_version, allow_timeline_creation).
     andthen (if 4 \<le> proto_version then in_world (api_get_outbound_traceparent api) else ret None) (\<lambda>trace.
     andthen (in_world (api_conn_send_query api i
         (start_wal_push proto_version allow_timeline_creation trace))) (\<lambda>sent.
     if \<not> sent then ShutdownConnection api i
     else
       andthen (set_state i SS_WAIT_EXEC_RESULT) (\<lambda>_.
       call (api_update_event_set api i {WL_SOCKET_READABLE})))))"

definition HandleConnectionEvent :: "'w wp_api \<Rightarrow> nat \<Rightarrow> ('w, unit) wp_prog" where
  "HandleConnectionEvent api i =
     andthen (in_world (api_conn_connect_poll api i)) (\<lambda>result.
     let rearm = (\<lambda>events. andthen (call (api_rm_safekeeper_event_set api i)) (\<lambda>_.
                           call (api_add_safekeeper_event_set api i events)))
     in case result of
       WP_CONN_POLLING_OK \<Rightarrow>
         andthen (in_world (api_get_current_timestamp api)) (\<lambda>now.
         andthen (modify (upd_sk i (\<lambda>sk. sk\<lparr>wsk_latest_msg_received_at := now\<rparr>))) (\<lambda>_.
         andthen (rearm {WL_SOCKET_READABLE}) (\<lambda>_.
         SendStartWALPush api i)))
     | WP_CONN_POLLING_READING \<Rightarrow>
         andthen (set_state i SS_CONNECTING_READ) (\<lambda>_. rearm {WL_SOCKET_READABLE})
     | WP_CONN_POLLING_WRITING \<Rightarrow>
         andthen (set_state i SS_CONNECTING_WRITE) (\<lambda>_. rearm {WL_SOCKET_WRITEABLE})
     | WP_CONN_POLLING_FAILED \<Rightarrow> ShutdownConnection api i)"

definition SendProposerGreeting :: "'w wp_api \<Rightarrow> nat \<Rightarrow> ('w, unit) wp_prog" where
  "SendProposerGreeting api i =
     andthen (reads wp_greet_request) (\<lambda>m.
     andthen (BlockingWrite api i (PAGreeting m) SS_HANDSHAKE_RECV) (\<lambda>_. ret ()))"

definition RecvStartWALPushResult :: "'w wp_api \<Rightarrow> nat \<Rightarrow> ('w, unit) wp_prog" where
  "RecvStartWALPushResult api i =
     andthen (in_world (api_conn_get_query_result api i)) (\<lambda>r.
     case r of
       WP_EXEC_SUCCESS_COPYBOTH \<Rightarrow> SendProposerGreeting api i
     | WP_EXEC_NEEDS_INPUT \<Rightarrow> ret ()
     | WP_EXEC_FAILED \<Rightarrow> ShutdownConnection api i
     | WP_EXEC_UNEXPECTED_SUCCESS \<Rightarrow> ShutdownConnection api i)"

section \<open>Terms\<close>

definition sk_in :: "safekeeper_state \<Rightarrow> 'w wal_proposer \<Rightarrow> nat \<Rightarrow> bool" where
  "sk_in st p i \<longleftrightarrow> wsk_state (the_sk i p) = st"

definition legacy :: "'w wal_proposer \<Rightarrow> bool" where
  "legacy p \<longleftrightarrow> \<not> WalProposerGenerationsEnabled p \<and> mc_generation (wp_mconf p) = INVALID_GENERATION"

definition TermsCollectedMset :: "safekeeper_id list \<Rightarrow> nat option list \<Rightarrow> ('w, bool) wp_prog" where
  "TermsCollectedMset mset msk =
     andthen (reads (\<lambda>p. length (filter (sk_in SS_WAIT_VOTING p) (member_slots mset msk)))) (\<lambda>n_greeted.
     MsetHasQuorum mset n_greeted)"

text \<open>Both member sets, the second only in a joint configuration.\<close>

definition both_msets :: "(safekeeper_id list \<Rightarrow> nat option list \<Rightarrow> ('w, bool) wp_prog) \<Rightarrow> ('w, bool) wp_prog" where
  "both_msets collected =
     andthen (reads (\<lambda>p. (mc_members (wp_mconf p), wp_members_safekeepers p))) (\<lambda>(mset, msk).
     andthen (collected mset msk) (\<lambda>ok.
     if \<not> ok then ret False
     else
       andthen (reads (\<lambda>p. (mc_new_members (wp_mconf p), wp_new_members_safekeepers p))) (\<lambda>(mset, msk).
       if mset = [] then ret True else collected mset msk)))"

definition TermsCollected :: "('w, bool) wp_prog" where
  "TermsCollected =
     andthen (reads (\<lambda>p. (legacy p, wp_quorum p \<le> wp_n_connected p,
        mc_generation (wp_mconf p) = INVALID_GENERATION))) (\<lambda>(is_legacy, enough, no_conf).
     andthen (if is_legacy then ret enough
              else if no_conf then ret False
              else both_msets TermsCollectedMset) (\<lambda>collected.
     andthen (whenp collected (modify (\<lambda>p. p\<lparr>wp_prop_term := wp_prop_term p + 1\<rparr>))) (\<lambda>_.
     ret collected)))"

definition SendVoteRequest :: "'w wp_api \<Rightarrow> nat \<Rightarrow> ('w, unit) wp_prog" where
  "SendVoteRequest api i =
     andthen (reads wp_vote_request) (\<lambda>m.
     andthen (BlockingWrite api i (PAVoteRequest m) SS_WAIT_VERDICT) (\<lambda>_. ret ()))"

definition adopt_mconf :: "nat \<Rightarrow> ('w, unit) wp_prog" where
  "adopt_mconf i =
     andthen (reads (\<lambda>p. (cag_mconf (wsk_greet_response (the_sk i p)), wp_mconf p, wp_phase p)))
       (\<lambda>(theirs, ours, phase).
     whenp (mc_generation ours < mc_generation theirs)
       (andthen (ensure (mc_members theirs \<noteq> []) WpFatal) (\<lambda>_.
        andthen (ensure (phase = WPS_COLLECTING_TERMS) WpFatal) (\<lambda>_.
        andthen (modify (\<lambda>p. p\<lparr>wp_mconf := theirs\<rparr>)) (\<lambda>_.
        ResetMemberSafekeeperPtrs)))))"

definition collect_term :: "nat \<Rightarrow> ('w, unit) wp_prog" where
  "collect_term i =
     andthen (reads (\<lambda>p. (wp_phase p, cag_term (wsk_greet_response (the_sk i p)), wp_prop_term p)))
       (\<lambda>(phase, sk_term, prop_term).
     if phase = WPS_COLLECTING_TERMS then
       andthen (modify (\<lambda>p. p\<lparr>wp_prop_term := max sk_term (wp_prop_term p)\<rparr>)) (\<lambda>_.
       andthen TermsCollected (\<lambda>collected.
       whenp collected (modify (\<lambda>p. p\<lparr>wp_phase := WPS_CAMPAIGN,
          wp_vote_request := \<lparr>vr_generation = mc_generation (wp_mconf p), vr_term = wp_prop_term p\<rparr>\<rparr>))))
     else ensure (\<not> prop_term < sk_term) WpFatal)"

definition RecvAcceptorGreeting :: "'w wp_api \<Rightarrow> nat \<Rightarrow> ('w, unit) wp_prog" where
  "RecvAcceptorGreeting api i =
     andthen (AsyncReadMessage api i read_greeting wsk_greet_response) (\<lambda>r.
     case r of
       None \<Rightarrow> ret ()
     | Some m \<Rightarrow>
         andthen (modify (upd_sk i (\<lambda>sk. sk\<lparr>wsk_greet_response := m\<rparr>))) (\<lambda>_.
         andthen (adopt_mconf i) (\<lambda>_.
         andthen (set_state i SS_WAIT_VOTING) (\<lambda>_.
         andthen (UpdateMemberSafekeeperPtr i) (\<lambda>_.
         andthen (modify (\<lambda>p. p\<lparr>wp_n_connected := wp_n_connected p + 1\<rparr>)) (\<lambda>_.
         andthen (collect_term i) (\<lambda>_.
         andthen (reads (\<lambda>p. (wp_phase p, all_slots p))) (\<lambda>(phase, slots).
         if phase = WPS_COLLECTING_TERMS then call (api_update_event_set api i {WL_SOCKET_READABLE})
         else for_each slots (\<lambda>j.
           andthen (reads (\<lambda>p. sk_in SS_WAIT_VOTING p j)) (\<lambda>waiting.
           whenp waiting (SendVoteRequest api j)))))))))))"

section \<open>Votes\<close>

definition GetHighestTerm :: "term_history \<Rightarrow> sk_term" where
  "GetHighestTerm th = (if th = [] then 0 else tl_term (last th))"

text \<open>The term history of a vote; the array behind it may be gone.\<close>

definition vote_history :: "nat \<Rightarrow> ('w, term_history) wp_prog" where
  "vote_history i =
     andthen (reads (\<lambda>p. the_sk i p)) (\<lambda>sk.
     andthen (ensure (wsk_history_freed sk \<longrightarrow> cvr_term_history (wsk_vote_response sk) = []) WpNullHistory) (\<lambda>_.
     ret (cvr_term_history (wsk_vote_response sk))))"

definition consider_vote :: "nat \<Rightarrow> ('w, unit) wp_prog" where
  "consider_vote i =
     andthen (vote_history i) (\<lambda>th.
     modify (\<lambda>p.
       let last_log_term = GetHighestTerm th;
           flush = cvr_flush_lsn (wsk_vote_response (the_sk i p));
           trunc = max (cvr_truncate_lsn (wsk_vote_response (the_sk i p))) (wp_truncate_lsn p)
       in if wp_donor_last_log_term p < last_log_term
             \<or> last_log_term = wp_donor_last_log_term p \<and> wp_prop_term_start_lsn p < flush
             \<or> wp_donor p = None
          then p\<lparr>wp_donor_last_log_term := last_log_term, wp_prop_term_start_lsn := flush,
                 wp_donor := Some i, wp_truncate_lsn := trunc\<rparr>
          else p\<lparr>wp_truncate_lsn := trunc\<rparr>))"

definition VotesCollectedMset :: "safekeeper_id list \<Rightarrow> nat option list \<Rightarrow> ('w, bool) wp_prog" where
  "VotesCollectedMset mset msk =
     andthen (reads (\<lambda>p. filter (sk_in SS_WAIT_ELECTED p) (member_slots mset msk))) (\<lambda>voters.
     andthen (for_each voters (\<lambda>i.
       andthen (reads (\<lambda>p. cvr_vote_given (wsk_vote_response (the_sk i p)) \<noteq> 0)) (\<lambda>given.
       andthen (wp_assert given) (\<lambda>_. consider_vote i)))) (\<lambda>_.
     MsetHasQuorum mset (length voters)))"

definition VotesCollected :: "('w, bool) wp_prog" where
  "VotesCollected =
     andthen (reads wp_phase) (\<lambda>phase.
     andthen (wp_assert (phase = WPS_CAMPAIGN)) (\<lambda>_.
     andthen (modify (\<lambda>p. p\<lparr>wp_prop_term_start_lsn := lsn_invalid, wp_donor_last_log_term := 0,
        wp_truncate_lsn := lsn_invalid\<rparr>)) (\<lambda>_.
     andthen (reads (\<lambda>p. (legacy p, filter (sk_in SS_WAIT_ELECTED p) (all_slots p), wp_quorum p,
        mc_generation (wp_mconf p)))) (\<lambda>(is_legacy, ready, quorum, generation).
     if is_legacy then andthen (for_each ready consider_vote) (\<lambda>_. ret (quorum \<le> length ready))
     else
       andthen (wp_assert (generation \<noteq> INVALID_GENERATION)) (\<lambda>_. both_msets VotesCollectedMset)))))"

definition XLOG_BLCKSZ_C :: u64 where
  "XLOG_BLCKSZ_C = 8192"

definition SkipXLogPageHeader :: "'w wp_api \<Rightarrow> u32 \<Rightarrow> lsn \<Rightarrow> lsn" where
  "SkipXLogPageHeader api wal_segment_size lsn =
     (if lsn AND (ucast wal_segment_size - 1) = 0 then lsn + api_size_of_long_phd api
      else if lsn mod XLOG_BLCKSZ_C = 0 then lsn + api_size_of_short_phd api
      else lsn)"

definition fix_start_lsn :: "'w wp_api \<Rightarrow> ('w, unit) wp_prog" where
  "fix_start_lsn api =
     andthen (reads (\<lambda>p. (wp_prop_term_start_lsn p, wpc_sync_safekeepers (wp_config p)))) (\<lambda>(start_lsn, sync).
     whenp (start_lsn = lsn_invalid)
       (if \<not> sync then modify (\<lambda>p. let redo = api_get_redo_start_lsn api (wp_world p) in
          p\<lparr>wp_prop_term_start_lsn := redo, wp_truncate_lsn := redo\<rparr>)
        else throw (WpFinished start_lsn)))"

text \<open>The basebackup must be of the position where writing starts, or the last writer was this compute.\<close>

definition basebackup_matches :: "'w wp_api \<Rightarrow> term_history \<Rightarrow> 'w wal_proposer \<Rightarrow> bool" where
  "basebackup_matches api dth p \<longleftrightarrow>
     wpc_sync_safekeepers (wp_config p) \<or> shm_replica_promote (wp_shmem p)
     \<or> SkipXLogPageHeader api (wpc_wal_segment_size (wp_config p)) (wp_prop_term_start_lsn p)
         = api_get_redo_start_lsn api (wp_world p)
     \<or> dth \<noteq> [] \<and> tl_term (last dth) = shm_mine_last_elected_term (wp_shmem p)"

definition ProcessPropStartPos :: "'w wp_api \<Rightarrow> ('w, unit) wp_prog" where
  "ProcessPropStartPos api =
     andthen (reads wp_phase) (\<lambda>phase.
     andthen (wp_assert (phase = WPS_ELECTED)) (\<lambda>_.
     andthen (fix_start_lsn api) (\<lambda>_.
     andthen (modify (\<lambda>p. p\<lparr>wp_shmem := (wp_shmem p)\<lparr>shm_prop_epoch_start_lsn := wp_prop_term_start_lsn p\<rparr>\<rparr>)) (\<lambda>_.
     andthen (reads (\<lambda>p. wp_truncate_lsn p \<noteq> lsn_invalid \<or> wpc_sync_safekeepers (wp_config p))) (\<lambda>ok.
     andthen (wp_assert ok) (\<lambda>_.
     andthen (modify (\<lambda>p. p\<lparr>wp_available_lsn := wp_prop_term_start_lsn p\<rparr>)) (\<lambda>_.
     andthen (reads wp_donor) (\<lambda>donor.
     andthen (of_option WpNullHistory donor) (\<lambda>d.
     andthen (vote_history d) (\<lambda>dth.
     andthen (modify (\<lambda>p. p\<lparr>wp_prop_term_history :=
        dth @ [\<lparr>tl_term = wp_prop_term p, tl_lsn = wp_prop_term_start_lsn p\<rparr>]\<rparr>)) (\<lambda>_.
     andthen (reads (basebackup_matches api dth)) (\<lambda>matches.
     andthen (ensure matches WpPanic) (\<lambda>_.
     modify (\<lambda>p. p\<lparr>wp_shmem := (wp_shmem p)\<lparr>shm_mine_last_elected_term := wp_prop_term p\<rparr>\<rparr>))))))))))))))"

section \<open>Streaming\<close>

definition UpdateDonorShmem :: "'w wp_api \<Rightarrow> ('w, unit) wp_prog" where
  "UpdateDonorShmem api =
     andthen (reads wp_phase) (\<lambda>phase.
     if phase \<noteq> WPS_ELECTED then ret ()
     else
       andthen (reads wp_donor) (\<lambda>wp_donor.
       andthen (of_option WpNullHistory wp_donor) (\<lambda>d.
       andthen (reads (\<lambda>p.
         fold (\<lambda>i (donor, donor_lsn).
             if sk_in SS_ACTIVE p i \<and> donor_lsn < car_flush_lsn (wsk_append_response (the_sk i p))
             then (Some i, car_flush_lsn (wsk_append_response (the_sk i p))) else (donor, donor_lsn))
           (all_slots p)
           (if SS_WAIT_ELECTED \<le> wsk_state (the_sk d p) then (Some d, wp_prop_term_start_lsn p)
            else (None, lsn_invalid)))) (\<lambda>(donor, donor_lsn).
       case donor of None \<Rightarrow> ret () | Some i \<Rightarrow> call (api_update_donor api i donor_lsn)))))"

definition PrepareAppendRequest :: "nat \<Rightarrow> lsn \<Rightarrow> lsn \<Rightarrow> ('w, unit) wp_prog" where
  "PrepareAppendRequest i begin_lsn end_lsn =
     andthen (wp_assert (begin_lsn \<le> end_lsn)) (\<lambda>_.
     modify (\<lambda>p. upd_sk i (\<lambda>sk. sk\<lparr>wsk_append_request :=
       \<lparr>ah_generation = mc_generation (wp_mconf p), ah_term = wp_prop_term p, ah_begin_lsn = begin_lsn,
        ah_end_lsn = end_lsn, ah_commit_lsn = wp_commit_lsn p, ah_truncate_lsn = wp_truncate_lsn p\<rparr>\<rparr>) p))"

definition prepare_next :: "nat \<Rightarrow> ('w, unit) wp_prog" where
  "prepare_next i =
     andthen (reads (\<lambda>p. (wsk_streaming_at (the_sk i p), wp_available_lsn p))) (\<lambda>(streaming_at, available).
     let end_lsn = streaming_at + of_nat MAX_SEND_SIZE in
     andthen (PrepareAppendRequest i streaming_at (if available < end_lsn then available else end_lsn)) (\<lambda>_.
     modify (upd_sk i (\<lambda>sk. sk\<lparr>wsk_active_state := SS_ACTIVE_READ_WAL\<rparr>))))"

definition write_prepared :: "'w wp_api \<Rightarrow> nat \<Rightarrow> append_request_header \<Rightarrow> bytes \<Rightarrow> ('w, bool option) wp_prog" where
  "write_prepared api i req wal =
     andthen (serialize api (PAAppend req)) (\<lambda>b.
     andthen (in_world (api_conn_async_write api i (b @ wal))) (\<lambda>write_result.
     andthen (modify (upd_sk i (\<lambda>sk. sk\<lparr>wsk_streaming_at := ah_end_lsn req\<rparr>))) (\<lambda>_.
     case write_result of
       PG_ASYNC_WRITE_SUCCESS \<Rightarrow>
         andthen (record_sent i (PAAppend req) wal) (\<lambda>_.
         andthen (modify (upd_sk i (\<lambda>sk. sk\<lparr>wsk_active_state := SS_ACTIVE_SEND\<rparr>))) (\<lambda>_. ret None))
     | PG_ASYNC_WRITE_TRY_FLUSH \<Rightarrow>
         andthen (record_sent i (PAAppend req) wal) (\<lambda>_.
         andthen (modify (upd_sk i (\<lambda>sk. sk\<lparr>wsk_active_state := SS_ACTIVE_FLUSH\<rparr>))) (\<lambda>_. ret (Some True)))
     | PG_ASYNC_WRITE_FAIL \<Rightarrow> andthen (ShutdownConnection api i) (\<lambda>_. ret (Some False)))))"

definition send_prepared :: "'w wp_api \<Rightarrow> nat \<Rightarrow> ('w, bool option) wp_prog" where
  "send_prepared api i =
     andthen (reads (\<lambda>p. wsk_append_request (the_sk i p))) (\<lambda>req.
     let req_len = unat (ah_end_lsn req - ah_begin_lsn req) in
     if req_len = 0 then write_prepared api i req []
     else
       andthen (in_world (api_wal_read api i (ah_begin_lsn req) req_len)) (\<lambda>r.
       case r of
         NEON_WALREAD_SUCCESS wal \<Rightarrow> write_prepared api i req wal
       | NEON_WALREAD_WOULDBLOCK \<Rightarrow> ret (Some True)
       | NEON_WALREAD_ERROR \<Rightarrow> andthen (ShutdownConnection api i) (\<lambda>_. ret (Some False))))"

fun send_loop :: "'w wp_api \<Rightarrow> nat \<Rightarrow> nat \<Rightarrow> bool \<Rightarrow> ('w, bool) wp_prog" where
  "send_loop api i 0 sent_anything = throw WpMoreMessages"
| "send_loop api i (Suc n) sent_anything =
     andthen (reads (\<lambda>p. (wsk_streaming_at (the_sk i p) = wp_available_lsn p, wsk_active_state (the_sk i p))))
       (\<lambda>(caught_up, active_state).
     if caught_up \<and> sent_anything then ret True
     else
       andthen (whenp (active_state = SS_ACTIVE_SEND) (prepare_next i)) (\<lambda>_.
       if active_state = SS_ACTIVE_FLUSH then send_loop api i n sent_anything
       else
         andthen (send_prepared api i) (\<lambda>r.
         case r of
           Some b \<Rightarrow> ret b
         | None \<Rightarrow> send_loop api i n (sent_anything \<or> active_state = SS_ACTIVE_SEND))))"

text \<open>Messages left to send, one more for a heartbeat, one for a prepared message, one for the exit.\<close>

definition send_bound :: "nat \<Rightarrow> 'w wal_proposer \<Rightarrow> nat" where
  "send_bound i p = unat (wp_available_lsn p - wsk_streaming_at (the_sk i p)) + 3"

definition SendAppendRequests :: "'w wp_api \<Rightarrow> nat \<Rightarrow> ('w, bool) wp_prog" where
  "SendAppendRequests api i =
     andthen (reads (\<lambda>p. wsk_active_state (the_sk i p))) (\<lambda>active_state.
     andthen (if active_state = SS_ACTIVE_FLUSH then AsyncFlush api i else ret True) (\<lambda>flushed.
     if \<not> flushed then reads (\<lambda>p. sk_in SS_ACTIVE p i)
     else
       andthen (whenp (active_state = SS_ACTIVE_FLUSH)
         (modify (upd_sk i (\<lambda>sk. sk\<lparr>wsk_active_state := SS_ACTIVE_SEND\<rparr>)))) (\<lambda>_.
       andthen (reads (send_bound i)) (\<lambda>n. send_loop api i n False))))"

text \<open>HandleActiveState, with what it does to read responses.\<close>

definition handle_active ::
  "'w wp_api \<Rightarrow> ('w, bool) wp_prog \<Rightarrow> nat \<Rightarrow> wl_event set \<Rightarrow> ('w, unit) wp_prog" where
  "handle_active api recv i events =
     andthen (reads (\<lambda>p. wsk_active_state (the_sk i p))) (\<lambda>active_state.
     andthen (if WL_SOCKET_WRITEABLE \<in> events \<or> active_state = SS_ACTIVE_READ_WAL
              then SendAppendRequests api i else ret True) (\<lambda>alive.
     if \<not> alive then ret ()
     else
       andthen (if WL_SOCKET_READABLE \<in> events then recv else ret True) (\<lambda>alive.
       if \<not> alive then ret ()
       else if 150000 \<le> api_pg_version_num api \<and> WL_SOCKET_CLOSED \<in> events then ShutdownConnection api i
       else call (api_active_state_update_event_set api i))))"

definition SendMessageToNode :: "'w wp_api \<Rightarrow> nat \<Rightarrow> ('w, unit) wp_prog" where
  "SendMessageToNode api i =
     andthen (reads (\<lambda>p. sk_in SS_ACTIVE p i)) (\<lambda>active.
     andthen (wp_assert active) (\<lambda>_.
     handle_active api (ret True) i {WL_SOCKET_WRITEABLE}))"

definition BroadcastAppendRequest :: "'w wp_api \<Rightarrow> ('w, unit) wp_prog" where
  "BroadcastAppendRequest api =
     andthen (reads all_slots) (\<lambda>slots.
     for_each slots (\<lambda>i.
       andthen (reads (\<lambda>p. sk_in SS_ACTIVE p i)) (\<lambda>active.
       whenp active (SendMessageToNode api i))))"

definition StartStreaming :: "'w wp_api \<Rightarrow> nat \<Rightarrow> ('w, unit) wp_prog" where
  "StartStreaming api i =
     andthen (modify (upd_sk i (\<lambda>sk. sk\<lparr>wsk_state := SS_ACTIVE, wsk_active_state := SS_ACTIVE_SEND,
        wsk_streaming_at := wsk_start_streaming_at sk\<rparr>))) (\<lambda>_.
     andthen (call (api_update_metrics api i)) (\<lambda>_.
     andthen (UpdateDonorShmem api) (\<lambda>_.
     SendMessageToNode api i)))"

section \<open>Election\<close>

text \<open>
  How many leading entries of two histories are of the same term; \<open>None\<close> when one of these
  terms begins at two positions.
\<close>

fun common_terms :: "term_history \<Rightarrow> term_history \<Rightarrow> nat option" where
  "common_terms (p # ps) (s # ss) =
     (if tl_term p \<noteq> tl_term s then Some 0
      else if tl_lsn p \<noteq> tl_lsn s then None
      else map_option Suc (common_terms ps ss))"
| "common_terms _ _ = Some 0"

definition streaming_start :: "term_history \<Rightarrow> sk_term \<Rightarrow> term_history \<Rightarrow> lsn \<Rightarrow> lsn option" where
  "streaming_start prop_th prop_term th sk_flush_lsn =
     (case common_terms prop_th th of
        None \<Rightarrow> None
      | Some 0 \<Rightarrow> Some (tl_lsn (prop_th ! 0))
      | Some (Suc idx) \<Rightarrow>
          Some (if tl_term (prop_th ! idx) = prop_term then sk_flush_lsn
                else min (tl_lsn (prop_th ! (idx + 1)))
                       (if idx + 1 < length th then tl_lsn (th ! (idx + 1)) else sk_flush_lsn)))"

definition SendProposerElected :: "'w wp_api \<Rightarrow> nat \<Rightarrow> ('w, unit) wp_prog" where
  "SendProposerElected api i =
     andthen (call (api_wal_reader_allocate api i)) (\<lambda>_.
     andthen (vote_history i) (\<lambda>th.
     andthen (reads (\<lambda>p. p)) (\<lambda>p.
     andthen (wp_assert (wp_prop_term_history p \<noteq> [])) (\<lambda>_.
     andthen (of_option WpAssert (streaming_start (wp_prop_term_history p) (wp_prop_term p) th
        (cvr_flush_lsn (wsk_vote_response (the_sk i p))))) (\<lambda>start.
     andthen (modify (upd_sk i (\<lambda>sk. sk\<lparr>wsk_start_streaming_at := start\<rparr>))) (\<lambda>_.
     andthen (wp_assert (start \<le> wp_available_lsn p)) (\<lambda>_.
     andthen (AsyncWrite api i (PAElected \<lparr>pe_generation = mc_generation (wp_mconf p), pe_term = wp_prop_term p,
         pe_start_streaming_at = start, pe_term_history = wp_prop_term_history p\<rparr>) SS_SEND_ELECTED_FLUSH) (\<lambda>written.
     whenp written (StartStreaming api i)))))))))"

definition HandleElectedProposer :: "'w wp_api \<Rightarrow> ('w, unit) wp_prog" where
  "HandleElectedProposer api =
     andthen (ProcessPropStartPos api) (\<lambda>_.
     andthen (reads (\<lambda>p. p)) (\<lambda>p.
     andthen (wp_assert (wp_prop_term_start_lsn p \<noteq> lsn_invalid)) (\<lambda>_.
     andthen (of_option WpNullHistory (wp_donor p)) (\<lambda>d.
     andthen (in_world (api_recovery_download api d)) (\<lambda>downloaded.
     andthen (ensure downloaded WpFatal) (\<lambda>_.
     andthen (ensure (\<not> (wp_truncate_lsn p = wp_prop_term_start_lsn p \<and> wpc_sync_safekeepers (wp_config p)))
        (WpFinished (wp_prop_term_start_lsn p))) (\<lambda>_.
     andthen (for_each (all_slots p) (\<lambda>i.
        andthen (reads (\<lambda>p. sk_in SS_WAIT_ELECTED p i)) (\<lambda>waiting.
        whenp waiting (SendProposerElected api i)))) (\<lambda>_.
     if wpc_sync_safekeepers (wp_config p) then BroadcastAppendRequest api
     else throw (WpStreaming (wp_prop_term_start_lsn p))))))))))"

definition RecvVoteResponse :: "'w wp_api \<Rightarrow> nat \<Rightarrow> ('w, unit) wp_prog" where
  "RecvVoteResponse api i =
     andthen (reads wp_phase) (\<lambda>phase.
     andthen (wp_assert (phase \<noteq> WPS_COLLECTING_TERMS)) (\<lambda>_.
     andthen (AsyncReadMessage api i read_vote_response wsk_vote_response) (\<lambda>r.
     case r of
       None \<Rightarrow> ret ()
     | Some m \<Rightarrow>
         andthen (modify (upd_sk i (\<lambda>sk. sk\<lparr>wsk_vote_response := m, wsk_history_freed := False\<rparr>))) (\<lambda>_.
         andthen (reads (\<lambda>p. (wp_phase p, wp_prop_term p))) (\<lambda>(phase, prop_term).
         andthen (ensure (\<not> (cvr_vote_given m = 0 \<and> (prop_term < cvr_term m \<or> phase = WPS_CAMPAIGN))) WpFatal) (\<lambda>_.
         andthen (wp_assert (cvr_term m = prop_term)) (\<lambda>_.
         andthen (set_state i SS_WAIT_ELECTED) (\<lambda>_.
         if phase = WPS_CAMPAIGN then
           andthen VotesCollected (\<lambda>collected.
           whenp collected
             (andthen (modify (\<lambda>p. p\<lparr>wp_phase := WPS_ELECTED\<rparr>)) (\<lambda>_. HandleElectedProposer api)))
         else SendProposerElected api i))))))))"

section \<open>Acknowledgements\<close>

definition CalculateMinFlushLsn :: "'w wal_proposer \<Rightarrow> lsn" where
  "CalculateMinFlushLsn p =
     (case wp_safekeeper p of
        [] \<Rightarrow> lsn_invalid
      | sk # sks \<Rightarrow> fold (\<lambda>sk lsn. min lsn (car_flush_lsn (wsk_append_response sk))) sks
          (car_flush_lsn (wsk_append_response sk)))"

text \<open>A response counts from the start of the proposer's own term on.\<close>

definition acked :: "'w wal_proposer \<Rightarrow> nat \<Rightarrow> lsn" where
  "acked p i =
     (let flush = car_flush_lsn (wsk_append_response (the_sk i p)) in
      if wp_prop_term_start_lsn p \<le> flush then flush else 0)"

definition quorum_lsn :: "lsn list \<Rightarrow> nat \<Rightarrow> lsn" where
  "quorum_lsn responses quorum = sort responses ! (length responses - quorum)"

definition GetCommittedMset :: "safekeeper_id list \<Rightarrow> nat option list \<Rightarrow> ('w, lsn) wp_prog" where
  "GetCommittedMset mset msk =
     andthen (wp_assert (length mset \<le> MAX_SAFEKEEPERS)) (\<lambda>_.
     andthen (reads (\<lambda>p. map (\<lambda>s. case s of None \<Rightarrow> 0 | Some i \<Rightarrow> acked p i) (take (length mset) msk))) (\<lambda>responses.
     andthen (MsetQuorum mset) (\<lambda>q. ret (quorum_lsn responses q))))"

definition GetAcknowledgedByQuorumWALPosition :: "('w, lsn) wp_prog" where
  "GetAcknowledgedByQuorumWALPosition =
     andthen (reads (\<lambda>p. p)) (\<lambda>p.
     if legacy p then ret (quorum_lsn (map (acked p) (all_slots p)) (wp_quorum p))
     else
       andthen (GetCommittedMset (mc_members (wp_mconf p)) (wp_members_safekeepers p)) (\<lambda>committed.
       if mc_new_members (wp_mconf p) = [] then ret committed
       else
         andthen (GetCommittedMset (mc_new_members (wp_mconf p)) (wp_new_members_safekeepers p)) (\<lambda>new_committed.
         ret (min committed new_committed))))"

definition finish_sync :: "'w wp_api \<Rightarrow> lsn \<Rightarrow> ('w, unit) wp_prog" where
  "finish_sync api new_commit_lsn =
     andthen (reads (\<lambda>p. p)) (\<lambda>p.
     let unsynced = (\<lambda>sk. wsk_state sk \<noteq> SS_OFFLINE
           \<and> \<not> wp_prop_term_start_lsn p \<le> car_commit_lsn (wsk_append_response sk))
     in if \<not> wpc_sync_safekeepers (wp_config p) \<or> list_ex unsynced (wp_safekeeper p)
           \<or> new_commit_lsn < wp_prop_term_start_lsn p then ret ()
        else
          andthen (BroadcastAppendRequest api) (\<lambda>_.
          throw (WpFinished (wp_prop_term_start_lsn p))))"

definition HandleSafekeeperResponse :: "'w wp_api \<Rightarrow> nat \<Rightarrow> ('w, unit) wp_prog" where
  "HandleSafekeeperResponse api i =
     andthen GetAcknowledgedByQuorumWALPosition (\<lambda>new_commit_lsn.
     andthen (reads wp_commit_lsn) (\<lambda>commit_lsn.
     andthen (whenp (commit_lsn < new_commit_lsn)
       (andthen (modify (\<lambda>p. p\<lparr>wp_commit_lsn := new_commit_lsn\<rparr>)) (\<lambda>_. BroadcastAppendRequest api))) (\<lambda>_.
     andthen (call (api_process_safekeeper_feedback api i)) (\<lambda>_.
     andthen (modify (\<lambda>p.
       let candidate = min (CalculateMinFlushLsn p) (wp_commit_lsn p)
       in if wp_truncate_lsn p < candidate then p\<lparr>wp_truncate_lsn := candidate\<rparr> else p)) (\<lambda>_.
     finish_sync api new_commit_lsn)))))"

fun recv_loop :: "'w wp_api \<Rightarrow> nat \<Rightarrow> nat \<Rightarrow> ('w, unit) wp_prog" where
  "recv_loop api i 0 = throw WpMoreMessages"
| "recv_loop api i (Suc n) =
     andthen (AsyncReadMessage api i read_append_response wsk_append_response) (\<lambda>r.
     case r of
       None \<Rightarrow> ret ()
     | Some m \<Rightarrow>
         andthen (modify (upd_sk i (\<lambda>sk. sk\<lparr>wsk_append_response := m\<rparr>))) (\<lambda>_.
         andthen (reads (\<lambda>p. (mc_generation (wp_mconf p), wp_prop_term p))) (\<lambda>(generation, prop_term).
         andthen (ensure (car_generation m = generation) WpFatal) (\<lambda>_.
         andthen (ensure (\<not> prop_term < car_term m) WpFatal) (\<lambda>_.
         andthen (HandleSafekeeperResponse api i) (\<lambda>_.
         andthen (call (api_update_metrics api i)) (\<lambda>_.
         recv_loop api i n)))))))"

definition RecvAppendResponses :: "'w wp_api \<Rightarrow> nat \<Rightarrow> nat \<Rightarrow> ('w, bool) wp_prog" where
  "RecvAppendResponses api n i = andthen (recv_loop api i n) (\<lambda>_. reads (\<lambda>p. sk_in SS_ACTIVE p i))"

definition HandleActiveState :: "'w wp_api \<Rightarrow> nat \<Rightarrow> nat \<Rightarrow> wl_event set \<Rightarrow> ('w, unit) wp_prog" where
  "HandleActiveState api n i events = handle_active api (RecvAppendResponses api n i) i events"

section \<open>Events\<close>

definition AdvancePollState :: "'w wp_api \<Rightarrow> nat \<Rightarrow> nat \<Rightarrow> wl_event set \<Rightarrow> ('w, unit) wp_prog" where
  "AdvancePollState api n i events =
     andthen (AssertEventsOkForState api events i) (\<lambda>_.
     andthen (reads (\<lambda>p. wsk_state (the_sk i p))) (\<lambda>state.
     case state of
       SS_OFFLINE \<Rightarrow> throw WpFatal
     | SS_CONNECTING_READ \<Rightarrow> HandleConnectionEvent api i
     | SS_CONNECTING_WRITE \<Rightarrow> HandleConnectionEvent api i
     | SS_WAIT_EXEC_RESULT \<Rightarrow> RecvStartWALPushResult api i
     | SS_HANDSHAKE_RECV \<Rightarrow> RecvAcceptorGreeting api i
     | SS_WAIT_VOTING \<Rightarrow> ResetConnection api i
     | SS_WAIT_VERDICT \<Rightarrow> RecvVoteResponse api i
     | SS_SEND_ELECTED_FLUSH \<Rightarrow>
         andthen (AsyncFlush api i) (\<lambda>flushed. whenp flushed (StartStreaming api i))
     | SS_WAIT_ELECTED \<Rightarrow> ResetConnection api i
     | SS_ACTIVE \<Rightarrow> HandleActiveState api n i events))"

definition abandon_slow :: "'w wp_api \<Rightarrow> ('w, unit) wp_prog" where
  "abandon_slow api =
     andthen (in_world (api_get_current_timestamp api)) (\<lambda>now.
     andthen (reads all_slots) (\<lambda>slots.
     for_each slots (\<lambda>i.
       andthen (reads (\<lambda>p. api_timestamp_difference_exceeds api (wsk_latest_msg_received_at (the_sk i p)) now
          (wpc_safekeeper_connection_timeout (wp_config p)))) (\<lambda>exceeds.
       whenp exceeds (ShutdownConnection api i)))))"

definition keep_alive :: "'w wp_api \<Rightarrow> bool \<Rightarrow> ('w, unit) wp_prog" where
  "keep_alive api timed_out =
     andthen (in_world (api_get_current_timestamp api)) (\<lambda>now.
     andthen (reads (\<lambda>p. (sint (TimeToReconnect p now) \<le> 0, wp_available_lsn p \<noteq> lsn_invalid))) (\<lambda>(due, started).
     whenp (timed_out \<or> due)
       (andthen (whenp started (BroadcastAppendRequest api)) (\<lambda>_. abandon_slow api))))"

text \<open>One iteration of the loop of WalProposerPoll; \<open>True\<close> leaves it.\<close>

definition poll_iteration :: "'w wp_api \<Rightarrow> nat \<Rightarrow> ('w, bool) wp_prog" where
  "poll_iteration api n =
     andthen (in_world (api_get_current_timestamp api)) (\<lambda>now.
     andthen (reads (\<lambda>p. TimeToReconnect p now)) (\<lambda>timeout.
     andthen (in_world (api_wait_event_set api timeout)) (\<lambda>rc.
     case rc of
       Some (sk, events) \<Rightarrow>
         if WL_LATCH_SET \<in> events then ret True
         else
           andthen (whenp (events \<inter> {WL_SOCKET_READABLE, WL_SOCKET_WRITEABLE, WL_SOCKET_CONNECTED, WL_SOCKET_CLOSED} \<noteq> {})
             (andthen (of_option WpAssert sk) (\<lambda>i. AdvancePollState api n i events))) (\<lambda>_.
           andthen (ReconnectSafekeepers api) (\<lambda>_.
           andthen (keep_alive api False) (\<lambda>_. ret False)))
     | None \<Rightarrow>
         andthen (ReconnectSafekeepers api) (\<lambda>_.
         andthen (reads (\<lambda>p. wpc_sync_safekeepers (wp_config p))) (\<lambda>sync.
         andthen (if sync then ret 0 else in_world (api_get_flush_rec_ptr api)) (\<lambda>flushed.
         andthen (reads (\<lambda>p. \<not> sync \<and> wp_available_lsn p < flushed)) (\<lambda>new_wal.
         if new_wal then ret True
         else andthen (keep_alive api True) (\<lambda>_. ret False))))))))"

fun WalProposerPoll :: "'w wp_api \<Rightarrow> nat \<Rightarrow> nat \<Rightarrow> ('w, unit) wp_prog" where
  "WalProposerPoll api n 0 = throw WpMoreMessages"
| "WalProposerPoll api n (Suc k) =
     andthen (poll_iteration api n) (\<lambda>stop. if stop then ret () else WalProposerPoll api n k)"

definition WalProposerBroadcast :: "'w wp_api \<Rightarrow> lsn \<Rightarrow> lsn \<Rightarrow> ('w, unit) wp_prog" where
  "WalProposerBroadcast api startpos endpos =
     andthen (reads wp_available_lsn) (\<lambda>available.
     andthen (wp_assert (startpos = available \<and> available \<le> endpos)) (\<lambda>_.
     andthen (modify (\<lambda>p. p\<lparr>wp_available_lsn := endpos\<rparr>)) (\<lambda>_.
     BroadcastAppendRequest api)))"

definition WalProposerStart :: "'w wp_api \<Rightarrow> ('w, unit) wp_prog" where
  "WalProposerStart api =
     andthen (reads all_slots) (\<lambda>slots. for_each slots (ResetConnection api))"

section \<open>Creation\<close>

definition is_digit :: "u8 \<Rightarrow> bool" where
  "is_digit b \<longleftrightarrow> 48 \<le> b \<and> b \<le> 57"

text \<open>strtoul in base 10: the value, \<open>None\<close> when out of range, and what follows the number.\<close>

definition strtoul :: "bytes \<Rightarrow> u64 option \<times> bytes" where
  "strtoul s =
     (let s' = dropWhile (\<lambda>b. b = 32 \<or> 9 \<le> b \<and> b \<le> 13) s;
          (neg, s'') = (case s' of [] \<Rightarrow> (False, []) | b # bs \<Rightarrow> if b = 45 then (True, bs) else if b = 43 then (False, bs) else (False, s'));
          ds = takeWhile is_digit s'';
          n = foldl (\<lambda>acc d. acc * 10 + (unat d - 48)) 0 ds
      in if ds = [] then (Some 0, s)
         else (if n < 2 ^ 64 then Some (if neg then - of_nat n else of_nat n) else None, drop (length ds) s''))"

text \<open>Split at the first occurrence, as strchr and a zero byte written there do.\<close>

fun split_first :: "u8 \<Rightarrow> bytes \<Rightarrow> (bytes \<times> bytes) option" where
  "split_first c [] = None"
| "split_first c (b # bs) = (if b = c then Some ([], bs) else map_option (map_prod (Cons b) id) (split_first c bs))"

lemma split_first_length: "split_first c bs = Some (x, y) \<Longrightarrow> length y < length bs"
  by (induction bs arbitrary: x y) (auto split: if_splits intro: less_SucI)

function parse_endpoints :: "nat \<Rightarrow> bytes \<Rightarrow> (bytes \<times> bytes) list option" where
  "parse_endpoints n host =
     (if host = [] then Some []
      else case split_first 58 host of
        None \<Rightarrow> None
      | Some (h, port) \<Rightarrow>
          (if MAX_SAFEKEEPERS \<le> n + 1 then None
           else case split_first 44 port of
             None \<Rightarrow> Some [(h, port)]
           | Some (port, rest) \<Rightarrow> map_option (Cons (h, port)) (parse_endpoints (n + 1) rest)))"
  by pat_completeness auto
termination
  by (relation "measure (length \<circ> snd)") (auto dest!: split_first_length)

declare parse_endpoints.simps [simp del]

definition parse_safekeepers_list :: "bytes \<Rightarrow> (sk_generation \<times> (bytes \<times> bytes) list) option" where
  "parse_safekeepers_list l =
     (if take 2 l = key ''g#'' then
        (case strtoul (drop 2 l) of
           (None, _) \<Rightarrow> None
         | (Some gen, rest) \<Rightarrow>
             (case rest of
                [] \<Rightarrow> None
              | b # host \<Rightarrow> if b \<noteq> 58 then None else map_option (Pair (ucast gen)) (parse_endpoints 0 host)))
      else map_option (Pair INVALID_GENERATION) (parse_endpoints 0 l))"

definition c_string :: "bytes option \<Rightarrow> bytes" where
  "c_string s = (case s of None \<Rightarrow> key ''(null)'' | Some s \<Rightarrow> s)"

definition conninfo :: "wp_config \<Rightarrow> bytes \<Rightarrow> bytes \<Rightarrow> bytes" where
  "conninfo config host port =
     wpc_safekeeper_conninfo_options config @ key '' host='' @ host @ key '' port='' @ port
       @ key '' dbname=replication options=''
       @ quoted (key ''-c timeline_id='' @ c_string (wpc_neon_timeline config)
           @ key '' tenant_id='' @ c_string (wpc_neon_tenant config))"

text \<open>A descriptor as palloc0 and the loop over the endpoints leave it.\<close>

definition new_safekeeper :: "wp_config \<Rightarrow> nat \<Rightarrow> nat \<Rightarrow> bytes \<times> bytes \<Rightarrow> wp_safekeeper" where
  "new_safekeeper config maxconninfo i = (\<lambda>(host, port).
     \<lparr>wsk_host = host, wsk_port = port, wsk_index = i,
      wsk_conninfo = take (maxconninfo - 1) (conninfo config host port),
      wsk_start_streaming_at = lsn_invalid, wsk_streaming_at = lsn_invalid,
      wsk_append_request = \<lparr>ah_generation = 0, ah_term = 0, ah_begin_lsn = 0, ah_end_lsn = 0,
        ah_commit_lsn = 0, ah_truncate_lsn = 0\<rparr>,
      wsk_state = SS_OFFLINE, wsk_active_state = SS_ACTIVE_SEND, wsk_latest_msg_received_at = 0,
      wsk_greet_response = \<lparr>cag_node_id = 0, cag_mconf = c_mconf_zero, cag_term = 0\<rparr>,
      wsk_vote_response = \<lparr>cvr_generation = 0, cvr_term = 0, cvr_vote_given = 0, cvr_flush_lsn = 0,
        cvr_truncate_lsn = 0, cvr_term_history = []\<rparr>,
      wsk_history_freed = True,
      wsk_append_response = \<lparr>car_generation = 0, car_term = 0, car_flush_lsn = 0, car_commit_lsn = 0,
        car_hs = \<lparr>hs_ts = 0, hs_xmin = 0, hs_catalog_xmin = 0\<rparr>,
        car_ps_feedback = c_feedback_zero\<lparr>cf_present := False\<rparr>\<rparr>\<rparr>)"

definition WalProposerCreate :: "'w wp_api \<Rightarrow> wp_config \<Rightarrow> wp_shmem \<Rightarrow> 'w \<Rightarrow> wp_error + 'w wal_proposer" where
  "WalProposerCreate api config shmem w =
     (let maxconninfo = MAXCONNINFO (api_pq api); v = wpc_proto_version config in
      case parse_safekeepers_list (wpc_safekeepers_list config) of
        None \<Rightarrow> Inl WpFatal
      | Some (generation, endpoints) \<Rightarrow>
          (if list_ex (\<lambda>(host, port). maxconninfo < length (conninfo config host port)) endpoints
              \<or> endpoints = []
              \<or> v \<noteq> 2 \<and> v \<noteq> 3 \<and> v \<noteq> 4
              \<or> INVALID_GENERATION < generation \<and> v < 3 then Inl WpFatal
           else case (wpc_neon_tenant config, wpc_neon_timeline config) of
             (Some tenant, Some timeline) \<Rightarrow>
               Inr \<lparr>wp_config = config, wp_phase = WPS_COLLECTING_TERMS, wp_mconf = c_mconf_zero,
                 wp_members_safekeepers = replicate MAX_SAFEKEEPERS None,
                 wp_new_members_safekeepers = replicate MAX_SAFEKEEPERS None,
                 wp_quorum = length endpoints div 2 + 1, wp_safekeepers_generation = generation,
                 wp_safekeeper = map (\<lambda>(i, e). new_safekeeper config maxconninfo i e) (enumerate 0 endpoints),
                 wp_available_lsn = 0, wp_commit_lsn = 0,
                 wp_greet_request = \<lparr>cpg_tenant_id = tenant, cpg_timeline_id = timeline, cpg_mconf = c_mconf_zero,
                   cpg_pg_version = api_pg_version_num api, cpg_system_id = wpc_system_id config,
                   cpg_wal_seg_size = wpc_wal_segment_size config\<rparr>,
                 wp_vote_request = \<lparr>vr_generation = 0, vr_term = 0\<rparr>,
                 wp_truncate_lsn = 0, wp_prop_term = 0, wp_prop_term_history = [],
                 wp_prop_term_start_lsn = 0, wp_donor_last_log_term = 0, wp_donor = None,
                 wp_n_connected = 0, wp_last_reconnect_attempt = 0, wp_shmem = shmem,
                 wp_world = api_init_event_set api (length endpoints) w, wp_sent = []\<rparr>
           | _ \<Rightarrow> Inl WpFatal))"

end
