(* ===== verification/Wp_Quorum.thy ===== *)
theory Wp_Quorum
  imports Wp_Proposer Safekeeper
begin

text \<open>
  What the walproposer computes from the answers of a quorum: the position it may regard as
  committed, the vote it continues, and the point where it starts streaming to a safekeeper.
\<close>

section \<open>The position acknowledged by a quorum\<close>

lemma filter_sort_length: "length (filter P (sort xs)) = length (filter P xs)"
  by (metis filter_sort length_sort)

lemma sorted_filter_ge:
  assumes "sorted xs" and "i < length xs"
  shows "length xs - i \<le> length (filter (\<lambda>x. xs ! i \<le> x) xs)"
proof -
  have "filter (\<lambda>x. xs ! i \<le> x) (drop i xs) = drop i xs"
    using assms by (auto intro!: filter_True simp: set_conv_nth sorted_iff_nth_mono)
  then have "length xs - i \<le> length (filter (\<lambda>x. xs ! i \<le> x) (drop i xs))" by simp
  also have "\<dots> \<le> length (filter (\<lambda>x. xs ! i \<le> x) (take i xs @ drop i xs))"
    by (simp del: append_take_drop_id)
  finally show ?thesis by simp
qed

lemma sorted_filter_gt:
  assumes "sorted xs" and "i < length xs" and "xs ! i < x"
  shows "length (filter (\<lambda>y. x \<le> y) xs) < length xs - i"
proof -
  have "filter (\<lambda>y. x \<le> y) (take (Suc i) xs) = []"
    using assms by (auto simp: filter_empty_conv set_conv_nth sorted_iff_nth_mono)
      (metis leD le_less_trans less_Suc_eq_le)
  then have "filter (\<lambda>y. x \<le> y) xs = filter (\<lambda>y. x \<le> y) (drop (Suc i) xs)"
    by (metis append_Nil append_take_drop_id filter_append)
  then have "length (filter (\<lambda>y. x \<le> y) xs) \<le> length xs - Suc i"
    by (metis length_drop length_filter_le)
  then show ?thesis using assms(2) by linarith
qed

text \<open>\<open>quorum_lsn\<close> is the highest value that \<open>q\<close> of the responses reach.\<close>

lemma quorum_lsn_reached:
  assumes "0 < q" and "q \<le> length rs"
  shows "q \<le> length (filter (\<lambda>r. quorum_lsn rs q \<le> r) rs)"
  using sorted_filter_ge [of "sort rs" "length rs - q"] assms
  by (simp add: quorum_lsn_def filter_sort_length)

lemma quorum_lsn_highest:
  assumes "0 < q" and "q \<le> length rs" and "q \<le> length (filter (\<lambda>r. x \<le> r) rs)"
  shows "x \<le> quorum_lsn rs q"
  using sorted_filter_gt [of "sort rs" "length rs - q" x] assms
  by (force simp: quorum_lsn_def filter_sort_length)

lemma length_filter_mono:
  "(\<And>x. x \<in> set xs \<Longrightarrow> P x \<Longrightarrow> Q x) \<Longrightarrow> length (filter P xs) \<le> length (filter Q xs)"
  by (induction xs) (auto simp: le_SucI)

lemma quorum_lsn_mem: "0 < q \<Longrightarrow> q \<le> length rs \<Longrightarrow> quorum_lsn rs q \<in> set rs"
  using nth_mem [of "length rs - q" "sort rs"] by (simp add: quorum_lsn_def)

lemma half_quorum: "n div 2 + 1 \<le> k \<longleftrightarrow> n < 2 * k" for n k :: nat
  by auto

lemma length_all_slots [simp]: "length (all_slots p) = length (wp_safekeeper p)"
  by (simp add: all_slots_def)

text \<open>How many of the mapped members have acknowledged the log up to a position.\<close>

definition acks :: "'w wal_proposer \<Rightarrow> lsn \<Rightarrow> nat option list \<Rightarrow> nat" where
  "acks p x msk = length (filter (\<lambda>s. case s of None \<Rightarrow> False
     | Some i \<Rightarrow> x \<le> car_flush_lsn (wsk_append_response (the_sk i p))) msk)"

definition majority_acks :: "'w wal_proposer \<Rightarrow> lsn \<Rightarrow> bool" where
  "majority_acks p x \<longleftrightarrow>
     (if legacy p then length (wp_safekeeper p) < 2 * acks p x (map Some (all_slots p))
      else length (mc_members (wp_mconf p))
             < 2 * acks p x (take (length (mc_members (wp_mconf p))) (wp_members_safekeepers p))
           \<and> (mc_new_members (wp_mconf p) \<noteq> [] \<longrightarrow>
                length (mc_new_members (wp_mconf p))
                  < 2 * acks p x (take (length (mc_new_members (wp_mconf p))) (wp_new_members_safekeepers p))))"

text \<open>The arrays and the static quorum, as they are created and kept.\<close>

definition wp_shape :: "'w wal_proposer \<Rightarrow> bool" where
  "wp_shape p \<longleftrightarrow>
     wp_safekeeper p \<noteq> [] \<and> wp_quorum p = length (wp_safekeeper p) div 2 + 1
     \<and> length (wp_members_safekeepers p) = MAX_SAFEKEEPERS
     \<and> length (wp_new_members_safekeepers p) = MAX_SAFEKEEPERS"

definition response_of :: "'w wal_proposer \<Rightarrow> nat option \<Rightarrow> lsn" where
  "response_of p s = (case s of None \<Rightarrow> 0 | Some i \<Rightarrow> acked p i)"

lemma response_pos:
  assumes "0 < x"
  shows "x \<le> response_of p s \<longleftrightarrow>
    (case s of None \<Rightarrow> False | Some i \<Rightarrow> wp_prop_term_start_lsn p \<le> car_flush_lsn (wsk_append_response (the_sk i p))
       \<and> x \<le> car_flush_lsn (wsk_append_response (the_sk i p)))"
  using assms by (auto simp: response_of_def acked_def Let_def split: option.split)

text \<open>One member set.\<close>

lemma quorum_of_set:
  fixes p :: "'w wal_proposer" and msk
  assumes "msk \<noteq> []"
  defines "c \<equiv> quorum_lsn (map (response_of p) msk) (length msk div 2 + 1)"
  shows "c \<noteq> 0 \<Longrightarrow> wp_prop_term_start_lsn p \<le> c"
    and "0 < x \<Longrightarrow> x \<le> c \<Longrightarrow> length msk < 2 * acks p x msk"
    and "wp_prop_term_start_lsn p \<le> x \<Longrightarrow> length msk < 2 * acks p x msk \<Longrightarrow> x \<le> c"
proof -
  let ?rs = "map (response_of p) msk" and ?q = "length msk div 2 + 1"
  have q: "0 < ?q" "?q \<le> length ?rs" using assms by (cases msk; simp)+
  show "wp_prop_term_start_lsn p \<le> c" if "c \<noteq> 0"
  proof -
    have "c \<in> set ?rs" using quorum_lsn_mem [OF q] by (simp add: c_def)
    then obtain s where "c = response_of p s" by auto
    with that show ?thesis by (auto simp: response_of_def acked_def Let_def split: option.splits if_splits)
  qed
  show "length msk < 2 * acks p x msk" if "0 < x" "x \<le> c"
  proof -
    have "?q \<le> length (filter (\<lambda>r. c \<le> r) ?rs)" using quorum_lsn_reached [OF q] by (simp add: c_def)
    also have "\<dots> = length (filter (\<lambda>s. c \<le> response_of p s) msk)" by (simp add: filter_map comp_def)
    also have "\<dots> \<le> acks p x msk"
      unfolding acks_def
      using that by (intro length_filter_mono) (auto simp: response_pos split: option.splits intro: order_trans)
    finally show ?thesis by (simp only: half_quorum)
  qed
  show "x \<le> c" if "wp_prop_term_start_lsn p \<le> x" "length msk < 2 * acks p x msk"
  proof (cases "x = 0")
    case False
    have "?q \<le> acks p x msk" using that(2) by (simp only: half_quorum)
    also have "\<dots> \<le> length (filter (\<lambda>s. x \<le> response_of p s) msk)"
      unfolding acks_def
      using that(1) False
      by (intro length_filter_mono) (auto simp: response_pos word_neq_0_conv [symmetric] split: option.splits)
    also have "\<dots> = length (filter (\<lambda>r. x \<le> r) ?rs)" by (simp add: filter_map comp_def)
    finally show ?thesis using quorum_lsn_highest [OF q] by (simp add: c_def)
  qed simp
qed

lemma GetCommittedMset_result:
  assumes "GetCommittedMset mset msk p = (Inr c, p')"
  shows "p' = p" and "mset \<noteq> []" and "length mset \<le> MAX_SAFEKEEPERS"
    and "c = quorum_lsn (map (response_of p) (take (length mset) msk)) (length mset div 2 + 1)"
  using assms
  by (auto simp: GetCommittedMset_def MsetQuorum_def wp_assert_def prog_defs response_of_def [abs_def] split: if_splits)

text \<open>
  C17: the walproposer treats a position as committed only when a majority has it. The
  position it computes from the acknowledgements is zero or lies in its own term and was
  acknowledged by a majority of the members, and of the new members while the configuration
  changes; it is the highest such position, and computing it changes nothing.
\<close>

theorem commit_is_acknowledged:
  assumes "wp_shape p" and "GetAcknowledgedByQuorumWALPosition p = (Inr c, p')"
  shows "p' = p \<and> (c \<noteq> 0 \<longrightarrow> wp_prop_term_start_lsn p \<le> c \<and> majority_acks p c)
    \<and> (\<forall>x. wp_prop_term_start_lsn p \<le> x \<and> majority_acks p x \<longrightarrow> x \<le> c)"
proof (cases "legacy p")
  case True
  let ?msk = "map Some (all_slots p)"
  have len: "length ?msk = length (wp_safekeeper p)" by simp
  have "map (acked p) (all_slots p) = map (response_of p) ?msk" by (simp add: response_of_def)
  then have c: "p' = p" "c = quorum_lsn (map (response_of p) ?msk) (length ?msk div 2 + 1)"
    using assms True
    by (auto simp: GetAcknowledgedByQuorumWALPosition_def wp_shape_def prog_defs simp del: map_map)
  have "?msk \<noteq> []" using assms(1) len by (metis length_0_conv wp_shape_def)
  note q = quorum_of_set [OF this, where p = p, folded c(2)]
  have "majority_acks p x \<longleftrightarrow> length ?msk < 2 * acks p x ?msk" for x
    using True len by (simp add: majority_acks_def)
  then show ?thesis using c(1) q word_neq_0_conv [of c] by blast
next
  case False
  let ?m = "mc_members (wp_mconf p)" and ?n = "mc_new_members (wp_mconf p)"
  let ?msk = "take (length ?m) (wp_members_safekeepers p)"
    and ?nsk = "take (length ?n) (wp_new_members_safekeepers p)"
  have run: "GetAcknowledgedByQuorumWALPosition p =
      andthen (GetCommittedMset ?m (wp_members_safekeepers p)) (\<lambda>committed.
       if ?n = [] then ret committed
       else andthen (GetCommittedMset ?n (wp_new_members_safekeepers p)) (\<lambda>nc. ret (min committed nc))) p"
    using False by (simp add: GetAcknowledgedByQuorumWALPosition_def andthen_def reads_def)
  with assms(2) obtain c1 where g1: "GetCommittedMset ?m (wp_members_safekeepers p) p = (Inr c1, p)"
    using GetCommittedMset_result(1) [of ?m "wp_members_safekeepers p" p]
    by (auto simp: andthen_def split: prod.splits sum.splits)
  note r1 = GetCommittedMset_result [OF g1]
  have l1: "length ?msk = length ?m" "?msk \<noteq> []" using r1(2,3) assms(1) by (auto simp: wp_shape_def)
  note q1 = quorum_of_set [OF l1(2), where p = p, unfolded l1(1), folded r1(4)]
  show ?thesis
  proof (cases "?n = []")
    case True
    then have "c = c1" "p' = p" using assms(2) g1 run by (simp_all add: andthen_def ret_def)
    moreover have "majority_acks p x \<longleftrightarrow> length ?m < 2 * acks p x ?msk" for x
      using False True by (simp add: majority_acks_def)
    ultimately show ?thesis using q1 word_neq_0_conv [of c] by blast
  next
    case new: False
    with assms(2) run g1 obtain c2 where g2: "GetCommittedMset ?n (wp_new_members_safekeepers p) p = (Inr c2, p)"
      and c: "c = min c1 c2" "p' = p"
      using GetCommittedMset_result(1) [of ?n "wp_new_members_safekeepers p" p]
      by (auto simp: andthen_def ret_def split: prod.splits sum.splits)
    note r2 = GetCommittedMset_result [OF g2]
    have l2: "length ?nsk = length ?n" "?nsk \<noteq> []" using r2(2,3) assms(1) by (auto simp: wp_shape_def)
    note q2 = quorum_of_set [OF l2(2), where p = p, unfolded l2(1), folded r2(4)]
    have maj: "majority_acks p x \<longleftrightarrow> length ?m < 2 * acks p x ?msk \<and> length ?n < 2 * acks p x ?nsk" for x
      using False new by (simp add: majority_acks_def)
    have ne: "c1 \<noteq> 0 \<and> c2 \<noteq> 0 \<and> 0 < c" if "c \<noteq> 0"
      using that c(1) word_neq_0_conv [of c] by (auto simp: min_def split: if_splits)
    have le: "c \<le> c1" "c \<le> c2" using c(1) by auto
    have "wp_prop_term_start_lsn p \<le> c \<and> majority_acks p c" if "c \<noteq> 0"
      using ne [OF that] q1(1) q2(1) q1(2) [OF _ le(1)] q2(2) [OF _ le(2)] c(1)
      by (simp add: maj min_le_iff_disj)
    moreover have "x \<le> c" if "wp_prop_term_start_lsn p \<le> x" "majority_acks p x" for x
      using q1(3) [OF that(1)] q2(3) [OF that(1)] that(2) c(1) by (simp add: maj)
    ultimately show ?thesis using c(2) by blast
  qed
qed

section \<open>The point where streaming starts\<close>

lemma last_common_idx_common_terms:
  "common_terms ps ss = None \<longleftrightarrow> (\<exists>e. last_common_idx i acc ps ss = Inl e)"
  "common_terms ps ss = Some n \<Longrightarrow>
     last_common_idx i acc ps ss = Inr (if n = 0 then acc else Some (i + n - 1))"
proof -
  show "common_terms ps ss = None \<longleftrightarrow> (\<exists>e. last_common_idx i acc ps ss = Inl e)"
    by (induction i acc ps ss rule: last_common_idx.induct) auto
  show "common_terms ps ss = Some n \<Longrightarrow>
     last_common_idx i acc ps ss = Inr (if n = 0 then acc else Some (i + n - 1))"
    by (induction i acc ps ss arbitrary: n rule: last_common_idx.induct) (auto split: if_splits)
qed

lemma common_terms_length: "common_terms ps ss = Some n \<Longrightarrow> n \<le> length ps \<and> n \<le> length ss"
  by (induction ps ss arbitrary: n rule: common_terms.induct) (auto split: if_splits)

lemma last_term_index:
  assumes "th_wf th" and "i < length th"
  shows "tl_term (th ! i) = tl_term (last th) \<longleftrightarrow> i = length th - 1"
proof -
  have "distinct (map tl_term th)" using assms(1) by (simp add: th_wf_def strict_sorted_iff)
  moreover have "last th = th ! (length th - 1)" using assms(2) by (intro last_conv_nth) auto
  ultimately show ?thesis
    using assms(2) nth_eq_iff_index_eq [of "map tl_term th" i "length th - 1"] by simp
qed

text \<open>
  C19: proposer and safekeeper agree where streaming starts. From the history and the flush
  position in a vote, the walproposer computes exactly the position that the safekeeper, in
  the state it voted in, computes when the announcement of the election arrives, so the
  safekeeper's check of the truncation point passes; an assertion of the walproposer about
  two histories fails exactly when the safekeeper's own search would panic.
\<close>

theorem elected_point_agrees:
  assumes "th_wf prop_th" and "prop_th \<noteq> []" and "tl_term (last prop_th) = t"
      and "vp_term_history v = get_term_history cops wops s" and "vp_flush_lsn v = flush_lsn cops wops s"
  shows "case streaming_start prop_th t (vp_term_history v) (vp_flush_lsn v) of
      Some start \<Rightarrow> \<exists>lcp. streaming_point cops wops \<lparr>pe_generation = g, pe_term = t,
        pe_start_streaming_at = start, pe_term_history = prop_th\<rparr> s = (Inr lcp, s) \<and> tl_lsn lcp = start
    | None \<Rightarrow> \<exists>e. streaming_point cops wops \<lparr>pe_generation = g, pe_term = t,
        pe_start_streaming_at = 0, pe_term_history = prop_th\<rparr> s = (Inl (HistoryPanic e), s)"
proof -
  let ?th = "get_term_history cops wops s" and ?stop = "flush_lsn cops wops s"
  have wal_end: "?th \<noteq> [] \<Longrightarrow> tl_lsn (last ?th) \<le> ?stop" by (simp add: get_term_history_def last_up_to_le)
  note run = streaming_point_def find_highest_common_point_def andthen_def reads_def throw_def ret_def
    assms(4,5)
  show ?thesis
  proof (cases "common_terms prop_th ?th")
    case None
    with last_common_idx_common_terms(1) [of prop_th ?th 0 None] wal_end
    show ?thesis by (auto simp: streaming_start_def run)
  next
    case (Some n)
    note idx = last_common_idx_common_terms(2) [OF Some, of 0 None] and len = common_terms_length [OF Some]
    show ?thesis
    proof (cases n)
      case 0
      then show ?thesis
        using Some idx assms(2) wal_end
        by (cases prop_th) (auto simp: streaming_start_def run)
    next
      case (Suc i)
      then have "tl_term (prop_th ! i) = t \<longleftrightarrow> i = length prop_th - 1"
        using last_term_index [OF assms(1), of i] assms(3) len by simp
      then show ?thesis
        using Some Suc idx wal_end by (auto simp: streaming_start_def run Let_def)
    qed
  qed
qed

section \<open>The vote that is continued\<close>

text \<open>Votes are compared by the last term of the log, then by its end.\<close>

type_synonym vote_pos = "sk_term \<times> lsn"

definition vote_le :: "vote_pos \<Rightarrow> vote_pos \<Rightarrow> bool" where
  "vote_le a b \<longleftrightarrow> fst a < fst b \<or> fst a = fst b \<and> snd a \<le> snd b"

lemma vote_le_simps [simp]: "vote_le a a" "vote_le (0, 0) b"
  by (auto simp: vote_le_def word_neq_0_conv [symmetric])

lemma vote_le_trans [trans]: "vote_le a b \<Longrightarrow> vote_le b c \<Longrightarrow> vote_le a c"
  by (auto simp: vote_le_def)

lemma vote_le_total: "\<not> vote_le a b \<Longrightarrow> vote_le b a"
  by (auto simp: vote_le_def)

lemma vote_le_antisym: "vote_le a b \<Longrightarrow> vote_le b a \<Longrightarrow> a = b"
  by (auto simp: vote_le_def prod_eq_iff)

definition vote_of :: "'w wal_proposer \<Rightarrow> nat \<Rightarrow> vote_pos" where
  "vote_of p i = (GetHighestTerm (cvr_term_history (wsk_vote_response (the_sk i p))),
                  cvr_flush_lsn (wsk_vote_response (the_sk i p)))"

definition best_vote :: "'w wal_proposer \<Rightarrow> vote_pos" where
  "best_vote p = (wp_donor_last_log_term p, wp_prop_term_start_lsn p)"

definition no_votes :: "'w wal_proposer \<Rightarrow> 'w wal_proposer" where
  "no_votes p = p\<lparr>wp_donor_last_log_term := 0, wp_prop_term_start_lsn := 0, wp_donor := None, wp_truncate_lsn := 0\<rparr>"

text \<open>\<open>voted vs p p'\<close>: \<open>p'\<close> has taken the votes of \<open>vs\<close> into account.\<close>

definition voted :: "nat list \<Rightarrow> 'w wal_proposer \<Rightarrow> 'w wal_proposer \<Rightarrow> bool" where
  "voted vs p p' \<longleftrightarrow>
     no_votes p' = no_votes p
     \<and> vote_le (best_vote p) (best_vote p') \<and> (\<forall>i \<in> set vs. vote_le (vote_of p i) (best_vote p'))
     \<and> ((\<exists>d \<in> set vs. wp_donor p' = Some d \<and> vote_of p d = best_vote p')
        \<or> wp_donor p' = wp_donor p \<and> best_vote p' = best_vote p \<and> (wp_donor p = None \<longrightarrow> vs = []))"

definition donor_ok :: "'w wal_proposer \<Rightarrow> bool" where
  "donor_ok p \<longleftrightarrow> (wp_donor p = None \<longrightarrow> best_vote p = (0, 0))"

lemma voted_Nil [simp]: "voted [] p p"
  by (simp add: voted_def)

lemma no_votes_frame:
  fixes p p' :: "'a wal_proposer"
  assumes "no_votes p' = no_votes p"
  shows "wp_safekeeper p' = wp_safekeeper p" "wp_mconf p' = wp_mconf p" "wp_phase p' = wp_phase p"
    "wp_new_members_safekeepers p' = wp_new_members_safekeepers p" "vote_of p' = vote_of p"
    "sk_in st p' = sk_in st p"
proof -
  have "wp_safekeeper (no_votes q) = wp_safekeeper q" "wp_mconf (no_votes q) = wp_mconf q"
    "wp_phase (no_votes q) = wp_phase q" "wp_new_members_safekeepers (no_votes q) = wp_new_members_safekeepers q"
    for q :: "'a wal_proposer"
    by (simp_all add: no_votes_def)
  with assms show eqs: "wp_safekeeper p' = wp_safekeeper p" "wp_mconf p' = wp_mconf p" "wp_phase p' = wp_phase p"
    "wp_new_members_safekeepers p' = wp_new_members_safekeepers p"
    by metis+
  then show "vote_of p' = vote_of p" "sk_in st p' = sk_in st p"
    by (auto simp: vote_of_def sk_in_def fun_eq_iff)
qed

lemmas voted_frame = no_votes_frame [OF voted_def [THEN iffD1, THEN conjunct1]]

lemma voted_donor_ok: "voted vs p p' \<Longrightarrow> donor_ok p \<Longrightarrow> donor_ok p'"
  by (auto simp: voted_def donor_ok_def)

lemma voted_trans:
  assumes "voted xs p q" and "voted ys q r"
  shows "voted (xs @ ys) p r"
  using assms voted_frame(5) [OF assms(1)] unfolding voted_def by (auto intro: vote_le_trans)

lemma consider_vote_result:
  assumes "consider_vote i p = (Inr (), p')"
  defines "t \<equiv> fst (vote_of p i)" and "l \<equiv> snd (vote_of p i)"
    and "trunc \<equiv> max (cvr_truncate_lsn (wsk_vote_response (the_sk i p))) (wp_truncate_lsn p)"
  shows "p' = (if \<not> vote_le (t, l) (best_vote p) \<or> wp_donor p = None
      then p\<lparr>wp_donor_last_log_term := t, wp_prop_term_start_lsn := l, wp_donor := Some i, wp_truncate_lsn := trunc\<rparr>
      else p\<lparr>wp_truncate_lsn := trunc\<rparr>)"
proof -
  have "(\<not> vote_le (t, l) (best_vote p)) \<longleftrightarrow>
      wp_donor_last_log_term p < t \<or> t = wp_donor_last_log_term p \<and> wp_prop_term_start_lsn p < l"
    by (auto simp: vote_le_def best_vote_def)
  moreover have "(if (wp_donor_last_log_term p < t \<or> t = wp_donor_last_log_term p \<and> wp_prop_term_start_lsn p < l)
        \<or> wp_donor p = None
      then p\<lparr>wp_donor_last_log_term := t, wp_prop_term_start_lsn := l, wp_donor := Some i, wp_truncate_lsn := trunc\<rparr>
      else p\<lparr>wp_truncate_lsn := trunc\<rparr>) = p'"
    using assms(1) unfolding t_def l_def trunc_def vote_of_def fst_conv snd_conv
    by (cases "wsk_history_freed (the_sk i p) \<longrightarrow> cvr_term_history (wsk_vote_response (the_sk i p)) = []")
      (simp_all add: consider_vote_def vote_history_def prog_defs Let_def vote_of_def disj_assoc split del: if_split)
  ultimately show ?thesis by (simp split del: if_split)
qed

lemma voted_one:
  assumes "donor_ok p" and "consider_vote i p = (Inr (), p')"
  shows "voted [i] p p'"
proof (cases "\<not> vote_le (vote_of p i) (best_vote p) \<or> wp_donor p = None")
  case True
  then have "vote_le (best_vote p) (vote_of p i)" 
    using assms(1) vote_le_total [of "vote_of p i" "best_vote p"] by (auto simp: donor_ok_def)
  moreover from True consider_vote_result [OF assms(2)] obtain l where
    "p' = p\<lparr>wp_donor_last_log_term := fst (vote_of p i), wp_prop_term_start_lsn := snd (vote_of p i),
       wp_donor := Some i, wp_truncate_lsn := l\<rparr>"
    unfolding prod.collapse by (simp only: if_True)
  then have "no_votes p' = no_votes p" "best_vote p' = vote_of p i" "wp_donor p' = Some i"
    by (simp_all add: no_votes_def best_vote_def)
  ultimately show ?thesis by (simp add: voted_def)
next
  case False
  with consider_vote_result [OF assms(2)] obtain l where "p' = p\<lparr>wp_truncate_lsn := l\<rparr>"
    unfolding prod.collapse by (simp only: if_False)
  then have "no_votes p' = no_votes p" "best_vote p' = best_vote p" "wp_donor p' = wp_donor p"
    by (simp_all add: no_votes_def best_vote_def)
  with False show ?thesis by (simp add: voted_def)
qed

text \<open>A loop over voters whose body ends in \<open>consider_vote\<close>.\<close>

lemma voted_all:
  assumes "donor_ok p" and "for_each vs body p = (Inr (), p')"
      and "\<And>i q q'. donor_ok q \<Longrightarrow> body i q = (Inr (), q') \<Longrightarrow> voted [i] q q'"
  shows "voted vs p p'"
  using assms(1,2)
proof (induction vs arbitrary: p)
  case Nil
  then show ?case by (simp add: ret_def)
next
  case (Cons i vs)
  from Cons.prems(2) obtain q where q: "body i p = (Inr (), q)" "for_each vs body q = (Inr (), p')"
    by (auto simp: andthen_def split: prod.splits sum.splits)
  have one: "voted [i] p q" using assms(3) Cons.prems(1) q(1) .
  show ?case
    using voted_trans [OF one Cons.IH [OF voted_donor_ok [OF one Cons.prems(1)] q(2)]] by simp
qed

text \<open>Who has voted, and whether they are enough.\<close>

definition set_voters :: "'w wal_proposer \<Rightarrow> safekeeper_id list \<Rightarrow> nat option list \<Rightarrow> nat list" where
  "set_voters p mset msk = filter (sk_in SS_WAIT_ELECTED p) (member_slots mset msk)"

definition voters :: "'w wal_proposer \<Rightarrow> nat list" where
  "voters p =
     (if legacy p then filter (sk_in SS_WAIT_ELECTED p) (all_slots p)
      else set_voters p (mc_members (wp_mconf p)) (wp_members_safekeepers p)
        @ (if mc_new_members (wp_mconf p) = [] then []
           else set_voters p (mc_new_members (wp_mconf p)) (wp_new_members_safekeepers p)))"

definition majority_voted :: "'w wal_proposer \<Rightarrow> bool" where
  "majority_voted p \<longleftrightarrow>
     (if legacy p then length (wp_safekeeper p) < 2 * length (voters p)
      else length (mc_members (wp_mconf p))
             < 2 * length (set_voters p (mc_members (wp_mconf p)) (wp_members_safekeepers p))
           \<and> (mc_new_members (wp_mconf p) \<noteq> [] \<longrightarrow>
                length (mc_new_members (wp_mconf p))
                  < 2 * length (set_voters p (mc_new_members (wp_mconf p)) (wp_new_members_safekeepers p))))"

lemma VotesCollectedMset_result:
  assumes "donor_ok p" and "VotesCollectedMset mset msk p = (Inr ok, p')"
  shows "voted (set_voters p mset msk) p p'" and "ok \<longleftrightarrow> length mset < 2 * length (set_voters p mset msk)"
proof -
  let ?body = "\<lambda>i. andthen (reads (\<lambda>p. cvr_vote_given (wsk_vote_response (the_sk i p)) \<noteq> 0))
    (\<lambda>given. andthen (wp_assert given) (\<lambda>_. consider_vote i))"
  have one: "voted [i] q q'" if "donor_ok q" "?body i q = (Inr (), q')" for i q q'
    using that voted_one [of q i q'] by (auto simp: wp_assert_def prog_defs split: if_splits)
  from assms(2) have loop: "for_each (set_voters p mset msk) ?body p = (Inr (), p')"
    and ok: "ok \<longleftrightarrow> length mset div 2 + 1 \<le> length (set_voters p mset msk)"
    by (auto simp: VotesCollectedMset_def MsetHasQuorum_def MsetQuorum_def set_voters_def wp_assert_def
        andthen_def reads_def ensure_def ret_def throw_def split: prod.splits sum.splits if_splits)
  show "voted (set_voters p mset msk) p p'" by (rule voted_all [OF assms(1) loop one])
  show "ok \<longleftrightarrow> length mset < 2 * length (set_voters p mset msk)" using ok by (simp only: half_quorum)
qed

lemma both_votes:
  assumes "donor_ok p" and "both_msets VotesCollectedMset p = (Inr True, p')" and "\<not> legacy p"
  shows "voted (voters p) p p' \<and> majority_voted p"
proof -
  let ?m = "mc_members (wp_mconf p)" and ?n = "mc_new_members (wp_mconf p)"
  from assms(2) obtain ok q where q: "VotesCollectedMset ?m (wp_members_safekeepers p) p = (Inr ok, q)"
    and rest: "ok" "(mc_new_members (wp_mconf q) = [] \<and> p' = q)
      \<or> (mc_new_members (wp_mconf q) \<noteq> []
          \<and> VotesCollectedMset (mc_new_members (wp_mconf q)) (wp_new_members_safekeepers q) q = (Inr True, p'))"
    by (auto simp: both_msets_def andthen_def reads_def ret_def split: prod.splits sum.splits if_splits)
  note v1 = VotesCollectedMset_result [OF assms(1) q]
  note f = voted_frame [OF v1(1)]
  show ?thesis
  proof (cases "?n = []")
    case True
    then show ?thesis using v1 rest f assms(3) by (simp add: voters_def majority_voted_def)
  next
    case False
    then have "VotesCollectedMset ?n (wp_new_members_safekeepers p) q = (Inr True, p')" using rest(2) f by simp
    note v2 = VotesCollectedMset_result [OF voted_donor_ok [OF v1(1) assms(1)] this]
    show ?thesis
      using voted_trans [OF v1(1) v2(1)] v1(2) v2(2) rest(1) False assms(3) f(6)
      by (simp add: voters_def majority_voted_def set_voters_def)
  qed
qed


text \<open>
  Otherwise the donor of an earlier count stays: \<open>VotesCollected\<close> resets the positions but not
  the donor, so when all votes are empty a safekeeper that has disconnected remains the donor.
\<close>

lemma empty_votes_keep_donor:
  assumes "for_each vs consider_vote p = (Inr (), p')" and "wp_donor p = Some d" and "best_vote p = (0, 0)"
      and "\<forall>i \<in> set vs. vote_of p i = (0, 0)"
  shows "wp_donor p' = Some d"
  using assms
proof (induction vs arbitrary: p)
  case (Cons i vs)
  from Cons.prems(1) obtain q where q: "consider_vote i p = (Inr (), q)" "for_each vs consider_vote q = (Inr (), p')"
    by (auto simp: andthen_def split: prod.splits sum.splits)
  from consider_vote_result [OF q(1)] Cons.prems(2-4)
  have "wp_donor q = Some d" "best_vote q = (0, 0)" "vote_of q = vote_of p"
    by (simp_all add: best_vote_def vote_of_def fun_eq_iff)
  then show ?case using Cons.IH [OF q(2)] Cons.prems(4) by simp
qed (simp add: ret_def)

lemma stale_donor_stays:
  assumes "VotesCollected p = (Inr True, p')" and "wp_donor p = Some d"
      and "\<forall>i \<in> set (voters p). vote_of p i = (0, 0)" and "legacy p"
  shows "wp_donor p' = Some d"
proof -
  define q where "q = p\<lparr>wp_prop_term_start_lsn := lsn_invalid, wp_donor_last_log_term := 0, wp_truncate_lsn := lsn_invalid\<rparr>"
  have "for_each (voters p) consider_vote q = (Inr (), p')"
    using assms(1,4)
    by (auto simp: VotesCollected_def wp_assert_def andthen_def reads_def modify_def ensure_def throw_def ret_def
        q_def [symmetric] voters_def split: prod.splits sum.splits if_splits)
      (simp_all add: q_def legacy_def WalProposerGenerationsEnabled_def all_slots_def sk_in_def [abs_def])
  moreover have "best_vote q = (0, 0)" "wp_donor q = Some d" "vote_of q = vote_of p"
    using assms(2) by (simp_all add: q_def best_vote_def vote_of_def fun_eq_iff lsn_invalid_def)
  ultimately show ?thesis using empty_votes_keep_donor assms(3) by metis
qed

text \<open>
  A slot that reconnects to a node with another id stays mapped to the old member, and then
  counts for two members.
\<close>

lemma old_member_stays_mapped:
  assumes "sk_id a \<noteq> sk_id b"
  shows "member_slots [a, b, c] (map_members [a, b, c] (sk_id b) i (map_members [a, b, c] (sk_id a) i (replicate 32 None)))
     = [i, i] @ (if sk_id c = sk_id a \<or> sk_id c = sk_id b then [i] else [])"
  using assms by (simp add: member_slots_def numeral_eq_Suc)

text \<open>
  A reconnect timeout of more than about 35 minutes wraps when it is turned into
  microseconds in 32 bits: the next attempt is due at once.
\<close>

lemma reconnect_timeout_wraps:
  assumes "wpc_safekeeper_reconnect_timeout (wp_config p) = 2147484" and "wp_last_reconnect_attempt p = now"
  shows "TimeToReconnect p now = 0"
  using assms by (simp add: TimeToReconnect_def Let_def)

end
