(* ===== verification/Wp_Safety.thy ===== *)
theory Wp_Safety
  imports Wp_Quorum
begin

text \<open>
  What the walproposer sends, whatever the connections deliver and wherever they fail: one
  term and one history, a stream of WAL to each safekeeper that starts where the election
  said and continues without a gap or an overlap, and commit positions that only grow.
\<close>

section \<open>The log of messages\<close>

fun after_msg :: "pa_message \<Rightarrow> lsn option" where
  "after_msg (PAElected m) = Some (pe_start_streaming_at m)"
| "after_msg (PAAppend h) = Some (ah_end_lsn h)"
| "after_msg _ = None"

text \<open>Where the stream to a slot stands after what has been sent.\<close>

definition stream_pos :: "nat \<Rightarrow> (nat \<times> pa_message \<times> bytes) list \<Rightarrow> lsn option" where
  "stream_pos i log = foldl (\<lambda>pos (j, m, wal). if j = i then after_msg m else pos) None log"

lemma stream_pos_snoc [simp]:
  "stream_pos i (log @ [(j, m, wal)]) = (if j = i then after_msg m else stream_pos i log)"
  by (simp add: stream_pos_def)

text \<open>
  A message sent by \<open>p\<close> after \<open>log\<close>. \<open>W\<close> gives the bytes of the WAL of the compute.
\<close>

definition append_ok :: "'w wal_proposer \<Rightarrow> append_request_header \<Rightarrow> bool" where
  "append_ok p h \<longleftrightarrow>
     ah_generation h = mc_generation (wp_mconf p) \<and> ah_term h = wp_prop_term p
     \<and> ah_begin_lsn h \<le> ah_end_lsn h \<and> unat (ah_end_lsn h - ah_begin_lsn h) \<le> MAX_SEND_SIZE
     \<and> ah_end_lsn h \<le> wp_available_lsn p \<and> ah_commit_lsn h \<le> wp_commit_lsn p"

fun msg_sent_ok ::
  "(nat \<Rightarrow> u8) \<Rightarrow> 'w wal_proposer \<Rightarrow> (nat \<times> pa_message \<times> bytes) list \<Rightarrow> nat \<times> pa_message \<times> bytes \<Rightarrow> bool" where
  "msg_sent_ok W p log (i, PAGreeting m, wal) \<longleftrightarrow> m = wp_greet_request p"
| "msg_sent_ok W p log (i, PAVoteRequest m, wal) \<longleftrightarrow>
     wp_phase p \<noteq> WPS_COLLECTING_TERMS
     \<and> m = \<lparr>vr_generation = mc_generation (wp_mconf p), vr_term = wp_prop_term p\<rparr>"
| "msg_sent_ok W p log (i, PAElected m, wal) \<longleftrightarrow>
     wp_phase p = WPS_ELECTED \<and> pe_generation m = mc_generation (wp_mconf p) \<and> pe_term m = wp_prop_term p
     \<and> pe_term_history m = wp_prop_term_history p \<and> pe_start_streaming_at m \<le> wp_available_lsn p"
| "msg_sent_ok W p log (i, PAAppend h, wal) \<longleftrightarrow>
     wp_phase p = WPS_ELECTED \<and> append_ok p h \<and> stream_pos i log = Some (ah_begin_lsn h)
     \<and> wal = map W [unat (ah_begin_lsn h) ..< unat (ah_end_lsn h)]"

definition log_ok :: "(nat \<Rightarrow> u8) \<Rightarrow> 'w wal_proposer \<Rightarrow> bool" where
  "log_ok W p \<longleftrightarrow> (\<forall>k < length (wp_sent p). msg_sent_ok W p (take k (wp_sent p)) (wp_sent p ! k))"

section \<open>Invariant\<close>

definition slot_ok :: "'w wal_proposer \<Rightarrow> nat \<Rightarrow> wp_safekeeper \<Rightarrow> bool" where
  "slot_ok p i sk \<longleftrightarrow>
     (wsk_state sk = SS_ACTIVE \<longrightarrow>
        wp_phase p = WPS_ELECTED \<and> stream_pos i (wp_sent p) = Some (wsk_streaming_at sk)
        \<and> wsk_streaming_at sk \<le> wp_available_lsn p
        \<and> (wsk_active_state sk = SS_ACTIVE_READ_WAL \<longrightarrow>
             append_ok p (wsk_append_request sk) \<and> ah_begin_lsn (wsk_append_request sk) = wsk_streaming_at sk))
     \<and> (wsk_state sk = SS_SEND_ELECTED_FLUSH \<longrightarrow>
        wp_phase p = WPS_ELECTED \<and> stream_pos i (wp_sent p) = Some (wsk_start_streaming_at sk)
        \<and> wsk_start_streaming_at sk \<le> wp_available_lsn p)"

definition wp_inv :: "(nat \<Rightarrow> u8) \<Rightarrow> nat \<Rightarrow> 'w wal_proposer \<Rightarrow> bool" where
  "wp_inv W n p \<longleftrightarrow>
     log_ok W p \<and> length (wp_safekeeper p) = n
     \<and> (\<forall>i < n. slot_ok p i (wp_safekeeper p ! i))
     \<and> (wp_phase p \<noteq> WPS_COLLECTING_TERMS \<longrightarrow>
          wp_vote_request p = \<lparr>vr_generation = mc_generation (wp_mconf p), vr_term = wp_prop_term p\<rparr>)"

text \<open>Progress of a walproposer.\<close>

definition wp_le :: "'w wal_proposer \<Rightarrow> 'w wal_proposer \<Rightarrow> bool" where
  "wp_le p q \<longleftrightarrow>
     (\<exists>zs. wp_sent q = wp_sent p @ zs) \<and> wp_commit_lsn p \<le> wp_commit_lsn q
     \<and> (wp_phase p \<noteq> WPS_COLLECTING_TERMS \<longrightarrow> wp_phase q \<noteq> WPS_COLLECTING_TERMS
          \<and> wp_prop_term q = wp_prop_term p \<and> wp_mconf q = wp_mconf p)
     \<and> (wp_phase p = WPS_ELECTED \<longrightarrow> wp_phase q = WPS_ELECTED
          \<and> wp_prop_term_history q = wp_prop_term_history p)"

lemma wp_le_refl [simp]: "wp_le p p"
  by (simp add: wp_le_def)

lemma wp_le_trans [trans]: "wp_le p q \<Longrightarrow> wp_le q r \<Longrightarrow> wp_le p r"
  unfolding wp_le_def by (auto intro: order_trans)

subsection \<open>What the invariant reads\<close>

definition wp_view :: "'w wal_proposer \<Rightarrow> _" where
  "wp_view p = (wp_phase p, wp_prop_term p, wp_mconf p, wp_prop_term_history p, wp_available_lsn p,
     wp_commit_lsn p, wp_greet_request p, wp_vote_request p)"

lemma append_ok_view: "wp_view p = wp_view q \<Longrightarrow> append_ok p h = append_ok q h"
  by (simp add: wp_view_def append_ok_def)

lemma msg_sent_ok_view: "wp_view p = wp_view q \<Longrightarrow> msg_sent_ok W p log x = msg_sent_ok W q log x"
  by (cases "(W, p, log, x)" rule: msg_sent_ok.cases) (auto simp: wp_view_def append_ok_def)

lemma log_ok_view: "wp_view p = wp_view q \<Longrightarrow> wp_sent p = wp_sent q \<Longrightarrow> log_ok W p = log_ok W q"
  by (simp add: log_ok_def msg_sent_ok_view [of p q])

lemma slot_ok_view: "wp_view p = wp_view q \<Longrightarrow> wp_sent p = wp_sent q \<Longrightarrow> slot_ok p i sk = slot_ok q i sk"
  by (simp add: slot_ok_def append_ok_view [of p q]) (simp add: wp_view_def)

lemma wp_le_view: "wp_view p = wp_view q \<Longrightarrow> wp_sent p = wp_sent q \<Longrightarrow> wp_le p q"
  by (simp add: wp_le_def wp_view_def)

lemma log_ok_snoc:
  assumes "wp_view q = wp_view p" and "wp_sent q = wp_sent p @ [x]"
  shows "log_ok W q \<longleftrightarrow> log_ok W p \<and> msg_sent_ok W p (wp_sent p) x"
proof -
  have "msg_sent_ok W q = msg_sent_ok W p" using msg_sent_ok_view [OF assms(1)] by blast
  then show ?thesis by (auto simp: log_ok_def assms(2) less_Suc_eq nth_append)
qed

text \<open>A slot changes and at most one message is sent to it.\<close>

lemma inv_slot:
  assumes "wp_inv W n p" and "i < n" and "wp_view q = wp_view p" and "wp_sent q = wp_sent p"
      and "wp_safekeeper q = (wp_safekeeper p)[i := sk]" and "slot_ok p i sk"
  shows "wp_inv W n q"
proof -
  have "log_ok W q = log_ok W p" by (rule log_ok_view [OF assms(3,4)])
  moreover have "slot_ok q j = slot_ok p j" for j using slot_ok_view [OF assms(3,4)] by blast
  ultimately show ?thesis
    using assms by (auto simp: wp_inv_def wp_view_def nth_list_update)
qed

lemma inv_send:
  assumes "wp_inv W n p" and "i < n" and "wp_view q = wp_view p" and "wp_sent q = wp_sent p @ [(i, m, wal)]"
      and "wp_safekeeper q = (wp_safekeeper p)[i := sk]"
      and "msg_sent_ok W p (wp_sent p) (i, m, wal)" and "slot_ok q i sk"
  shows "wp_inv W n q"
proof -
  have "log_ok W q" using log_ok_snoc [OF assms(3,4)] assms(1,6) by (simp add: wp_inv_def)
  moreover have "slot_ok q j sk' = slot_ok p j sk'" if "j \<noteq> i" for j sk'
    using that assms(4) append_ok_view [OF assms(3)] by (simp add: slot_ok_def) (use assms(3) in \<open>simp add: wp_view_def\<close>)
  ultimately show ?thesis
    using assms by (auto simp: wp_inv_def wp_view_def nth_list_update)
qed

section \<open>Updates of a slot\<close>

lemma upd_sk_simps [simp]:
  "wp_config (upd_sk i f p) = wp_config p" "wp_phase (upd_sk i f p) = wp_phase p"
  "wp_mconf (upd_sk i f p) = wp_mconf p" "wp_sent (upd_sk i f p) = wp_sent p"
  "wp_members_safekeepers (upd_sk i f p) = wp_members_safekeepers p"
  "wp_new_members_safekeepers (upd_sk i f p) = wp_new_members_safekeepers p"
  "wp_available_lsn (upd_sk i f p) = wp_available_lsn p" "wp_commit_lsn (upd_sk i f p) = wp_commit_lsn p"
  "wp_prop_term (upd_sk i f p) = wp_prop_term p" "wp_world (upd_sk i f p) = wp_world p"
  "wp_prop_term_history (upd_sk i f p) = wp_prop_term_history p"
  "wp_prop_term_start_lsn (upd_sk i f p) = wp_prop_term_start_lsn p"
  "wp_truncate_lsn (upd_sk i f p) = wp_truncate_lsn p"
  "wp_greet_request (upd_sk i f p) = wp_greet_request p" "wp_vote_request (upd_sk i f p) = wp_vote_request p"
  "length (wp_safekeeper (upd_sk i f p)) = length (wp_safekeeper p)"
  "wp_view (upd_sk i f p) = wp_view p"
  by (simp_all add: upd_sk_def wp_view_def)

lemma wp_safekeeper_upd_sk: "wp_safekeeper (upd_sk i f p) = (wp_safekeeper p)[i := f (wp_safekeeper p ! i)]"
  by (simp add: upd_sk_def)

lemma the_sk_upd_sk [simp]: "i < length (wp_safekeeper p) \<Longrightarrow> the_sk i (upd_sk i f p) = f (the_sk i p)"
  by (simp add: upd_sk_def)

lemma view_world [simp]: "wp_view (p\<lparr>wp_world := w\<rparr>) = wp_view p" "wp_view (p\<lparr>wp_sent := l\<rparr>) = wp_view p"
  "wp_view (p\<lparr>wp_members_safekeepers := a\<rparr>) = wp_view p" "wp_view (p\<lparr>wp_new_members_safekeepers := a\<rparr>) = wp_view p"
  "wp_view (p\<lparr>wp_n_connected := k\<rparr>) = wp_view p" "wp_view (p\<lparr>wp_last_reconnect_attempt := t\<rparr>) = wp_view p"
  "wp_view (p\<lparr>wp_truncate_lsn := l'\<rparr>) = wp_view p" "wp_view (p\<lparr>wp_shmem := sh\<rparr>) = wp_view p"
  by (simp_all add: wp_view_def)

lemma andthen_assoc: "andthen (andthen m f) g = andthen m (\<lambda>x. andthen (f x) g)"
  by (rule ext) (auto simp: andthen_def split: prod.split sum.split)

lemma wp_in_world [wp]:
  "wp (in_world f) Q E = (\<lambda>p. Q (fst (f (wp_world p))) (p\<lparr>wp_world := snd (f (wp_world p))\<rparr>))"
  by (rule ext) (simp add: wp_def in_world_def split: prod.split)

lemma wp_call [wp]: "wp (call f) Q E = (\<lambda>p. Q () (p\<lparr>wp_world := f (wp_world p)\<rparr>))"
  by (simp add: call_def wp)

lemma wp_wp_assert [wp]: "wp (wp_assert b) Q E = (if b then Q () else E WpAssert)"
  by (simp add: wp_assert_def wp)

section \<open>Phases\<close>

lemma inv_grow:
  assumes "wp_inv W n p" and "wp_available_lsn p \<le> a" and "wp_commit_lsn p \<le> c"
  shows "wp_inv W n (p\<lparr>wp_available_lsn := a, wp_commit_lsn := c\<rparr>)"
proof -
  let ?q = "p\<lparr>wp_available_lsn := a, wp_commit_lsn := c\<rparr>"
  have app: "append_ok p h \<Longrightarrow> append_ok ?q h" for h
    using assms(2,3) by (auto simp: append_ok_def)
  have "msg_sent_ok W p log x \<Longrightarrow> msg_sent_ok W ?q log x" for log x
    using app assms(2) by (cases "(W, p, log, x)" rule: msg_sent_ok.cases) auto
  moreover have "slot_ok p i sk \<Longrightarrow> slot_ok ?q i sk" for i sk
    using app assms(2) by (auto simp: slot_ok_def)
  ultimately show ?thesis using assms(1) by (simp add: wp_inv_def log_ok_def)
qed

text \<open>While terms are collected only greetings have been sent.\<close>

lemma collecting_inv:
  assumes "wp_inv W n p" and "wp_phase p = WPS_COLLECTING_TERMS"
      and "wp_sent q = wp_sent p" "wp_safekeeper q = wp_safekeeper p"
          "wp_greet_request q = wp_greet_request p" "wp_commit_lsn q = wp_commit_lsn p"
      and "wp_phase q = WPS_COLLECTING_TERMS \<or> wp_phase q = WPS_CAMPAIGN
           \<and> wp_vote_request q = \<lparr>vr_generation = mc_generation (wp_mconf q), vr_term = wp_prop_term q\<rparr>"
  shows "wp_inv W n q" and "wp_le p q"
proof -
  have "msg_sent_ok W p log x \<Longrightarrow> msg_sent_ok W q log x" for log x
    using assms(2,5) by (cases "(W, p, log, x)" rule: msg_sent_ok.cases) auto
  moreover have "slot_ok p i sk \<Longrightarrow> slot_ok q i sk" for i sk using assms(2) by (auto simp: slot_ok_def)
  ultimately show "wp_inv W n q" using assms by (auto simp: wp_inv_def log_ok_def)
  show "wp_le p q" using assms by (auto simp: wp_le_def)
qed

text \<open>Before the election is won neither announcements nor WAL have been sent.\<close>

definition electing :: "'w wal_proposer \<Rightarrow> 'w wal_proposer \<Rightarrow> bool" where
  "electing p q \<longleftrightarrow>
     wp_sent q = wp_sent p \<and> wp_safekeeper q = wp_safekeeper p \<and> wp_greet_request q = wp_greet_request p
     \<and> wp_commit_lsn q = wp_commit_lsn p \<and> wp_mconf q = wp_mconf p \<and> wp_prop_term q = wp_prop_term p
     \<and> wp_vote_request q = wp_vote_request p \<and> wp_phase q \<noteq> WPS_COLLECTING_TERMS"

lemma electing_inv:
  assumes "wp_inv W n p" and "wp_phase p = WPS_CAMPAIGN" and "electing p q"
  shows "wp_inv W n q" and "wp_le p q"
proof -
  have "msg_sent_ok W p log x \<Longrightarrow> msg_sent_ok W q log x" for log x
    using assms(2,3) by (cases "(W, p, log, x)" rule: msg_sent_ok.cases) (auto simp: electing_def)
  moreover have "slot_ok p i sk \<Longrightarrow> slot_ok q i sk" for i sk using assms(2) by (auto simp: slot_ok_def)
  ultimately show "wp_inv W n q" using assms by (auto simp: wp_inv_def log_ok_def electing_def)
  show "wp_le p q" using assms by (auto simp: wp_le_def electing_def)
qed

text \<open>Updates that the invariant does not see.\<close>

definition unseen :: "'w wal_proposer \<Rightarrow> 'w wal_proposer \<Rightarrow> bool" where
  "unseen p q \<longleftrightarrow> wp_view q = wp_view p \<and> wp_sent q = wp_sent p \<and> wp_safekeeper q = wp_safekeeper p"

text \<open>The states that reading a message may leave: the message is for a slot as it was.\<close>

definition same_slot :: "nat \<Rightarrow> 'w wal_proposer \<Rightarrow> 'w wal_proposer \<Rightarrow> bool" where
  "same_slot i p q \<longleftrightarrow> wsk_state (the_sk i q) = wsk_state (the_sk i p) \<and> wp_phase q = wp_phase p
     \<and> wp_prop_term q = wp_prop_term p \<and> wp_sent q = wp_sent p"

definition stream_on :: "nat \<Rightarrow> 'w wal_proposer \<Rightarrow> bool" where
  "stream_on i p \<longleftrightarrow> wsk_state (the_sk i p) = SS_ACTIVE"

section \<open>Steps\<close>

text \<open>
  \<open>wp_safe W n m P p\<close>: run from \<open>p\<close>, \<open>m\<close> keeps the invariant and makes progress, also when it stops
  early; a normal return satisfies \<open>P\<close>.
\<close>

definition wp_safe ::
  "(nat \<Rightarrow> u8) \<Rightarrow> nat \<Rightarrow> ('w, 'a) wp_prog \<Rightarrow> ('a \<Rightarrow> 'w wal_proposer \<Rightarrow> bool) \<Rightarrow> 'w wal_proposer \<Rightarrow> bool" where
  "wp_safe W n m P p =
     wp m (\<lambda>r q. wp_inv W n q \<and> wp_le p q \<and> P r q) (\<lambda>e q. wp_inv W n q \<and> wp_le p q) p"

text \<open>
  The hooks: a successful read of WAL delivers the bytes of the WAL of this compute, and an
  event belongs to one of the \<open>n\<close> connections.
\<close>

locale wp_hooks =
  fixes api :: "'w wp_api" and W :: "nat \<Rightarrow> u8" and n :: nat
  assumes wal_read: "api_wal_read api i b k w = (NEON_WALREAD_SUCCESS wal, w') \<Longrightarrow> wal = map W [unat b ..< unat b + k]"
      and wait: "api_wait_event_set api t w = (Some (Some i, ev), w') \<Longrightarrow> i < n"
begin

abbreviation inv :: "'w wal_proposer \<Rightarrow> bool" where
  "inv \<equiv> wp_inv W n"

abbreviation safe :: "('w, 'a) wp_prog \<Rightarrow> ('a \<Rightarrow> 'w wal_proposer \<Rightarrow> bool) \<Rightarrow> 'w wal_proposer \<Rightarrow> bool" where
  "safe \<equiv> wp_safe W n"

lemma safe_bind:
  assumes "safe m P p" and "\<And>r q. inv q \<Longrightarrow> wp_le p q \<Longrightarrow> P r q \<Longrightarrow> safe (f r) Q q"
  shows "safe (andthen m f) Q p"
  unfolding wp_safe_def wp_andthen
proof (rule wp_cons [OF assms(1) [unfolded wp_safe_def]])
  fix r q assume q: "inv q \<and> wp_le p q \<and> P r q"
  then show "wp (f r) (\<lambda>r q. inv q \<and> wp_le p q \<and> Q r q) (\<lambda>e q. inv q \<and> wp_le p q) q"
    by (intro wp_cons [OF assms(2) [unfolded wp_safe_def]]) (auto intro: wp_le_trans)
qed

lemma safe_mono: "safe m P p \<Longrightarrow> (\<And>r q. P r q \<Longrightarrow> Q r q) \<Longrightarrow> safe m Q p"
  unfolding wp_safe_def by (erule wp_cons) auto

lemma safe_ret: "inv p \<Longrightarrow> P r p \<Longrightarrow> safe (ret r) P p"
  by (simp add: wp_safe_def wp)

lemma safe_throw: "inv p \<Longrightarrow> safe (throw e) P p"
  by (simp add: wp_safe_def wp)

lemma safe_reads: "inv p \<Longrightarrow> safe (reads f) (\<lambda>r q. r = f p \<and> q = p) p"
  by (simp add: wp_safe_def wp)

lemma safe_ensure: "inv p \<Longrightarrow> safe (ensure b e) (\<lambda>_ q. b \<and> q = p) p"
  by (simp add: wp_safe_def wp)

lemma safe_assert: "inv p \<Longrightarrow> safe (wp_assert b) (\<lambda>_ q. b \<and> q = p) p"
  by (simp add: wp_safe_def wp)

lemma safe_of_option: "inv p \<Longrightarrow> safe (of_option e x) (\<lambda>r q. x = Some r \<and> q = p) p"
  by (simp add: wp_safe_def wp split: option.split)

lemma safe_whenp: "inv p \<Longrightarrow> (b \<Longrightarrow> safe m P p) \<Longrightarrow> (\<not> b \<Longrightarrow> P () p) \<Longrightarrow> safe (whenp b m) P p"
  by (simp add: wp_safe_def wp)

lemma safe_when: "inv p \<Longrightarrow> (b \<Longrightarrow> safe m (\<lambda>_ _. True) p) \<Longrightarrow> safe (whenp b m) (\<lambda>_ _. True) p"
  by (simp add: wp_safe_def wp)

lemma unseen_inv: "inv p \<Longrightarrow> unseen p q \<Longrightarrow> inv q \<and> wp_le p q"
  unfolding unseen_def wp_inv_def
  by (auto simp: log_ok_view [of q p] slot_ok_view [of q p] intro: wp_le_view) (auto simp: wp_view_def)

lemma safe_unseen: "inv p \<Longrightarrow> (\<And>q. unseen q (f q)) \<Longrightarrow> safe (modify f) (\<lambda>_ q. q = f p) p"
  using unseen_inv by (simp add: wp_safe_def wp)

lemma safe_world: "inv p \<Longrightarrow> safe (in_world f) (\<lambda>r q. \<exists>w. f (wp_world p) = (r, w) \<and> q = p\<lparr>wp_world := w\<rparr>) p"
  using unseen_inv by (cases "f (wp_world p)") (auto simp: wp_safe_def wp unseen_def)

lemma safe_call: "inv p \<Longrightarrow> safe (call f) (\<lambda>_ q. q = p\<lparr>wp_world := f (wp_world p)\<rparr>) p"
  using unseen_inv by (simp add: wp_safe_def wp unseen_def)

lemma slots_len: "inv p \<Longrightarrow> length (wp_safekeeper p) = n"
  by (simp add: wp_inv_def)

lemma all_slots_inv: "inv p \<Longrightarrow> set (all_slots p) = {..<n}"
  by (auto simp: all_slots_def slots_len)

lemma slot_inv: "inv p \<Longrightarrow> i < n \<Longrightarrow> slot_ok p i (the_sk i p)"
  by (simp add: wp_inv_def)

lemma safe_slot:
  assumes "inv p" and "i < n" and "slot_ok p i (f (the_sk i p))"
  shows "safe (modify (upd_sk i f)) (\<lambda>_ q. q = upd_sk i f p) p"
  using inv_slot [OF assms(1,2) _ _ wp_safekeeper_upd_sk [of i f p] assms(3)] wp_le_view [of p "upd_sk i f p"]
  by (simp add: wp_safe_def wp)

lemma safe_for_each:
  assumes "inv p" and "\<And>i q. i \<in> set is \<Longrightarrow> inv q \<Longrightarrow> wp_le p q \<Longrightarrow> safe (body i) (\<lambda>_ _. True) q"
  shows "safe (for_each is body) (\<lambda>_ _. True) p"
  using assms
proof (induction "is" arbitrary: p)
  case (Cons i "is")
  show ?case
    unfolding for_each.simps
    by (rule safe_bind [OF Cons.prems(2) [of i]])
      (use Cons in \<open>auto intro!: Cons.IH intro: wp_le_trans\<close>)
qed (simp add: wp_safe_def wp)

subsection \<open>Connections\<close>

text \<open>A slot without a stream: nothing depends on it.\<close>

lemma slot_ok_idle [simp]:
  "wsk_state sk \<noteq> SS_ACTIVE \<Longrightarrow> wsk_state sk \<noteq> SS_SEND_ELECTED_FLUSH \<Longrightarrow> slot_ok p i sk"
  by (simp add: slot_ok_def)

lemma shutdown_safe:
  assumes "inv p" and "i < n"
  shows "safe (ShutdownConnection api i) (\<lambda>_ q. wsk_state (the_sk i q) = SS_OFFLINE) p"
  unfolding ShutdownConnection_def
  by (intro safe_bind [OF safe_slot] safe_bind [OF safe_call] safe_mono [OF safe_call])
    (use assms slots_len in \<open>auto simp: slot_inv\<close>)

lemma set_state_safe:
  assumes "inv p" and "i < n" and "st \<noteq> SS_ACTIVE" and "st \<noteq> SS_SEND_ELECTED_FLUSH"
  shows "safe (set_state i st) (\<lambda>_ q. q = upd_sk i (\<lambda>sk. sk\<lparr>wsk_state := st\<rparr>) p) p"
  unfolding set_state_def by (rule safe_slot) (use assms in auto)

lemma touch_safe:
  assumes "inv p" and "i < n"
  shows "safe (modify (upd_sk i (\<lambda>sk. sk\<lparr>wsk_latest_msg_received_at := t\<rparr>)))
     (\<lambda>_ q. q = upd_sk i (\<lambda>sk. sk\<lparr>wsk_latest_msg_received_at := t\<rparr>) p) p"
  by (rule safe_slot [OF assms]) (use slot_inv [OF assms] in \<open>simp add: slot_ok_def\<close>)

lemma reset_safe:
  assumes "inv p" and "i < n"
  shows "safe (ResetConnection api i) (\<lambda>_ _. True) p"
proof -
  have rest: "safe (andthen (in_world (api_conn_connect_start api i)) (\<lambda>alive.
     if \<not> alive then call (api_conn_finish api i)
     else
       andthen (set_state i SS_CONNECTING_WRITE) (\<lambda>_.
       andthen (in_world (api_get_current_timestamp api)) (\<lambda>now.
       andthen (modify (upd_sk i (\<lambda>sk. sk\<lparr>wsk_latest_msg_received_at := now\<rparr>))) (\<lambda>_.
       call (api_add_safekeeper_event_set api i {WL_SOCKET_WRITEABLE})))))) (\<lambda>_ _. True) q" if "inv q" for q
    using that assms(2)
    by (intro safe_bind [OF safe_world])
      (auto intro!: safe_bind [OF set_state_safe] safe_bind [OF safe_world] safe_bind [OF touch_safe]
         safe_mono [OF safe_call])
  show ?thesis
    unfolding ResetConnection_def
    by (rule safe_bind [OF safe_reads [OF assms(1)]],
        rule safe_bind [OF safe_when])
      (use assms rest in \<open>auto intro: safe_mono [OF shutdown_safe]\<close>)
qed

lemma reconnect_safe:
  assumes "inv p"
  shows "safe (ReconnectSafekeepers api) (\<lambda>_ _. True) p"
  unfolding ReconnectSafekeepers_def
  by (intro safe_bind [OF safe_world [OF assms]] safe_bind [OF safe_reads])
    (auto intro!: safe_ret safe_bind [OF safe_unseen] safe_bind [OF safe_reads] safe_for_each safe_whenp reset_safe
       simp: unseen_def all_slots_inv)

subsection \<open>Reading and writing\<close>

lemma serialize_safe: "inv p \<Longrightarrow> safe (serialize api m) (\<lambda>_ q. q = p) p"
  by (auto simp: serialize_def wp_safe_def wp split: sum.split)

text \<open>A message that starts no stream, to a slot that has none.\<close>

lemma blocking_write_safe:
  assumes "inv p" and "i < n" and "wsk_state (the_sk i p) \<notin> {SS_ACTIVE, SS_SEND_ELECTED_FLUSH}"
      and "msg_sent_ok W p (wp_sent p) (i, m, [])" and "st \<notin> {SS_ACTIVE, SS_SEND_ELECTED_FLUSH}"
  shows "safe (BlockingWrite api i m st) (\<lambda>_ _. True) p"
proof -
  have sent: "safe (record_sent i m []) (\<lambda>_ q. True) (p\<lparr>wp_world := w\<rparr>)" for w
  proof -
    let ?p = "p\<lparr>wp_world := w\<rparr>" and ?q = "p\<lparr>wp_world := w, wp_sent := wp_sent p @ [(i, m, [])]\<rparr>"
    have "inv ?p" using unseen_inv [OF assms(1)] by (simp add: unseen_def)
    moreover have "msg_sent_ok W ?p (wp_sent p) (i, m, [])" using assms(4) msg_sent_ok_view [of ?p p] by simp
    ultimately have "inv ?q"
      using assms(2,3) by (intro inv_send [of W n ?p i ?q m "[]" "the_sk i p"]) (auto simp: slots_len)
    then show ?thesis by (simp add: record_sent_def wp_safe_def wp wp_le_def)
  qed
  show ?thesis
    unfolding BlockingWrite_def
    apply (rule safe_bind [OF serialize_safe [OF assms(1)]])
    apply (rule safe_bind [OF safe_world])
     apply simp
    using assms
    by (auto intro!: safe_bind [OF shutdown_safe] safe_ret safe_bind [OF sent] safe_bind [OF set_state_safe]
        safe_bind [OF safe_reads] safe_bind [OF safe_assert] safe_bind [OF safe_whenp] safe_mono [OF safe_call])
qed

lemma flush_safe:
  assumes "inv p" and "i < n"
  shows "safe (AsyncFlush api i) (\<lambda>flushed q. flushed \<longrightarrow> (\<exists>w. q = p\<lparr>wp_world := w\<rparr>)) p"
  unfolding AsyncFlush_def
  by (rule safe_bind [OF safe_world [OF assms(1)]])
    (use assms in \<open>auto split: flush_result.split intro!: safe_ret safe_bind [OF reset_safe]\<close>)

lemma read_message_safe:
  assumes "inv p" and "i < n"
  shows "safe (AsyncReadMessage api i reader old) (\<lambda>r q. r \<noteq> None \<longrightarrow> same_slot i p q) p"
proof -
  have "safe (AsyncRead api i) (\<lambda>r q. r \<noteq> None \<longrightarrow> (\<exists>w. q = p\<lparr>wp_world := w\<rparr>)) p"
    unfolding AsyncRead_def
    by (rule safe_bind [OF safe_world [OF assms(1)]])
      (use assms in \<open>auto split: async_read.split intro!: safe_ret safe_bind [OF shutdown_safe]\<close>)
  then show ?thesis
    unfolding AsyncReadMessage_def
    by (rule safe_bind)
      (use assms slots_len in \<open>auto split: option.split sum.split c_error.split
         intro!: safe_ret safe_throw safe_bind [OF safe_world] safe_bind [OF touch_safe] safe_bind [OF safe_reads]
           safe_bind [OF reset_safe] simp: same_slot_def\<close>)
qed

subsection \<open>Handshake\<close>

lemma start_push_safe:
  assumes "inv p" and "i < n"
  shows "safe (SendStartWALPush api i) (\<lambda>_ _. True) p"
  unfolding SendStartWALPush_def
  using assms
  by (auto intro!: safe_bind [OF safe_reads] safe_bind [OF safe_world] safe_bind [OF set_state_safe]
      safe_mono [OF safe_call] safe_mono [OF shutdown_safe])

lemma connection_event_safe:
  assumes "inv p" and "i < n"
  shows "safe (HandleConnectionEvent api i) (\<lambda>_ _. True) p"
  unfolding HandleConnectionEvent_def Let_def
  by (rule safe_bind [OF safe_world [OF assms(1)]])
    (use assms in \<open>auto split: conn_poll_status.split intro!: safe_bind [OF safe_world] safe_bind [OF touch_safe]
       safe_bind [OF safe_call] safe_mono [OF safe_call] safe_bind [OF set_state_safe]
       safe_mono [OF shutdown_safe] start_push_safe simp: andthen_assoc\<close>)

lemma push_result_safe:
  assumes "inv p" and "i < n" and "wsk_state (the_sk i p) \<notin> {SS_ACTIVE, SS_SEND_ELECTED_FLUSH}"
  shows "safe (RecvStartWALPushResult api i) (\<lambda>_ _. True) p"
  unfolding RecvStartWALPushResult_def SendProposerGreeting_def
  by (rule safe_bind [OF safe_world [OF assms(1)]])
    (use assms in \<open>auto split: exec_status.split intro!: safe_ret safe_mono [OF shutdown_safe]
       safe_bind [OF safe_reads] safe_bind [OF blocking_write_safe]\<close>)

subsection \<open>Elections\<close>

lemma member_ptr_safe:
  "inv p \<Longrightarrow> safe (UpdateMemberSafekeeperPtr i) (\<lambda>_ q. unseen p q) p"
  unfolding UpdateMemberSafekeeperPtr_def
  by (auto intro!: safe_bind [OF safe_reads] safe_bind [OF safe_ensure] safe_ret safe_mono [OF safe_unseen]
      simp: unseen_def)

lemma unseen_trans: "unseen p q \<Longrightarrow> unseen q r \<Longrightarrow> unseen p r"
  by (simp add: unseen_def)

lemma reset_ptrs_safe:
  assumes "inv p"
  shows "safe ResetMemberSafekeeperPtrs (\<lambda>_ _. True) p"
  unfolding ResetMemberSafekeeperPtrs_def
  by (rule safe_bind [OF safe_unseen [OF assms]])
    (auto intro!: safe_bind [OF safe_reads] safe_for_each safe_when safe_mono [OF member_ptr_safe] simp: unseen_def)

lemma adopt_safe:
  assumes "inv p"
  shows "safe (adopt_mconf i) (\<lambda>_ _. True) p"
proof -
  have change: "safe (modify (\<lambda>p. p\<lparr>wp_mconf := c\<rparr>)) (\<lambda>_ _. True) p" if "wp_phase p = WPS_COLLECTING_TERMS" for c
    using collecting_inv [OF assms that, of "p\<lparr>wp_mconf := c\<rparr>"] that by (simp add: wp_safe_def wp)
  show ?thesis
    unfolding adopt_mconf_def
    using assms
    by (auto intro!: safe_bind [OF safe_reads] safe_when safe_bind [OF safe_ensure] safe_bind [OF change] reset_ptrs_safe)
qed

text \<open>Counting reads the state only.\<close>

lemma terms_collected_mset: "wp (TermsCollectedMset mset msk) (\<lambda>_ q. q = p) (\<lambda>_ q. q = p) p"
  by (simp add: TermsCollectedMset_def MsetHasQuorum_def MsetQuorum_def wp)

lemma both_msets_terms: "wp (both_msets TermsCollectedMset) (\<lambda>_ q. q = p) (\<lambda>_ q. q = p) p"
  unfolding both_msets_def wp
  by (auto simp: case_prod_beta wp intro!: wp_cons [OF terms_collected_mset])

lemma collect_safe:
  assumes "inv p"
  shows "safe (collect_term i) (\<lambda>_ _. True) p"
proof (cases "wp_phase p = WPS_COLLECTING_TERMS")
  case True
  note col = collecting_inv [OF assms True]
  let ?q = "\<lambda>t. p\<lparr>wp_prop_term := t\<rparr>"
  have q: "inv (?q t)" "wp_le p (?q t)" for t using col [of "?q t"] True by auto
  have terms: "wp TermsCollected (\<lambda>_ q. \<exists>t. q = ?q t) (\<lambda>_ q. \<exists>t. q = ?q t) (?q t)" for t
    unfolding TermsCollected_def wp
    by (auto simp: case_prod_beta wp intro!: wp_cons [OF both_msets_terms])
  have "wp TermsCollected (\<lambda>c q. wp (whenp c (modify (\<lambda>p. p\<lparr>wp_phase := WPS_CAMPAIGN,
      wp_vote_request := \<lparr>vr_generation = mc_generation (wp_mconf p), vr_term = wp_prop_term p\<rparr>\<rparr>)))
      (\<lambda>_ q. inv q \<and> wp_le p q) (\<lambda>_ q. inv q \<and> wp_le p q) q) (\<lambda>_ q. inv q \<and> wp_le p q) (?q t)" for t
    by (rule wp_cons [OF terms]) (use q True in \<open>auto simp: wp intro!: col\<close>)
  then show ?thesis
    using True by (simp add: collect_term_def wp_safe_def wp)
next
  case False
  then show ?thesis using assms by (simp add: collect_term_def wp_safe_def wp)
qed

lemma vote_request_safe:
  assumes "inv p" and "i < n" and "wsk_state (the_sk i p) = SS_WAIT_VOTING" and "wp_phase p \<noteq> WPS_COLLECTING_TERMS"
  shows "safe (SendVoteRequest api i) (\<lambda>_ _. True) p"
proof -
  have "wp_vote_request p = \<lparr>vr_generation = mc_generation (wp_mconf p), vr_term = wp_prop_term p\<rparr>"
    using assms(1,4) by (simp add: wp_inv_def)
  then show ?thesis
    unfolding SendVoteRequest_def
    using assms by (auto intro!: safe_bind [OF safe_reads] safe_bind [OF blocking_write_safe] safe_ret)
qed

lemma connected_safe:
  "inv p \<Longrightarrow> safe (modify (\<lambda>p. p\<lparr>wp_n_connected := f p\<rparr>)) (\<lambda>_ _. True) p"
  by (rule safe_mono [OF safe_unseen]) (simp_all add: unseen_def)

lemma greeting_safe:
  assumes "inv p" and "i < n" and "wsk_state (the_sk i p) = SS_HANDSHAKE_RECV"
  shows "safe (RecvAcceptorGreeting api i) (\<lambda>_ _. True) p"
proof -
  have votes: "safe (for_each slots (\<lambda>j. andthen (reads (\<lambda>p. sk_in SS_WAIT_VOTING p j)) (\<lambda>waiting.
           whenp waiting (SendVoteRequest api j)))) (\<lambda>_ _. True) q"
    if "inv q" "wp_phase q \<noteq> WPS_COLLECTING_TERMS" "set slots = {..<n}" for q slots
    using that
    by (intro safe_for_each)
      (auto intro!: safe_bind [OF safe_reads] safe_when vote_request_safe simp: sk_in_def wp_le_def)
  show ?thesis
    unfolding RecvAcceptorGreeting_def
    apply (rule safe_bind [OF read_message_safe [OF assms(1,2)]])
    using assms(2,3) votes
    by (auto split: option.split intro!: safe_ret safe_bind [OF safe_slot] safe_bind [OF adopt_safe]
        safe_bind [OF set_state_safe] safe_bind [OF member_ptr_safe] safe_bind [OF connected_safe]
        safe_bind [OF collect_safe] safe_bind [OF safe_reads] safe_mono [OF safe_call]
        simp: same_slot_def unseen_def all_slots_inv)
qed

subsection \<open>Streaming\<close>

lemma donor_shmem_safe:
  assumes "inv p"
  shows "safe (UpdateDonorShmem api) (\<lambda>_ q. unseen p q) p"
  unfolding UpdateDonorShmem_def
  using assms
  by (auto intro!: safe_bind [OF safe_reads] safe_ret safe_bind [OF safe_of_option] safe_mono [OF safe_call]
      split: option.split simp: unseen_def)

lemma prepare_safe:
  assumes "inv p" and "i < n" and "wsk_state (the_sk i p) = SS_ACTIVE"
  shows "safe (prepare_next i) (\<lambda>_ q. wsk_state (the_sk i q) = SS_ACTIVE
     \<and> wsk_active_state (the_sk i q) = SS_ACTIVE_READ_WAL) p"
proof -
  let ?at = "wsk_streaming_at (the_sk i p)" and ?av = "wp_available_lsn p"
  let ?stop = "if ?av < ?at + of_nat MAX_SEND_SIZE then ?av else ?at + of_nat MAX_SEND_SIZE"
  define req where "req = \<lparr>ah_generation = mc_generation (wp_mconf p), ah_term = wp_prop_term p, ah_begin_lsn = ?at,
    ah_end_lsn = ?stop, ah_commit_lsn = wp_commit_lsn p, ah_truncate_lsn = wp_truncate_lsn p\<rparr>"
  define q where "q = upd_sk i (\<lambda>sk. sk\<lparr>wsk_active_state := SS_ACTIVE_READ_WAL\<rparr>)
    (upd_sk i (\<lambda>sk. sk\<lparr>wsk_append_request := req\<rparr>) p)"
  have "unat (?stop - ?at) \<le> MAX_SEND_SIZE" if "?at \<le> ?stop"
  proof -
    have "unat ?stop \<le> unat ?at + MAX_SEND_SIZE"
      by (auto simp: word_less_nat_alt unat_word_ariths MAX_SEND_SIZE_def not_less word_le_nat_alt split: if_splits)
    then show ?thesis using that by (simp add: unat_sub_le del: if_split)
  qed
  then have "append_ok p req" if "?at \<le> ?stop" using that by (auto simp: append_ok_def req_def)
  moreover have len: "i < length (wp_safekeeper p)" using assms slots_len by simp
  ultimately have "inv q" if "?at \<le> ?stop"
    using that slot_inv [OF assms(1,2)] assms(3)
    by (intro inv_slot [OF assms(1,2), of q "(the_sk i p)\<lparr>wsk_append_request := req, wsk_active_state := SS_ACTIVE_READ_WAL\<rparr>"])
      (auto simp: q_def wp_safekeeper_upd_sk slot_ok_def req_def)
  then show ?thesis
    using assms len wp_le_view [of p q]
    by (auto simp: prepare_next_def PrepareAppendRequest_def wp_safe_def wp Let_def req_def [symmetric] q_def)
qed

text \<open>A prepared message is written: the stream moves to its end, or the connection is gone.\<close>

lemma inv_append:
  assumes "inv p" and "i < n" and "stream_on i p" and "wsk_active_state (the_sk i p) = SS_ACTIVE_READ_WAL"
      and "wsk_append_request (the_sk i p) = req" and "wal = map W [unat (ah_begin_lsn req) ..< unat (ah_end_lsn req)]"
      and "wp_view q = wp_view p" and "wp_sent q = wp_sent p @ [(i, PAAppend req, wal)]"
      and "wp_safekeeper q = (wp_safekeeper p)[i := (the_sk i p)\<lparr>wsk_streaming_at := ah_end_lsn req, wsk_active_state := st\<rparr>]"
      and "st \<noteq> SS_ACTIVE_READ_WAL"
  shows "inv q" and "wp_le p q"
proof -
  have sl: "wp_phase p = WPS_ELECTED" "stream_pos i (wp_sent p) = Some (ah_begin_lsn req)" "append_ok p req"
    using slot_inv [OF assms(1,2)] assms(3-5) by (auto simp: slot_ok_def stream_on_def)
  then show "inv q"
    using assms by (intro inv_send [OF assms(1,2,7,8,9)]) (auto simp: slot_ok_def append_ok_def wp_view_def stream_on_def)
  show "wp_le p q" using assms(7,8) by (auto simp: wp_le_def wp_view_def)
qed

lemma shutdown_effect:
  "i < length (wp_safekeeper q) \<Longrightarrow> wp (ShutdownConnection api i) (\<lambda>_ r. wp_view r = wp_view q \<and> wp_sent r = wp_sent q
     \<and> (\<exists>sk. wp_safekeeper r = (wp_safekeeper q)[i := sk] \<and> wsk_state sk = SS_OFFLINE)) E q"
  by (auto simp: ShutdownConnection_def wp wp_safekeeper_upd_sk intro!: exI)

lemma write_prepared_safe:
  assumes "inv p" and "i < n" and "stream_on i p" and "wsk_active_state (the_sk i p) = SS_ACTIVE_READ_WAL"
      and "wsk_append_request (the_sk i p) = req" and "wal = map W [unat (ah_begin_lsn req) ..< unat (ah_end_lsn req)]"
  shows "safe (write_prepared api i req wal)
     (\<lambda>r q. r = None \<longrightarrow> stream_on i q \<and> wsk_active_state (the_sk i q) = SS_ACTIVE_SEND) p"
proof -
  have len: "i < length (wp_safekeeper p)" using assms slots_len by simp
  have body: "wp (andthen (modify (upd_sk i (\<lambda>sk. sk\<lparr>wsk_streaming_at := ah_end_lsn req\<rparr>))) (\<lambda>_.
     case res of
       PG_ASYNC_WRITE_SUCCESS \<Rightarrow>
         andthen (record_sent i (PAAppend req) wal) (\<lambda>_.
         andthen (modify (upd_sk i (\<lambda>sk. sk\<lparr>wsk_active_state := SS_ACTIVE_SEND\<rparr>))) (\<lambda>_. ret None))
     | PG_ASYNC_WRITE_TRY_FLUSH \<Rightarrow>
         andthen (record_sent i (PAAppend req) wal) (\<lambda>_.
         andthen (modify (upd_sk i (\<lambda>sk. sk\<lparr>wsk_active_state := SS_ACTIVE_FLUSH\<rparr>))) (\<lambda>_. ret (Some True)))
     | PG_ASYNC_WRITE_FAIL \<Rightarrow> andthen (ShutdownConnection api i) (\<lambda>_. ret (Some False))))
     (\<lambda>r q. inv q \<and> wp_le p q \<and> (r = None \<longrightarrow> stream_on i q \<and> wsk_active_state (the_sk i q) = SS_ACTIVE_SEND))
     (\<lambda>e q. inv q \<and> wp_le p q) (p\<lparr>wp_world := w\<rparr>)" for res w
  proof (cases res)
    case PG_ASYNC_WRITE_FAIL
    have "inv r \<and> wp_le p r" if "wp_view r = wp_view p" "wp_sent r = wp_sent p"
      "wp_safekeeper r = (wp_safekeeper p)[i := sk]" "wsk_state sk = SS_OFFLINE" for r sk
      using that inv_slot [OF assms(1,2) that(1-3)] wp_le_view [of p r] by simp
    then show ?thesis
      unfolding PG_ASYNC_WRITE_FAIL async_write.case wp
      by (intro wp_cons [OF shutdown_effect]) (use len in \<open>auto simp: wp_safekeeper_upd_sk\<close>)
  next
    case PG_ASYNC_WRITE_SUCCESS
    then show ?thesis
      using len inv_append [OF assms, where st = SS_ACTIVE_SEND] assms(3)
      by (auto simp: record_sent_def wp wp_safekeeper_upd_sk stream_on_def)
  next
    case PG_ASYNC_WRITE_TRY_FLUSH
    then show ?thesis
      using len inv_append [OF assms, where st = SS_ACTIVE_FLUSH] assms(3)
      by (auto simp: record_sent_def wp wp_safekeeper_upd_sk stream_on_def)
  qed
  show ?thesis
    unfolding write_prepared_def
  proof (rule safe_bind [OF serialize_safe [OF assms(1)]])
    fix b q assume "q = p"
    then show "safe (andthen (in_world (api_conn_async_write api i (b @ wal))) (\<lambda>res.
       andthen (modify (upd_sk i (\<lambda>sk. sk\<lparr>wsk_streaming_at := ah_end_lsn req\<rparr>))) (\<lambda>_.
     case res of
       PG_ASYNC_WRITE_SUCCESS \<Rightarrow>
         andthen (record_sent i (PAAppend req) wal) (\<lambda>_.
         andthen (modify (upd_sk i (\<lambda>sk. sk\<lparr>wsk_active_state := SS_ACTIVE_SEND\<rparr>))) (\<lambda>_. ret None))
     | PG_ASYNC_WRITE_TRY_FLUSH \<Rightarrow>
         andthen (record_sent i (PAAppend req) wal) (\<lambda>_.
         andthen (modify (upd_sk i (\<lambda>sk. sk\<lparr>wsk_active_state := SS_ACTIVE_FLUSH\<rparr>))) (\<lambda>_. ret (Some True)))
     | PG_ASYNC_WRITE_FAIL \<Rightarrow> andthen (ShutdownConnection api i) (\<lambda>_. ret (Some False)))))
     (\<lambda>r q. r = None \<longrightarrow> stream_on i q \<and> wsk_active_state (the_sk i q) = SS_ACTIVE_SEND) q"
      using body unfolding wp_safe_def wp_andthen [of "in_world _"] wp_in_world by simp
  qed
qed

lemma send_prepared_safe:
  assumes "inv p" and "i < n" and "stream_on i p" and "wsk_active_state (the_sk i p) = SS_ACTIVE_READ_WAL"
  shows "safe (send_prepared api i)
     (\<lambda>r q. r = None \<longrightarrow> stream_on i q \<and> wsk_active_state (the_sk i q) = SS_ACTIVE_SEND) p"
proof -
  let ?req = "wsk_append_request (the_sk i p)"
  have le: "ah_begin_lsn ?req \<le> ah_end_lsn ?req"
    using slot_inv [OF assms(1,2)] assms(3,4) unfolding slot_ok_def stream_on_def append_ok_def by blast
  have empty: "[] = map W [unat (ah_begin_lsn ?req) ..< unat (ah_end_lsn ?req)]"
    if "unat (ah_end_lsn ?req - ah_begin_lsn ?req) = 0"
    using that le by (simp add: unat_sub_le)
  have read: "wal = map W [unat (ah_begin_lsn ?req) ..< unat (ah_end_lsn ?req)]"
    if "api_wal_read api i (ah_begin_lsn ?req) (unat (ah_end_lsn ?req - ah_begin_lsn ?req)) w = (NEON_WALREAD_SUCCESS wal, w')"
    for wal w w'
    using wal_read [OF that] le by (simp add: unat_sub_le word_le_nat_alt)
  let ?P = "\<lambda>r q. r = None \<longrightarrow> stream_on i q \<and> wsk_active_state (the_sk i q) = SS_ACTIVE_SEND"
  have rest: "safe (andthen (in_world (api_wal_read api i (ah_begin_lsn ?req) (unat (ah_end_lsn ?req - ah_begin_lsn ?req)))) (\<lambda>r.
       case r of
         NEON_WALREAD_SUCCESS wal \<Rightarrow> write_prepared api i ?req wal
       | NEON_WALREAD_WOULDBLOCK \<Rightarrow> ret (Some True)
       | NEON_WALREAD_ERROR \<Rightarrow> andthen (ShutdownConnection api i) (\<lambda>_. ret (Some False)))) ?P p"
  proof (rule safe_bind [OF safe_world [OF assms(1)]], elim exE conjE)
    fix r q w
    assume q: "inv q" "q = p\<lparr>wp_world := w\<rparr>"
      and r: "api_wal_read api i (ah_begin_lsn ?req) (unat (ah_end_lsn ?req - ah_begin_lsn ?req)) (wp_world p) = (r, w)"
    show "safe (case r of
         NEON_WALREAD_SUCCESS wal \<Rightarrow> write_prepared api i ?req wal
       | NEON_WALREAD_WOULDBLOCK \<Rightarrow> ret (Some True)
       | NEON_WALREAD_ERROR \<Rightarrow> andthen (ShutdownConnection api i) (\<lambda>_. ret (Some False))) ?P q"
    proof (cases r)
      case (NEON_WALREAD_SUCCESS wal)
      have "stream_on i q" "wsk_active_state (the_sk i q) = SS_ACTIVE_READ_WAL" "wsk_append_request (the_sk i q) = ?req"
        using q(2) assms(3,4) by (simp_all add: stream_on_def)
      from write_prepared_safe [OF q(1) assms(2) this read [OF r [unfolded NEON_WALREAD_SUCCESS]]]
      show ?thesis by (simp add: NEON_WALREAD_SUCCESS)
    next
      case NEON_WALREAD_ERROR
      then show ?thesis using q(1) assms(2) by (auto intro!: safe_bind [OF shutdown_safe] safe_ret)
    qed (use q in \<open>auto intro: safe_ret\<close>)
  qed
  show ?thesis
    unfolding send_prepared_def Let_def
    by (rule safe_bind [OF safe_reads [OF assms(1)]])
      (use rest write_prepared_safe [OF assms refl empty] in auto)
qed

lemma send_loop_safe:
  assumes "inv p" and "i < n" and "stream_on i p" and "wsk_active_state (the_sk i p) \<noteq> SS_ACTIVE_FLUSH"
  shows "safe (send_loop api i k sent) (\<lambda>_ _. True) p"
  using assms
proof (induction k arbitrary: p sent)
  case 0
  then show ?case by (simp add: safe_throw)
next
  case (Suc k)
  show ?case
    unfolding send_loop.simps
    by (rule safe_bind [OF safe_reads [OF Suc.prems(1)]], cases "wsk_active_state (the_sk i p)")
      (use Suc in \<open>auto intro!: safe_ret safe_bind [OF prepare_safe] safe_bind [OF send_prepared_safe]
        split: option.split simp: stream_on_def whenp_def\<close>)
qed

lemma send_requests_safe:
  assumes "inv p" and "i < n" and "stream_on i p"
  shows "safe (SendAppendRequests api i) (\<lambda>_ _. True) p"
proof (cases "wsk_active_state (the_sk i p) = SS_ACTIVE_FLUSH")
  case True
  have send: "safe (andthen (modify (upd_sk i (\<lambda>sk. sk\<lparr>wsk_active_state := SS_ACTIVE_SEND\<rparr>))) (\<lambda>_.
      andthen (reads (send_bound i)) (\<lambda>n. send_loop api i n False))) (\<lambda>_ _. True) q"
    if "inv q" "stream_on i q" for q
  proof -
    let ?f = "\<lambda>sk. sk\<lparr>wsk_active_state := SS_ACTIVE_SEND\<rparr>"
    have "slot_ok q i (?f (the_sk i q))"
      using slot_inv [OF that(1) assms(2)] that(2) by (simp add: slot_ok_def stream_on_def)
    moreover have "stream_on i (upd_sk i ?f q)" "wsk_active_state (the_sk i (upd_sk i ?f q)) = SS_ACTIVE_SEND"
      using that slots_len assms(2) by (simp_all add: stream_on_def)
    ultimately show ?thesis
      using that assms(2)
      by (auto intro!: safe_bind [OF safe_slot] safe_bind [OF safe_reads] send_loop_safe)
  qed
  show ?thesis
    unfolding SendAppendRequests_def
    by (rule safe_bind [OF safe_reads [OF assms(1)]])
      (use True assms send in \<open>auto intro!: safe_bind [OF flush_safe] safe_mono [OF safe_reads]
        simp: stream_on_def whenp_def\<close>)
next
  case False
  then show ?thesis
    unfolding SendAppendRequests_def
    using assms
    by (intro safe_bind [OF safe_reads])
      (auto intro!: safe_bind [OF safe_reads] send_loop_safe simp: whenp_def simp del: andthen_reads)
qed

text \<open>The active state; \<open>recv\<close> reads what the safekeeper has answered.\<close>

lemma handle_active_safe:
  assumes "inv p" and "i < n" and "stream_on i p"
      and "WL_SOCKET_READABLE \<in> events \<Longrightarrow> (\<And>q. inv q \<Longrightarrow> safe recv (\<lambda>_ _. True) q)"
  shows "safe (handle_active api recv i events) (\<lambda>_ _. True) p"
proof -
  have rest: "safe (andthen (if WL_SOCKET_READABLE \<in> events then recv else ret True) (\<lambda>alive.
       if \<not> alive then ret ()
       else if 150000 \<le> api_pg_version_num api \<and> WL_SOCKET_CLOSED \<in> events then ShutdownConnection api i
       else call (api_active_state_update_event_set api i))) (\<lambda>_ _. True) q" if "inv q" for q
    using that assms(2,4)
    by (cases "WL_SOCKET_READABLE \<in> events")
      (auto intro!: safe_bind [of recv "\<lambda>_ _. True"] safe_ret safe_mono [OF shutdown_safe] safe_mono [OF safe_call])
  have send: "safe (if WL_SOCKET_WRITEABLE \<in> events \<or> a then SendAppendRequests api i else ret True) (\<lambda>_ _. True) p" for a
    using assms(1-3) by (simp add: send_requests_safe safe_ret)
  show ?thesis
    unfolding handle_active_def
  proof (rule safe_bind [OF safe_reads [OF assms(1)]], elim conjE, hypsubst)
    show "safe (andthen (if WL_SOCKET_WRITEABLE \<in> events \<or> wsk_active_state (the_sk i p) = SS_ACTIVE_READ_WAL
        then SendAppendRequests api i else ret True) (\<lambda>alive. if \<not> alive then ret ()
      else andthen (if WL_SOCKET_READABLE \<in> events then recv else ret True) (\<lambda>alive.
       if \<not> alive then ret ()
       else if 150000 \<le> api_pg_version_num api \<and> WL_SOCKET_CLOSED \<in> events then ShutdownConnection api i
       else call (api_active_state_update_event_set api i)))) (\<lambda>_ _. True) p"
      by (rule safe_bind [OF send], rule if_split [of "\<lambda>x. safe x _ _", THEN iffD2]) (intro conjI impI rest safe_ret TrueI)
  qed
qed

lemma send_message_safe:
  assumes "inv p" and "i < n"
  shows "safe (SendMessageToNode api i) (\<lambda>_ _. True) p"
  unfolding SendMessageToNode_def
  using assms
  by (auto intro!: safe_bind [OF safe_reads] safe_bind [OF safe_assert] handle_active_safe simp: sk_in_def stream_on_def
      simp del: andthen_reads)

lemma broadcast_safe:
  assumes "inv p"
  shows "safe (BroadcastAppendRequest api) (\<lambda>_ _. True) p"
  unfolding BroadcastAppendRequest_def
  using assms
  by (auto intro!: safe_bind [OF safe_reads] safe_for_each safe_when send_message_safe simp: all_slots_inv
      simp del: andthen_reads)

lemma begin_streaming_safe:
  assumes "inv p" and "i < n" and "wp_phase p = WPS_ELECTED"
      and "stream_pos i (wp_sent p) = Some (wsk_start_streaming_at (the_sk i p))"
      and "wsk_start_streaming_at (the_sk i p) \<le> wp_available_lsn p"
  shows "safe (StartStreaming api i) (\<lambda>_ _. True) p"
  unfolding StartStreaming_def
  using assms
  by (auto intro!: safe_bind [OF safe_slot] safe_bind [OF safe_call] safe_bind [OF donor_shmem_safe] send_message_safe
      simp: slot_ok_def)

text \<open>The announcement of the election opens the stream.\<close>

lemma async_write_elected:
  assumes "inv p" and "i < n" and "wsk_state (the_sk i p) = SS_WAIT_ELECTED" and "wp_phase p = WPS_ELECTED"
      and "msg_sent_ok W p (wp_sent p) (i, PAElected m, [])" and "wsk_start_streaming_at (the_sk i p) = pe_start_streaming_at m"
  shows "safe (AsyncWrite api i (PAElected m) SS_SEND_ELECTED_FLUSH)
     (\<lambda>written q. written \<longrightarrow> wp_phase q = WPS_ELECTED
        \<and> stream_pos i (wp_sent q) = Some (wsk_start_streaming_at (the_sk i q))
        \<and> wsk_start_streaming_at (the_sk i q) \<le> wp_available_lsn q) p"
proof -
  have len: "i < length (wp_safekeeper p)" using assms slots_len by simp
  have le: "pe_start_streaming_at m \<le> wp_available_lsn p" using assms(5) by simp
  have sent: "inv q \<and> wp_le p q" if "wp_view q = wp_view p" "wp_sent q = wp_sent p @ [(i, PAElected m, [])]"
    "wp_safekeeper q = (wp_safekeeper p)[i := (the_sk i p)\<lparr>wsk_state := st\<rparr>]" "st \<in> {SS_WAIT_ELECTED, SS_SEND_ELECTED_FLUSH}"
    for q st
    using that assms le by (auto intro!: inv_send [OF assms(1,2) that(1-3)] simp: slot_ok_def wp_le_def wp_view_def)
  have body: "wp (case res of
       PG_ASYNC_WRITE_SUCCESS \<Rightarrow> andthen (record_sent i (PAElected m) []) (\<lambda>_. ret True)
     | PG_ASYNC_WRITE_TRY_FLUSH \<Rightarrow>
         andthen (record_sent i (PAElected m) []) (\<lambda>_.
         andthen (set_state i SS_SEND_ELECTED_FLUSH) (\<lambda>_.
         andthen (call (api_update_event_set api i {WL_SOCKET_READABLE, WL_SOCKET_WRITEABLE})) (\<lambda>_.
         ret False)))
     | PG_ASYNC_WRITE_FAIL \<Rightarrow> andthen (ShutdownConnection api i) (\<lambda>_. ret False))
     (\<lambda>r q. inv q \<and> wp_le p q \<and> (r \<longrightarrow> wp_phase q = WPS_ELECTED
        \<and> stream_pos i (wp_sent q) = Some (wsk_start_streaming_at (the_sk i q))
        \<and> wsk_start_streaming_at (the_sk i q) \<le> wp_available_lsn q))
     (\<lambda>e q. inv q \<and> wp_le p q) (p\<lparr>wp_world := w\<rparr>)" for res w
  proof (cases res)
    case PG_ASYNC_WRITE_SUCCESS
    have "(wp_safekeeper p)[i := (the_sk i p)\<lparr>wsk_state := SS_WAIT_ELECTED\<rparr>] = wp_safekeeper p"
      using assms(3) by (metis (no_types, lifting) list_update_id wp_safekeeper.surjective wp_safekeeper.update_convs(8))
    then show ?thesis
      using sent [of _ SS_WAIT_ELECTED] PG_ASYNC_WRITE_SUCCESS assms le by (simp add: record_sent_def wp)
  next
    case PG_ASYNC_WRITE_TRY_FLUSH
    then show ?thesis
      using sent [of _ SS_SEND_ELECTED_FLUSH] by (simp add: record_sent_def set_state_def wp wp_safekeeper_upd_sk)
  next
    case PG_ASYNC_WRITE_FAIL
    have "inv r \<and> wp_le p r" if "wp_view r = wp_view p" "wp_sent r = wp_sent p"
      "wp_safekeeper r = (wp_safekeeper p)[i := sk]" "wsk_state sk = SS_OFFLINE" for r sk
      using that inv_slot [OF assms(1,2) that(1-3)] wp_le_view [of p r] by simp
    then show ?thesis
      unfolding PG_ASYNC_WRITE_FAIL async_write.case wp
      by (intro wp_cons [OF shutdown_effect]) (use len in auto)
  qed
  show ?thesis
    using body assms(1) unfolding AsyncWrite_def serialize_def
    by (auto simp: wp_safe_def wp split: sum.split)
qed

lemma send_elected_safe:
  assumes "inv p" and "i < n" and "wsk_state (the_sk i p) = SS_WAIT_ELECTED" and "wp_phase p = WPS_ELECTED"
  shows "safe (SendProposerElected api i) (\<lambda>_ _. True) p"
proof -
  have "safe (vote_history i) (\<lambda>_ q. q = r) r" if "inv r" for r :: "'w wal_proposer"
    using that by (simp add: vote_history_def wp_safe_def wp)
  note history = safe_bind [OF this]
  have len: "i < length (wp_safekeeper p)" using assms slots_len by simp
  show ?thesis
    unfolding SendProposerElected_def
    by (rule safe_bind [OF safe_call [OF assms(1)]], rule history, assumption,
        rule safe_bind [OF safe_reads], assumption)
      (use assms(2-4) len in \<open>auto intro!: safe_bind [OF safe_assert] safe_bind [OF safe_of_option] safe_bind [OF safe_slot]
         safe_bind [OF async_write_elected] safe_when begin_streaming_safe\<close>)
qed

subsection \<open>The end of an election\<close>

lemma electing_safe:
  assumes "inv p" and "wp_phase p = WPS_CAMPAIGN"
      and "wp m (\<lambda>r q. electing p q \<and> P r q) (\<lambda>_ q. electing p q) p"
  shows "safe m P p"
  unfolding wp_safe_def
  by (rule wp_cons [OF assms(3)]) (use electing_inv [OF assms(1,2)] in blast)+

lemma consider_vote_electing:
  assumes "electing p q" and "wp_phase q = WPS_CAMPAIGN"
  shows "wp (consider_vote i) (\<lambda>_ r. electing p r \<and> wp_phase r = WPS_CAMPAIGN) (\<lambda>_ r. electing p r) q"
  using assms by (simp add: consider_vote_def vote_history_def wp Let_def electing_def)

lemma for_each_electing:
  assumes "electing p q" and "wp_phase q = WPS_CAMPAIGN"
      and "\<And>i q. electing p q \<Longrightarrow> wp_phase q = WPS_CAMPAIGN \<Longrightarrow>
        wp (body i) (\<lambda>_ r. electing p r \<and> wp_phase r = WPS_CAMPAIGN) (\<lambda>_ r. electing p r) q"
  shows "wp (for_each is body) (\<lambda>_ r. electing p r \<and> wp_phase r = WPS_CAMPAIGN) (\<lambda>_ r. electing p r) q"
  using assms(1,2)
proof (induction "is" arbitrary: q)
  case (Cons i "is")
  show ?case
    unfolding for_each.simps wp by (rule wp_cons [OF assms(3) [OF Cons.prems]]) (use Cons.IH in auto)
qed (simp add: wp)

lemma votes_mset_electing:
  assumes "electing p q" and "wp_phase q = WPS_CAMPAIGN"
  shows "wp (VotesCollectedMset mset msk) (\<lambda>_ r. electing p r \<and> wp_phase r = WPS_CAMPAIGN) (\<lambda>_ r. electing p r) q"
  unfolding VotesCollectedMset_def wp
  by (rule wp_cons [OF for_each_electing [OF assms]])
    (use consider_vote_electing in \<open>auto simp: wp MsetHasQuorum_def MsetQuorum_def\<close>)

lemma votes_collected_safe:
  assumes "inv p" and "wp_phase p = WPS_CAMPAIGN"
  shows "safe VotesCollected (\<lambda>_ q. wp_phase q = WPS_CAMPAIGN \<and> wp_safekeeper q = wp_safekeeper p) p"
proof (rule electing_safe [OF assms])
  let ?q = "p\<lparr>wp_prop_term_start_lsn := lsn_invalid, wp_donor_last_log_term := 0, wp_truncate_lsn := lsn_invalid\<rparr>"
  let ?Q = "\<lambda>r. electing p r \<and> wp_phase r = WPS_CAMPAIGN" and ?E = "\<lambda>_ r. electing p r"
  have q: "electing p ?q" "wp_phase ?q = WPS_CAMPAIGN" using assms(2) by (simp_all add: electing_def)
  note q' = q [simplified]
  have "wp (both_msets VotesCollectedMset) (\<lambda>_. ?Q) ?E ?q"
    unfolding both_msets_def wp
    by (auto simp: case_prod_beta wp intro!: wp_cons [OF votes_mset_electing] q)
  moreover have "wp (for_each is consider_vote) (\<lambda>_. ?Q) ?E ?q" for "is"
    by (rule for_each_electing [OF q consider_vote_electing])
  ultimately have "wp VotesCollected (\<lambda>_. ?Q) ?E p"
    using assms(2) q by (simp add: VotesCollected_def wp)
  then show "wp VotesCollected (\<lambda>r q. electing p q \<and> wp_phase q = WPS_CAMPAIGN \<and> wp_safekeeper q = wp_safekeeper p)
     (\<lambda>_ q. electing p q) p"
    by (rule wp_cons) (simp_all add: electing_def)
qed

text \<open>Winning: the state between the last vote and the first announcement.\<close>

lemma start_pos_safe:
  assumes "inv p" and "wp_phase p = WPS_CAMPAIGN"
  shows "safe (andthen (modify (\<lambda>p. p\<lparr>wp_phase := WPS_ELECTED\<rparr>)) (\<lambda>_. ProcessPropStartPos api))
     (\<lambda>_ q. wp_phase q = WPS_ELECTED \<and> wp_safekeeper q = wp_safekeeper p) p"
proof (rule electing_safe [OF assms])
  have "wp (ProcessPropStartPos api) (\<lambda>r q. electing p q \<and> wp_phase q = WPS_ELECTED) (\<lambda>_ q. electing p q) q"
    if "electing p q" "wp_phase q = WPS_ELECTED" for q
    using that
    by (auto simp: ProcessPropStartPos_def fix_start_lsn_def vote_history_def wp Let_def electing_def split: option.split)
  then have "wp (andthen (modify (\<lambda>p. p\<lparr>wp_phase := WPS_ELECTED\<rparr>)) (\<lambda>_. ProcessPropStartPos api))
     (\<lambda>r q. electing p q \<and> wp_phase q = WPS_ELECTED) (\<lambda>_ q. electing p q) p"
    by (simp add: wp electing_def)
  then show "wp (andthen (modify (\<lambda>p. p\<lparr>wp_phase := WPS_ELECTED\<rparr>)) (\<lambda>_. ProcessPropStartPos api))
     (\<lambda>r q. electing p q \<and> wp_phase q = WPS_ELECTED \<and> wp_safekeeper q = wp_safekeeper p) (\<lambda>_ q. electing p q) p"
    by (rule wp_cons) (simp_all add: electing_def)
qed

lemma handle_elected_safe:
  assumes "inv p" and "wp_phase p = WPS_CAMPAIGN"
  shows "safe (andthen (modify (\<lambda>p. p\<lparr>wp_phase := WPS_ELECTED\<rparr>)) (\<lambda>_. HandleElectedProposer api)) (\<lambda>_ _. True) p"
proof -
  have announce: "safe (for_each slots (\<lambda>i. andthen (reads (\<lambda>p. sk_in SS_WAIT_ELECTED p i)) (\<lambda>waiting.
        whenp waiting (SendProposerElected api i)))) (\<lambda>_ _. True) q"
    if "inv q" "wp_phase q = WPS_ELECTED" "set slots = {..<n}" for q slots
    using that
    by (intro safe_for_each)
      (auto intro!: safe_bind [OF safe_reads] safe_when send_elected_safe simp: sk_in_def wp_le_def simp del: andthen_reads)
  note rules = safe_bind [OF safe_assert] safe_bind [OF safe_of_option] safe_bind [OF safe_world] safe_bind [OF safe_ensure]
    safe_bind [OF announce] broadcast_safe safe_throw
  show ?thesis
    unfolding HandleElectedProposer_def
    by (rule safe_bind [OF start_pos_safe [OF assms], unfolded andthen_assoc], rule safe_bind [OF safe_reads], assumption)
      (auto intro!: rules simp: all_slots_inv)
qed

lemma vote_response_safe:
  assumes "inv p" and "i < n" and "wsk_state (the_sk i p) = SS_WAIT_VERDICT"
  shows "safe (RecvVoteResponse api i) (\<lambda>_ _. True) p"
proof -
  have phase: "wp_phase q = WPS_CAMPAIGN \<or> wp_phase q = WPS_ELECTED" if "wp_phase q \<noteq> WPS_COLLECTING_TERMS"
    for q :: "'w wal_proposer" using that by (cases "wp_phase q") auto
  have decide: "safe (if wp_phase q = WPS_CAMPAIGN then andthen VotesCollected (\<lambda>collected.
           whenp collected
             (andthen (modify (\<lambda>p. p\<lparr>wp_phase := WPS_ELECTED\<rparr>)) (\<lambda>_. HandleElectedProposer api)))
         else SendProposerElected api i) (\<lambda>_ _. True) q"
    if "inv q" "wp_phase q \<noteq> WPS_COLLECTING_TERMS" "wsk_state (the_sk i q) = SS_WAIT_ELECTED" for q
    using that phase assms(2)
    by (auto intro!: safe_bind [OF votes_collected_safe] safe_when handle_elected_safe send_elected_safe
        simp del: andthen_modify)
  have verdict: "safe (andthen (modify (upd_sk i (\<lambda>sk. sk\<lparr>wsk_vote_response := m, wsk_history_freed := False\<rparr>))) (\<lambda>_.
         andthen (reads (\<lambda>p. (wp_phase p, wp_prop_term p))) (\<lambda>(phase, prop_term).
         andthen (ensure (\<not> (cvr_vote_given m = 0 \<and> (prop_term < cvr_term m \<or> phase = WPS_CAMPAIGN))) WpFatal) (\<lambda>_.
         andthen (wp_assert (cvr_term m = prop_term)) (\<lambda>_.
         andthen (set_state i SS_WAIT_ELECTED) (\<lambda>_.
         if phase = WPS_CAMPAIGN then
           andthen VotesCollected (\<lambda>collected.
           whenp collected
             (andthen (modify (\<lambda>p. p\<lparr>wp_phase := WPS_ELECTED\<rparr>)) (\<lambda>_. HandleElectedProposer api)))
         else SendProposerElected api i)))))) (\<lambda>_ _. True) q"
    if "inv q" "wp_phase q \<noteq> WPS_COLLECTING_TERMS" "wsk_state (the_sk i q) = SS_WAIT_VERDICT" for q m
  proof -
    have len: "i < length (wp_safekeeper q)" using that(1) assms(2) slots_len by simp
    show ?thesis
      by (rule safe_bind [OF safe_slot [OF that(1) assms(2)]], use that(3) in simp, rule safe_bind [OF safe_reads], assumption,
          clarify, rule safe_bind [OF safe_ensure], assumption, clarify, rule safe_bind [OF safe_assert], assumption, clarify,
          rule safe_bind [OF set_state_safe [OF _ assms(2)]], assumption)
        (use that len decide [of "upd_sk i _ (upd_sk i _ q)"] in \<open>simp_all del: andthen_modify\<close>)
  qed
  show ?thesis
    unfolding RecvVoteResponse_def
    by (rule safe_bind [OF safe_reads [OF assms(1)]], clarify, rule safe_bind [OF safe_assert], assumption, clarify,
        rule safe_bind [OF read_message_safe [OF _ assms(2)]], assumption,
        rule option.split [of "\<lambda>x. safe x _ _", THEN iffD2], intro conjI allI impI safe_ret TrueI verdict)
      (use assms(3) in \<open>auto simp: same_slot_def\<close>)
qed

subsection \<open>Acknowledgements\<close>

lemma acknowledged_safe:
  assumes "inv p"
  shows "safe GetAcknowledgedByQuorumWALPosition (\<lambda>_ q. q = p) p"
  using assms
  by (auto simp: GetAcknowledgedByQuorumWALPosition_def GetCommittedMset_def MsetQuorum_def wp_safe_def wp)

lemma commit_safe:
  assumes "inv p" and "wp_commit_lsn p \<le> c"
  shows "safe (modify (\<lambda>p. p\<lparr>wp_commit_lsn := c\<rparr>)) (\<lambda>_ _. True) p"
  using inv_grow [OF assms(1) order_refl assms(2)] assms(2) by (simp add: wp_safe_def wp wp_le_def)

lemma finish_sync_safe:
  assumes "inv p"
  shows "safe (finish_sync api c) (\<lambda>_ _. True) p"
  unfolding finish_sync_def Let_def
  by (rule safe_bind [OF safe_reads [OF assms]])
    (auto intro!: safe_ret safe_bind [OF broadcast_safe] safe_throw)

lemma response_safe:
  assumes "inv p"
  shows "safe (HandleSafekeeperResponse api i) (\<lambda>_ _. True) p"
proof -
  have truncate: "safe (modify (\<lambda>p. let candidate = min (CalculateMinFlushLsn p) (wp_commit_lsn p)
       in if wp_truncate_lsn p < candidate then p\<lparr>wp_truncate_lsn := candidate\<rparr> else p)) (\<lambda>_ _. True) q" if "inv q" for q
    by (rule safe_mono [OF safe_unseen [OF that]]) (simp_all add: unseen_def Let_def)
  have finish: "safe (andthen (call (api_process_safekeeper_feedback api i)) (\<lambda>_.
     andthen (modify (\<lambda>p. let candidate = min (CalculateMinFlushLsn p) (wp_commit_lsn p)
       in if wp_truncate_lsn p < candidate then p\<lparr>wp_truncate_lsn := candidate\<rparr> else p)) (\<lambda>_.
     finish_sync api c))) (\<lambda>_ _. True) q" if "inv q" for c q
    using that by (intro safe_bind [OF safe_call] safe_bind [OF truncate] finish_sync_safe)
  have advance: "safe (whenp (wp_commit_lsn q < c)
       (andthen (modify (\<lambda>p. p\<lparr>wp_commit_lsn := c\<rparr>)) (\<lambda>_. BroadcastAppendRequest api))) (\<lambda>_ _. True) q" if "inv q" for c q
    using that by (intro safe_when safe_bind [OF commit_safe] broadcast_safe) auto
  show ?thesis
    unfolding HandleSafekeeperResponse_def
    by (rule safe_bind [OF acknowledged_safe [OF assms]], rule safe_bind [OF safe_reads], assumption,
        clarify, rule safe_bind [OF advance], assumption, rule finish)
qed

lemma recv_loop_safe:
  "inv p \<Longrightarrow> i < n \<Longrightarrow> safe (recv_loop api i k) (\<lambda>_ _. True) p"
proof (induction k arbitrary: p)
  case 0
  then show ?case by (simp add: safe_throw)
next
  case (Suc k)
  have note_response: "slot_ok q i ((the_sk i q)\<lparr>wsk_append_response := m\<rparr>)" if "inv q" for q m
    using slot_inv [OF that Suc.prems(2)] by (simp add: slot_ok_def)
  have "safe (andthen (HandleSafekeeperResponse api i) (\<lambda>_. andthen (call (api_update_metrics api i)) (\<lambda>_. recv_loop api i k)))
     (\<lambda>_ _. True) q" if "inv q" for q
    using that Suc by (intro safe_bind [OF response_safe] safe_bind [OF safe_call] Suc.IH)
  with Suc.prems(2) note_response show ?case
    unfolding recv_loop.simps
    by (intro safe_bind [OF read_message_safe [OF Suc.prems]])
      (auto split: option.split intro!: safe_ret safe_bind [OF safe_slot] safe_bind [OF safe_reads] safe_bind [OF safe_ensure]
        simp del: andthen_reads andthen_modify)
qed

lemma active_state_safe:
  assumes "inv p" and "i < n" and "stream_on i p"
  shows "safe (HandleActiveState api k i events) (\<lambda>_ _. True) p"
  unfolding HandleActiveState_def RecvAppendResponses_def
  by (rule handle_active_safe [OF assms])
    (auto intro!: safe_bind [OF recv_loop_safe] safe_mono [OF safe_reads] assms(2))

subsection \<open>Events\<close>

lemma events_ok_safe: "inv p \<Longrightarrow> safe (AssertEventsOkForState api events i) (\<lambda>_ q. q = p) p"
  unfolding AssertEventsOkForState_def
  by (auto simp: wp_safe_def wp split: option.split prod.split)

lemma advance_safe:
  assumes "inv p" and "i < n"
  shows "safe (AdvancePollState api k i events) (\<lambda>_ _. True) p"
proof -
  have flushed: "safe (andthen (AsyncFlush api i) (\<lambda>flushed. whenp flushed (StartStreaming api i))) (\<lambda>_ _. True) p"
    if "wsk_state (the_sk i p) = SS_SEND_ELECTED_FLUSH"
    by (rule safe_bind [OF flush_safe [OF assms]])
      (use assms(2) slot_inv [OF assms] that in \<open>auto intro!: safe_when begin_streaming_safe simp: slot_ok_def\<close>)
  show ?thesis
    unfolding AdvancePollState_def
    by (rule safe_bind [OF events_ok_safe [OF assms(1)]], rule safe_bind [OF safe_reads], assumption)
      (use assms flushed in \<open>auto split: safekeeper_state.split intro!: safe_throw connection_event_safe push_result_safe
         greeting_safe reset_safe vote_response_safe active_state_safe simp: stream_on_def\<close>)
qed

lemma abandon_safe:
  assumes "inv p"
  shows "safe (abandon_slow api) (\<lambda>_ _. True) p"
  unfolding abandon_slow_def
  by (intro safe_bind [OF safe_world [OF assms]] safe_bind [OF safe_reads])
    (auto intro!: safe_for_each safe_bind [OF safe_reads] safe_when safe_mono [OF shutdown_safe] simp: all_slots_inv
      simp del: andthen_reads)

lemma keep_alive_safe:
  assumes "inv p"
  shows "safe (keep_alive api timed_out) (\<lambda>_ _. True) p"
  unfolding keep_alive_def
  by (intro safe_bind [OF safe_world [OF assms]] safe_bind [OF safe_reads])
    (auto intro!: safe_when safe_bind [OF safe_when] broadcast_safe abandon_safe)

lemma idle_safe:
  assumes "inv p"
  shows "safe (andthen (ReconnectSafekeepers api) (\<lambda>_.
     andthen (reads (\<lambda>p. wpc_sync_safekeepers (wp_config p))) (\<lambda>sync.
     andthen (if sync then ret 0 else in_world (api_get_flush_rec_ptr api)) (\<lambda>flushed.
     andthen (reads (\<lambda>p. \<not> sync \<and> wp_available_lsn p < flushed)) (\<lambda>new_wal.
     if new_wal then ret True
     else andthen (keep_alive api True) (\<lambda>_. ret False)))))) (\<lambda>_ _. True) p"
proof -
  have flush: "safe (if sync then ret 0 else in_world (api_get_flush_rec_ptr api)) (\<lambda>_ _. True) q" if "inv q" for q sync
    using that by (auto intro: safe_ret safe_mono [OF safe_world])
  show ?thesis
    by (rule safe_bind [OF reconnect_safe [OF assms]], rule safe_bind [OF safe_reads], assumption,
        rule safe_bind [OF flush], assumption, rule safe_bind [OF safe_reads], assumption)
      (auto intro!: safe_ret safe_bind [OF keep_alive_safe])
qed

lemma event_safe:
  assumes "inv p" and "\<And>i. sk = Some i \<Longrightarrow> i < n"
  shows "safe (andthen (whenp b (andthen (of_option WpAssert sk) (\<lambda>i. AdvancePollState api k i events))) (\<lambda>_.
     andthen (ReconnectSafekeepers api) (\<lambda>_.
     andthen (keep_alive api False) (\<lambda>_. ret False)))) (\<lambda>_ _. True) p"
  using assms
  by (intro safe_bind [OF safe_when] safe_bind [OF safe_of_option] advance_safe
      safe_bind [OF reconnect_safe] safe_bind [OF keep_alive_safe] safe_ret) auto

lemma poll_safe:
  assumes "inv p"
  shows "safe (poll_iteration api k) (\<lambda>_ _. True) p"
  unfolding poll_iteration_def
  by (rule safe_bind [OF safe_world [OF assms]], rule safe_bind [OF safe_reads], assumption,
      rule safe_bind [OF safe_world], assumption)
    (auto intro!: safe_ret idle_safe event_safe dest!: wait split: option.split simp del: andthen_reads)

lemma poll_loop_safe: "inv p \<Longrightarrow> safe (WalProposerPoll api k m) (\<lambda>_ _. True) p"
  by (induction m arbitrary: p) (auto intro!: safe_throw safe_bind [OF poll_safe] safe_ret)

lemma start_safe: "inv p \<Longrightarrow> safe (WalProposerStart api) (\<lambda>_ _. True) p"
  unfolding WalProposerStart_def
  by (auto intro!: safe_bind [OF safe_reads] safe_for_each reset_safe simp: all_slots_inv simp del: andthen_reads)

lemma new_wal_safe:
  assumes "inv p"
  shows "safe (WalProposerBroadcast api startpos endpos) (\<lambda>_ _. True) p"
proof -
  have "safe (modify (\<lambda>p. p\<lparr>wp_available_lsn := endpos\<rparr>)) (\<lambda>_ _. True) p" if "wp_available_lsn p \<le> endpos"
    using inv_grow [OF assms that order_refl] by (simp add: wp_safe_def wp wp_le_def)
  then show ?thesis
    unfolding WalProposerBroadcast_def
    by (intro safe_bind [OF safe_reads [OF assms]] safe_bind [OF safe_assert])
      (auto intro!: safe_bind [of "modify _" "\<lambda>_ _. True"] broadcast_safe simp del: andthen_modify)
qed

end

end
