(* ===== verification/Wp_Run.thy ===== *)
theory Wp_Run
  imports Wp_Safety
begin

text \<open>
  Runs of a walproposer, from its creation through any sequence of the calls its process
  makes, and that a round of sending ends with everything available sent.
\<close>

section \<open>Runs\<close>

text \<open>The calls of the process: start, polls with bounds on what one reads, and new WAL.\<close>

datatype wp_call = CallStart | CallPoll nat nat | CallBroadcast lsn lsn

fun run_call :: "'w wp_api \<Rightarrow> wp_call \<Rightarrow> ('w, unit) wp_prog" where
  "run_call api CallStart = WalProposerStart api"
| "run_call api (CallPoll n k) = WalProposerPoll api n k"
| "run_call api (CallBroadcast startpos endpos) = WalProposerBroadcast api startpos endpos"

text \<open>A call returned, or is the one in which the streaming loop runs.\<close>

fun goes_on :: "wp_error + unit \<Rightarrow> bool" where
  "goes_on (Inr _) = True"
| "goes_on (Inl (WpStreaming _)) = True"
| "goes_on (Inl _) = False"

inductive wp_steps :: "'w wp_api \<Rightarrow> 'w wal_proposer \<Rightarrow> wp_error + unit \<Rightarrow> 'w wal_proposer \<Rightarrow> bool"
  for api :: "'w wp_api" and p :: "'w wal_proposer" where
  steps_refl: "wp_steps api p (Inr ()) p"
| steps_call: "wp_steps api p r q \<Longrightarrow> goes_on r \<Longrightarrow> run_call api c q = (r', q') \<Longrightarrow> wp_steps api p r' q'"

text \<open>What has been streamed to a slot since the election was last announced to it.\<close>

definition streamed :: "nat \<Rightarrow> (nat \<times> pa_message \<times> bytes) list \<Rightarrow> (lsn \<times> bytes) option" where
  "streamed i log = foldl (\<lambda>acc (j, m, wal). if j \<noteq> i then acc else
     case m of
       PAElected e \<Rightarrow> Some (pe_start_streaming_at e, [])
     | PAAppend _ \<Rightarrow> map_option (\<lambda>(s, bs). (s, bs @ wal)) acc
     | _ \<Rightarrow> None) None log"

lemma streamed_snoc:
  "streamed i (log @ [(j, m, wal)]) = (if j \<noteq> i then streamed i log else
     case m of
       PAElected e \<Rightarrow> Some (pe_start_streaming_at e, [])
     | PAAppend _ \<Rightarrow> map_option (\<lambda>(s, bs). (s, bs @ wal)) (streamed i log)
     | _ \<Rightarrow> None)"
  by (cases m) (simp_all add: streamed_def)

lemma log_ok_prefix:
  assumes "\<forall>k < length (log @ [x]). msg_sent_ok W p (take k (log @ [x])) ((log @ [x]) ! k)"
  shows "\<forall>k < length log. msg_sent_ok W p (take k log) (log ! k)" and "msg_sent_ok W p log x"
  using assms by (auto simp: nth_append less_Suc_eq)

lemma upt_words: "(a :: nat) \<le> b \<Longrightarrow> b \<le> c \<Longrightarrow> map W [a ..< b] @ map W [b ..< c] = map W [a ..< c]"
  by (metis map_append upt_add_eq_append le_Suc_ex)

lemma streamed_log:
  assumes "\<forall>k < length log. msg_sent_ok W p (take k log) (log ! k)"
  shows "case streamed i log of
      None \<Rightarrow> stream_pos i log = None
    | Some (s, bs) \<Rightarrow> \<exists>e \<ge> s. stream_pos i log = Some e \<and> e \<le> wp_available_lsn p \<and> bs = map W [unat s ..< unat e]"
  using assms
proof (induction log rule: rev_induct)
  case Nil
  then show ?case by (simp add: streamed_def stream_pos_def)
next
  case (snoc x log)
  obtain j m wal where x: "x = (j, m, wal)" by (metis prod_cases3)
  note IH = snoc.IH [OF log_ok_prefix(1) [OF snoc.prems]] and ok = log_ok_prefix(2) [OF snoc.prems]
  show ?case
  proof (cases m)
    case (PAAppend h)
    show ?thesis
      using IH ok upt_words [of "unat (fst (the (streamed i log)))" "unat (ah_begin_lsn h)" "unat (ah_end_lsn h)" W]
      by (auto simp: x PAAppend streamed_snoc append_ok_def word_le_nat_alt split: option.splits)
  qed (use IH ok in \<open>auto simp: x streamed_snoc split: option.splits\<close>)
qed

section \<open>What every run guarantees\<close>

lemma create_inv:
  assumes "WalProposerCreate api config shmem w = Inr p"
  shows "wp_inv W (length (wp_safekeeper p)) p"
  using assms
  by (auto simp: WalProposerCreate_def Let_def wp_inv_def log_ok_def slot_ok_def new_safekeeper_def nth_enumerate_eq
      split: option.splits prod.splits if_splits)

context wp_hooks
begin

lemma call_safe: "inv p \<Longrightarrow> safe (run_call api c) (\<lambda>_ _. True) p"
  by (cases c) (simp_all add: start_safe poll_loop_safe new_wal_safe)

lemma steps_inv:
  assumes "wp_steps api p r q" and "inv p"
  shows "inv q \<and> wp_le p q"
  using assms
proof induction
  case (steps_call r q c r' q')
  then have "inv q' \<and> wp_le q q'"
    using call_safe [of q c] by (cases r') (auto simp: wp_safe_def wp_def)
  with steps_call show ?case by (auto intro: wp_le_trans)
qed simp

end

lemma run_inv:
  assumes "wp_hooks api W (length (wp_safekeeper p0))"
      and "WalProposerCreate api config shmem w = Inr p0" and "wp_steps api p0 r p"
  shows "wp_inv W (length (wp_safekeeper p0)) p" and "log_ok W p"
  using wp_hooks.steps_inv [OF assms(1,3) create_inv [OF assms(2)]] by (simp_all add: wp_inv_def)

text \<open>
  What is expected of the hooks: a successful read of WAL delivers that part of the one WAL of
  the compute, and an event of a connection is for one of the slots.
\<close>

definition reads_wal :: "'w wp_api \<Rightarrow> (nat \<Rightarrow> u8) \<Rightarrow> bool" where
  "reads_wal api W \<longleftrightarrow> (\<forall>i b k w wal w'. api_wal_read api i b k w = (NEON_WALREAD_SUCCESS wal, w') \<longrightarrow>
     wal = map W [unat b ..< unat b + k])"

definition events_for :: "'w wp_api \<Rightarrow> nat \<Rightarrow> bool" where
  "events_for api n \<longleftrightarrow> (\<forall>t w i ev w'. api_wait_event_set api t w = (Some (Some i, ev), w') \<longrightarrow> i < n)"

lemma hooksI: "reads_wal api W \<Longrightarrow> events_for api n \<Longrightarrow> wp_hooks api W n"
  unfolding reads_wal_def events_for_def by (intro wp_hooks.intro) blast+

text \<open>
  C16: in every run of a walproposer, whatever arrives and whatever connections fail, what has
  been streamed to a safekeeper since it was told of the election is exactly the WAL of the
  compute from the announced start position to the position the stream has reached: no gap,
  no overlap, nothing beyond what is available. \<open>W\<close> is the WAL that the hook wal_read reads.
\<close>

theorem streamed_is_wal:
  assumes "reads_wal api W" and "events_for api (length (wp_safekeeper p0))"
      and "WalProposerCreate api config shmem w = Inr p0" and "wp_steps api p0 r p"
      and "streamed i (wp_sent p) = Some (s, bs)"
  shows "\<exists>e. stream_pos i (wp_sent p) = Some e \<and> s \<le> e \<and> e \<le> wp_available_lsn p \<and> bs = map W [unat s ..< unat e]"
proof -
  have "wp_hooks api W (length (wp_safekeeper p0))" using assms(1,2) by (rule hooksI)
  then have "log_ok W p" by (rule run_inv [OF _ assms(3,4)])
  from streamed_log [OF this [unfolded log_ok_def], of i] show ?thesis using assms(5) by auto
qed

text \<open>
  C20: every vote request, announcement and append request that a run of a walproposer has
  sent carries the one term and generation of this proposer; announcements and appends are
  sent only by an elected proposer, all announcements carry its one term history, and no
  append reaches past the available WAL, is longer than MAX_SEND_SIZE or carries a commit
  position beyond the one reached.
\<close>

theorem sent_in_one_term:
  assumes "reads_wal api W" and "events_for api (length (wp_safekeeper p0))"
      and "WalProposerCreate api config shmem w = Inr p0" and "wp_steps api p0 r p"
      and "(i, m, wal) \<in> set (wp_sent p)"
  shows "case m of
      PAGreeting g \<Rightarrow> g = wp_greet_request p
    | PAVoteRequest v \<Rightarrow> vr_term v = wp_prop_term p \<and> vr_generation v = mc_generation (wp_mconf p)
    | PAElected e \<Rightarrow> wp_phase p = WPS_ELECTED \<and> pe_term e = wp_prop_term p
        \<and> pe_generation e = mc_generation (wp_mconf p) \<and> pe_term_history e = wp_prop_term_history p
    | PAAppend h \<Rightarrow> wp_phase p = WPS_ELECTED \<and> ah_term h = wp_prop_term p
        \<and> ah_generation h = mc_generation (wp_mconf p) \<and> ah_begin_lsn h \<le> ah_end_lsn h
        \<and> unat (ah_end_lsn h - ah_begin_lsn h) \<le> MAX_SEND_SIZE \<and> ah_end_lsn h \<le> wp_available_lsn p
        \<and> ah_commit_lsn h \<le> wp_commit_lsn p"
proof -
  have "wp_hooks api W (length (wp_safekeeper p0))" using assms(1,2) by (rule hooksI)
  then have "log_ok W p" by (rule run_inv [OF _ assms(3,4)])
  then obtain log where "msg_sent_ok W p log (i, m, wal)"
    using assms(5) by (metis in_set_conv_nth log_ok_def)
  then show ?thesis by (cases m) (auto simp: append_ok_def)
qed

text \<open>
  C21: along every run of a walproposer the commit position never goes back and the log of
  what was sent only grows; once it campaigns its term and configuration are fixed, and once
  elected it stays elected, with one term history.
\<close>

theorem run_progress:
  assumes "reads_wal api W" and "events_for api (length (wp_safekeeper p0))"
      and "WalProposerCreate api config shmem w = Inr p0" and "wp_steps api p0 r p" and "wp_steps api p r' q"
  shows "wp_commit_lsn p \<le> wp_commit_lsn q \<and> take (length (wp_sent p)) (wp_sent q) = wp_sent p
     \<and> (wp_phase p \<noteq> WPS_COLLECTING_TERMS \<longrightarrow> wp_phase q \<noteq> WPS_COLLECTING_TERMS
          \<and> wp_prop_term q = wp_prop_term p \<and> wp_mconf q = wp_mconf p)
     \<and> (wp_phase p = WPS_ELECTED \<longrightarrow> wp_phase q = WPS_ELECTED \<and> wp_prop_term_history q = wp_prop_term_history p)"
proof -
  have hooks: "wp_hooks api W (length (wp_safekeeper p0))" using assms(1,2) by (rule hooksI)
  have "wp_le p q" using wp_hooks.steps_inv [OF hooks assms(5) run_inv(1) [OF hooks assms(3,4)]] by simp
  then show ?thesis by (auto simp: wp_le_def)
qed

section \<open>Sending ends\<close>

lemma write_prepared_done:
  assumes "i < length (wp_safekeeper p)"
  shows "wp (write_prepared api i req wal)
     (\<lambda>r q. (r = Some True \<longrightarrow> wsk_active_state (the_sk i q) = SS_ACTIVE_FLUSH)
        \<and> (r = None \<longrightarrow> wsk_active_state (the_sk i q) = SS_ACTIVE_SEND \<and> wsk_streaming_at (the_sk i q) = ah_end_lsn req
             \<and> wp_available_lsn q = wp_available_lsn p \<and> length (wp_safekeeper q) = length (wp_safekeeper p)))
     (\<lambda>e _. \<exists>c. e = WpPq c) p"
  using assms
  by (auto simp: write_prepared_def serialize_def record_sent_def ShutdownConnection_def wp split: sum.split async_write.split)

lemma send_prepared_done:
  assumes "i < length (wp_safekeeper p)" and "wsk_active_state (the_sk i p) = SS_ACTIVE_READ_WAL"
  shows "wp (send_prepared api i)
     (\<lambda>r q. (r = Some True \<longrightarrow> wsk_active_state (the_sk i q) \<noteq> SS_ACTIVE_SEND)
        \<and> (r = None \<longrightarrow> wsk_active_state (the_sk i q) = SS_ACTIVE_SEND
             \<and> wsk_streaming_at (the_sk i q) = ah_end_lsn (wsk_append_request (the_sk i p))
             \<and> wp_available_lsn q = wp_available_lsn p \<and> length (wp_safekeeper q) = length (wp_safekeeper p)))
     (\<lambda>e _. \<exists>c. e = WpPq c) p"
proof -
  have "wp (ShutdownConnection api i) (\<lambda>_ _. True) (\<lambda>e _. \<exists>c. e = WpPq c) q" for q
    by (simp add: ShutdownConnection_def wp)
  then show ?thesis
    using assms
    by (auto simp: send_prepared_def wp Let_def split: wal_read_result.split
        intro!: wp_cons [OF write_prepared_done])
qed

text \<open>The slot can be streamed to: a request that was prepared lies between its position and the end.\<close>

definition streamable :: "nat \<Rightarrow> 'w wal_proposer \<Rightarrow> bool" where
  "streamable i p \<longleftrightarrow>
     i < length (wp_safekeeper p) \<and> wsk_streaming_at (the_sk i p) \<le> wp_available_lsn p
     \<and> (wsk_active_state (the_sk i p) = SS_ACTIVE_READ_WAL \<longrightarrow>
          wsk_streaming_at (the_sk i p) \<le> ah_end_lsn (wsk_append_request (the_sk i p))
          \<and> ah_end_lsn (wsk_append_request (the_sk i p)) \<le> wp_available_lsn p)"

definition unsent :: "nat \<Rightarrow> 'w wal_proposer \<Rightarrow> nat" where
  "unsent i p = unat (wp_available_lsn p) - unat (wsk_streaming_at (the_sk i p))"

lemma prepare_done:
  assumes "streamable i p" and "unat (wp_available_lsn p) + MAX_SEND_SIZE < 2 ^ 64"
  shows "wp (prepare_next i) (\<lambda>_ q. streamable i q \<and> wsk_active_state (the_sk i q) = SS_ACTIVE_READ_WAL
       \<and> wp_available_lsn q = wp_available_lsn p \<and> unsent i q = unsent i p
       \<and> (0 < unsent i p \<longrightarrow> wsk_streaming_at (the_sk i q) < ah_end_lsn (wsk_append_request (the_sk i q))))
     E p"
proof -
  let ?at = "wsk_streaming_at (the_sk i p)"
  have "unat (?at + of_nat MAX_SEND_SIZE) = unat ?at + MAX_SEND_SIZE"
    using assms by (auto simp: streamable_def unat_word_ariths MAX_SEND_SIZE_def word_le_nat_alt)
  then have "?at < ?at + of_nat MAX_SEND_SIZE" by (simp add: word_less_nat_alt MAX_SEND_SIZE_def)
  then show ?thesis
    using assms(1)
    by (auto simp: prepare_next_def PrepareAppendRequest_def wp Let_def streamable_def unsent_def word_less_nat_alt
        word_le_nat_alt)
qed

lemma send_loop_done:
  fixes p :: "'w wal_proposer"
  assumes "streamable i p" and "unat (wp_available_lsn p) + MAX_SEND_SIZE < 2 ^ 64"
      and "wsk_active_state (the_sk i p) \<noteq> SS_ACTIVE_FLUSH"
      and "unsent i p + (if wsk_active_state (the_sk i p) = SS_ACTIVE_READ_WAL then 3 else if sent then 1 else 2) \<le> k"
  shows "wp (send_loop api i k sent)
     (\<lambda>r q. r \<and> wsk_active_state (the_sk i q) = SS_ACTIVE_SEND \<longrightarrow> wsk_streaming_at (the_sk i q) = wp_available_lsn q)
     (\<lambda>e _. \<exists>c. e = WpPq c) p"
  using assms
proof (induction k arbitrary: p sent)
  case 0
  then show ?case by (simp split: if_splits)
next
  case (Suc k)
  let ?Q = "\<lambda>r q. r \<and> wsk_active_state (the_sk i q) = SS_ACTIVE_SEND \<longrightarrow> wsk_streaming_at (the_sk i q) = wp_available_lsn q"
  let ?E = "\<lambda>e _. \<exists>c. e = WpPq c"
  have step: "wp (send_prepared api i) (\<lambda>r. wp (case r of Some b \<Rightarrow> ret b | None \<Rightarrow> send_loop api i k sent') ?Q ?E) ?E q"
    if "streamable i q" "wp_available_lsn q = wp_available_lsn p" "wsk_active_state (the_sk i q) = SS_ACTIVE_READ_WAL"
      and "(unat (wp_available_lsn q) - unat (ah_end_lsn (wsk_append_request (the_sk i q)))) + (if sent' then 1 else 2) \<le> k"
    for q sent'
  proof (rule wp_cons [OF send_prepared_done])
    show "i < length (wp_safekeeper q)" "wsk_active_state (the_sk i q) = SS_ACTIVE_READ_WAL"
      using that by (simp_all add: streamable_def)
  next
    fix r and q' :: "'w wal_proposer"
    assume "(r = Some True \<longrightarrow> wsk_active_state (the_sk i q') \<noteq> SS_ACTIVE_SEND)
        \<and> (r = None \<longrightarrow> wsk_active_state (the_sk i q') = SS_ACTIVE_SEND
             \<and> wsk_streaming_at (the_sk i q') = ah_end_lsn (wsk_append_request (the_sk i q))
             \<and> wp_available_lsn q' = wp_available_lsn q \<and> length (wp_safekeeper q') = length (wp_safekeeper q))"
    then show "wp (case r of Some b \<Rightarrow> ret b | None \<Rightarrow> send_loop api i k sent') ?Q ?E q'"
      using that Suc.prems(2) by (cases r) (auto simp: wp intro!: Suc.IH simp: streamable_def unsent_def)
  qed
  show ?case
  proof (cases "wsk_active_state (the_sk i p) = SS_ACTIVE_SEND")
    case True
    have "wp (prepare_next i) (\<lambda>_. wp (send_prepared api i)
        (\<lambda>r. wp (case r of Some b \<Rightarrow> ret b | None \<Rightarrow> send_loop api i k True) ?Q ?E) ?E) ?E p"
      if "\<not> (wsk_streaming_at (the_sk i p) = wp_available_lsn p \<and> sent)"
      by (rule wp_cons [OF prepare_done [OF Suc.prems(1,2)]], rule step)
        (use that True Suc.prems(1,4) in \<open>auto simp: unsent_def streamable_def word_less_nat_alt word_le_nat_alt word_unat_eq_iff split: if_splits\<close>)
    then show ?thesis using True by (simp add: wp del: andthen_reads)
  next
    case False
    then have read: "wsk_active_state (the_sk i p) = SS_ACTIVE_READ_WAL"
      using Suc.prems(3) by (cases "wsk_active_state (the_sk i p)") auto
    have "wp (send_prepared api i) (\<lambda>r. wp (case r of Some b \<Rightarrow> ret b | None \<Rightarrow> send_loop api i k sent) ?Q ?E) ?E p"
      by (rule step) (use Suc.prems(1,4) read in \<open>auto simp: unsent_def streamable_def word_le_nat_alt split: if_splits\<close>)
    then show ?thesis using read by (simp add: wp del: andthen_reads)
  qed
qed

lemma reset_not_active:
  "i < length (wp_safekeeper p) \<Longrightarrow> wp (ResetConnection api i) (\<lambda>_ q. \<not> sk_in SS_ACTIVE q i) E p"
  by (simp add: ResetConnection_def ShutdownConnection_def set_state_def wp sk_in_def)

text \<open>
  C22: a round of sending to an active safekeeper ends: it never runs into the bound on its
  iterations and no assertion fails, and when it returns with the connection alive and
  nothing left in the buffers, everything available has been sent. The available position
  is at least MAX_SEND_SIZE away from the end of the 64 bit range.
\<close>

theorem SendAppendRequests_done:
  assumes "streamable i p" and "unat (wp_available_lsn p) + MAX_SEND_SIZE < 2 ^ 64"
      and "SendAppendRequests api i p = (r, q)"
  shows "r \<noteq> Inl WpMoreMessages \<and> r \<noteq> Inl WpAssert
     \<and> (r = Inr True \<and> sk_in SS_ACTIVE q i \<and> wsk_active_state (the_sk i q) = SS_ACTIVE_SEND
          \<longrightarrow> wsk_streaming_at (the_sk i q) = wp_available_lsn q)"
proof -
  let ?Q = "\<lambda>r q. r \<and> sk_in SS_ACTIVE q i \<and> wsk_active_state (the_sk i q) = SS_ACTIVE_SEND
     \<longrightarrow> wsk_streaming_at (the_sk i q) = wp_available_lsn q"
  let ?E = "\<lambda>e _. \<exists>c. e = WpPq c"
  have loop: "wp (send_loop api i (send_bound i q) False) ?Q ?E q"
    if "streamable i q" "wp_available_lsn q = wp_available_lsn p" "wsk_active_state (the_sk i q) \<noteq> SS_ACTIVE_FLUSH" for q
    by (rule wp_cons [OF send_loop_done [OF that(1) _ that(3)]])
      (use that(1,2) assms(2) in \<open>auto simp: send_bound_def unsent_def streamable_def unat_sub\<close>)
  have "wp (SendAppendRequests api i) ?Q ?E p"
  proof (cases "wsk_active_state (the_sk i p) = SS_ACTIVE_FLUSH")
    case True
    let ?q = "\<lambda>w. upd_sk i (\<lambda>sk. sk\<lparr>wsk_active_state := SS_ACTIVE_SEND\<rparr>) (p\<lparr>wp_world := w\<rparr>)"
    have "wp (send_loop api i (send_bound i (?q w)) False) ?Q ?E (?q w)" for w
      by (rule loop) (use assms(1) in \<open>auto simp: streamable_def\<close>)
    moreover have "wp (ResetConnection api i) (\<lambda>_ r. ?Q (sk_in SS_ACTIVE r i) r) ?E (p\<lparr>wp_world := w\<rparr>)" for w
      by (rule wp_cons [OF reset_not_active]) (use assms(1) in \<open>auto simp: streamable_def\<close>)
    ultimately show ?thesis using True
      by (auto simp: SendAppendRequests_def AsyncFlush_def wp split: flush_result.split)
  next
    case False
    then show ?thesis using loop [OF assms(1)] by (simp add: SendAppendRequests_def wp)
  qed
  then show ?thesis using assms(3) by (auto simp: wp_def split: sum.splits)
qed

end
