(* ===== verification/Wp_Sample.thy ===== *)
theory Wp_Sample
  imports Wp_Run Wire_Sample Sk_Sample
begin

text \<open>
  A walproposer with concrete hooks: the script of a run, on which its properties are
  evaluated, and states of an election and of acknowledgements.
\<close>

section \<open>Hooks\<close>

text \<open>The world is what is still to happen: the events of the connections and what they deliver.\<close>

record wp_script =
  ws_events :: "(nat \<times> wl_event set) list"
  ws_incoming :: "bytes list"

definition script_wait :: "64 word \<Rightarrow> wp_script \<Rightarrow> (nat option \<times> wl_event set) option \<times> wp_script" where
  "script_wait t w =
     (case ws_events w of
        [] \<Rightarrow> (None, w)
      | (i, ev) # evs \<Rightarrow> (if i < 1 then Some (Some i, ev) else None, w\<lparr>ws_events := evs\<rparr>))"

definition script_read :: "nat \<Rightarrow> wp_script \<Rightarrow> async_read \<times> wp_script" where
  "script_read i w =
     (case ws_incoming w of
        [] \<Rightarrow> (PG_ASYNC_READ_TRY_AGAIN, w)
      | m # ms \<Rightarrow> (PG_ASYNC_READ_SUCCESS m, w\<lparr>ws_incoming := ms\<rparr>))"

definition script_wal :: "nat \<Rightarrow> u8" where
  "script_wal n = of_nat n"

definition script_api :: "wp_script wp_api" where
  "script_api = \<lparr>
     api_init_event_set = (\<lambda>_ w. w), api_get_current_timestamp = (\<lambda>w. (0, w)),
     api_conn_connect_start = (\<lambda>_ w. (True, w)), api_conn_connect_poll = (\<lambda>_ w. (WP_CONN_POLLING_OK, w)),
     api_conn_send_query = (\<lambda>_ _ w. (True, w)),
     api_conn_get_query_result = (\<lambda>_ w. (WP_EXEC_SUCCESS_COPYBOTH, w)),
     api_conn_flush = (\<lambda>_ w. (FlushDone, w)), api_conn_finish = (\<lambda>_ w. w), api_conn_async_read = script_read,
     api_conn_async_write = (\<lambda>_ _ w. (PG_ASYNC_WRITE_SUCCESS, w)),
     api_conn_blocking_write = (\<lambda>_ _ w. (True, w)), api_recovery_download = (\<lambda>_ w. (True, w)),
     api_wal_reader_allocate = (\<lambda>_ w. w),
     api_wal_read = (\<lambda>_ b k w. (NEON_WALREAD_SUCCESS (map script_wal [unat b ..< unat b + k]), w)),
     api_wal_reader_events = (\<lambda>_ _. {}), api_update_event_set = (\<lambda>_ _ w. w),
     api_active_state_update_event_set = (\<lambda>_ w. w), api_add_safekeeper_event_set = (\<lambda>_ _ w. w),
     api_rm_safekeeper_event_set = (\<lambda>_ w. w), api_wait_event_set = script_wait,
     api_get_flush_rec_ptr = (\<lambda>w. (0, w)), api_get_redo_start_lsn = (\<lambda>_. 100),
     api_update_donor = (\<lambda>_ _ w. w), api_process_safekeeper_feedback = (\<lambda>_ w. w), api_update_metrics = (\<lambda>_ w. w),
     api_get_outbound_traceparent = (\<lambda>w. (None, w)), api_pq = plain_pq,
     api_timestamp_difference_exceeds = (\<lambda>_ _ _. False), api_pg_version_num = 170000,
     api_size_of_long_phd = 40, api_size_of_short_phd = 24\<rparr>"

interpretation script: wp_hooks script_api script_wal 1
  by unfold_locales (auto simp: script_api_def script_wait_def split: list.splits if_splits)

section \<open>A run\<close>

definition script_config :: wp_config where
  "script_config = \<lparr>wpc_neon_tenant = Some (key ''t''), wpc_neon_timeline = Some (key ''l''),
     wpc_safekeepers_list = key ''a:1'', wpc_safekeeper_conninfo_options = [],
     wpc_safekeeper_reconnect_timeout = 1000, wpc_safekeeper_connection_timeout = 1000,
     wpc_wal_segment_size = 16777216, wpc_sync_safekeepers = False, wpc_system_id = 1, wpc_pg_timeline = 1,
     wpc_proto_version = 3\<rparr>"

text \<open>What the safekeeper answers, as it serializes it.\<close>

definition script_answer :: "acceptor_proposer_message \<Rightarrow> bytes" where
  "script_answer m = (case serialize_msg m 3 of Inl _ \<Rightarrow> [] | Inr b \<Rightarrow> b)"

definition script_greeting :: bytes where
  "script_greeting = script_answer (AGreeting \<lparr>ag_node_id = 1, ag_mconf = configuration_empty, ag_term = 4\<rparr>)"

definition script_vote :: bytes where
  "script_vote = script_answer (AVoteResponse \<lparr>vp_generation = 0, vp_term = 5, vp_vote_given = True, vp_flush_lsn = 100,
     vp_truncate_lsn = 90, vp_term_history = [\<lparr>tl_term = 4, tl_lsn = 80\<rparr>]\<rparr>)"

definition script_latch :: "nat \<times> wl_event set" where
  "script_latch = (0, {WL_LATCH_SET})"

definition script_world :: wp_script where
  "script_world = \<lparr>ws_events = [(0, {WL_SOCKET_WRITEABLE}), script_latch, (0, {WL_SOCKET_READABLE}), script_latch,
     (0, {WL_SOCKET_READABLE}), script_latch, (0, {WL_SOCKET_READABLE})], ws_incoming = [script_greeting, script_vote]\<rparr>"

definition script_shmem :: wp_shmem where
  "script_shmem = \<lparr>shm_prop_epoch_start_lsn = 0, shm_mine_last_elected_term = 0, shm_replica_promote = False\<rparr>"

text \<open>The states of the run, after creation and after each call.\<close>

definition script_sk0 :: wp_safekeeper where
  "script_sk0 = new_safekeeper script_config 1024 0 (key ''a'', key ''1'')"

definition script_p0 :: "wp_script wal_proposer" where
  "script_p0 = \<lparr>wp_config = script_config, wp_phase = WPS_COLLECTING_TERMS, wp_mconf = c_mconf_zero,
     wp_members_safekeepers = replicate MAX_SAFEKEEPERS None,
     wp_new_members_safekeepers = replicate MAX_SAFEKEEPERS None,
     wp_quorum = 1, wp_safekeepers_generation = 0, wp_safekeeper = [script_sk0],
     wp_available_lsn = 0, wp_commit_lsn = 0,
     wp_greet_request = \<lparr>cpg_tenant_id = key ''t'', cpg_timeline_id = key ''l'', cpg_mconf = c_mconf_zero,
       cpg_pg_version = 170000, cpg_system_id = 1, cpg_wal_seg_size = 16777216\<rparr>,
     wp_vote_request = \<lparr>vr_generation = 0, vr_term = 0\<rparr>,
     wp_truncate_lsn = 0, wp_prop_term = 0, wp_prop_term_history = [],
     wp_prop_term_start_lsn = 0, wp_donor_last_log_term = 0, wp_donor = None,
     wp_n_connected = 0, wp_last_reconnect_attempt = 0, wp_shmem = script_shmem,
     wp_world = script_world, wp_sent = []\<rparr>"

definition script_p1 :: "wp_script wal_proposer" where
  "script_p1 = script_p0\<lparr>wp_safekeeper := [script_sk0\<lparr>wsk_state := SS_CONNECTING_WRITE\<rparr>]\<rparr>"

definition script_p2 :: "wp_script wal_proposer" where
  "script_p2 = script_p0\<lparr>wp_safekeeper := [script_sk0\<lparr>wsk_state := SS_WAIT_EXEC_RESULT\<rparr>],
     wp_world := script_world\<lparr>ws_events := drop 2 (ws_events script_world)\<rparr>\<rparr>"

definition script_p3 :: "wp_script wal_proposer" where
  "script_p3 = script_p0\<lparr>wp_safekeeper := [script_sk0\<lparr>wsk_state := SS_HANDSHAKE_RECV\<rparr>],
     wp_world := script_world\<lparr>ws_events := drop 4 (ws_events script_world)\<rparr>,
     wp_sent := [(0, PAGreeting (wp_greet_request script_p0), [])]\<rparr>"

definition script_p4 :: "wp_script wal_proposer" where
  "script_p4 = script_p0\<lparr>wp_phase := WPS_CAMPAIGN, wp_prop_term := 5,
     wp_vote_request := \<lparr>vr_generation = 0, vr_term = 5\<rparr>, wp_n_connected := 1,
     wp_safekeeper := [script_sk0\<lparr>wsk_state := SS_WAIT_VERDICT,
       wsk_greet_response := \<lparr>cag_node_id = 1, cag_mconf = c_mconf_zero, cag_term = 4\<rparr>\<rparr>],
     wp_world := script_world\<lparr>ws_events := drop 6 (ws_events script_world), ws_incoming := [script_vote]\<rparr>,
     wp_sent := [(0, PAGreeting (wp_greet_request script_p0), []),
       (0, PAVoteRequest \<lparr>vr_generation = 0, vr_term = 5\<rparr>, [])]\<rparr>"

definition script_append :: "lsn \<Rightarrow> lsn \<Rightarrow> append_request_header" where
  "script_append b e = \<lparr>ah_generation = 0, ah_term = 5, ah_begin_lsn = b, ah_end_lsn = e, ah_commit_lsn = 0,
     ah_truncate_lsn = 90\<rparr>"

text \<open>Elected and streaming, with everything sent up to a position.\<close>

definition script_streaming :: "lsn \<Rightarrow> append_request_header \<Rightarrow> (nat \<times> pa_message \<times> bytes) list \<Rightarrow> wp_script wal_proposer" where
  "script_streaming at req sent = script_p4\<lparr>wp_phase := WPS_ELECTED,
     wp_prop_term_history := [\<lparr>tl_term = 4, tl_lsn = 80\<rparr>, \<lparr>tl_term = 5, tl_lsn = 100\<rparr>],
     wp_prop_term_start_lsn := 100, wp_donor_last_log_term := 4, wp_donor := Some 0, wp_truncate_lsn := 90,
     wp_available_lsn := at,
     wp_shmem := script_shmem\<lparr>shm_prop_epoch_start_lsn := 100, shm_mine_last_elected_term := 5\<rparr>,
     wp_safekeeper := [script_sk0\<lparr>wsk_state := SS_ACTIVE, wsk_active_state := SS_ACTIVE_SEND,
       wsk_greet_response := \<lparr>cag_node_id = 1, cag_mconf = c_mconf_zero, cag_term = 4\<rparr>,
       wsk_vote_response := \<lparr>cvr_generation = 0, cvr_term = 5, cvr_vote_given = 1, cvr_flush_lsn = 100,
         cvr_truncate_lsn = 90, cvr_term_history = [\<lparr>tl_term = 4, tl_lsn = 80\<rparr>]\<rparr>,
       wsk_history_freed := False, wsk_start_streaming_at := 100, wsk_streaming_at := at, wsk_append_request := req\<rparr>],
     wp_world := \<lparr>ws_events = [], ws_incoming = []\<rparr>,
     wp_sent := wp_sent script_p4 @
       (0, PAElected \<lparr>pe_generation = 0, pe_term = 5, pe_start_streaming_at = 100,
         pe_term_history = [\<lparr>tl_term = 4, tl_lsn = 80\<rparr>, \<lparr>tl_term = 5, tl_lsn = 100\<rparr>]\<rparr>, []) # sent\<rparr>"

definition script_p5 :: "wp_script wal_proposer" where
  "script_p5 = script_streaming 100 (script_append 100 100) [(0, PAAppend (script_append 100 100), [])]"

definition script_p6 :: "wp_script wal_proposer" where
  "script_p6 = script_streaming 103 (script_append 100 103)
     [(0, PAAppend (script_append 100 100), []), (0, PAAppend (script_append 100 103), [100, 101, 102])]"

lemmas script_defs = script_api_def script_wait_def script_read_def script_latch_def script_config_def script_shmem_def

lemmas script_eval = prog_defs in_world_def call_def upd_sk_def set_state_def wp_assert_def record_sent_def all_slots_def
  serialize_def PAMessageSerialize_def   script_defs

lemma script_sk0 [simp]:
  "wsk_state script_sk0 = SS_OFFLINE" "wsk_latest_msg_received_at script_sk0 = 0"
  by (simp_all add: script_sk0_def new_safekeeper_def)

lemma script_create: "WalProposerCreate script_api script_config script_shmem script_world = Inr script_p0"
  by code_simp

lemma script_step1: "run_call script_api CallStart script_p0 = (Inr (), script_p1)"
  by (simp add: WalProposerStart_def ResetConnection_def script_eval script_p0_def script_p1_def)

lemma script_twice:
  "run_call api (CallPoll n 2) =
     andthen (poll_iteration api n) (\<lambda>stop. if stop then ret () else
     andthen (poll_iteration api n) (\<lambda>stop. if stop then ret () else throw WpMoreMessages))"
  by (simp add: numeral_2_eq_2 cong: if_cong)

lemmas script_poll = script_twice script_world_def c_mconf_zero_def poll_iteration_def AdvancePollState_def AssertEventsOkForState_def
  SafekeeperStateDesiredEvents_def TimeToReconnect_def ReconnectSafekeepers_def keep_alive_def Let_def

lemma script_step2: "run_call script_api (CallPoll 2 2) script_p1 = (Inr (), script_p2)"
  by (simp del: run_call.simps add: HandleConnectionEvent_def SendStartWALPush_def script_poll script_eval script_p0_def script_p1_def script_p2_def)

lemma script_step3: "run_call script_api (CallPoll 2 2) script_p2 = (Inr (), script_p3)"
  by (simp del: run_call.simps add: RecvStartWALPushResult_def SendProposerGreeting_def BlockingWrite_def script_poll script_eval script_p0_def script_p2_def script_p3_def)

lemma script_greeting_read:
  "read_greeting plain_pq 3 old script_greeting = (Inr \<lparr>cag_node_id = 1, cag_mconf = c_mconf_zero, cag_term = 4\<rparr>, [])"
  using plain_pq.read_greeting_put [of 3 "\<lparr>ag_node_id = 1, ag_mconf = configuration_empty, ag_term = 4\<rparr>" script_greeting old]
  by (simp del: run_call.simps add: script_greeting_def script_answer_def serialize_msg_def SK_PROTO_VERSION_3_def conf_sendable_def
      mconf_fits_def configuration_empty_def c_greeting_of_def c_mconf_of_def c_mconf_zero_def set_sendable_def
      member_set_empty_def member_set_ok_def INVALID_GENERATION_def)

lemma script_vote_read:
  "read_vote_response plain_pq 3 old script_vote = (Inr \<lparr>cvr_generation = 0, cvr_term = 5, cvr_vote_given = 1,
     cvr_flush_lsn = 100, cvr_truncate_lsn = 90, cvr_term_history = [\<lparr>tl_term = 4, tl_lsn = 80\<rparr>]\<rparr>, [])"
  using plain_pq.read_vote_response_put [of 3 "\<lparr>vp_generation = 0, vp_term = 5, vp_vote_given = True, vp_flush_lsn = 100,
     vp_truncate_lsn = 90, vp_term_history = [\<lparr>tl_term = 4, tl_lsn = 80\<rparr>]\<rparr>" script_vote old]
  by (simp del: run_call.simps add: script_vote_def script_answer_def serialize_msg_def SK_PROTO_VERSION_3_def c_vote_response_of_def
      bool_byte_def)

lemmas script_receive = AsyncReadMessage_def AsyncRead_def script_greeting_read script_vote_read

lemma script_step4: "run_call script_api (CallPoll 2 2) script_p3 = (Inr (), script_p4)"
  by (simp del: run_call.simps add: RecvAcceptorGreeting_def adopt_mconf_def UpdateMemberSafekeeperPtr_def collect_term_def TermsCollected_def
      SendVoteRequest_def BlockingWrite_def sk_in_def legacy_def WalProposerGenerationsEnabled_def INVALID_GENERATION_def
      script_receive script_poll script_eval script_p0_def script_p3_def script_p4_def)

lemma script_once:
  "run_call api (CallPoll n (Suc 0)) =
     andthen (poll_iteration api n) (\<lambda>stop. if stop then ret () else throw WpMoreMessages)"
  by (simp cong: if_cong)

lemmas script_send = SendMessageToNode_def handle_active_def SendAppendRequests_def send_bound_def
  send_loop.simps(2) [of _ _ "pred_numeral k" for k, folded numeral_eq_Suc]
  send_prepared_def write_prepared_def prepare_next_def PrepareAppendRequest_def sk_in_def MAX_SEND_SIZE_def

lemmas script_states = script_streaming_def script_append_def script_p0_def script_p4_def

lemma script_step5: "run_call script_api (CallPoll 2 1) script_p4 = (Inl (WpStreaming 100), script_p5)"
  by (simp del: run_call.simps add: script_once RecvVoteResponse_def VotesCollected_def consider_vote_def vote_history_def GetHighestTerm_def
      HandleElectedProposer_def ProcessPropStartPos_def fix_start_lsn_def basebackup_matches_def SkipXLogPageHeader_def
      XLOG_BLCKSZ_C_def SendProposerElected_def streaming_start_def AsyncWrite_def StartStreaming_def UpdateDonorShmem_def
      legacy_def WalProposerGenerationsEnabled_def INVALID_GENERATION_def lsn_invalid_def
      script_send script_receive script_poll script_eval script_states script_p5_def)

lemma script_step6: "run_call script_api (CallBroadcast 100 103) script_p5 = (Inr (), script_p6)"
  by (simp add: WalProposerBroadcast_def BroadcastAppendRequest_def script_wal_def c_mconf_zero_def Let_def
      script_send script_eval script_states script_p5_def script_p6_def)

lemma script_elected: "wp_steps script_api script_p0 (Inl (WpStreaming 100)) script_p5"
  by (rule steps_call [OF _ _ script_step5], rule steps_call [OF _ _ script_step4], rule steps_call [OF _ _ script_step3],
      rule steps_call [OF _ _ script_step2], rule steps_call [OF _ _ script_step1], rule steps_refl) simp_all

lemma script_streamed: "wp_steps script_api script_p0 (Inr ()) script_p6"
  by (rule steps_call [OF script_elected _ script_step6]) simp

lemma script_on: "wp_steps script_api script_p5 (Inr ()) script_p6"
  by (rule steps_call [OF steps_refl _ script_step6]) simp

lemma script_hooks: "reads_wal script_api script_wal" "events_for script_api (length (wp_safekeeper script_p0))"
  using script.wal_read script.wait by (auto simp: reads_wal_def events_for_def script_p0_def)

section \<open>Witnesses\<close>

theorem streamed_is_wal_witness:
  "wp_steps script_api script_p0 (Inr ()) script_p6 \<and> streamed 0 (wp_sent script_p6) = Some (100, [100, 101, 102])
   \<and> (\<exists>e. stream_pos 0 (wp_sent script_p6) = Some e \<and> 100 \<le> e \<and> e \<le> wp_available_lsn script_p6
        \<and> [100, 101, 102] = map script_wal [unat (100 :: lsn) ..< unat e])"
proof -
  have "streamed 0 (wp_sent script_p6) = Some (100, [100, 101, 102])"
    by (simp add: streamed_def script_p6_def script_states)
  then show ?thesis
    using streamed_is_wal [OF script_hooks script_create script_streamed] script_streamed
    by blast
qed

theorem sent_in_one_term_witness:
  "\<exists>h wal. (0, PAAppend h, wal) \<in> set (wp_sent script_p6) \<and> ah_term h = wp_prop_term script_p6 \<and> ah_end_lsn h = 103
     \<and> ah_end_lsn h \<le> wp_available_lsn script_p6"
proof -
  have "(0, PAAppend (script_append 100 103), [100, 101, 102]) \<in> set (wp_sent script_p6)"
    by (simp add: script_p6_def script_streaming_def)
  moreover have "ah_end_lsn (script_append 100 103) = 103" by (simp add: script_append_def)
  ultimately show ?thesis
    using sent_in_one_term [OF script_hooks script_create script_streamed,
        of 0 "PAAppend (script_append 100 103)" "[100, 101, 102]"]
    by auto
qed

theorem run_progress_witness:
  "wp_steps script_api script_p5 (Inr ()) script_p6 \<and> wp_commit_lsn script_p5 \<le> wp_commit_lsn script_p6
   \<and> take 4 (wp_sent script_p6) = wp_sent script_p5 \<and> wp_prop_term script_p6 = 5
   \<and> wp_prop_term_history script_p6 = wp_prop_term_history script_p5"
proof -
  have p5: "wp_phase script_p5 = WPS_ELECTED" "wp_prop_term script_p5 = 5" "length (wp_sent script_p5) = 4"
    by (simp_all add: script_p5_def script_states)
  show ?thesis
    using run_progress [OF script_hooks script_create script_elected script_on]
      script_on p5
    by simp
qed

theorem SendAppendRequests_done_witness:
  "\<exists>r q. SendAppendRequests script_api 0 (script_p5\<lparr>wp_available_lsn := 103\<rparr>) = (r, q)
     \<and> r \<noteq> Inl WpMoreMessages \<and> r \<noteq> Inl WpAssert"
proof -
  have "streamable 0 (script_p5\<lparr>wp_available_lsn := 103\<rparr>)"
    by (simp add: streamable_def script_p5_def script_states)
  moreover have "unat (wp_available_lsn (script_p5\<lparr>wp_available_lsn := 103\<rparr>)) + MAX_SEND_SIZE < 2 ^ 64"
    by (simp add: MAX_SEND_SIZE_def)
  ultimately show ?thesis
    using SendAppendRequests_done [of 0 "script_p5\<lparr>wp_available_lsn := 103\<rparr>" script_api]
    by (metis prod.exhaust)
qed

text \<open>Three safekeepers have acknowledged positions, and have voted.\<close>

definition sample_acks :: "wp_script wal_proposer" where
  "sample_acks = script_p6\<lparr>wp_quorum := 2, wp_safekeeper := map (\<lambda>flush. script_sk0\<lparr>wsk_append_response :=
     (wsk_append_response script_sk0)\<lparr>car_flush_lsn := flush\<rparr>\<rparr>) [100, 103, 101]\<rparr>"

theorem commit_is_acknowledged_witness:
  "wp_shape sample_acks \<and> GetAcknowledgedByQuorumWALPosition sample_acks = (Inr 101, sample_acks)
   \<and> majority_acks sample_acks 101 \<and> \<not> majority_acks sample_acks 102"
proof -
  have shape: "wp_shape sample_acks"
    by (simp add: wp_shape_def sample_acks_def script_p6_def script_states)
  have run: "GetAcknowledgedByQuorumWALPosition sample_acks = (Inr 101, sample_acks)"
    by (simp add: GetAcknowledgedByQuorumWALPosition_def prog_defs sample_acks_def script_p6_def script_states legacy_def
        WalProposerGenerationsEnabled_def INVALID_GENERATION_def c_mconf_zero_def all_slots_def acked_def quorum_lsn_def
        upt_conv_Cons Let_def)
  have "wp_prop_term_start_lsn sample_acks = 100" by (simp add: sample_acks_def script_p6_def script_states)
  then show ?thesis using commit_is_acknowledged [OF shape run] shape run by (auto dest: spec [of _ 102])
qed

definition sample_votes :: "wp_script wal_proposer" where
  "sample_votes = script_p4\<lparr>wp_quorum := 2, wp_safekeeper := map (\<lambda>(state, th, flush). script_sk0\<lparr>wsk_state := state,
     wsk_history_freed := False, wsk_vote_response := \<lparr>cvr_generation = 0, cvr_term = 5, cvr_vote_given = 1,
       cvr_flush_lsn = flush, cvr_truncate_lsn = 90, cvr_term_history = th\<rparr>\<rparr>)
     [(SS_WAIT_ELECTED, [\<lparr>tl_term = 3, tl_lsn = 80\<rparr>], 200), (SS_WAIT_VERDICT, [], 0),
      (SS_WAIT_ELECTED, [\<lparr>tl_term = 4, tl_lsn = 80\<rparr>], 100)]\<rparr>"


theorem elected_point_agrees_witness:
  "\<exists>s lcp. streaming_start (pe_term_history sample_elected) 1 [\<lparr>tl_term = 0, tl_lsn = sample_commit\<rparr>] sample_commit
        = Some sample_commit
     \<and> streaming_point sample_ctrl sample_wal sample_elected s = (Inr lcp, s) \<and> tl_lsn lcp = sample_commit"
proof -
  obtain f where f: "sample_ctl f" using sample_disk by blast
  obtain c where c: "fst_state c = sample_state sample_commit"
    "cf_durable plain_codec c {sample_state sample_commit}" "fs_faults (fst_fs c) = []"
    using restore_after_crash [OF f crashed_settled] by auto
  define s where "s = \<lparr>sk_term_start_lsn = 0, sk_state = timeline_state_new sample_ctrl c,
     sk_wal_store = sample_storage, sk_node_id = 1\<rparr>"
  have pers: "pers sample_ctrl s = sample_state sample_commit"
    using c(1) by (simp add: s_def timeline_state_new_def file_ctrl_ops_def pers_def ts_state_def)
  have flush: "flush_lsn sample_ctrl sample_wal s = sample_commit"
    using pers by (simp add: flush_lsn_def sample_history) (simp add: s_def phys_wal_ops_def sample_storage_def)
  have history: "get_term_history sample_ctrl sample_wal s = [\<lparr>tl_term = 0, tl_lsn = sample_commit\<rparr>]"
    by (simp add: get_term_history_def pers flush sample_history)
  let ?v = "\<lparr>vp_generation = 0, vp_term = 1, vp_vote_given = True, vp_flush_lsn = sample_commit, vp_truncate_lsn = 0,
    vp_term_history = [\<lparr>tl_term = 0, tl_lsn = sample_commit\<rparr>]\<rparr>"
  have start: "streaming_start (pe_term_history sample_elected) 1 [\<lparr>tl_term = 0, tl_lsn = sample_commit\<rparr>] sample_commit
      = Some sample_commit"
    by (simp add: streaming_start_def sample_elected_def)
  have "th_wf (pe_term_history sample_elected)" by (simp add: sample_elected_def th_wf_def)
  then show ?thesis
    using elected_point_agrees [of "pe_term_history sample_elected" 1 ?v sample_ctrl sample_wal s INITIAL_GENERATION]
      history flush start by (auto simp: sample_elected_def)
qed

end
