(* ===== verification/Ordered_Map.thy ===== *)
theory Ordered_Map
  imports Main
begin

text \<open>
  Ordered maps as lists of entries in the order of their keys: the model of the standard
  library's BTreeMap, and the interface of the persistent map of the rpds crate, whose
  entries an insertion and a removal change in the same way.
\<close>

section \<open>Entries\<close>

fun om_insert :: "'k::linorder \<Rightarrow> 'v \<Rightarrow> ('k \<times> 'v) list \<Rightarrow> ('k \<times> 'v) list" where
  "om_insert k v [] = [(k, v)]"
| "om_insert k v ((k', v') # es) =
     (if k < k' then (k, v) # (k', v') # es else if k = k' then (k, v) # es else (k', v') # om_insert k v es)"

definition om_remove :: "'k \<Rightarrow> ('k \<times> 'v) list \<Rightarrow> ('k \<times> 'v) list" where
  "om_remove k es = filter (\<lambda>e. fst e \<noteq> k) es"

text \<open>\<open>range(..=k).next_back()\<close> and \<open>range(lo..hi)\<close>\<close>

definition om_floor :: "'k::linorder \<Rightarrow> ('k \<times> 'v) list \<Rightarrow> ('k \<times> 'v) option" where
  "om_floor k es = (case filter (\<lambda>e. fst e \<le> k) es of [] \<Rightarrow> None | xs \<Rightarrow> Some (last xs))"

definition om_range :: "'k::linorder \<Rightarrow> 'k \<Rightarrow> ('k \<times> 'v) list \<Rightarrow> ('k \<times> 'v) list" where
  "om_range lo hi es = filter (\<lambda>e. lo \<le> fst e \<and> fst e < hi) es"

definition om_ok :: "('k::linorder \<times> 'v) list \<Rightarrow> bool" where
  "om_ok es \<longleftrightarrow> sorted_wrt (<) (map fst es)"

lemma om_ok_Cons [simp]: "om_ok ((k, v) # es) \<longleftrightarrow> (\<forall>e \<in> set es. k < fst e) \<and> om_ok es"
  by (auto simp: om_ok_def)

lemma om_ok_Nil [simp]: "om_ok []"
  by (simp add: om_ok_def)

lemma om_ok_append: "om_ok (xs @ ys) \<longleftrightarrow> om_ok xs \<and> om_ok ys \<and> (\<forall>x \<in> set xs. \<forall>y \<in> set ys. fst x < fst y)"
  by (auto simp: om_ok_def sorted_wrt_append)

lemma keys_om_insert [simp]: "fst ` set (om_insert k v es) = insert k (fst ` set es)"
  by (induction k v es rule: om_insert.induct) auto

lemma om_insert_bound: "(\<forall>e \<in> set (om_insert k v es). x < fst e) \<longleftrightarrow> x < k \<and> (\<forall>e \<in> set es. x < fst e)" for x :: "'k::linorder"
  using keys_om_insert [of k v es] by (metis (no_types, lifting) image_iff insert_iff)

lemma om_ok_insert [simp]: "om_ok es \<Longrightarrow> om_ok (om_insert k v es)"
  by (induction k v es rule: om_insert.induct) (auto simp: om_insert_bound)

lemma om_ok_filter: "om_ok es \<Longrightarrow> om_ok (filter P es)"
  by (induction es) auto

lemma om_ok_remove [simp]: "om_ok es \<Longrightarrow> om_ok (om_remove k es)"
  by (simp add: om_remove_def om_ok_filter)

lemma om_ok_range [simp]: "om_ok es \<Longrightarrow> om_ok (om_range lo hi es)"
  by (simp add: om_range_def om_ok_filter)

lemma set_om_insert: "om_ok es \<Longrightarrow> set (om_insert k v es) = insert (k, v) {e \<in> set es. fst e \<noteq> k}"
  by (induction k v es rule: om_insert.induct) auto

lemma om_split: "om_ok es \<Longrightarrow> es = filter (\<lambda>e. fst e < x) es @ filter (\<lambda>e. x \<le> fst e) es"
proof (induction es)
  case (Cons e es)
  show ?case
  proof (cases "fst e < x")
    case True
    then show ?thesis using Cons by (cases e) simp
  next
    case False
    then have "filter (\<lambda>e. fst e < x) (e # es) = []" "filter (\<lambda>e. x \<le> fst e) (e # es) = e # es"
      using Cons.prems by (cases e; force simp: filter_empty_conv filter_id_conv)+
    then show ?thesis by (metis append_Nil)
  qed
qed simp

lemma om_split_range:
  assumes "om_ok es" "lo \<le> hi"
  shows "es = filter (\<lambda>e. fst e < lo) es @ om_range lo hi es @ filter (\<lambda>e. hi \<le> fst e) es"
proof -
  let ?b = "filter (\<lambda>e. lo \<le> fst e) es"
  have "filter (\<lambda>e. fst e < hi) ?b = om_range lo hi es" "filter (\<lambda>e. hi \<le> fst e) ?b = filter (\<lambda>e. hi \<le> fst e) es"
    using assms(2) by (auto simp: om_range_def intro!: filter_cong)
  then show ?thesis using om_split [OF assms(1), of lo] om_split [of ?b hi] assms(1) by (simp add: om_ok_filter)
qed

text \<open>Replacing the value of a key.\<close>

lemma om_insert_present:
  "om_ok es \<Longrightarrow> k \<in> fst ` set es \<Longrightarrow> om_insert k v es = map (\<lambda>e. if fst e = k then (k, v) else e) es"
proof (induction k v es rule: om_insert.induct)
  case (2 k v k' v' es)
  have "map (\<lambda>e. if fst e = k then (k, v) else e) es = es" if "k \<notin> fst ` set es"
    using that by (induction es) auto
  with 2 show ?case by force
qed simp

section \<open>The value in force at a position\<close>

text \<open>\<open>d\<close> before the first entry, and from an entry on its value.\<close>

fun cov :: "'v \<Rightarrow> ('k::linorder \<times> 'v) list \<Rightarrow> 'k \<Rightarrow> 'v" where
  "cov d [] k = d"
| "cov d ((k', v) # es) k = (if k' \<le> k then cov v es k else d)"

lemma cov_below: "(\<forall>e \<in> set es. k < fst e) \<Longrightarrow> cov d es k = d"
  by (cases es) auto

lemma cov_default: "om_ok es \<Longrightarrow> \<exists>e \<in> set es. fst e \<le> k \<Longrightarrow> cov d es k = cov d' es k"
  by (cases es) force+

lemma cov_append: "om_ok (xs @ ys) \<Longrightarrow> cov d (xs @ ys) k = (if (\<exists>y \<in> set ys. fst y \<le> k) then cov d ys k else cov d xs k)"
proof (induction xs arbitrary: d)
  case Nil
  then show ?case by (auto intro!: cov_below simp: not_le)
next
  case (Cons x xs)
  obtain k' v where x: "x = (k', v)" by (cases x)
  show ?case
  proof (cases "\<exists>y \<in> set ys. fst y \<le> k")
    case True
    then have "k' \<le> k" using Cons.prems by (force simp: x om_ok_append)
    moreover have "cov v ys k = cov d ys k" using True Cons.prems by (intro cov_default) (auto simp: x om_ok_append)
    ultimately show ?thesis using Cons True by (simp add: x)
  qed (use Cons in \<open>simp add: x\<close>)
qed

lemma cov_middle:
  "om_ok (xs @ ys @ zs) \<Longrightarrow> \<exists>e \<in> set ys. fst e \<le> k \<Longrightarrow> \<forall>e \<in> set zs. \<not> fst e \<le> k \<Longrightarrow>
     cov d (xs @ ys @ zs) k = cov d ys k"
  by (subst cov_append, assumption, subst cov_append) (auto simp: om_ok_append)

lemma om_floor_cov: "om_ok es \<Longrightarrow> cov d es k = (case om_floor k es of None \<Rightarrow> d | Some e \<Rightarrow> snd e)"
proof (induction es arbitrary: d)
  case (Cons e es)
  obtain k' v where e: "e = (k', v)" by (cases e)
  show ?case
  proof (cases "k' \<le> k")
    case True
    then show ?thesis
      using Cons.IH [of v] Cons.prems by (auto simp: e om_floor_def split: list.splits)
  next
    case False
    then have "filter (\<lambda>x. fst x \<le> k) (e # es) = []" using Cons.prems by (auto simp: e filter_empty_conv)
    then show ?thesis using False by (simp add: e om_floor_def)
  qed
qed (simp add: om_floor_def)

lemma om_floor_alt: "om_floor k es = (let xs = filter (\<lambda>e. fst e \<le> k) es in if xs = [] then None else Some (last xs))"
  by (simp add: om_floor_def Let_def split: list.split)

lemma om_floor_None: "om_floor k es = None \<longleftrightarrow> (\<forall>e \<in> set es. k < fst e)"
  by (simp add: om_floor_alt Let_def filter_empty_conv not_le)

lemma om_floor_Some: "om_floor k es = Some e \<Longrightarrow> e \<in> set es \<and> fst e \<le> k"
  using last_in_set [of "filter (\<lambda>e. fst e \<le> k) es"] by (auto simp: om_floor_alt Let_def split: if_splits)

text \<open>A new entry with the value that is in force changes nothing.\<close>

lemma cov_insert_same: "om_ok es \<Longrightarrow> cov d (om_insert k (cov d es k) es) x = cov d es x"
proof (induction es arbitrary: d)
  case (Cons e es)
  obtain k' v where e: "e = (k', v)" by (cases e)
  consider "k < k'" | "k = k'" | "k' < k" by (rule linorder_cases)
  then show ?case
  proof cases
    case 1
    then show ?thesis by (auto simp: e)
  next
    case 2
    then show ?thesis using Cons.prems by (simp add: e cov_below)
  next
    case 3
    then show ?thesis using Cons.IH [of v] Cons.prems by (auto simp: e)
  qed
qed simp

text \<open>Between two positions the value is the one in force at the first or that of an entry after it.\<close>

lemma cov_at: "om_ok es \<Longrightarrow> (k, v) \<in> set es \<Longrightarrow> cov d es k = v"
proof (induction es arbitrary: d)
  case (Cons e es)
  then show ?case by (cases e) (auto simp: cov_below)
qed simp

lemma cov_range: "om_ok es \<Longrightarrow> lo \<le> x \<Longrightarrow> x < hi \<Longrightarrow> cov d es x = cov (cov d es lo) (om_range lo hi es) x"
proof (induction es arbitrary: d)
  case (Cons e es)
  obtain k v where e: "e = (k, v)" by (cases e)
  have IH: "cov v es x = cov (cov v es lo) (om_range lo hi es) x" using Cons by (simp add: e)
  have later: "cov v es lo = v" if "lo \<le> k" using Cons.prems that by (force simp: e intro: cov_below)
  consider "k < lo" | "lo \<le> k" "k < hi" | "hi \<le> k" by fastforce
  then show ?case
  proof cases
    case 1
    then have "k \<le> lo" "k \<le> x" "\<not> lo \<le> k" using Cons.prems by auto
    then show ?thesis using IH by (simp add: e om_range_def)
  next
    case 2
    then show ?thesis using IH later Cons.prems(2) by (auto simp: e om_range_def)
  next
    case 3
    then have "om_range lo hi (e # es) = []" using Cons.prems by (force simp: e om_range_def filter_empty_conv)
    moreover have "\<not> k \<le> x" "\<not> k \<le> lo" using 3 Cons.prems by auto
    ultimately show ?thesis by (simp add: e)
  qed
qed (simp add: om_range_def)

lemma cov_value: "cov d es x = d \<or> (\<exists>e \<in> set es. cov d es x = snd e)"
proof (induction es arbitrary: d)
  case (Cons e es)
  then show ?case using Cons [of "snd e"] by (cases e) auto
qed simp

lemma cov_all_range:
  assumes "om_ok es" "lo < hi"
  shows "(\<forall>x. lo \<le> x \<and> x < hi \<longrightarrow> P (cov d es x)) \<longleftrightarrow> P (cov d es lo) \<and> (\<forall>e \<in> set (om_range lo hi es). P (snd e))"
proof safe
  assume all: "\<forall>x. lo \<le> x \<and> x < hi \<longrightarrow> P (cov d es x)"
  then show "P (cov d es lo)" using assms(2) by simp
  fix k v assume "(k, v) \<in> set (om_range lo hi es)"
  then have "(k, v) \<in> set es" "lo \<le> k" "k < hi" by (auto simp: om_range_def)
  then show "P (snd (k, v))" using all cov_at [OF assms(1)] by fastforce
next
  fix x assume "P (cov d es lo)" "\<forall>e \<in> set (om_range lo hi es). P (snd e)" "lo \<le> x" "x < hi"
  then show "P (cov d es x)" using cov_range [OF assms(1), of lo x hi d] cov_value [of "cov d es lo" "om_range lo hi es" x] by metis
qed

lemma cov_map: "cov (f d) (map (\<lambda>(k, v). (k, f v)) es) x = f (cov d es x)"
  by (induction d es x rule: cov.induct) auto

section \<open>The interface\<close>

record ('k, 'v, 'm) omap_ops =
  omo_empty :: 'm
  omo_insert :: "'k \<Rightarrow> 'v \<Rightarrow> 'm \<Rightarrow> 'm"
  omo_remove :: "'k \<Rightarrow> 'm \<Rightarrow> 'm"
  omo_entries :: "'m \<Rightarrow> ('k \<times> 'v) list" \<comment> \<open>iteration in the order of the keys\<close>

locale ordered_map =
  fixes ops :: "('k::linorder, 'v, 'm) omap_ops"
  assumes entries_empty: "omo_entries ops (omo_empty ops) = []"
    and entries_insert: "omo_entries ops (omo_insert ops k v m) = om_insert k v (omo_entries ops m)"
    and entries_remove: "omo_entries ops (omo_remove ops k m) = om_remove k (omo_entries ops m)"

text \<open>Lists of entries are such a map.\<close>

definition list_ops :: "('k::linorder, 'v, ('k \<times> 'v) list) omap_ops" where
  "list_ops = \<lparr>omo_empty = [], omo_insert = om_insert, omo_remove = om_remove, omo_entries = (\<lambda>es. es)\<rparr>"

interpretation entry_lists: ordered_map list_ops
  by unfold_locales (simp_all add: list_ops_def)

end
