(* ===== verification/Page_Key.thy ===== *)
theory Page_Key
  imports Byte_Codec Text_Format "HOL-Library.Product_Lexorder"
begin

unbundle bit_operations_syntax

text \<open>
  The keys of the pageserver's key-value store (pageserver_api/src/key.rs): their fields and
  order, the 128-bit form used in memory, the 18-byte and the hexadecimal form, and the layout
  of the key space.
\<close>

section \<open>Keys\<close>

record pkey =
  field1 :: u8
  field2 :: u32
  field3 :: u32
  field4 :: u32
  field5 :: u8
  field6 :: u32

definition mk_key :: "u8 \<Rightarrow> u32 \<Rightarrow> u32 \<Rightarrow> u32 \<Rightarrow> u8 \<Rightarrow> u32 \<Rightarrow> pkey" where
  "mk_key f1 f2 f3 f4 f5 f6 = \<lparr>field1 = f1, field2 = f2, field3 = f3, field4 = f4, field5 = f5, field6 = f6\<rparr>"

text \<open>The derived order compares the fields in turn.\<close>

definition key_fields :: "pkey \<Rightarrow> u8 \<times> u32 \<times> u32 \<times> u32 \<times> u8 \<times> u32" where
  "key_fields k = (field1 k, field2 k, field3 k, field4 k, field5 k, field6 k)"

definition key_less :: "pkey \<Rightarrow> pkey \<Rightarrow> bool" where
  "key_less k k' \<longleftrightarrow> key_fields k < key_fields k'"

type_synonym 'a range = "'a \<times> 'a" \<comment> \<open>start and end, the end excluded\<close>

definition range_contains :: "pkey range \<Rightarrow> pkey \<Rightarrow> bool" where
  "range_contains r k \<longleftrightarrow> \<not> key_less k (fst r) \<and> key_less k (snd r)"

definition KEY_MIN :: pkey where "KEY_MIN = mk_key 0 0 0 0 0 0"

definition KEY_MAX :: pkey where "KEY_MAX = mk_key 0xFF 0xFFFFFFFF 0xFFFFFFFF 0xFFFFFFFF 0xFF 0xFFFFFFFF"

definition METADATA_KEY_BEGIN_PREFIX :: u8 where "METADATA_KEY_BEGIN_PREFIX = 0x60"

definition METADATA_KEY_END_PREFIX :: u8 where "METADATA_KEY_END_PREFIX = 0x7F"

definition RELATION_SIZE_PREFIX :: u8 where "RELATION_SIZE_PREFIX = 0x61"

definition AUX_KEY_PREFIX :: u8 where "AUX_KEY_PREFIX = 0x62"

definition REPL_ORIGIN_KEY_PREFIX :: u8 where "REPL_ORIGIN_KEY_PREFIX = 0x63"

definition REL_DIR_KEY_PREFIX :: u8 where "REL_DIR_KEY_PREFIX = 0x65"

section \<open>The 128-bit form\<close>

definition is_i128_representable :: "pkey \<Rightarrow> bool" where
  "is_i128_representable k \<longleftrightarrow> field2 k \<le> 0xFFFF \<or> field2 k = 0xFFFFFFFF \<or> field2 k = 0x22222222"

definition i128_of :: "pkey \<Rightarrow> int" where
  "i128_of k = push_bit 120 (uint (field1 k AND 0x7F)) OR push_bit 104 (uint (field2 k AND 0xFFFF))
     OR push_bit 72 (uint (field3 k)) OR push_bit 40 (uint (field4 k)) OR push_bit 32 (uint (field5 k)) OR uint (field6 k)"

text \<open>No value: the assertion fails.\<close>

definition to_i128 :: "pkey \<Rightarrow> int option" where
  "to_i128 k = (if is_i128_representable k then Some (i128_of k) else None)"

definition from_i128 :: "int \<Rightarrow> pkey" where
  "from_i128 x = mk_key (word_of_int (drop_bit 120 x AND 0x7F)) (word_of_int (drop_bit 104 x AND 0xFFFF))
     (word_of_int (drop_bit 72 x)) (word_of_int (drop_bit 40 x)) (word_of_int (drop_bit 32 x)) (word_of_int x)"

definition is_valid_key_on_write_path :: "pkey \<Rightarrow> bool" where
  "is_valid_key_on_write_path k = is_i128_representable k"

definition DEFAULTTABLESPACE_OID :: u32 where "DEFAULTTABLESPACE_OID = 1663"

definition GLOBALTABLESPACE_OID :: u32 where "GLOBALTABLESPACE_OID = 1664"

definition is_valid_key_on_write_path_strong :: "pkey \<Rightarrow> bool" where
  "is_valid_key_on_write_path_strong k \<longleftrightarrow> is_i128_representable k
     \<and> \<not> (field1 k = 0 \<and> \<not> (field2 k = GLOBALTABLESPACE_OID \<or> field2 k = DEFAULTTABLESPACE_OID \<or> field2 k = 0))"

section \<open>Successor\<close>

text \<open>A carry runs through the fields; past the first one it panics.\<close>

definition key_add :: "pkey \<Rightarrow> u32 \<Rightarrow> pkey option" where
  "key_add k x =
     (let (v6, c6) = overflowing_add (field6 k) x; k6 = k\<lparr>field6 := v6\<rparr> in
      if \<not> c6 then Some k6 else
      let (v5, c5) = overflowing_add (field5 k) 1; k5 = k6\<lparr>field5 := v5\<rparr> in
      if \<not> c5 then Some k5 else
      let (v4, c4) = overflowing_add (field4 k) 1; k4 = k5\<lparr>field4 := v4\<rparr> in
      if \<not> c4 then Some k4 else
      let (v3, c3) = overflowing_add (field3 k) 1; k3 = k4\<lparr>field3 := v3\<rparr> in
      if \<not> c3 then Some k3 else
      let (v2, c2) = overflowing_add (field2 k) 1; k2 = k3\<lparr>field2 := v2\<rparr> in
      if \<not> c2 then Some k2 else
      let (v1, c1) = overflowing_add (field1 k) 1 in
      if \<not> c1 then Some (k2\<lparr>field1 := v1\<rparr>) else None)"

definition key_next :: "pkey \<Rightarrow> pkey option" where
  "key_next k = key_add k 1"

section \<open>Bytes and text\<close>

definition write_to_byte_slice :: "pkey \<Rightarrow> bytes" where
  "write_to_byte_slice k = [field1 k] @ put_be 4 (field2 k) @ put_be 4 (field3 k) @ put_be 4 (field4 k) @ [field5 k] @ put_be 4 (field6 k)"

text \<open>The slice has 18 bytes; a shorter one panics.\<close>

definition from_slice :: "bytes \<Rightarrow> pkey option" where
  "from_slice b =
     (if length b < 18 then None
      else Some (mk_key (b ! 0) (of_be (take 4 (drop 1 b))) (of_be (take 4 (drop 5 b))) (of_be (take 4 (drop 9 b))) (b ! 13)
        (of_be (take 4 (drop 14 b)))))"

definition key_display :: "pkey \<Rightarrow> string" where
  "key_display k = hex_upper_pad 2 (unat (field1 k)) @ hex_upper_pad 8 (unat (field2 k)) @ hex_upper_pad 8 (unat (field3 k))
     @ hex_upper_pad 8 (unat (field4 k)) @ hex_upper_pad 2 (unat (field5 k)) @ hex_upper_pad 8 (unat (field6 k))"

text \<open>A part of the text as a number below a limit; the slicing is by bytes, as for ASCII text.\<close>

definition hex_part :: "nat \<Rightarrow> nat \<Rightarrow> nat \<Rightarrow> string \<Rightarrow> nat option" where
  "hex_part lim i j s = from_str_radix16 lim (take (j - i) (drop i s))"

definition from_hex :: "string \<Rightarrow> pkey option" where
  "from_hex s =
     (if length s \<noteq> 36 then None
      else case (hex_part 256 0 2 s, hex_part (2 ^ 32) 2 10 s, hex_part (2 ^ 32) 10 18 s, hex_part (2 ^ 32) 18 26 s,
          hex_part 256 26 28 s, hex_part (2 ^ 32) 28 36 s) of
        (Some f1, Some f2, Some f3, Some f4, Some f5, Some f6) \<Rightarrow>
          Some (mk_key (of_nat f1) (of_nat f2) (of_nat f3) (of_nat f4) (of_nat f5) (of_nat f6))
      | _ \<Rightarrow> None)"

text \<open>Metadata keys are given by 16 bytes, the 128-bit form.\<close>

definition is_metadata_key_slice :: "bytes \<Rightarrow> bool" where
  "is_metadata_key_slice b \<longleftrightarrow> METADATA_KEY_BEGIN_PREFIX \<le> b ! 0 \<and> b ! 0 < METADATA_KEY_END_PREFIX"

definition is_metadata_key :: "pkey \<Rightarrow> bool" where
  "is_metadata_key k \<longleftrightarrow> METADATA_KEY_BEGIN_PREFIX \<le> field1 k \<and> field1 k < METADATA_KEY_END_PREFIX"

definition from_metadata_key :: "bytes \<Rightarrow> pkey option" where
  "from_metadata_key b =
     (if length b = 16 \<and> is_metadata_key_slice b then Some (from_i128 (uint (of_be b :: 128 word))) else None)"

section \<open>Relations\<close>

record reltag =
  forknum :: u8
  spcnode :: u32
  dbnode :: u32
  relnode :: u32

datatype slru_kind = Clog | MultiXactMembers | MultiXactOffsets

definition FSM_FORKNUM :: u8 where "FSM_FORKNUM = 1"

definition VISIBILITYMAP_FORKNUM :: u8 where "VISIBILITYMAP_FORKNUM = 2"

definition INIT_FORKNUM :: u8 where "INIT_FORKNUM = 3"

definition DBDIR_KEY :: pkey where "DBDIR_KEY = mk_key 0 0 0 0 0 0"

definition dbdir_key_range :: "u32 \<Rightarrow> u32 \<Rightarrow> pkey range" where
  "dbdir_key_range spc db = (mk_key 0 spc db 0 0 0, mk_key 0 spc db 0xffffffff 0xff 0xffffffff)"

definition relmap_file_key :: "u32 \<Rightarrow> u32 \<Rightarrow> pkey" where
  "relmap_file_key spc db = mk_key 0 spc db 0 0 0"

definition rel_dir_to_key :: "u32 \<Rightarrow> u32 \<Rightarrow> pkey" where
  "rel_dir_to_key spc db = mk_key 0 spc db 0 0 1"

definition rel_tag_sparse_key :: "u32 \<Rightarrow> u32 \<Rightarrow> u32 \<Rightarrow> u8 \<Rightarrow> pkey" where
  "rel_tag_sparse_key spc db rel fork = mk_key REL_DIR_KEY_PREFIX spc db rel fork 1"

definition rel_tag_sparse_key_range :: "u32 \<Rightarrow> u32 \<Rightarrow> pkey range" where
  "rel_tag_sparse_key_range spc db = (mk_key REL_DIR_KEY_PREFIX spc db 0 0 0,
     mk_key REL_DIR_KEY_PREFIX spc db 0xffffffff 0xff 0xffffffff)"

definition rel_block_to_key :: "reltag \<Rightarrow> u32 \<Rightarrow> pkey" where
  "rel_block_to_key rel blknum = mk_key 0 (spcnode rel) (dbnode rel) (relnode rel) (forknum rel) blknum"

definition rel_size_to_key :: "reltag \<Rightarrow> pkey" where
  "rel_size_to_key rel = mk_key 0 (spcnode rel) (dbnode rel) (relnode rel) (forknum rel) 0xffffffff"

definition is_rel_size_key :: "pkey \<Rightarrow> bool" where
  "is_rel_size_key k \<longleftrightarrow> field1 k = 0 \<and> field6 k = 0xffffffff"

definition rel_key_range :: "reltag \<Rightarrow> pkey range" where
  "rel_key_range rel = (mk_key 0 (spcnode rel) (dbnode rel) (relnode rel) (forknum rel) 0,
     mk_key 0 (spcnode rel) (dbnode rel) (relnode rel) (forknum rel + 1) 0)"

section \<open>SLRUs, prepared transactions and the rest\<close>

fun slru_field2 :: "slru_kind \<Rightarrow> u32" where
  "slru_field2 Clog = 0" | "slru_field2 MultiXactMembers = 1" | "slru_field2 MultiXactOffsets = 2"

definition slru_dir_to_key :: "slru_kind \<Rightarrow> pkey" where
  "slru_dir_to_key kind = mk_key 1 (slru_field2 kind) 0 0 0 0"

definition slru_kind_of :: "u32 \<Rightarrow> u32 + slru_kind" where
  "slru_kind_of x = (if x = 0 then Inr Clog else if x = 1 then Inr MultiXactMembers
     else if x = 2 then Inr MultiXactOffsets else Inl x)"

definition slru_dir_kind :: "pkey \<Rightarrow> (u32 + slru_kind) option" where
  "slru_dir_kind k = (if field1 k = 1 \<and> field3 k = 0 \<and> field4 k = 0 \<and> field5 k = 0 \<and> field6 k = 0
     then Some (slru_kind_of (field2 k)) else None)"

definition slru_block_to_key :: "slru_kind \<Rightarrow> u32 \<Rightarrow> u32 \<Rightarrow> pkey" where
  "slru_block_to_key kind segno blknum = mk_key 1 (slru_field2 kind) 1 segno 0 blknum"

definition slru_segment_size_to_key :: "slru_kind \<Rightarrow> u32 \<Rightarrow> pkey" where
  "slru_segment_size_to_key kind segno = mk_key 1 (slru_field2 kind) 1 segno 0 0xffffffff"

definition is_slru_segment_size_key :: "pkey \<Rightarrow> bool" where
  "is_slru_segment_size_key k \<longleftrightarrow> field1 k = 1 \<and> field2 k < 3 \<and> field3 k = 1 \<and> field5 k = 0 \<and> field6 k = 0xffffffff"

definition is_slru_dir_key :: "pkey \<Rightarrow> bool" where
  "is_slru_dir_key k \<longleftrightarrow> slru_dir_kind k \<noteq> None"

definition slru_segment_key_range :: "slru_kind \<Rightarrow> u32 \<Rightarrow> pkey range" where
  "slru_segment_key_range kind segno = (mk_key 1 (slru_field2 kind) 1 segno 0 0, mk_key 1 (slru_field2 kind) 1 segno 1 0)"

definition TWOPHASEDIR_KEY :: pkey where "TWOPHASEDIR_KEY = mk_key 2 0 0 0 0 0"

definition twophase_file_key :: "u64 \<Rightarrow> pkey" where
  "twophase_file_key xid = mk_key 2 0 0 (ucast (drop_bit 40 (xid AND 0xFFFFFF0000000000)))
     (ucast (drop_bit 32 (xid AND 0x000000FF00000000))) (ucast (xid AND 0x00000000FFFFFFFF))"

definition twophase_key_range :: "u64 \<Rightarrow> pkey range" where
  "twophase_key_range xid =
     (let (next_xid, overflowed) = overflowing_add xid 1 in
      (twophase_file_key xid, (twophase_file_key next_xid)\<lparr>field3 := of_bool overflowed\<rparr>))"

definition CONTROLFILE_KEY :: pkey where "CONTROLFILE_KEY = mk_key 3 0 0 0 0 0"

definition CHECKPOINT_KEY :: pkey where "CHECKPOINT_KEY = mk_key 3 0 0 0 0 1"

definition AUX_FILES_KEY :: pkey where "AUX_FILES_KEY = mk_key 3 0 0 0 0 2"

definition repl_origin_key :: "u16 \<Rightarrow> pkey" where
  "repl_origin_key origin_id = mk_key REPL_ORIGIN_KEY_PREFIX 0 0 0 0 (ucast origin_id)"

definition repl_origin_key_range :: "pkey range" where
  "repl_origin_key_range = (mk_key REPL_ORIGIN_KEY_PREFIX 0 0 0 0 0, mk_key REPL_ORIGIN_KEY_PREFIX 0 0 0 0 0x10000)"

definition metadata_key_range :: "pkey range" where
  "metadata_key_range = (mk_key METADATA_KEY_BEGIN_PREFIX 0 0 0 0 0, mk_key METADATA_KEY_END_PREFIX 0 0 0 0 0)"

definition metadata_aux_key_range :: "pkey range" where
  "metadata_aux_key_range = (mk_key AUX_KEY_PREFIX 0 0 0 0 0, mk_key (AUX_KEY_PREFIX + 1) 0 0 0 0 0)"

definition rel_dir_sparse_key_range :: "pkey range" where
  "rel_dir_sparse_key_range = (mk_key REL_DIR_KEY_PREFIX 0 0 0 0 0, mk_key (REL_DIR_KEY_PREFIX + 1) 0 0 0 0 0)"

definition sparse_non_inherited_keyspace :: "pkey range" where
  "sparse_non_inherited_keyspace = (mk_key AUX_KEY_PREFIX 0 0 0 0 0, mk_key (REPL_ORIGIN_KEY_PREFIX + 1) 0 0 0 0 0)"

section \<open>Kinds of keys\<close>

definition NON_INHERITED_RANGE :: "pkey range" where
  "NON_INHERITED_RANGE = (AUX_FILES_KEY, the (key_next AUX_FILES_KEY))"

definition is_sparse :: "pkey \<Rightarrow> bool" where
  "is_sparse k \<longleftrightarrow> METADATA_KEY_BEGIN_PREFIX \<le> field1 k \<and> field1 k < METADATA_KEY_END_PREFIX"

definition is_inherited_sparse_key :: "pkey \<Rightarrow> bool" where
  "is_inherited_sparse_key k \<longleftrightarrow> field1 k = RELATION_SIZE_PREFIX"

definition is_inherited_key :: "pkey \<Rightarrow> bool" where
  "is_inherited_key k = (if is_sparse k then is_inherited_sparse_key k else \<not> range_contains NON_INHERITED_RANGE k)"

definition is_rel_fsm_block_key :: "pkey \<Rightarrow> bool" where
  "is_rel_fsm_block_key k \<longleftrightarrow> field1 k = 0 \<and> field4 k \<noteq> 0 \<and> field5 k = FSM_FORKNUM \<and> field6 k \<noteq> 0xffffffff"

definition is_rel_vm_block_key :: "pkey \<Rightarrow> bool" where
  "is_rel_vm_block_key k \<longleftrightarrow> field1 k = 0 \<and> field4 k \<noteq> 0 \<and> field5 k = VISIBILITYMAP_FORKNUM \<and> field6 k \<noteq> 0xffffffff"

datatype key_error = UnrecognizedSlruKind u32 | UnexpectedValueKind u8

definition to_slru_block :: "pkey \<Rightarrow> key_error + slru_kind \<times> u32 \<times> u32" where
  "to_slru_block k =
     (if field1 k = 1
      then (case slru_kind_of (field2 k) of
              Inl x \<Rightarrow> Inl (UnrecognizedSlruKind x)
            | Inr kind \<Rightarrow> Inr (kind, field4 k, field6 k))
      else Inl (UnexpectedValueKind (field1 k)))"

definition is_slru_block_key :: "pkey \<Rightarrow> bool" where
  "is_slru_block_key k \<longleftrightarrow> field1 k = 1 \<and> field3 k = 1 \<and> field6 k \<noteq> 0xffffffff"

definition is_rel_block_key :: "pkey \<Rightarrow> bool" where
  "is_rel_block_key k \<longleftrightarrow> field1 k = 0 \<and> field4 k \<noteq> 0 \<and> field6 k \<noteq> 0xffffffff"

definition is_rel_block_of_rel :: "pkey \<Rightarrow> u32 \<Rightarrow> bool" where
  "is_rel_block_of_rel k rel \<longleftrightarrow> is_rel_block_key k \<and> field4 k = rel"

definition is_rel_dir_key :: "pkey \<Rightarrow> bool" where
  "is_rel_dir_key k \<longleftrightarrow> field1 k = 0 \<and> field2 k \<noteq> 0 \<and> field3 k \<noteq> 0 \<and> field4 k = 0 \<and> field5 k = 0 \<and> field6 k = 1"

definition is_aux_file_key :: "pkey \<Rightarrow> bool" where
  "is_aux_file_key k \<longleftrightarrow> field1 k = AUX_KEY_PREFIX"

definition to_rel_block :: "pkey \<Rightarrow> key_error + reltag \<times> u32" where
  "to_rel_block k =
     (if field1 k = 0
      then Inr (\<lparr>forknum = field5 k, spcnode = field2 k, dbnode = field3 k, relnode = field4 k\<rparr>, field6 k)
      else Inl (UnexpectedValueKind (field1 k)))"

text \<open>Marks in the directory of relations; no value is a tombstone.\<close>

datatype rel_dir_exists = RelExists | RelRemoved

definition rel_dir_encode :: "rel_dir_exists \<Rightarrow> bytes" where
  "rel_dir_encode e = (case e of RelExists \<Rightarrow> [0x72] | RelRemoved \<Rightarrow> [])"

definition rel_dir_decode_option :: "bytes option \<Rightarrow> rel_dir_exists option" where
  "rel_dir_decode_option d = (case d of None \<Rightarrow> Some RelRemoved | Some b \<Rightarrow> if b = [0x72] then Some RelExists else None)"

definition rel_dir_decode :: "bytes \<Rightarrow> rel_dir_exists option" where
  "rel_dir_decode b = (if b = [0x72] then Some RelExists else if b = [] then Some RelRemoved else None)"

section \<open>The 128-bit form\<close>

text \<open>The keys that the 128-bit form holds in full.\<close>

definition key_canonical :: "pkey \<Rightarrow> bool" where
  "key_canonical k \<longleftrightarrow> field1 k \<le> 0x7F \<and> field2 k \<le> 0xFFFF"

lemma push_or_add: "0 \<le> x \<Longrightarrow> x < 2 ^ n \<Longrightarrow> push_bit n y OR x = y * 2 ^ n + x" for x y :: int
  using concat_bit_eq [of n x y] concat_bit_def [of n x y]
  by (simp add: or.commute take_bit_int_eq_self push_bit_eq_mult)

lemma uint_masks:
  "uint (f AND 0x7F) = uint f mod 128" "uint (g AND 0xFFFF) = uint g mod 65536" for f :: u8 and g :: u32
  using take_bit_eq_mask [of 7 f] take_bit_eq_mask [of 16 g] unsigned_take_bit_eq [of 7 f] unsigned_take_bit_eq [of 16 g]
  by (simp_all add: mask_eq_exp_minus_1 take_bit_eq_mod)

lemma uint_bounds [simp]:
  "uint x < 256" "uint y < 4294967296" for x :: u8 and y :: u32
  using uint_lt2p [of x] uint_lt2p [of y] by simp_all

text \<open>The form as a number with digits of 32, 8, 32, 32, 16 and 7 bits.\<close>

definition i128_num :: "pkey \<Rightarrow> int" where
  "i128_num k = ((((uint (field1 k) mod 128 * 2 ^ 16 + uint (field2 k) mod 65536) * 2 ^ 32 + uint (field3 k)) * 2 ^ 32
     + uint (field4 k)) * 2 ^ 8 + uint (field5 k)) * 2 ^ 32 + uint (field6 k)"

lemma or_digits:
  fixes a b c d e f :: int
  assumes f: "0 \<le> f" "f < 2 ^ 32" and e: "0 \<le> e" "e < 2 ^ 8" and d: "0 \<le> d" "d < 2 ^ 32" and c: "0 \<le> c" "c < 2 ^ 32"
      and b: "0 \<le> b" "b < 2 ^ 16"
  shows "push_bit 120 a OR push_bit 104 b OR push_bit 72 c OR push_bit 40 d OR push_bit 32 e OR f
    = ((((a * 2 ^ 16 + b) * 2 ^ 32 + c) * 2 ^ 32 + d) * 2 ^ 8 + e) * 2 ^ 32 + f"
proof -
  have 1: "push_bit 32 e OR f = e * 2 ^ 32 + f" by (rule push_or_add [OF f])
  have 2: "push_bit 40 d OR (e * 2 ^ 32 + f) = d * 2 ^ 40 + (e * 2 ^ 32 + f)" by (rule push_or_add) (use f e in simp_all)
  have 3: "push_bit 72 c OR (d * 2 ^ 40 + (e * 2 ^ 32 + f)) = c * 2 ^ 72 + (d * 2 ^ 40 + (e * 2 ^ 32 + f))"
    by (rule push_or_add) (use f e d in simp_all)
  have 4: "push_bit 104 b OR (c * 2 ^ 72 + (d * 2 ^ 40 + (e * 2 ^ 32 + f))) = b * 2 ^ 104 + (c * 2 ^ 72 + (d * 2 ^ 40 + (e * 2 ^ 32 + f)))"
    by (rule push_or_add) (use f e d c in simp_all)
  have 5: "push_bit 120 a OR (b * 2 ^ 104 + (c * 2 ^ 72 + (d * 2 ^ 40 + (e * 2 ^ 32 + f))))
      = a * 2 ^ 120 + (b * 2 ^ 104 + (c * 2 ^ 72 + (d * 2 ^ 40 + (e * 2 ^ 32 + f))))"
    by (rule push_or_add) (use f e d c b in simp_all)
  show ?thesis unfolding 1 2 3 4 5 by (simp add: algebra_simps)
qed

lemma i128_of_num [code]: "i128_of k = i128_num k"
  unfolding i128_of_def i128_num_def uint_masks by (rule or_digits) simp_all

lemma digit_div: "0 \<le> a \<Longrightarrow> a < 2 ^ n \<Longrightarrow> drop_bit n (h * 2 ^ n + a) = h" for h a :: int
  by (simp add: drop_bit_eq_div)

lemma digit_less: "0 \<le> a \<Longrightarrow> a < b \<Longrightarrow> 0 \<le> a' \<Longrightarrow> a' < b \<Longrightarrow> h * b + a < h' * b + a' \<longleftrightarrow> h < h' \<or> h = h' \<and> a < a'"
  for h a b :: int
proof -
  assume a: "0 \<le> a" "a < b" "0 \<le> a'" "a' < b"
  have "h * b + a < h' * b + a'" if "h < h'"
  proof -
    have "(h + 1) * b \<le> h' * b" using that a(1,2) by (intro mult_right_mono) simp_all
    then show ?thesis using a by (simp add: algebra_simps)
  qed
  moreover have "\<not> h * b + a < h' * b + a'" if "h' < h"
  proof -
    have "(h' + 1) * b \<le> h * b" using that a(1,2) by (intro mult_right_mono) simp_all
    then show ?thesis using a by (simp add: algebra_simps)
  qed
  ultimately show ?thesis by (cases h h' rule: linorder_cases) auto
qed

lemma digit_eq: "0 \<le> a \<Longrightarrow> a < b \<Longrightarrow> 0 \<le> a' \<Longrightarrow> a' < b \<Longrightarrow> h * b + a = h' * b + a' \<longleftrightarrow> h = h' \<and> a = a'"
  for h a b :: int
  using digit_less [of a b a' h h'] digit_less [of a' b a h' h] by (auto simp: neq_iff)

lemma lex_pair: "(x, y) < (x', y') \<longleftrightarrow> x < x' \<or> x = x' \<and> y < y'" for x x' :: "'a::linorder" and y y' :: "'b::linorder"
  by auto

text \<open>The order of the digits is the order of the number.\<close>

lemma digits_less:
  fixes a b c d e f :: int
  assumes "0 \<le> f" "f < 2 ^ 32" "0 \<le> e" "e < 2 ^ 8" "0 \<le> d" "d < 2 ^ 32" "0 \<le> c" "c < 2 ^ 32" "0 \<le> b" "b < 2 ^ 16"
      and "0 \<le> f'" "f' < 2 ^ 32" "0 \<le> e'" "e' < 2 ^ 8" "0 \<le> d'" "d' < 2 ^ 32" "0 \<le> c'" "c' < 2 ^ 32" "0 \<le> b'" "b' < 2 ^ 16"
  shows "((((a * 2 ^ 16 + b) * 2 ^ 32 + c) * 2 ^ 32 + d) * 2 ^ 8 + e) * 2 ^ 32 + f
      < ((((a' * 2 ^ 16 + b') * 2 ^ 32 + c') * 2 ^ 32 + d') * 2 ^ 8 + e') * 2 ^ 32 + f'
    \<longleftrightarrow> (a, b, c, d, e, f) < (a', b', c', d', e', f')"
  unfolding digit_less [OF assms(1,2,11,12)] digit_less [OF assms(3,4,13,14)] digit_less [OF assms(5,6,15,16)]
    digit_less [OF assms(7,8,17,18)] digit_less [OF assms(9,10,19,20)] digit_eq [OF assms(3,4,13,14)]
    digit_eq [OF assms(5,6,15,16)] digit_eq [OF assms(7,8,17,18)] digit_eq [OF assms(9,10,19,20)]
    lex_pair
  by blast

lemma word_of_digit:
  "word_of_int (h * 2 ^ 8 + uint x) = x" "word_of_int (h * 2 ^ 32 + uint y) = y" for x :: u8 and y :: u32
  unfolding word_uint_eq_iff uint_word_of_int by simp_all

lemma from_i128_of:
  assumes "key_canonical k"
  shows "from_i128 (i128_of k) = k"
proof -
  define n2 where "n2 = uint (field1 k) * 2 ^ 16 + uint (field2 k)"
  define n3 where "n3 = n2 * 2 ^ 32 + uint (field3 k)"
  define n4 where "n4 = n3 * 2 ^ 32 + uint (field4 k)"
  define n5 where "n5 = n4 * 2 ^ 8 + uint (field5 k)"
  have ab: "uint (field1 k) mod 128 = uint (field1 k)" "uint (field2 k) mod 65536 = uint (field2 k)"
    using assms by (simp_all add: key_canonical_def word_le_def)
  have b: "uint (field2 k) < 2 ^ 16" using assms by (simp add: key_canonical_def word_le_def)
  have x: "i128_of k = n5 * 2 ^ 32 + uint (field6 k)"
    unfolding i128_of_num i128_num_def ab n2_def n3_def n4_def n5_def ..
  have d: "drop_bit 32 (i128_of k) = n5" unfolding x by (rule digit_div) simp_all
  have "drop_bit 40 (i128_of k) = drop_bit 8 (drop_bit 32 (i128_of k))" by (simp add: drop_bit_drop_bit)
  then have c: "drop_bit 40 (i128_of k) = n4" unfolding d n5_def using digit_div [of "uint (field5 k)" 8 n4] by simp
  have "drop_bit 72 (i128_of k) = drop_bit 32 (drop_bit 40 (i128_of k))" by (simp add: drop_bit_drop_bit)
  then have b3: "drop_bit 72 (i128_of k) = n3" unfolding c n4_def using digit_div [of "uint (field4 k)" 32 n3] by simp
  have "drop_bit 104 (i128_of k) = drop_bit 32 (drop_bit 72 (i128_of k))" by (simp add: drop_bit_drop_bit)
  then have b2: "drop_bit 104 (i128_of k) = n2" unfolding b3 n3_def using digit_div [of "uint (field3 k)" 32 n2] by simp
  have "drop_bit 120 (i128_of k) = drop_bit 16 (drop_bit 104 (i128_of k))" by (simp add: drop_bit_drop_bit)
  then have b1: "drop_bit 120 (i128_of k) = uint (field1 k)" unfolding b2 n2_def using digit_div [OF _ b] by simp
  have "uint (field1 k) AND 127 = uint (field1 k)" "n2 AND 65535 = uint (field2 k)"
    using ab take_bit_eq_mask [of 7 "uint (field1 k)"] take_bit_eq_mask [of 16 n2]
    by (simp_all add: n2_def mask_eq_exp_minus_1 take_bit_eq_mod)
  moreover have "word_of_int n3 = field3 k" "word_of_int n4 = field4 k" "word_of_int n5 = field5 k" "word_of_int (i128_of k) = field6 k"
    unfolding x n3_def n4_def n5_def word_of_digit by (rule refl)+
  ultimately show ?thesis unfolding from_i128_def mk_key_def d c b3 b2 b1 by simp
qed

lemma i128_of_less:
  assumes "key_canonical k" and "key_canonical k'"
  shows "key_less k k' \<longleftrightarrow> i128_of k < i128_of k'"
proof -
  have ab: "uint (field1 k) mod 128 = uint (field1 k)" "uint (field2 k) mod 65536 = uint (field2 k)"
      "uint (field1 k') mod 128 = uint (field1 k')" "uint (field2 k') mod 65536 = uint (field2 k')"
    using assms by (simp_all add: key_canonical_def word_le_def)
  have lt: "uint (field2 k) < 65536" "uint (field2 k') < 65536" 
    using assms by (simp_all add: key_canonical_def word_le_def)
  have "i128_of k < i128_of k' \<longleftrightarrow>
      (uint (field1 k), uint (field2 k), uint (field3 k), uint (field4 k), uint (field5 k), uint (field6 k))
      < (uint (field1 k'), uint (field2 k'), uint (field3 k'), uint (field4 k'), uint (field5 k'), uint (field6 k'))"
    unfolding i128_of_num i128_num_def ab by (rule digits_less) (use lt in simp_all)
  then show ?thesis by (simp add: key_less_def key_fields_def lex_pair word_less_def word_uint_eq_iff del: less_prod_simp)
qed

lemma i128_of_bounds: "0 \<le> i128_of k \<and> i128_of k < 2 ^ 127"
proof -
  define a b c d e f where "a = uint (field1 k) mod 128" "b = uint (field2 k) mod 65536" "c = uint (field3 k)" "d = uint (field4 k)" "e = uint (field5 k)" "f = uint (field6 k)"
  have "0 \<le> a" "a \<le> 127" "0 \<le> b" "b \<le> 65535" "0 \<le> c" "c < 4294967296" "0 \<le> d" "d < 4294967296" "0 \<le> e" "e < 256" "0 \<le> f" "f < 4294967296"
    by (simp_all add: a_b_c_d_e_f_def)
  then show ?thesis unfolding i128_of_num i128_num_def a_b_c_d_e_f_def [symmetric] by simp
qed

lemma i128_of_from:
  assumes "0 \<le> x" "x < 2 ^ 127"
  shows "i128_of (from_i128 x) = x" "key_canonical (from_i128 x)"
proof -
  have m: "drop_bit n x AND 127 = (x div 2 ^ n) mod 128" "drop_bit n x AND 65535 = (x div 2 ^ n) mod 65536" for n
    using take_bit_eq_mask [of 7 "drop_bit n x"] take_bit_eq_mask [of 16 "drop_bit n x"]
    by (simp_all add: mask_eq_exp_minus_1 take_bit_eq_mod drop_bit_eq_div)
  have top: "(x div 2 ^ 120) mod 128 = x div 2 ^ 120" 
  proof (rule mod_pos_pos_trivial)
    show "0 \<le> x div 2 ^ 120" using assms(1) by (simp add: pos_imp_zdiv_nonneg_iff)
    show "x div 2 ^ 120 < 128" using assms(2) zdiv_mono1 [of x "2 ^ 127 - 1" "2 ^ 120"] by simp
  qed
  have num: "i128_num (from_i128 x) = (((((x div 2 ^ 120) * 2 ^ 16 + (x div 2 ^ 104) mod 2 ^ 16) * 2 ^ 32 + (x div 2 ^ 72) mod 2 ^ 32) * 2 ^ 32
     + (x div 2 ^ 40) mod 2 ^ 32) * 2 ^ 8 + (x div 2 ^ 32) mod 2 ^ 8) * 2 ^ 32 + x mod 2 ^ 32"
    using top unfolding i128_num_def from_i128_def m by (simp add: mk_key_def uint_word_of_int drop_bit_eq_div)
  have join: "x div 2 ^ p * 2 ^ m + (x div 2 ^ n) mod 2 ^ m = x div 2 ^ n" if "p = n + m" for n m p :: nat
    using div_mult_mod_eq [of "x div 2 ^ n" "2 ^ m"] by (simp add: that power_add zdiv_zmult2_eq)
  have "x div 2 ^ 120 * 2 ^ 16 + (x div 2 ^ 104) mod 2 ^ 16 = x div 2 ^ 104"
    "x div 2 ^ 104 * 2 ^ 32 + (x div 2 ^ 72) mod 2 ^ 32 = x div 2 ^ 72" "x div 2 ^ 72 * 2 ^ 32 + (x div 2 ^ 40) mod 2 ^ 32 = x div 2 ^ 40"
    "x div 2 ^ 40 * 2 ^ 8 + (x div 2 ^ 32) mod 2 ^ 8 = x div 2 ^ 32" "x div 2 ^ 32 * 2 ^ 32 + x mod 2 ^ 32 = x"
    by (rule join, simp)+ (rule div_mult_mod_eq)
  then show "i128_of (from_i128 x) = x" unfolding i128_of_num num by (simp only:)
  have "uint (word_of_int ((x div 2 ^ 120) mod 128) :: u8) \<le> 127" "uint (word_of_int ((x div 2 ^ 104) mod 65536) :: u32) \<le> 65535"
    by (simp_all add: uint_word_of_int)
  then show "key_canonical (from_i128 x)" by (simp add: key_canonical_def from_i128_def mk_key_def m word_le_def)
qed

section \<open>Round trips\<close>

lemma from_slice_write: "from_slice (write_to_byte_slice k) = Some k"
  by (simp add: from_slice_def write_to_byte_slice_def nth_append mk_key_def)

lemma from_hex_display: "from_hex (key_display k) = Some k"
proof -
  have b: "unat (x :: u8) < 256" "unat (y :: u32) < 4294967296" for x y using unat_less_256 [of 1 x] unat_less_256 [of 4 y] by simp_all
  have len: "length (hex_upper_pad 2 (unat (x :: u8))) = 2" "length (hex_upper_pad 8 (unat (y :: u32))) = 8" for x y
    unfolding hex_upper_pad_def using upper.length_padded [of 2 "unat x"] upper.length_padded [of 8 "unat y"] b by simp_all
  have val: "from_str_radix16 256 (hex_upper_pad 2 (unat (x :: u8))) = Some (unat x)"
      "from_str_radix16 4294967296 (hex_upper_pad 8 (unat (y :: u32))) = Some (unat y)" for x y
    unfolding hex_upper_pad_def using upper.radix_padded b by simp_all
  show ?thesis
    by (simp add: from_hex_def key_display_def hex_part_def len val mk_key_def)
qed

text \<open>
  C40: A key survives its written forms: the 18 bytes and the hexadecimal text of every key are
  read back as the key; the 128-bit form of a key with a first field below 0x80 and a second
  field of at most 16 bits is read back as the key, and compares as the key does.
\<close>

theorem key_forms:
  "from_slice (write_to_byte_slice k) = Some k \<and> from_hex (key_display k) = Some k
   \<and> (key_canonical k \<and> key_canonical k' \<longrightarrow>
        to_i128 k = Some (i128_of k) \<and> from_i128 (i128_of k) = k \<and> (key_less k k' \<longleftrightarrow> i128_of k < i128_of k'))"
  using from_slice_write from_hex_display from_i128_of i128_of_less
  by (auto simp: to_i128_def is_i128_representable_def key_canonical_def)

theorem key_forms_witness:
  "key_canonical CHECKPOINT_KEY \<and> from_i128 (i128_of CHECKPOINT_KEY) = CHECKPOINT_KEY
   \<and> key_less CHECKPOINT_KEY AUX_FILES_KEY \<and> i128_of CHECKPOINT_KEY < i128_of AUX_FILES_KEY"
proof -
  have "key_canonical CHECKPOINT_KEY" "key_canonical AUX_FILES_KEY" "key_less CHECKPOINT_KEY AUX_FILES_KEY"
    by (simp_all add: key_canonical_def CHECKPOINT_KEY_def AUX_FILES_KEY_def mk_key_def key_less_def key_fields_def)
  then show ?thesis using key_forms [of CHECKPOINT_KEY AUX_FILES_KEY] by blast
qed

text \<open>Two keys that the write path accepts share a 128-bit form.\<close>

lemma i128_collision:
  "is_valid_key_on_write_path (mk_key 0 0x2222 1 2 0 3)" "is_valid_key_on_write_path (mk_key 0 0x22222222 1 2 0 3)"
  "to_i128 (mk_key 0 0x2222 1 2 0 3) = to_i128 (mk_key 0 0x22222222 1 2 0 3)"
  by (simp_all add: is_valid_key_on_write_path_def is_i128_representable_def to_i128_def i128_of_def mk_key_def)

end
