(* ===== verification/Layer_Coverage.thy ===== *)
theory Layer_Coverage
  imports Ordered_Map Page_Key
begin

text \<open>
  The coverage of the key space by layers, pageserver/src/tenant/layer_map/layer_coverage.rs:
  a map with an entry wherever the topmost layer changes. The map is a persistent one of the
  rpds crate, so its operations are a parameter. The abstract coverage is the function that
  gives each key its topmost layer, and an insertion changes it at the keys of the new
  layer and only where that layer ends higher.
\<close>

section \<open>Operations\<close>

type_synonym 'v node = "(u64 \<times> 'v) option"
type_synonym ('v, 'm) node_ops = "(int, 'v node, 'm) omap_ops"

definition lc_new :: "('v, 'm) node_ops \<Rightarrow> 'm" where
  "lc_new ops = omo_empty ops"

definition add_node :: "('v, 'm) node_ops \<Rightarrow> int \<Rightarrow> 'm \<Rightarrow> 'm" where
  "add_node ops key nodes =
     omo_insert ops key
       (case om_floor key (omo_entries ops nodes) of
          Some (_, Some v) \<Rightarrow> Some v
        | Some (_, None) \<Rightarrow> None
        | None \<Rightarrow> None) nodes"

definition needs_cover :: "u64 \<Rightarrow> 'v node \<Rightarrow> bool" where
  "needs_cover hi node = (case node of None \<Rightarrow> True | Some (h, _) \<Rightarrow> h < hi)"

text \<open>The loop over the nodes of the range: the keys to update and the keys to remove.\<close>

fun raise_height :: "u64 \<Rightarrow> bool \<Rightarrow> (int \<times> 'v node) list \<Rightarrow> int list \<times> int list" where
  "raise_height hi prev_covered [] = ([], [])"
| "raise_height hi prev_covered ((k, node) # rest) =
     (let needs = needs_cover hi node;
          (to_update, to_remove) = raise_height hi needs rest
      in if needs then (if prev_covered then (to_update, k # to_remove) else (k # to_update, to_remove))
         else (to_update, to_remove))"

definition lc_insert :: "('v, 'm) node_ops \<Rightarrow> int range \<Rightarrow> u64 range \<Rightarrow> 'v \<Rightarrow> 'm \<Rightarrow> 'm" where
  "lc_insert ops key lsn value nodes =
     (let nodes = add_node ops (snd key) (add_node ops (fst key) nodes);
          (to_update, to_remove) = raise_height (snd lsn) False (om_range (fst key) (snd key) (omo_entries ops nodes));
          nodes = fold (\<lambda>k. omo_insert ops k (Some (snd lsn, value))) to_update nodes
      in fold (omo_remove ops) to_remove nodes)"

definition lc_query :: "('v, 'm) node_ops \<Rightarrow> int \<Rightarrow> 'm \<Rightarrow> 'v option" where
  "lc_query ops key nodes =
     (case om_floor key (omo_entries ops nodes) of
        None \<Rightarrow> None
      | Some (_, node) \<Rightarrow> map_option snd node)"

definition lc_range :: "('v, 'm) node_ops \<Rightarrow> int range \<Rightarrow> 'm \<Rightarrow> (int \<times> 'v option) list" where
  "lc_range ops key nodes =
     map (\<lambda>(k, v). (k, map_option snd v)) (om_range (fst key) (snd key) (omo_entries ops nodes))"

definition range_overlaps :: "('v, 'm) node_ops \<Rightarrow> int range \<Rightarrow> 'm \<Rightarrow> (int \<times> 'v option) list" where
  "range_overlaps ops key_range nodes =
     (case lc_query ops (fst key_range) nodes of
        Some change \<Rightarrow>
          (let range_coverage = lc_range ops key_range nodes;
               rest = (case range_coverage of
                         c # cs \<Rightarrow> if snd c = Some change then cs else range_coverage
                       | [] \<Rightarrow> [])
           in (fst key_range, Some change) # rest)
      | None \<Rightarrow> lc_range ops key_range nodes)"

record 'm coverage_tuple =
  image_coverage :: 'm
  delta_coverage :: 'm

definition tuple_new :: "('v, 'm) node_ops \<Rightarrow> 'm coverage_tuple" where
  "tuple_new ops = \<lparr>image_coverage = lc_new ops, delta_coverage = lc_new ops\<rparr>"

section \<open>What an insertion does to the entries\<close>

fun raised :: "u64 \<Rightarrow> 'v \<Rightarrow> bool \<Rightarrow> (int \<times> 'v node) list \<Rightarrow> (int \<times> 'v node) list" where
  "raised hi v prev [] = []"
| "raised hi v prev ((k, node) # rest) =
     (if needs_cover hi node then (if prev then [] else [(k, Some (hi, v))]) else [(k, node)])
     @ raised hi v (needs_cover hi node) rest"

definition over :: "u64 \<Rightarrow> 'v \<Rightarrow> 'v node \<Rightarrow> 'v node" where
  "over hi v node = (if needs_cover hi node then Some (hi, v) else node)"

lemma raised_keys: "e \<in> set (raised hi v p es) \<Longrightarrow> fst e \<in> fst ` set es"
  by (induction es arbitrary: p) (auto split: if_splits, (blast dest: meta_mp)+)

lemma cov_raised:
  "om_ok es \<Longrightarrow> (prev \<longrightarrow> needs_cover hi d) \<Longrightarrow>
     cov (over hi v d) (raised hi v prev es) k = over hi v (cov d es k)"
proof (induction es arbitrary: prev d)
  case (Cons e es)
  obtain k' node where e: "e = (k', node)" by (cases e)
  have ok: "om_ok es" and above: "\<forall>x \<in> set es. k' < fst x" using Cons.prems by (auto simp: e)
  show ?case
  proof (cases "k' \<le> k")
    case True
    have "cov (over hi v node) (raised hi v (needs_cover hi node) es) k = over hi v (cov node es k)"
      using Cons.IH [of "needs_cover hi node" node] ok by simp
    then show ?thesis using True Cons.prems(2) by (auto simp: e over_def)
  next
    case False
    have "\<forall>x \<in> set (raised hi v prev (e # es)). k < fst x"
      using raised_keys [of _ hi v prev "e # es"] above False by (fastforce simp: e simp del: raised.simps)
    then show ?thesis using False by (simp add: e cov_below del: raised.simps)
  qed
qed simp

lemma raise_height_keys:
  "set (fst (raise_height hi p es)) \<union> set (snd (raise_height hi p es)) \<subseteq> fst ` set es"
proof (induction es arbitrary: p)
  case (Cons e es)
  obtain k node where e: "e = (k, node)" by (cases e)
  show ?case using Cons [of "needs_cover hi node"]
    by (cases "raise_height hi (needs_cover hi node) es") (auto simp: e Let_def)
qed simp

lemma raise_height_raised:
  "om_ok es \<Longrightarrow>
     raised hi v p es =
       filter (\<lambda>e. fst e \<notin> set (snd (raise_height hi p es)))
         (map (\<lambda>e. if fst e \<in> set (fst (raise_height hi p es)) then (fst e, Some (hi, v)) else e) es)"
proof (induction es arbitrary: p)
  case (Cons e es)
  obtain k node where e: "e = (k, node)" by (cases e)
  obtain us rs where ur: "raise_height hi (needs_cover hi node) es = (us, rs)" by (cases "raise_height hi (needs_cover hi node) es")
  have "k \<notin> fst ` set es" using Cons.prems by (auto simp: e)
  then have fresh: "k \<notin> set us" "k \<notin> set rs" using raise_height_keys [of hi "needs_cover hi node" es] ur by auto
  have upd: "map (\<lambda>e. if fst e = k \<or> fst e \<in> set us then (fst e, Some (hi, v)) else e) es =
       map (\<lambda>e. if fst e \<in> set us then (fst e, Some (hi, v)) else e) es"
    using \<open>k \<notin> fst ` set es\<close> by auto
  have rem: "filter (\<lambda>e. fst e \<noteq> k \<and> fst e \<notin> set rs) (map (\<lambda>e. if fst e \<in> set us then (fst e, Some (hi, v)) else e) es) =
       filter (\<lambda>e. fst e \<notin> set rs) (map (\<lambda>e. if fst e \<in> set us then (fst e, Some (hi, v)) else e) es)"
    using \<open>k \<notin> fst ` set es\<close> by (intro filter_cong) (force split: if_splits)+
  have "raised hi v (needs_cover hi node) es =
      filter (\<lambda>e. fst e \<notin> set rs) (map (\<lambda>e. if fst e \<in> set us then (fst e, Some (hi, v)) else e) es)"
    using Cons.IH [of "needs_cover hi node"] Cons.prems by (simp add: ur e)
  then show ?case using fresh by (simp add: e ur Let_def upd rem)
qed simp

section \<open>Insertion and the abstract coverage\<close>

definition lc_ok :: "('v, 'm) node_ops \<Rightarrow> 'm \<Rightarrow> bool" where
  "lc_ok ops m \<longleftrightarrow> om_ok (omo_entries ops m)"

definition lc_covers :: "('v, 'm) node_ops \<Rightarrow> 'm \<Rightarrow> int \<Rightarrow> 'v node" where
  "lc_covers ops m = cov None (omo_entries ops m)"

locale node_map = ordered_map ops for ops :: "('v, 'm) node_ops"
begin

lemma wf_new: "lc_ok ops (lc_new ops)"
  by (simp add: lc_ok_def lc_new_def entries_empty)

lemma covers_new: "lc_covers ops (lc_new ops) k = None"
  by (simp add: lc_covers_def lc_new_def entries_empty)

lemma query_covers: "lc_ok ops m \<Longrightarrow> lc_query ops k m = map_option snd (lc_covers ops m k)"
  by (simp add: lc_query_def lc_covers_def lc_ok_def om_floor_cov split: option.split)

lemma entries_add_node:
  "lc_ok ops m \<Longrightarrow> omo_entries ops (add_node ops k m) = om_insert k (lc_covers ops m k) (omo_entries ops m)"
  by (auto simp: add_node_def entries_insert lc_covers_def lc_ok_def om_floor_cov split: option.split)

lemma add_node_wf: "lc_ok ops m \<Longrightarrow> lc_ok ops (add_node ops k m)"
  by (simp add: lc_ok_def [of ops "add_node ops k m"] entries_add_node) (simp add: lc_ok_def)

lemma add_node_covers: "lc_ok ops m \<Longrightarrow> lc_covers ops (add_node ops k m) = lc_covers ops m"
  by (rule ext) (simp add: lc_covers_def [of ops "add_node ops k m"] entries_add_node, simp add: lc_covers_def lc_ok_def cov_insert_same)

lemma entries_update:
  "om_ok (omo_entries ops m) \<Longrightarrow> set us \<subseteq> fst ` set (omo_entries ops m) \<Longrightarrow>
     omo_entries ops (fold (\<lambda>k. omo_insert ops k w) us m) =
       map (\<lambda>e. if fst e \<in> set us then (fst e, w) else e) (omo_entries ops m)"
proof (induction us arbitrary: m)
  case (Cons u us)
  let ?m = "omo_insert ops u w m"
  have ok: "om_ok (omo_entries ops ?m)" using Cons.prems by (simp add: entries_insert)
  have keys: "fst ` set (omo_entries ops ?m) = insert u (fst ` set (omo_entries ops m))" by (simp add: entries_insert)
  have "omo_entries ops ?m = map (\<lambda>e. if fst e = u then (u, w) else e) (omo_entries ops m)"
    using Cons.prems by (simp add: entries_insert om_insert_present)
  moreover have "omo_entries ops (fold (\<lambda>k. omo_insert ops k w) us ?m) =
      map (\<lambda>e. if fst e \<in> set us then (fst e, w) else e) (omo_entries ops ?m)"
    using Cons.prems keys by (intro Cons.IH [OF ok]) auto
  ultimately show ?case by simp
qed (simp add: map_idI)

lemma entries_removed:
  "omo_entries ops (fold (omo_remove ops) rs m) = filter (\<lambda>e. fst e \<notin> set rs) (omo_entries ops m)"
  by (induction rs arbitrary: m) (auto simp: entries_remove om_remove_def intro!: filter_cong)

lemma entries_lc_insert:
  assumes "lc_ok ops m" "lo \<le> hi"
  defines "es \<equiv> omo_entries ops (add_node ops hi (add_node ops lo m))"
  shows "omo_entries ops (lc_insert ops (lo, hi) lsn v m) =
    filter (\<lambda>e. fst e < lo) es @ raised (snd lsn) v False (om_range lo hi es) @ filter (\<lambda>e. hi \<le> fst e) es"
proof -
  obtain us rs where ur: "raise_height (snd lsn) False (om_range lo hi es) = (us, rs)"
    by (cases "raise_height (snd lsn) False (om_range lo hi es)")
  have ok: "om_ok es" using assms(1) add_node_wf by (simp add: lc_ok_def es_def)
  have keys: "set us \<union> set rs \<subseteq> fst ` set (om_range lo hi es)"
    using raise_height_keys [of "snd lsn" False "om_range lo hi es"] by (simp add: ur)
  then have out: "fst e \<notin> set us \<and> fst e \<notin> set rs" if "fst e < lo \<or> hi \<le> fst e" for e :: "int \<times> 'v node"
    using that by (force simp: om_range_def)
  let ?f = "\<lambda>e. if fst e \<in> set us then (fst e, Some (snd lsn, v)) else e"
  have keep: "filter (\<lambda>e. fst e \<notin> set rs) (map ?f xs) = xs" if "\<forall>e \<in> set xs. fst e < lo \<or> hi \<le> fst e" for xs
    using that out by (induction xs) auto
  have "omo_entries ops (lc_insert ops (lo, hi) lsn v m) = filter (\<lambda>e. fst e \<notin> set rs) (map ?f es)"
    using ok keys
    by (subst es_def, simp add: lc_insert_def Let_def ur [unfolded es_def] entries_removed)
       (subst entries_update, auto simp: es_def om_range_def)
  also have "\<dots> = filter (\<lambda>e. fst e \<notin> set rs) (map ?f (filter (\<lambda>e. fst e < lo) es @ om_range lo hi es @ filter (\<lambda>e. hi \<le> fst e) es))"
    using om_split_range [OF ok assms(2)] by simp
  also have "\<dots> = filter (\<lambda>e. fst e < lo) es @ filter (\<lambda>e. fst e \<notin> set rs) (map ?f (om_range lo hi es)) @ filter (\<lambda>e. hi \<le> fst e) es"
    by (simp add: keep)
  also have "filter (\<lambda>e. fst e \<notin> set rs) (map ?f (om_range lo hi es)) = raised (snd lsn) v False (om_range lo hi es)"
    using ok raise_height_raised [of "om_range lo hi es" "snd lsn" v False] by (simp add: ur)
  finally show ?thesis .
qed

lemma lc_insert_wf: "lc_ok ops m \<Longrightarrow> lc_ok ops (lc_insert ops (lo, hi) lsn v m)"
proof -
  have ins: "lc_ok ops (fold (\<lambda>k. omo_insert ops k w) us m)" if "lc_ok ops m" for us w m
    using that by (induction us arbitrary: m) (auto simp: lc_ok_def entries_insert)
  assume "lc_ok ops m"
  then show ?thesis using ins [OF add_node_wf [OF add_node_wf]]
    by (auto simp: lc_insert_def Let_def lc_ok_def entries_removed om_ok_filter split: prod.split)
qed

lemma lc_insert_covers:
  assumes m: "lc_ok ops m" and less: "lo < hi"
  shows "lc_covers ops (lc_insert ops (lo, hi) lsn v m) k =
    (if lo \<le> k \<and> k < hi then over (snd lsn) v (lc_covers ops m k) else lc_covers ops m k)"
proof -
  let ?m = "add_node ops hi (add_node ops lo m)"
  define es where "es = omo_entries ops ?m"
  define a b c where "a = filter (\<lambda>e. fst e < lo) es" and "b = om_range lo hi es" and "c = filter (\<lambda>e. hi \<le> fst e) es"
  have ok: "om_ok es" using m add_node_wf by (simp add: lc_ok_def es_def)
  have es: "es = a @ b @ c" using om_split_range [OF ok, of lo hi] less by (simp add: a_def b_def c_def)
  let ?r = "raised (snd lsn) v False b"
  have new: "omo_entries ops (lc_insert ops (lo, hi) lsn v m) = a @ ?r @ c"
    using entries_lc_insert [OF m, of lo hi] less by (simp add: a_def b_def c_def es_def)
  have okn: "om_ok (a @ ?r @ c)" using lc_insert_wf [OF m] new by (metis lc_ok_def)
  have same: "lc_covers ops m k = cov None es k" using m by (metis add_node_covers add_node_wf lc_covers_def es_def)
  have keys: "{lo, hi} \<subseteq> fst ` set es" using m by (simp add: es_def entries_add_node add_node_wf)
  then have in_c: "\<exists>e \<in> set c. fst e = hi" using less by (auto simp: c_def)
  have in_b: "\<exists>e \<in> set b. fst e = lo" using keys less by (auto simp: b_def om_range_def)
  have at_least: "\<forall>e \<in> set b. lo \<le> fst e" by (simp add: b_def om_range_def)
  have okb: "om_ok b" using ok by (simp add: b_def)
  have in_r: "\<exists>e \<in> set ?r. fst e = lo"
    using in_b at_least okb by (cases b) force+
  have at_least_r: "\<forall>e \<in> set ?r. lo \<le> fst e" using at_least raised_keys by fastforce
  consider (above) "hi \<le> k" | (below) "k < lo" | (inside) "lo \<le> k" "k < hi" by linarith
  then show ?thesis
  proof cases
    case above
    then have "\<exists>e \<in> set c. fst e \<le> k" using in_c by auto
    then show ?thesis using above okn ok less same
      by (simp add: lc_covers_def new es cov_append [of "a @ b" c] cov_append [of "a @ ?r" c] append_assoc [symmetric] del: append_assoc)
  next
    case below
    then have "\<not> (\<exists>e \<in> set (b @ c). fst e \<le> k)" "\<not> (\<exists>e \<in> set (?r @ c). fst e \<le> k)"
      using at_least at_least_r less by (auto simp: c_def)
    then show ?thesis using below okn ok less same
      by (simp add: lc_covers_def new es cov_append)
  next
    case inside
    have c: "\<not> (\<exists>e \<in> set c. fst e \<le> k)" using inside by (auto simp: c_def)
    have "\<exists>e \<in> set b. fst e \<le> k" "\<exists>e \<in> set ?r. fst e \<le> k" using in_b in_r inside(1) by metis+
    moreover have "cov None ?r k = over (snd lsn) v (cov None b k)"
      using cov_raised [OF okb, of False "snd lsn" None v k] calculation(2) okn
      by (metis (no_types, lifting) cov_default om_ok_append)
    ultimately show ?thesis using inside okn ok same c
      by (simp add: lc_covers_def new es cov_middle)
  qed
qed

lemma range_overlaps_covers:
  assumes m: "lc_ok ops m" and less: "lo < hi"
  defines "cs \<equiv> range_overlaps ops (lo, hi) m"
  shows "om_ok cs" "\<forall>c \<in> set cs. lo \<le> fst c \<and> fst c < hi"
    "lo \<le> x \<Longrightarrow> x < hi \<Longrightarrow> cov None cs x = lc_query ops x m"
proof -
  let ?es = "omo_entries ops m" and ?f = "\<lambda>(k, v). (k, map_option snd v)"
  define rs where "rs = map ?f (om_range lo hi ?es)"
  have okes: "om_ok ?es" using m by (simp add: lc_ok_def)
  have keys: "map fst rs = map fst (om_range lo hi ?es)" by (auto simp: rs_def)
  then have okr: "om_ok rs" using okes om_ok_range [of ?es lo hi] by (simp add: om_ok_def)
  have inr: "\<forall>c \<in> set rs. lo \<le> fst c \<and> fst c < hi" by (auto simp: rs_def om_range_def)
  have q: "lc_query ops y m = map_option snd (cov None ?es y)" for y using query_covers [OF m] by (simp add: lc_covers_def)
  have query: "lc_query ops x m = cov (lc_query ops lo m) rs x" if "lo \<le> x" "x < hi" for x
    unfolding q rs_def using cov_range [OF okes that, of None] by (simp add: cov_map)
  have first: "v = lc_query ops lo m" if "(lo, v) \<in> set rs" for v
    using that cov_at [OF okes] unfolding q by (auto simp: rs_def om_range_def)
  have "om_ok cs \<and> (\<forall>c \<in> set cs. lo \<le> fst c \<and> fst c < hi) \<and> (\<forall>x. lo \<le> x \<and> x < hi \<longrightarrow> cov None cs x = lc_query ops x m)"
  proof (cases "lc_query ops lo m")
    case None
    then have "cs = rs" by (simp add: cs_def range_overlaps_def lc_range_def rs_def)
    then show ?thesis using okr inr query None by simp
  next
    case (Some change)
    define rest where "rest = (case rs of c # cs \<Rightarrow> if snd c = Some change then cs else rs | [] \<Rightarrow> [])"
    have cs: "cs = (lo, Some change) # rest"
      using Some unfolding cs_def range_overlaps_def lc_range_def rest_def rs_def Let_def fst_conv snd_conv option.case by simp
    have sub: "set rest \<subseteq> set rs" by (cases rs) (auto simp: rest_def)
    have okrest: "om_ok rest" using okr by (cases rs) (auto simp: rest_def simp del: om_ok_Cons simp: om_ok_def)
    have "lo < fst c" if "c \<in> set rest" for c
    proof (rule ccontr)
      assume "\<not> lo < fst c"
      then have c: "fst c = lo" "c \<in> set rs" using inr sub that by force+
      then obtain c' cs' where rs: "rs = c' # cs'" by (cases rs) auto
      have "c' = c" using c okr inr rs by (cases c'; cases c) force
      then show False using first [of "snd c"] c okr rs that Some by (cases c) (force simp: rest_def)
    qed
    moreover have "cov (Some change) rest x = cov (Some change) rs x" for x
    proof (cases rs)
      case (Cons c cs')
      then show ?thesis using okr by (cases c) (auto simp: rest_def intro!: cov_below)
    qed (simp add: rest_def)
    ultimately show ?thesis using okrest inr sub less query Some by (auto simp: cs)
  qed
  then show "om_ok cs" "\<forall>c \<in> set cs. lo \<le> fst c \<and> fst c < hi" "lo \<le> x \<Longrightarrow> x < hi \<Longrightarrow> cov None cs x = lc_query ops x m" by auto
qed

end

interpretation node_lists: node_map list_ops
  by unfold_locales

end
