(* ===== verification/Historic_Coverage.thy ===== *)
theory Historic_Coverage
  imports Layer_Coverage
begin

text \<open>
  The history of the coverage, pageserver/src/tenant/layer_map/historic_layer_coverage.rs:
  one version of the image and the delta coverage for each LSN where a layer starts, and the
  buffer of updates that a rebuild applies. The lemmas show that a rebuild gives what
  inserting the current layers into an empty history gives, and which layer a version
  returns.
\<close>

section \<open>Layer keys\<close>

datatype layer_key = LayerKey (lk_key: "int range") (lk_lsn: "u64 range") (is_image: bool)

text \<open>\<open>impl Ord for LayerKey\<close>: by lsn.start first\<close>

definition lk_ord :: "layer_key \<Rightarrow> u64 \<times> u64 \<times> int \<times> int \<times> bool" where
  "lk_ord l = (fst (lk_lsn l), snd (lk_lsn l), fst (lk_key l), snd (lk_key l), is_image l)"

lemma lk_ord_inject: "lk_ord a = lk_ord b \<Longrightarrow> a = b"
  by (cases a; cases b) (auto simp: lk_ord_def prod_eq_iff)

instantiation layer_key :: linorder
begin

definition less_eq_layer_key :: "layer_key \<Rightarrow> layer_key \<Rightarrow> bool" where
  "a \<le> b \<longleftrightarrow> lk_ord a \<le> lk_ord b"

definition less_layer_key :: "layer_key \<Rightarrow> layer_key \<Rightarrow> bool" where
  "a < b \<longleftrightarrow> lk_ord a < lk_ord b"

instance
  by standard (auto simp: less_eq_layer_key_def less_layer_key_def intro: lk_ord_inject)

end

abbreviation lk_start :: "layer_key \<Rightarrow> u64" where
  "lk_start l \<equiv> fst (lk_lsn l)"

lemma layer_key_less_start: "a < b \<Longrightarrow> lk_start a \<le> lk_start b" for a b :: layer_key
  by (auto simp: less_layer_key_def lk_ord_def less_prod_def)

section \<open>The history\<close>

datatype lm_panic = RetroactiveInsert | RebuildRequired | KeyNotRepresentable | LsnOverflow | WrongLayerKind | L0LayerLost | RangeOrder | NoNextLayer | StackOverflow

record 'm historic_coverage =
  hc_head :: "'m coverage_tuple"
  hc_historic :: "(u64 \<times> 'm coverage_tuple) list"

definition hc_new :: "('v, 'm) node_ops \<Rightarrow> 'm historic_coverage" where
  "hc_new ops = \<lparr>hc_head = tuple_new ops, hc_historic = []\<rparr>"

definition tuple_insert :: "('v, 'm) node_ops \<Rightarrow> layer_key \<Rightarrow> 'v \<Rightarrow> 'm coverage_tuple \<Rightarrow> 'm coverage_tuple" where
  "tuple_insert ops layer_key value t =
     (if is_image layer_key
      then t\<lparr>image_coverage := lc_insert ops (lk_key layer_key) (lk_lsn layer_key) value (image_coverage t)\<rparr>
      else t\<lparr>delta_coverage := lc_insert ops (lk_key layer_key) (lk_lsn layer_key) value (delta_coverage t)\<rparr>)"

definition hc_insert ::
  "('v, 'm) node_ops \<Rightarrow> layer_key \<Rightarrow> 'v \<Rightarrow> 'm historic_coverage \<Rightarrow> lm_panic + 'm historic_coverage" where
  "hc_insert ops layer_key value h =
     (if hc_historic h \<noteq> [] \<and> lk_start layer_key < fst (last (hc_historic h)) then Inl RetroactiveInsert
      else
        let head = tuple_insert ops layer_key value (hc_head h)
        in Inr \<lparr>hc_head = head, hc_historic = om_insert (lk_start layer_key) head (hc_historic h)\<rparr>)"

definition get_version :: "u64 \<Rightarrow> 'm historic_coverage \<Rightarrow> 'm coverage_tuple option" where
  "get_version lsn h = map_option snd (om_floor lsn (hc_historic h))"

definition hc_trim :: "('v, 'm) node_ops \<Rightarrow> u64 \<Rightarrow> 'm historic_coverage \<Rightarrow> 'm historic_coverage" where
  "hc_trim ops begins h =
     (let historic = filter (\<lambda>e. fst e < begins) (hc_historic h)
      in \<lparr>hc_head = (if historic = [] then tuple_new ops else snd (last historic)), hc_historic = historic\<rparr>)"

section \<open>The buffer\<close>

record ('v, 'm) buffered_coverage =
  bc_historic :: "'m historic_coverage"
  bc_buffer :: "(layer_key \<times> 'v option) list"
  bc_layers :: "(layer_key \<times> 'v) list"

definition bc_new :: "('v, 'm) node_ops \<Rightarrow> ('v, 'm) buffered_coverage" where
  "bc_new ops = \<lparr>bc_historic = hc_new ops, bc_buffer = [], bc_layers = []\<rparr>"

definition bc_insert :: "layer_key \<Rightarrow> 'v \<Rightarrow> ('v, 'm) buffered_coverage \<Rightarrow> ('v, 'm) buffered_coverage" where
  "bc_insert layer_key value b = b\<lparr>bc_buffer := om_insert layer_key (Some value) (bc_buffer b)\<rparr>"

definition bc_remove :: "layer_key \<Rightarrow> ('v, 'm) buffered_coverage \<Rightarrow> ('v, 'm) buffered_coverage" where
  "bc_remove layer_key b = b\<lparr>bc_buffer := om_insert layer_key None (bc_buffer b)\<rparr>"

definition bc_apply :: "layer_key \<times> 'v option \<Rightarrow> (layer_key \<times> 'v) list \<Rightarrow> (layer_key \<times> 'v) list" where
  "bc_apply e layers =
     (case snd e of
        Some l \<Rightarrow> om_insert (fst e) l layers
      | None \<Rightarrow> om_remove (fst e) layers)"

fun hc_insert_all ::
  "('v, 'm) node_ops \<Rightarrow> (layer_key \<times> 'v) list \<Rightarrow> 'm historic_coverage \<Rightarrow> lm_panic + 'm historic_coverage" where
  "hc_insert_all ops [] h = Inr h"
| "hc_insert_all ops ((layer_key, layer) # rest) h =
     (case hc_insert ops layer_key layer h of
        Inl p \<Rightarrow> Inl p
      | Inr h' \<Rightarrow> hc_insert_all ops rest h')"

definition bc_rebuild ::
  "('v, 'm) node_ops \<Rightarrow> ('v, 'm) buffered_coverage \<Rightarrow> lm_panic + ('v, 'm) buffered_coverage" where
  "bc_rebuild ops b =
     (case bc_buffer b of
        [] \<Rightarrow> Inr b
      | (first, _) # _ \<Rightarrow>
          (let rebuild_since = lk_start first;
               layers = fold bc_apply (bc_buffer b) (bc_layers b);
               trimmed = hc_trim ops rebuild_since (bc_historic b);
               since = filter (\<lambda>e. LayerKey (0, 0) (rebuild_since, 0) False \<le> fst e) layers
           in case hc_insert_all ops since trimmed of
                Inl p \<Rightarrow> Inl p
              | Inr h \<Rightarrow> Inr \<lparr>bc_historic = h, bc_buffer = [], bc_layers = layers\<rparr>))"

definition bc_iter :: "('v, 'm) buffered_coverage \<Rightarrow> lm_panic + 'v list" where
  "bc_iter b = (if bc_buffer b \<noteq> [] then Inl RebuildRequired else Inr (map snd (bc_layers b)))"

definition bc_get :: "('v, 'm) buffered_coverage \<Rightarrow> lm_panic + 'm historic_coverage" where
  "bc_get b = (if bc_buffer b \<noteq> [] then Inl RebuildRequired else Inr (bc_historic b))"

definition bc_len :: "('v, 'm) buffered_coverage \<Rightarrow> nat" where
  "bc_len b = length (bc_layers b)"

section \<open>A history built from nothing\<close>

definition tuple_of :: "('v, 'm) node_ops \<Rightarrow> (layer_key \<times> 'v) list \<Rightarrow> 'm coverage_tuple" where
  "tuple_of ops ls = fold (\<lambda>(l, v). tuple_insert ops l v) ls (tuple_new ops)"

definition version_step ::
  "('v, 'm) node_ops \<Rightarrow> layer_key \<times> 'v \<Rightarrow> 'm coverage_tuple \<times> (u64 \<times> 'm coverage_tuple) list
     \<Rightarrow> 'm coverage_tuple \<times> (u64 \<times> 'm coverage_tuple) list" where
  "version_step ops e s =
     (let t = tuple_insert ops (fst e) (snd e) (fst s) in (t, om_insert (lk_start (fst e)) t (snd s)))"

definition versions_of :: "('v, 'm) node_ops \<Rightarrow> (layer_key \<times> 'v) list \<Rightarrow> (u64 \<times> 'm coverage_tuple) list" where
  "versions_of ops ls = snd (fold (version_step ops) ls (tuple_new ops, []))"

definition history_of :: "('v, 'm) node_ops \<Rightarrow> (layer_key \<times> 'v) list \<Rightarrow> 'm historic_coverage" where
  "history_of ops ls = \<lparr>hc_head = tuple_of ops ls, hc_historic = versions_of ops ls\<rparr>"

lemma tuple_of_snoc: "tuple_of ops (ls @ [(l, v)]) = tuple_insert ops l v (tuple_of ops ls)"
  by (simp add: tuple_of_def)

lemma tuple_of_Nil [simp]: "tuple_of ops [] = tuple_new ops"
  by (simp add: tuple_of_def)

lemma versions_of_Nil [simp]: "versions_of ops [] = []"
  by (simp add: versions_of_def)

lemma version_steps: "fold (version_step ops) ls (tuple_new ops, []) = (tuple_of ops ls, versions_of ops ls)"
proof -
  have "fst (fold (version_step ops) ls (tuple_new ops, [])) = tuple_of ops ls"
    by (induction ls rule: rev_induct) (auto simp: tuple_of_snoc version_step_def Let_def)
  then show ?thesis by (simp add: versions_of_def prod_eq_iff)
qed

lemma versions_of_snoc:
  "versions_of ops (ls @ [(l, v)]) = om_insert (lk_start l) (tuple_of ops (ls @ [(l, v)])) (versions_of ops ls)"
  using version_steps [of ops ls]
  by (simp add: versions_of_def [of ops "ls @ [(l, v)]"] version_step_def [of ops "(l, v)"] tuple_of_snoc Let_def)

lemma versions_ok: "om_ok (versions_of ops ls)"
  by (induction ls rule: rev_induct) (auto simp: versions_of_snoc)

lemma versions_keys: "fst ` set (versions_of ops ls) = (\<lambda>e. lk_start (fst e)) ` set ls"
proof (induction ls rule: rev_induct)
  case (snoc x xs)
  then show ?case by (cases x) (simp add: versions_of_snoc)
qed simp

lemma versions_all: "(\<forall>e \<in> set (versions_of ops ls). P (fst e)) \<longleftrightarrow> (\<forall>e \<in> set ls. P (lk_start (fst e)))"
proof -
  have "(\<forall>k \<in> fst ` set (versions_of ops ls). P k) \<longleftrightarrow> (\<forall>k \<in> (\<lambda>e. lk_start (fst e)) ` set ls. P k)"
    by (simp only: versions_keys)
  then show ?thesis by simp
qed

lemma om_insert_not_Nil [simp]: "om_insert k v es \<noteq> []"
  by (induction k v es rule: om_insert.induct) auto

lemma last_om_insert: "om_ok es \<Longrightarrow> \<forall>e \<in> set es. fst e \<le> k \<Longrightarrow> last (om_insert k v es) = (k, v)"
  by (induction k v es rule: om_insert.induct) (auto simp: neq_Nil_conv)

lemma filter_om_insert: "\<not> P k \<Longrightarrow> filter (\<lambda>e. P (fst e)) (om_insert k v es) = filter (\<lambda>e. P (fst e)) es"
  by (induction k v es rule: om_insert.induct) auto

text \<open>Layers in the order of their start.\<close>

definition by_start :: "(layer_key \<times> 'v) list \<Rightarrow> bool" where
  "by_start ls \<longleftrightarrow> sorted_wrt (\<lambda>a b. lk_start (fst a) \<le> lk_start (fst b)) ls"

lemma by_start_ok: "om_ok ls \<Longrightarrow> by_start ls"
  unfolding om_ok_def by_start_def sorted_wrt_map by (rule sorted_wrt_mono_rel) (auto dest: layer_key_less_start)

lemma by_start_snoc: "by_start (ls @ [x]) \<longleftrightarrow> by_start ls \<and> (\<forall>y \<in> set ls. lk_start (fst y) \<le> lk_start (fst x))"
  by (auto simp: by_start_def sorted_wrt_append)

lemma last_version:
  assumes "by_start ls" "ls \<noteq> []"
  shows "versions_of ops ls \<noteq> [] \<and> last (versions_of ops ls) = (lk_start (fst (last ls)), tuple_of ops ls)"
proof -
  obtain xs l v where ls: "ls = xs @ [(l, v)]" using assms(2) by (metis rev_exhaust surj_pair)
  have "\<forall>e \<in> set (versions_of ops xs). fst e \<le> lk_start l"
    using assms(1) by (simp add: versions_all [where P = "\<lambda>k. k \<le> lk_start l"] ls by_start_snoc)
  then show ?thesis by (simp add: ls versions_of_snoc last_om_insert versions_ok)
qed

lemma history_append:
  "by_start (xs @ ys) \<Longrightarrow> hc_insert_all ops ys (history_of ops xs) = Inr (history_of ops (xs @ ys))"
proof (induction ys arbitrary: xs)
  case (Cons y ys)
  obtain l v where y: "y = (l, v)" by (cases y)
  have "hc_insert ops l v (history_of ops xs) = Inr (history_of ops (xs @ [y]))"
  proof (cases "xs = []")
    case False
    then have "\<not> lk_start l < lk_start (fst (last xs))"
      using Cons.prems by (auto simp: y by_start_def sorted_wrt_append not_less)
    moreover have "by_start xs" using Cons.prems by (simp add: by_start_def sorted_wrt_append)
    ultimately show ?thesis using last_version [of xs ops] False
      by (simp add: hc_insert_def history_of_def y versions_of_snoc tuple_of_snoc Let_def)
  qed (simp add: hc_insert_def history_of_def y versions_of_snoc [of _ "[]", simplified] tuple_of_snoc [of _ "[]", simplified] Let_def)
  then show ?case using Cons.IH [of "xs @ [y]"] Cons.prems by (simp add: y)
qed simp

lemma trim_history: "by_start ls \<Longrightarrow> hc_trim ops s (history_of ops ls) = history_of ops (filter (\<lambda>e. lk_start (fst e) < s) ls)"
proof (induction ls rule: rev_induct)
  case (snoc x xs)
  obtain l v where x: "x = (l, v)" by (cases x)
  show ?case
  proof (cases "lk_start l < s")
    case True
    then have all: "\<forall>e \<in> set (xs @ [x]). lk_start (fst e) < s" using snoc.prems by (auto simp: x by_start_snoc)
    then have "\<forall>e \<in> set (versions_of ops (xs @ [x])). fst e < s"
      by (subst versions_all [where P = "\<lambda>k. k < s"])
    then have "filter (\<lambda>e. fst e < s) (versions_of ops (xs @ [x])) = versions_of ops (xs @ [x])" by simp
    moreover have "filter (\<lambda>e. lk_start (fst e) < s) (xs @ [x]) = xs @ [x]" using all by (intro filter_True) blast
    ultimately show ?thesis using last_version [OF snoc.prems, of ops]
      by (simp add: hc_trim_def history_of_def Let_def del: filter_append)
  next
    case False
    then have "filter (\<lambda>e. fst e < s) (versions_of ops (xs @ [x])) = filter (\<lambda>e. fst e < s) (versions_of ops xs)"
      by (simp add: x versions_of_snoc filter_om_insert [where P = "\<lambda>k. k < s"])
    then have "hc_trim ops s (history_of ops (xs @ [x])) = hc_trim ops s (history_of ops xs)"
      by (simp add: hc_trim_def history_of_def)
    then show ?thesis using snoc False by (simp add: x by_start_snoc)
  qed
qed (simp add: hc_trim_def history_of_def)

lemma version_history:
  "by_start ls \<Longrightarrow>
     get_version s (history_of ops ls) =
       (let seen = filter (\<lambda>e. lk_start (fst e) \<le> s) ls in if seen = [] then None else Some (tuple_of ops seen))"
proof (induction ls rule: rev_induct)
  case (snoc x xs)
  obtain l v where x: "x = (l, v)" by (cases x)
  show ?case
  proof (cases "lk_start l \<le> s")
    case True
    then have all: "\<forall>e \<in> set (xs @ [x]). lk_start (fst e) \<le> s" using snoc.prems by (fastforce simp: x by_start_snoc)
    then have "\<forall>e \<in> set (versions_of ops (xs @ [x])). fst e \<le> s"
      by (subst versions_all [where P = "\<lambda>k. k \<le> s"])
    then have "filter (\<lambda>e. fst e \<le> s) (versions_of ops (xs @ [x])) = versions_of ops (xs @ [x])" by simp
    moreover have "filter (\<lambda>e. lk_start (fst e) \<le> s) (xs @ [x]) = xs @ [x]" using all by (intro filter_True) blast
    ultimately show ?thesis using last_version [OF snoc.prems, of ops]
      by (simp add: get_version_def history_of_def om_floor_alt Let_def del: filter_append)
  next
    case False
    then have "filter (\<lambda>e. fst e \<le> s) (versions_of ops (xs @ [x])) = filter (\<lambda>e. fst e \<le> s) (versions_of ops xs)"
      by (simp add: x versions_of_snoc filter_om_insert [where P = "\<lambda>k. k \<le> s"])
    then have "get_version s (history_of ops (xs @ [x])) = get_version s (history_of ops xs)"
      by (simp add: get_version_def history_of_def om_floor_alt)
    then show ?thesis using snoc False by (simp add: x by_start_snoc)
  qed
qed (simp add: get_version_def history_of_def om_floor_def)

section \<open>A rebuild\<close>

text \<open>A layer covers some keys and some LSNs.\<close>

definition lk_ok :: "layer_key \<Rightarrow> bool" where
  "lk_ok l \<longleftrightarrow> fst (lk_key l) < snd (lk_key l) \<and> fst (lk_lsn l) < snd (lk_lsn l)"

lemma rebuild_since: "lk_ok l \<Longrightarrow> LayerKey (0, 0) (s, 0) False \<le> l \<longleftrightarrow> s \<le> lk_start l"
  by (auto simp: lk_ok_def less_eq_layer_key_def lk_ord_def less_eq_prod_def word_gt_0)

lemma apply_ok: "om_ok ls \<Longrightarrow> om_ok (bc_apply e ls)"
  by (simp add: bc_apply_def split: option.split)

lemma apply_all_ok: "om_ok ls \<Longrightarrow> om_ok (fold bc_apply es ls)"
  by (induction es arbitrary: ls) (auto simp: apply_ok)

lemma apply_keys: "fst ` set (bc_apply e ls) \<subseteq> insert (fst e) (fst ` set ls)"
  by (auto simp: bc_apply_def om_remove_def split: option.split)

lemma apply_all_keys: "fst ` set (fold bc_apply es ls) \<subseteq> fst ` set es \<union> fst ` set ls"
proof (induction es arbitrary: ls)
  case (Cons e es)
  have "fst ` set (fold bc_apply (e # es) ls) \<subseteq> fst ` set es \<union> fst ` set (bc_apply e ls)" using Cons [of "bc_apply e ls"] by simp
  then show ?case using apply_keys [of e ls] unfolding list.set image_insert by blast
qed simp

lemma apply_before:
  "\<forall>e \<in> set es. \<not> lk_start (fst e) < s \<Longrightarrow>
     filter (\<lambda>e. lk_start (fst e) < s) (fold bc_apply es ls) = filter (\<lambda>e. lk_start (fst e) < s) ls"
proof (induction es arbitrary: ls)
  case (Cons e es)
  have "filter (\<lambda>e. lk_start (fst e) < s) (filter (\<lambda>x. fst x \<noteq> fst e) ls) = filter (\<lambda>e. lk_start (fst e) < s) ls"
    using Cons.prems by (auto intro!: filter_cong)
  then have "filter (\<lambda>e. lk_start (fst e) < s) (bc_apply e ls) = filter (\<lambda>e. lk_start (fst e) < s) ls"
    using Cons.prems
    by (simp add: bc_apply_def om_remove_def filter_om_insert [where P = "\<lambda>k. lk_start k < s"] split: option.split)
  then show ?case using Cons by simp
qed simp

definition bc_ok :: "('v, 'm) node_ops \<Rightarrow> ('v, 'm) buffered_coverage \<Rightarrow> bool" where
  "bc_ok ops b \<longleftrightarrow>
     om_ok (bc_buffer b) \<and> om_ok (bc_layers b) \<and> (\<forall>l \<in> fst ` set (bc_buffer b) \<union> fst ` set (bc_layers b). lk_ok l) \<and>
     bc_historic b = history_of ops (bc_layers b)"

lemma by_start_split: "by_start ls \<Longrightarrow> filter (\<lambda>e. lk_start (fst e) < s) ls @ filter (\<lambda>e. s \<le> lk_start (fst e)) ls = ls"
proof (induction ls rule: rev_induct)
  case (snoc x xs)
  have "filter (\<lambda>e. s \<le> lk_start (fst e)) xs = []" if "lk_start (fst x) < s"
    using that snoc.prems by (auto simp: by_start_snoc filter_empty_conv)
  then show ?case using snoc by (cases "lk_start (fst x) < s") (auto simp: by_start_snoc not_less)
qed simp

lemma bc_rebuild_ok:
  assumes b: "bc_ok ops b"
  shows "bc_rebuild ops b =
    (let ls = fold bc_apply (bc_buffer b) (bc_layers b)
     in Inr \<lparr>bc_historic = history_of ops ls, bc_buffer = [], bc_layers = ls\<rparr>)"
proof (cases "bc_buffer b")
  case Nil
  then show ?thesis using b by (cases b) (simp add: bc_rebuild_def bc_ok_def)
next
  case (Cons e es)
  define ls where "ls = fold bc_apply (bc_buffer b) (bc_layers b)"
  define s where "s = lk_start (fst e)"
  have ok: "om_ok ls" using b by (simp add: ls_def bc_ok_def apply_all_ok)
  have buffered: "\<forall>x \<in> set (bc_buffer b). \<not> lk_start (fst x) < s"
    using b layer_key_less_start by (cases e) (fastforce simp: bc_ok_def Cons s_def not_less)
  have keys: "\<forall>x \<in> set ls. lk_ok (fst x)"
    using b apply_all_keys [of "bc_buffer b" "bc_layers b"] by (auto simp: bc_ok_def ls_def)
  then have since: "filter (\<lambda>x. LayerKey (0, 0) (s, 0) False \<le> fst x) ls = filter (\<lambda>x. s \<le> lk_start (fst x)) ls"
    by (intro filter_cong) (simp_all add: rebuild_since)
  have "hc_trim ops s (bc_historic b) = history_of ops (filter (\<lambda>x. lk_start (fst x) < s) (bc_layers b))"
    using b by (simp add: bc_ok_def trim_history by_start_ok)
  also have "filter (\<lambda>x. lk_start (fst x) < s) (bc_layers b) = filter (\<lambda>x. lk_start (fst x) < s) ls"
    using apply_before [OF buffered] by (simp add: ls_def)
  finally have trimmed: "hc_trim ops s (bc_historic b) = history_of ops (filter (\<lambda>x. lk_start (fst x) < s) ls)" .
  have "hc_insert_all ops (filter (\<lambda>x. s \<le> lk_start (fst x)) ls) (hc_trim ops s (bc_historic b)) = Inr (history_of ops ls)"
    using history_append [of "filter (\<lambda>x. lk_start (fst x) < s) ls" "filter (\<lambda>x. s \<le> lk_start (fst x)) ls" ops]
      by_start_split [OF by_start_ok [OF ok], of s] by_start_ok [OF ok] by (simp add: trimmed)
  then show ?thesis
    using since by (cases e) (simp add: bc_rebuild_def Cons ls_def s_def Let_def)
qed

section \<open>The layer a version returns\<close>

definition tuple_side :: "bool \<Rightarrow> 'm coverage_tuple \<Rightarrow> 'm" where
  "tuple_side img t = (if img then image_coverage t else delta_coverage t)"

definition hits :: "bool \<Rightarrow> int \<Rightarrow> layer_key \<Rightarrow> bool" where
  "hits img k l \<longleftrightarrow> is_image l = img \<and> fst (lk_key l) \<le> k \<and> k < snd (lk_key l)"

definition best :: "bool \<Rightarrow> int \<Rightarrow> (layer_key \<times> 'v) list \<Rightarrow> 'v node" where
  "best img k ls = fold (\<lambda>e n. if hits img k (fst e) then over (snd (lk_lsn (fst e))) (snd e) n else n) ls None"

lemma best_snoc: "best img k (ls @ [e]) = (if hits img k (fst e) then over (snd (lk_lsn (fst e))) (snd e) (best img k ls) else best img k ls)"
  by (simp add: best_def)

lemma best_None: "best img k ls = None \<longleftrightarrow> (\<forall>e \<in> set ls. \<not> hits img k (fst e))"
proof (induction ls rule: rev_induct)
  case (snoc x xs)
  then show ?case by (auto simp: best_snoc over_def needs_cover_def split: option.splits)
qed (simp add: best_def)

lemma best_Some:
  "best img k ls = Some (h, v) \<Longrightarrow>
     (\<exists>l. (l, v) \<in> set ls \<and> hits img k l \<and> snd (lk_lsn l) = h) \<and> (\<forall>e \<in> set ls. hits img k (fst e) \<longrightarrow> snd (lk_lsn (fst e)) \<le> h)"
proof (induction ls arbitrary: h v rule: rev_induct)
  case (snoc x xs)
  obtain l w where x: "x = (l, w)" by (cases x)
  show ?case
  proof (cases "hits img k l")
    case True
    note hit = True
    show ?thesis
    proof (cases "best img k xs")
      case None
      then show ?thesis using snoc.prems hit best_None [of img k xs] by (auto simp: x best_snoc over_def needs_cover_def)
    next
      case (Some b)
      obtain h' v' where b: "b = (h', v')" by (cases b)
      have IH: "(\<exists>l. (l, v') \<in> set xs \<and> hits img k l \<and> snd (lk_lsn l) = h') \<and> (\<forall>e \<in> set xs. hits img k (fst e) \<longrightarrow> snd (lk_lsn (fst e)) \<le> h')"
        using snoc.IH Some b by blast
      show ?thesis
      proof (cases "h' < snd (lk_lsn l)")
        case True
        then have new: "h = snd (lk_lsn l)" "v = w" using snoc.prems hit Some by (auto simp: x b best_snoc over_def needs_cover_def)
        have "snd (lk_lsn (fst e)) \<le> h" if "e \<in> set xs" "hits img k (fst e)" for e
        proof -
          have "snd (lk_lsn (fst e)) \<le> h'" using IH that by blast
          then show ?thesis using True new(1) by simp
        qed
        then show ?thesis using hit new by (auto simp: x)
      next
        case False
        then have "h = h'" "v = v'" using snoc.prems hit Some by (auto simp: x b best_snoc over_def needs_cover_def)
        then show ?thesis using IH False by (auto simp: x not_less)
      qed
    qed
  qed (use snoc in \<open>auto simp: x best_snoc\<close>)
qed (simp add: best_def)

context node_map
begin

lemma tuple_of_covers:
  "\<forall>e \<in> set ls. lk_ok (fst e) \<Longrightarrow>
     lc_ok ops (tuple_side img (tuple_of ops ls)) \<and> lc_covers ops (tuple_side img (tuple_of ops ls)) k = best img k ls"
proof (induction ls rule: rev_induct)
  case Nil
  then show ?case by (simp add: tuple_side_def tuple_new_def wf_new covers_new best_def)
next
  case (snoc x xs)
  obtain l v where x: "x = (l, v)" by (cases x)
  obtain lo hi where key: "lk_key l = (lo, hi)" by (cases "lk_key l")
  have less: "lo < hi" using snoc.prems by (simp add: x lk_ok_def key)
  let ?m = "tuple_side img (tuple_of ops xs)"
  have IH: "lc_ok ops ?m" "lc_covers ops ?m k = best img k xs" using snoc by auto
  have side: "tuple_side img (tuple_of ops (xs @ [(l, v)])) = (if is_image l = img then lc_insert ops (lo, hi) (lk_lsn l) v ?m else ?m)"
    by (auto simp: tuple_of_snoc tuple_insert_def tuple_side_def key)
  show ?case using IH lc_insert_wf [OF IH(1)] lc_insert_covers [OF IH(1) less]
    by (simp add: side x best_snoc hits_def key)
qed

lemma query_best: "\<forall>e \<in> set ls. lk_ok (fst e) \<Longrightarrow> lc_query ops k (tuple_side img (tuple_of ops ls)) = map_option snd (best img k ls)"
  using tuple_of_covers query_covers by metis

end

section \<open>Sequences of updates\<close>

datatype 'v bc_op = BcInsert layer_key 'v | BcRemove layer_key | BcRebuild

fun bc_step :: "('v, 'm) node_ops \<Rightarrow> 'v bc_op \<Rightarrow> ('v, 'm) buffered_coverage \<Rightarrow> lm_panic + ('v, 'm) buffered_coverage" where
  "bc_step ops (BcInsert l v) b = Inr (bc_insert l v b)"
| "bc_step ops (BcRemove l) b = Inr (bc_remove l b)"
| "bc_step ops BcRebuild b = bc_rebuild ops b"

fun bc_run :: "('v, 'm) node_ops \<Rightarrow> 'v bc_op list \<Rightarrow> ('v, 'm) buffered_coverage \<Rightarrow> lm_panic + ('v, 'm) buffered_coverage" where
  "bc_run ops [] b = Inr b"
| "bc_run ops (u # us) b = (case bc_step ops u b of Inl p \<Rightarrow> Inl p | Inr b' \<Rightarrow> bc_run ops us b')"

fun bc_op_ok :: "'v bc_op \<Rightarrow> bool" where
  "bc_op_ok (BcInsert l v) = lk_ok l"
| "bc_op_ok (BcRemove l) = lk_ok l"
| "bc_op_ok BcRebuild = True"

fun live_step :: "'v bc_op \<Rightarrow> (layer_key \<rightharpoonup> 'v) \<Rightarrow> (layer_key \<rightharpoonup> 'v)" where
  "live_step (BcInsert l v) m = m(l \<mapsto> v)"
| "live_step (BcRemove l) m = m(l := None)"
| "live_step BcRebuild m = m"

definition live :: "'v bc_op list \<Rightarrow> (layer_key \<rightharpoonup> 'v)" where
  "live us = fold live_step us Map.empty"

lemma map_of_om_insert [simp]: "om_ok es \<Longrightarrow> map_of (om_insert k v es) = (map_of es)(k \<mapsto> v)"
  by (induction k v es rule: om_insert.induct) (auto simp: fun_upd_twist)

lemma map_of_om_remove [simp]: "map_of (om_remove k es) = (map_of es)(k := None)"
  by (induction es) (auto simp: om_remove_def)

definition bc_live :: "('v, 'm) buffered_coverage \<Rightarrow> (layer_key \<rightharpoonup> 'v)" where
  "bc_live b = map_of (fold bc_apply (bc_buffer b) (bc_layers b))"

lemma map_of_apply: "om_ok ls \<Longrightarrow> map_of (bc_apply e ls) = (map_of ls)(fst e := snd e)"
  by (simp add: bc_apply_def split: option.split)

lemma map_of_apply_all:
  "om_ok es \<Longrightarrow> om_ok ls \<Longrightarrow> map_of (fold bc_apply es ls) l = (case map_of es l of None \<Rightarrow> map_of ls l | Some o' \<Rightarrow> o')"
proof (induction es arbitrary: ls)
  case (Cons e es)
  obtain l' o' where e: "e = (l', o')" by (cases e)
  have "map_of es l' = None" using Cons.prems by (auto simp: e map_of_eq_None_iff)
  then show ?case using Cons.IH [of "bc_apply e ls"] Cons.prems
    by (auto simp: e apply_ok map_of_apply split: option.split)
qed simp

lemma bc_live_alt: "bc_ok ops b \<Longrightarrow> bc_live b l = (case map_of (bc_buffer b) l of None \<Rightarrow> map_of (bc_layers b) l | Some o' \<Rightarrow> o')"
  by (simp add: bc_live_def bc_ok_def map_of_apply_all)

lemma bc_new_ok: "bc_ok ops (bc_new ops)" "bc_live (bc_new ops) = Map.empty"
  by (simp_all add: bc_ok_def bc_new_def hc_new_def history_of_def bc_live_def)

lemma bc_step_ok:
  assumes b: "bc_ok ops b" and u: "bc_op_ok u"
  shows "\<exists>b'. bc_step ops u b = Inr b' \<and> bc_ok ops b' \<and> bc_live b' = live_step u (bc_live b)"
proof (cases u)
  case (BcInsert l v)
  have ok: "bc_ok ops (bc_insert l v b)" using b u by (simp add: BcInsert bc_ok_def bc_insert_def ball_Un)
  have parts: "bc_layers (bc_insert l v b) = bc_layers b" "bc_buffer (bc_insert l v b) = om_insert l (Some v) (bc_buffer b)"
    by (simp_all add: bc_insert_def)
  have "bc_live (bc_insert l v b) x = live_step u (bc_live b) x" for x
    using b by (simp add: BcInsert bc_live_alt [OF ok] bc_live_alt [OF b] parts bc_ok_def split: option.split)
  then show ?thesis using ok by (auto simp: BcInsert)
next
  case (BcRemove l)
  have ok: "bc_ok ops (bc_remove l b)" using b u by (simp add: BcRemove bc_ok_def bc_remove_def ball_Un)
  have parts: "bc_layers (bc_remove l b) = bc_layers b" "bc_buffer (bc_remove l b) = om_insert l (None) (bc_buffer b)"
    by (simp_all add: bc_remove_def)
  have "bc_live (bc_remove l b) x = live_step u (bc_live b) x" for x
    using b by (simp add: BcRemove bc_live_alt [OF ok] bc_live_alt [OF b] parts bc_ok_def split: option.split)
  then show ?thesis using ok by (auto simp: BcRemove)
next
  case BcRebuild
  have "\<forall>l \<in> fst ` set (fold bc_apply (bc_buffer b) (bc_layers b)). lk_ok l"
    using b apply_all_keys [of "bc_buffer b" "bc_layers b"] unfolding bc_ok_def by blast
  then show ?thesis using b
    by (simp add: BcRebuild bc_rebuild_ok Let_def) (simp add: bc_ok_def bc_live_def apply_all_ok)
qed

lemma bc_run_ok:
  "bc_ok ops b \<Longrightarrow> list_all bc_op_ok us \<Longrightarrow>
     \<exists>b'. bc_run ops us b = Inr b' \<and> bc_ok ops b' \<and> bc_live b' = fold live_step us (bc_live b)"
proof (induction us arbitrary: b)
  case (Cons u us)
  obtain b' where "bc_step ops u b = Inr b'" "bc_ok ops b'" "bc_live b' = live_step u (bc_live b)"
    using bc_step_ok [OF Cons.prems(1), of u] Cons.prems(2) by auto
  then show ?case using Cons.IH [of b'] Cons.prems(2) by simp
qed simp

end
