(* ===== verification/Shard.thy ===== *)
theory Shard
  imports Page_Key
begin

text \<open>
  How the keys of a tenant are spread over shards (pageserver_api/src/shard.rs) and how
  shards are named and split (utils/src/shard.rs).
\<close>

section \<open>Shard identity\<close>

record shard_identity =
  shi_number :: u8
  shi_count :: u8
  shi_stripe_size :: u32
  shi_layout :: u8

definition LAYOUT_V1 :: u8 where "LAYOUT_V1 = 1"

definition LAYOUT_BROKEN :: u8 where "LAYOUT_BROKEN = 255"

definition DEFAULT_STRIPE_SIZE :: u32 where "DEFAULT_STRIPE_SIZE = 16 * 1024 div 8"

datatype shard_config_error = InvalidCount | InvalidNumber | InvalidStripeSize

definition shard_unsharded :: shard_identity where
  "shard_unsharded = \<lparr>shi_number = 0, shi_count = 0, shi_stripe_size = DEFAULT_STRIPE_SIZE, shi_layout = LAYOUT_V1\<rparr>"

definition unsharded_with_stripe_size :: "u32 \<Rightarrow> shard_identity" where
  "unsharded_with_stripe_size stripe_size =
     (if 0 < stripe_size then shard_unsharded\<lparr>shi_stripe_size := stripe_size\<rparr> else shard_unsharded)"

definition shard_broken :: "u8 \<Rightarrow> u8 \<Rightarrow> shard_identity" where
  "shard_broken number count =
     \<lparr>shi_number = number, shi_count = count, shi_stripe_size = DEFAULT_STRIPE_SIZE, shi_layout = LAYOUT_BROKEN\<rparr>"

definition shard_is_unsharded :: "shard_identity \<Rightarrow> bool" where
  "shard_is_unsharded s \<longleftrightarrow> shi_number s = 0 \<and> shi_count s = 0"

definition shard_new :: "u8 \<Rightarrow> u8 \<Rightarrow> u32 \<Rightarrow> shard_config_error + shard_identity" where
  "shard_new number count stripe_size =
     (if count = 0 then Inl InvalidCount
      else if count - 1 < number then Inl InvalidNumber
      else if stripe_size = 0 then Inl InvalidStripeSize
      else Inr \<lparr>shi_number = number, shi_count = count, shi_stripe_size = stripe_size, shi_layout = LAYOUT_V1\<rparr>)"

definition is_broken :: "shard_identity \<Rightarrow> bool" where
  "is_broken s \<longleftrightarrow> shi_layout s = LAYOUT_BROKEN"

section \<open>Keys to shards\<close>

definition key_is_shard0 :: "pkey \<Rightarrow> bool" where
  "key_is_shard0 k \<longleftrightarrow> \<not> is_rel_block_key k \<or> field5 k = INIT_FORKNUM"

definition murmurhash32 :: "u32 \<Rightarrow> u32" where
  "murmurhash32 h0 =
     (let h1 = h0 XOR drop_bit 16 h0; h2 = h1 * 0x85ebca6b; h3 = h2 XOR drop_bit 13 h2; h4 = h3 * 0xc2b2ae35
      in h4 XOR drop_bit 16 h4)"

definition hash_combine :: "u32 \<Rightarrow> u32 \<Rightarrow> u32" where
  "hash_combine a b = a XOR (b + 0x9e3779b9 + push_bit 6 a + drop_bit 2 a)"

definition key_hash :: "u32 \<Rightarrow> pkey \<Rightarrow> u32" where
  "key_hash stripe_size k = hash_combine (murmurhash32 (field4 k)) (murmurhash32 (field6 k div stripe_size))"

definition key_to_shard_number :: "u8 \<Rightarrow> u32 \<Rightarrow> pkey \<Rightarrow> u8" where
  "key_to_shard_number count stripe_size k =
     (if count < 2 \<or> key_is_shard0 k then 0 else ucast (key_hash stripe_size k mod ucast count))"

text \<open>A broken identity fails an assertion.\<close>

definition get_shard_number :: "shard_identity \<Rightarrow> pkey \<Rightarrow> u8 option" where
  "get_shard_number s k = (if is_broken s then None else Some (key_to_shard_number (shi_count s) (shi_stripe_size s) k))"

definition is_key_local :: "shard_identity \<Rightarrow> pkey \<Rightarrow> bool option" where
  "is_key_local s k =
     (if is_broken s then None
      else if shi_count s < 2 \<or> (key_is_shard0 k \<and> shi_number s = 0) then Some True
      else Some (key_to_shard_number (shi_count s) (shi_stripe_size s) k = shi_number s))"

definition is_key_global :: "pkey \<Rightarrow> bool" where
  "is_key_global k =
     (if is_slru_block_key k \<or> is_slru_segment_size_key k \<or> is_aux_file_key k \<or> is_slru_dir_key k then False
      else if is_rel_block_key k then False
      else if is_rel_size_key k then True else True)"

definition is_key_disposable :: "shard_identity \<Rightarrow> pkey \<Rightarrow> bool option" where
  "is_key_disposable s k =
     (if shi_count s < 2 then Some False
      else if is_key_global k then Some False
      else map_option Not (is_key_local s k))"

section \<open>Names and splits\<close>

record tenant_shard_id =
  tsi_tenant_id :: bytes \<comment> \<open>16 bytes\<close>
  tsi_number :: u8
  tsi_count :: u8

definition shard_slug :: "u8 \<Rightarrow> u8 \<Rightarrow> string" where
  "shard_slug number count = hex_lower_pad 2 (unat number) @ hex_lower_pad 2 (unat count)"

definition id_display :: "bytes \<Rightarrow> string" where
  "id_display bs = concat (map (\<lambda>b. hex_lower_pad 2 (unat b)) bs)"

definition tenant_shard_display :: "tenant_shard_id \<Rightarrow> string" where
  "tenant_shard_display t =
     (if tsi_count t \<noteq> 0 then id_display (tsi_tenant_id t) @ ''-'' @ shard_slug (tsi_number t) (tsi_count t)
      else id_display (tsi_tenant_id t))"

text \<open>\<open>dec\<close> stands for \<open>hex::decode_to_slice\<close>, which takes the size of the slice.\<close>

definition tenant_shard_from_str :: "(nat \<Rightarrow> string \<Rightarrow> bytes option) \<Rightarrow> string \<Rightarrow> tenant_shard_id option" where
  "tenant_shard_from_str dec s =
     (if length s = 32 then map_option (\<lambda>t. \<lparr>tsi_tenant_id = t, tsi_number = 0, tsi_count = 0\<rparr>) (dec 16 s)
      else if length s = 37 then
        (case (dec 16 (take 32 s), dec 2 (drop 33 s)) of
           (Some t, Some [n, c]) \<Rightarrow> Some \<lparr>tsi_tenant_id = t, tsi_number = n, tsi_count = c\<rparr>
         | _ \<Rightarrow> None)
      else None)"

definition shard_split :: "tenant_shard_id \<Rightarrow> u8 \<Rightarrow> tenant_shard_id list" where
  "shard_split t new_count =
     (let effective_old_shard_count = max (tsi_count t) 1 in
      map (\<lambda>n. \<lparr>tsi_tenant_id = tsi_tenant_id t, tsi_number = n, tsi_count = new_count\<rparr>)
        (filter (\<lambda>n. n mod effective_old_shard_count = tsi_number t) (map of_nat [0..<unat new_count])))"

section \<open>Every key has its shard\<close>

lemma unat_u8_u32:
  "unat (ucast c :: u32) = unat c" "unat x < 256 \<Longrightarrow> unat (ucast x :: u8) = unat x" for c :: u8 and x :: u32
  using unat_less_256 [of 1 c] by (simp_all add: unsigned_ucast_eq take_bit_nat_eq_self)

lemma unat_key_to_shard:
  assumes "2 \<le> count" and "\<not> key_is_shard0 k"
  shows "unat (key_to_shard_number count stripe k) = unat (key_hash stripe k) mod unat count"
proof -
  have "unat (key_hash stripe k) mod unat count < unat count"
    using assms(1) by (intro mod_less_divisor) (simp add: word_le_nat_alt)
  also have "\<dots> < 256" using unat_less_256 [of 1 count] by simp
  finally have "unat (key_hash stripe k mod ucast count) < 256" by (simp add: unat_mod_distrib unat_u8_u32)
  then show ?thesis using assms by (simp add: key_to_shard_number_def unat_mod_distrib unat_u8_u32 not_less)
qed

lemma key_to_shard_less:
  assumes "0 < count"
  shows "key_to_shard_number count stripe k < count"
proof (cases "count < 2 \<or> key_is_shard0 k")
  case True
  then show ?thesis using assms by (simp add: key_to_shard_number_def)
next
  case False
  then have "unat (key_to_shard_number count stripe k) = unat (key_hash stripe k) mod unat count"
    by (intro unat_key_to_shard) (simp_all add: not_less)
  then have "unat (key_to_shard_number count stripe k) < unat count" using assms by (simp add: word_less_nat_alt)
  then show ?thesis by (simp add: word_less_nat_alt)
qed



section \<open>Splits\<close>

lemma split_numbers:
  "set (map tsi_number (shard_split t new)) = {n. n < new \<and> n mod max (tsi_count t) 1 = tsi_number t}"
proof -
  have "n \<in> of_nat ` {0..<unat new} \<longleftrightarrow> n < new" for n :: u8
  proof
    assume "n < new"
    then have "unat n \<in> {0..<unat new}" by (simp add: word_less_nat_alt)
    then show "n \<in> of_nat ` {0..<unat new}" by (intro image_eqI [of _ _ "unat n"]) simp_all
  next
    assume "n \<in> of_nat ` {0..<unat new}"
    then obtain m where m: "n = of_nat m" "m < unat new" by auto
    then have "unat (of_nat m :: u8) \<le> m" by (simp add: unat_of_nat)
    then show "n < new" using m by (simp add: word_less_nat_alt)
  qed
  then show ?thesis by (auto simp: shard_split_def Let_def image_iff)
qed

text \<open>
  C38: Splitting loses no key: when the new number of shards is a multiple of the old one, a key
  of a shard is afterwards a key of one of the shards it is split into, and of no others.
\<close>

theorem split_keeps_keys:
  assumes "2 \<le> new" and "unat (max (tsi_count t) 1) dvd unat new"
      and "tsi_number t < max (tsi_count t) 1"
  shows "key_to_shard_number (tsi_count t) stripe k = tsi_number t
    \<longleftrightarrow> key_to_shard_number new stripe k \<in> set (map tsi_number (shard_split t new))"
proof -
  let ?old = "max (tsi_count t) 1"
  have pos: "0 < new" using assms(1) by (simp add: word_less_nat_alt word_le_nat_alt)
  have "key_to_shard_number new stripe k mod ?old = key_to_shard_number (tsi_count t) stripe k"
  proof (cases "key_is_shard0 k")
    case True
    then show ?thesis by (simp add: key_to_shard_number_def)
  next
    case nonzero: False
    show ?thesis
    proof (cases "tsi_count t < 2")
      case True
      then have "?old = 1" by (intro max_absorb2) (simp add: word_less_nat_alt word_le_nat_alt)
      then show ?thesis using True by (simp add: key_to_shard_number_def)
    next
      case False
      then have old: "?old = tsi_count t" "2 \<le> tsi_count t" by (simp_all add: max_def word_less_nat_alt word_le_nat_alt)
      have "unat (key_to_shard_number new stripe k) mod unat (tsi_count t) = unat (key_to_shard_number (tsi_count t) stripe k)"
        using unat_key_to_shard [OF assms(1) nonzero, of stripe] unat_key_to_shard [OF old(2) nonzero, of stripe] assms(2) old(1)
        by (simp add: mod_mod_cancel)
      then show ?thesis by (simp add: old(1) word_unat_eq_iff unat_mod_distrib)
    qed
  qed
  then show ?thesis using key_to_shard_less [OF pos, of stripe k] unfolding split_numbers by simp
qed

theorem split_keeps_keys_witness:
  "\<exists>n. key_to_shard_number 8 DEFAULT_STRIPE_SIZE (mk_key 0 1663 5 16384 0 7)
     \<in> set (map tsi_number (shard_split \<lparr>tsi_tenant_id = replicate 16 1, tsi_number = n, tsi_count = 4\<rparr> 8))"
proof -
  define n where "n = key_to_shard_number 4 DEFAULT_STRIPE_SIZE (mk_key 0 1663 5 16384 0 7)"
  have "n < 4" unfolding n_def by (rule key_to_shard_less) simp
  moreover have four: "max (4 :: u8) 1 = 4" by (simp add: max_def word_le_nat_alt)
  ultimately have "key_to_shard_number 8 DEFAULT_STRIPE_SIZE (mk_key 0 1663 5 16384 0 7)
     \<in> set (map tsi_number (shard_split \<lparr>tsi_tenant_id = replicate 16 1, tsi_number = n, tsi_count = 4\<rparr> 8))"
    by (subst split_keeps_keys [symmetric]) (simp_all add: n_def four word_le_nat_alt)
  then show ?thesis by blast
qed

section \<open>Names\<close>

text \<open>A decoder of two digits of either case for a byte.\<close>

fun hex_decode :: "string \<Rightarrow> bytes option" where
  "hex_decode [] = Some []"
| "hex_decode [c] = None"
| "hex_decode (c # d # s) =
     (case (hex_val c, hex_val d, hex_decode s) of
        (Some x, Some y, Some bs) \<Rightarrow> Some (of_nat (16 * x + y) # bs)
      | _ \<Rightarrow> None)"

lemma hex_decode_append: "hex_decode s = Some bs \<Longrightarrow> hex_decode (s @ r) = map_option (\<lambda>b. bs @ b) (hex_decode r)"
  by (induction s arbitrary: bs rule: hex_decode.induct) (auto simp: map_option_case split: option.splits)

lemma hex_decode_byte: "hex_decode (hex_lower_pad 2 (unat b)) = Some [b]" for b :: u8
proof -
  let ?n = "unat b"
  have n: "?n < 256" using unat_less_256 [of 1 b] by simp
  have val: "hex_val (hex_char_lower d) = Some d" if "d < 16" for d using lower.hex_val_digit [OF that] .
  have "hex_lower_pad 2 ?n = [hex_char_lower (?n div 16), hex_char_lower (?n mod 16)]"
  proof (cases "?n < 16")
    case True
    then have "hex_digits hex_char_lower ?n = [hex_char_lower ?n]" by (subst hex_digits.simps) simp
    moreover have "hex_char_lower 0 = CHR ''0''" by code_simp
    ultimately show ?thesis using True by (simp add: hex_lower_pad_def zero_pad_def)
  next
    case False
    then have "hex_digits hex_char_lower ?n = hex_digits hex_char_lower (?n div 16) @ [hex_char_lower (?n mod 16)]"
      by (subst hex_digits.simps) simp
    moreover have "?n div 16 < 16" using n by (simp add: less_mult_imp_div_less)
    then have "hex_digits hex_char_lower (?n div 16) = [hex_char_lower (?n div 16)]" by (subst hex_digits.simps) simp
    ultimately show ?thesis by (simp add: hex_lower_pad_def zero_pad_def)
  qed
  then show ?thesis using n by (simp add: val less_mult_imp_div_less)
qed

lemma hex_decode_id: "hex_decode (id_display bs) = Some bs"
proof (induction bs)
  case (Cons b bs)
  then show ?case using hex_decode_append [OF hex_decode_byte [of b]] by (simp add: id_display_def)
qed (simp add: id_display_def)

lemma length_id_display: "length (id_display bs) = 2 * length bs"
proof -
  have "length (hex_lower_pad 2 (unat b)) = 2" for b :: u8
    unfolding hex_lower_pad_def using lower.length_padded [of 2 "unat b"] unat_less_256 [of 1 b] by simp
  then show ?thesis by (induction bs) (simp_all add: id_display_def)
qed

text \<open>An identifier is read back from its text when the decoder restores the bytes of hexadecimal text.\<close>

lemma tenant_shard_roundtrip:
  assumes dec: "\<And>bs. dec (length bs) (id_display bs) = Some bs"
      and t: "length (tsi_tenant_id t) = 16" "tsi_count t = 0 \<Longrightarrow> tsi_number t = 0"
  shows "tenant_shard_from_str dec (tenant_shard_display t) = Some t"
proof -
  have slug: "shard_slug n c = id_display [n, c]" for n c by (simp add: shard_slug_def id_display_def)
  show ?thesis
    using t dec [of "tsi_tenant_id t"] dec [of "[tsi_number t, tsi_count t]"]
      length_id_display [of "tsi_tenant_id t"] length_id_display [of "[tsi_number t, tsi_count t]"]
    by (cases "tsi_count t = 0") (auto simp: tenant_shard_display_def tenant_shard_from_str_def slug numeral_2_eq_2)
qed

lemma tenant_shard_decoder:
  "(\<lambda>n s. if length s = 2 * n then hex_decode s else None) (length bs) (id_display bs) = Some bs"
  by (simp add: length_id_display hex_decode_id)

end
