(* ===== verification/Layer_Map.thy ===== *)
theory Layer_Map
  imports Historic_Coverage Shard Lsn
begin

text \<open>
  The layer map, pageserver/src/tenant/layer_map.rs: the in-memory layers and the history of
  the on-disk layers of a timeline, the search for the layer to read at a key below an LSN,
  the search over a range of keys, and the queries of garbage collection and of image
  creation. Layer descriptors are those of storage_layer/layer_desc.rs, the accumulator of
  key ranges that of libs/pageserver_api/src/keyspace.rs.
\<close>

section \<open>Results\<close>

definition and_then :: "'e + 'a \<Rightarrow> ('a \<Rightarrow> 'e + 'b) \<Rightarrow> 'e + 'b" where
  "and_then r f = (case r of Inl e \<Rightarrow> Inl e | Inr a \<Rightarrow> f a)"

lemma and_then_simps [simp]: "and_then (Inl e) f = Inl e" "and_then (Inr a) f = f a"
  by (simp_all add: and_then_def)

lemma and_then_Inr: "and_then r f = Inr b \<longleftrightarrow> (\<exists>a. r = Inr a \<and> f a = Inr b)"
  by (cases r) auto

definition or_panic :: "'e \<Rightarrow> 'a option \<Rightarrow> 'e + 'a" where
  "or_panic e r = (case r of None \<Rightarrow> Inl e | Some a \<Rightarrow> Inr a)"

section \<open>Accumulated key ranges\<close>

definition is_contiguous_range :: "pkey range \<Rightarrow> bool" where
  "is_contiguous_range r \<longleftrightarrow>
     field1 (fst r) = field1 (snd r) \<and> field2 (fst r) = field2 (snd r) \<and> field3 (fst r) = field3 (snd r)
     \<and> field4 (fst r) = field4 (snd r)
     \<and> (field5 (fst r) = field5 (snd r) \<or> field6 (fst r) = 0xffffffff \<and> field5 (fst r) + 1 = field5 (snd r))"

definition contiguous_range_len :: "pkey range \<Rightarrow> u32" where
  "contiguous_range_len r =
     (if field6 (fst r) = 0xffffffff then field6 (snd r) + 1 else field6 (snd r) - field6 (fst r))"

definition raw_size :: "pkey range \<Rightarrow> u32" where
  "raw_size r = (if is_contiguous_range r then contiguous_range_len r else 0xffffffff)"

record key_space_accum =
  ksa_accum :: "pkey range option"
  ksa_ranges :: "pkey range list"
  ksa_size :: u64

definition ksa_new :: key_space_accum where
  "ksa_new = \<lparr>ksa_accum = None, ksa_ranges = [], ksa_size = 0\<rparr>"

definition ksa_add_range :: "pkey range \<Rightarrow> key_space_accum \<Rightarrow> lm_panic + key_space_accum" where
  "ksa_add_range r a =
     (let a = a\<lparr>ksa_size := ksa_size a + ucast (raw_size r)\<rparr>
      in case ksa_accum a of
           Some accum \<Rightarrow>
             if fst r = snd accum then Inr (a\<lparr>ksa_accum := Some (fst accum, snd r)\<rparr>)
             else if key_less (snd accum) (fst r)
                  then Inr (a\<lparr>ksa_ranges := ksa_ranges a @ [accum], ksa_accum := Some r\<rparr>)
                  else Inl RangeOrder
         | None \<Rightarrow> Inr (a\<lparr>ksa_accum := Some r\<rparr>))"

definition to_keyspace :: "key_space_accum \<Rightarrow> pkey range list" where
  "to_keyspace a = (case ksa_accum a of Some accum \<Rightarrow> ksa_ranges a @ [accum] | None \<Rightarrow> ksa_ranges a)"

section \<open>Layers\<close>

record persistent_layer_desc =
  pl_tenant_shard_id :: tenant_shard_id
  pl_timeline_id :: bytes
  pl_key_range :: "pkey range"
  pl_lsn_range :: "lsn range"
  pl_is_delta :: bool
  pl_file_size :: u64

definition lsn_next :: "lsn \<Rightarrow> lm_panic + lsn" where
  "lsn_next l = or_panic LsnOverflow (lsn_add l 1)"

definition image_layer_lsn_range :: "lsn \<Rightarrow> lm_panic + lsn range" where
  "image_layer_lsn_range l = and_then (lsn_next l) (\<lambda>next. Inr (l, next))"

definition new_img :: "tenant_shard_id \<Rightarrow> bytes \<Rightarrow> pkey range \<Rightarrow> lsn \<Rightarrow> u64 \<Rightarrow> lm_panic + persistent_layer_desc" where
  "new_img tenant timeline key_range l file_size =
     and_then (image_layer_lsn_range l) (\<lambda>lsn_range. Inr
       \<lparr>pl_tenant_shard_id = tenant, pl_timeline_id = timeline, pl_key_range = key_range, pl_lsn_range = lsn_range,
        pl_is_delta = False, pl_file_size = file_size\<rparr>)"

definition new_delta :: "tenant_shard_id \<Rightarrow> bytes \<Rightarrow> pkey range \<Rightarrow> lsn range \<Rightarrow> u64 \<Rightarrow> persistent_layer_desc" where
  "new_delta tenant timeline key_range lsn_range file_size =
     \<lparr>pl_tenant_shard_id = tenant, pl_timeline_id = timeline, pl_key_range = key_range, pl_lsn_range = lsn_range,
      pl_is_delta = True, pl_file_size = file_size\<rparr>"

text \<open>\<open>PersistentLayerDesc::key\<close>\<close>

definition desc_key :: "persistent_layer_desc \<Rightarrow> pkey range \<times> lsn range \<times> bool" where
  "desc_key d = (pl_key_range d, pl_lsn_range d, pl_is_delta d)"

definition layer_key_from :: "persistent_layer_desc \<Rightarrow> lm_panic + layer_key" where
  "layer_key_from d =
     and_then (or_panic KeyNotRepresentable (to_i128 (fst (pl_key_range d)))) (\<lambda>start.
     and_then (or_panic KeyNotRepresentable (to_i128 (snd (pl_key_range d)))) (\<lambda>stop.
     Inr (LayerKey (start, stop) (pl_lsn_range d) (\<not> pl_is_delta d))))"

record in_memory_layer =
  im_start_lsn :: lsn
  im_end_lsn :: "lsn option"

definition im_lsn_range :: "in_memory_layer \<Rightarrow> lsn range" where
  "im_lsn_range l = (im_start_lsn l, case im_end_lsn l of Some e \<Rightarrow> e | None \<Rightarrow> - 1)"

datatype in_memory_handle = OpenLayer | FrozenLayer nat

record in_memory_desc =
  imd_handle :: in_memory_handle
  imd_lsn_range :: "lsn range"

datatype readable_layer = PersistentLayer persistent_layer_desc | InMemoryLayer in_memory_desc

record search_result =
  sr_layer :: readable_layer
  sr_lsn_floor :: lsn

record 'm layer_map =
  open_layer :: "in_memory_layer option"
  next_open_layer_at :: "lsn option"
  frozen_layers :: "in_memory_layer list"
  lm_historic :: "(persistent_layer_desc, 'm) buffered_coverage"
  l0_delta_layers :: "persistent_layer_desc list"
  watch_l0_deltas :: nat

type_synonym 'm layer_ops = "(persistent_layer_desc, 'm) node_ops"

definition lm_default :: "'m layer_ops \<Rightarrow> 'm layer_map" where
  "lm_default ops =
     \<lparr>open_layer = None, next_open_layer_at = None, frozen_layers = [], lm_historic = bc_new ops,
      l0_delta_layers = [], watch_l0_deltas = 0\<rparr>"

section \<open>Updates\<close>

definition is_l0 :: "pkey range \<Rightarrow> bool \<Rightarrow> bool" where
  "is_l0 key_range is_delta_layer \<longleftrightarrow> is_delta_layer \<and> key_range = (KEY_MIN, KEY_MAX)"

definition insert_historic_noflush :: "persistent_layer_desc \<Rightarrow> 'm layer_map \<Rightarrow> lm_panic + 'm layer_map" where
  "insert_historic_noflush d lm =
     (let lm = (if is_l0 (pl_key_range d) (pl_is_delta d)
                then lm\<lparr>l0_delta_layers := l0_delta_layers lm @ [d], watch_l0_deltas := length (l0_delta_layers lm) + 1\<rparr>
                else lm)
      in and_then (layer_key_from d) (\<lambda>key. Inr (lm\<lparr>lm_historic := bc_insert key d (lm_historic lm)\<rparr>)))"

definition remove_historic_noflush :: "persistent_layer_desc \<Rightarrow> 'm layer_map \<Rightarrow> lm_panic + 'm layer_map" where
  "remove_historic_noflush d lm =
     and_then (layer_key_from d) (\<lambda>key.
       let lm = lm\<lparr>lm_historic := bc_remove key (lm_historic lm)\<rparr>
       in if is_l0 (pl_key_range d) (pl_is_delta d)
          then let kept = filter (\<lambda>other. desc_key other \<noteq> desc_key d) (l0_delta_layers lm)
               in if length kept + 1 = length (l0_delta_layers lm)
                  then Inr (lm\<lparr>l0_delta_layers := kept, watch_l0_deltas := length kept\<rparr>)
                  else Inl L0LayerLost
          else Inr lm)"

definition flush_updates :: "'m layer_ops \<Rightarrow> 'm layer_map \<Rightarrow> lm_panic + 'm layer_map" where
  "flush_updates ops lm = and_then (bc_rebuild ops (lm_historic lm)) (\<lambda>h. Inr (lm\<lparr>lm_historic := h\<rparr>))"

text \<open>A batch of updates, flushed when it is dropped.\<close>

datatype lm_update = InsertHistoric persistent_layer_desc | RemoveHistoric persistent_layer_desc

fun batch_noflush :: "lm_update list \<Rightarrow> 'm layer_map \<Rightarrow> lm_panic + 'm layer_map" where
  "batch_noflush [] lm = Inr lm"
| "batch_noflush (InsertHistoric d # us) lm = and_then (insert_historic_noflush d lm) (batch_noflush us)"
| "batch_noflush (RemoveHistoric d # us) lm = and_then (remove_historic_noflush d lm) (batch_noflush us)"

definition batch_update :: "'m layer_ops \<Rightarrow> lm_update list \<Rightarrow> 'm layer_map \<Rightarrow> lm_panic + 'm layer_map" where
  "batch_update ops us lm = and_then (batch_noflush us lm) (flush_updates ops)"

section \<open>The search for a layer\<close>

definition search_in_memory_layer :: "lsn \<Rightarrow> 'm layer_map \<Rightarrow> in_memory_desc option" where
  "search_in_memory_layer below lm =
     (let is_below = (\<lambda>l. fst (im_lsn_range l) < below);
          frozen = map_option (\<lambda>(idx, l). \<lparr>imd_handle = FrozenLayer idx, imd_lsn_range = im_lsn_range l\<rparr>)
            (find (\<lambda>(idx, l). is_below l) (rev (enumerate 0 (frozen_layers lm))))
      in case open_layer lm of
           Some l \<Rightarrow>
             if is_below l then Some \<lparr>imd_handle = OpenLayer, imd_lsn_range = im_lsn_range l\<rparr> else frozen
         | None \<Rightarrow> frozen)"

definition mem_result :: "in_memory_desc \<Rightarrow> search_result" where
  "mem_result desc = \<lparr>sr_layer = InMemoryLayer desc, sr_lsn_floor = fst (imd_lsn_range desc)\<rparr>"

definition layer_result :: "persistent_layer_desc \<Rightarrow> search_result" where
  "layer_result l = \<lparr>sr_layer = PersistentLayer l, sr_lsn_floor = fst (pl_lsn_range l)\<rparr>"

text \<open>\<open>select_layer\<close>, the cases with two candidates.\<close>

definition select_delta_image :: "persistent_layer_desc \<Rightarrow> persistent_layer_desc \<Rightarrow> lsn \<Rightarrow> lm_panic + search_result" where
  "select_delta_image delta img end_lsn =
     (let img_lsn = fst (pl_lsn_range img);
          image_is_newer = snd (pl_lsn_range delta) \<le> snd (pl_lsn_range img)
      in and_then (lsn_next img_lsn) (\<lambda>above.
         if image_is_newer \<or> above = end_lsn then Inr (layer_result img)
         else Inr \<lparr>sr_layer = PersistentLayer delta, sr_lsn_floor = max (fst (pl_lsn_range delta)) above\<rparr>))"

definition select_image_mem :: "persistent_layer_desc \<Rightarrow> in_memory_desc \<Rightarrow> lsn \<Rightarrow> lm_panic + search_result" where
  "select_image_mem img inmem end_lsn =
     (let img_lsn = fst (pl_lsn_range img);
          image_is_newer = snd (imd_lsn_range inmem) \<le> snd (pl_lsn_range img)
      in and_then (lsn_next img_lsn) (\<lambda>above.
         if image_is_newer \<or> above = end_lsn then Inr (layer_result img)
         else Inr \<lparr>sr_layer = InMemoryLayer inmem, sr_lsn_floor = max (fst (imd_lsn_range inmem)) above\<rparr>))"

definition select_delta_mem :: "persistent_layer_desc \<Rightarrow> in_memory_desc \<Rightarrow> lsn \<Rightarrow> search_result" where
  "select_delta_mem delta inmem end_lsn =
     (let delta_end = snd (pl_lsn_range delta);
          delta_is_newer = snd (imd_lsn_range inmem) \<le> delta_end
      in if delta_is_newer \<or> delta_end = end_lsn then layer_result delta
         else \<lparr>sr_layer = InMemoryLayer inmem, sr_lsn_floor = max (fst (imd_lsn_range inmem)) delta_end\<rparr>)"

text \<open>With three candidates: the on-disk layer first, then the in-memory layer against it.\<close>

definition select_all :: "persistent_layer_desc \<Rightarrow> persistent_layer_desc \<Rightarrow> in_memory_desc \<Rightarrow> lsn \<Rightarrow> lm_panic + search_result" where
  "select_all delta img inmem end_lsn =
     and_then (select_delta_image delta img end_lsn) (\<lambda>persistent_res.
       case sr_layer persistent_res of
         InMemoryLayer _ \<Rightarrow> Inl WrongLayerKind
       | PersistentLayer persistent_l \<Rightarrow>
           and_then (if pl_is_delta persistent_l then Inr (select_delta_mem persistent_l inmem end_lsn)
                     else select_image_mem persistent_l inmem end_lsn) (\<lambda>inmem_res.
           Inr \<lparr>sr_layer = sr_layer inmem_res, sr_lsn_floor = max (sr_lsn_floor persistent_res) (sr_lsn_floor inmem_res)\<rparr>))"

definition select_layer ::
  "persistent_layer_desc option \<Rightarrow> persistent_layer_desc option \<Rightarrow> in_memory_desc option \<Rightarrow> lsn
     \<Rightarrow> lm_panic + search_result option" where
  "select_layer delta_layer image_layer in_memory_layer end_lsn =
     (if \<not> (case delta_layer of None \<Rightarrow> True | Some l \<Rightarrow> pl_is_delta l) then Inl WrongLayerKind
      else if \<not> (case image_layer of None \<Rightarrow> True | Some l \<Rightarrow> \<not> pl_is_delta l) then Inl WrongLayerKind
      else case (delta_layer, image_layer, in_memory_layer) of
        (None, None, None) \<Rightarrow> Inr None
      | (None, Some img, None) \<Rightarrow> Inr (Some (layer_result img))
      | (Some delta, None, None) \<Rightarrow> Inr (Some (layer_result delta))
      | (Some delta, Some img, None) \<Rightarrow> and_then (select_delta_image delta img end_lsn) (\<lambda>r. Inr (Some r))
      | (None, None, Some inmem) \<Rightarrow> Inr (Some (mem_result inmem))
      | (None, Some img, Some inmem) \<Rightarrow> and_then (select_image_mem img inmem end_lsn) (\<lambda>r. Inr (Some r))
      | (Some delta, None, Some inmem) \<Rightarrow> Inr (Some (select_delta_mem delta inmem end_lsn))
      | (Some delta, Some img, Some inmem) \<Rightarrow> and_then (select_all delta img inmem end_lsn) (\<lambda>r. Inr (Some r)))"

text \<open>\<open>end_lsn.0 - 1\<close> wraps at zero.\<close>

definition search :: "'m layer_ops \<Rightarrow> pkey \<Rightarrow> lsn \<Rightarrow> 'm layer_map \<Rightarrow> lm_panic + search_result option" where
  "search ops key end_lsn lm =
     (let in_memory_layer = search_in_memory_layer end_lsn lm
      in and_then (bc_get (lm_historic lm)) (\<lambda>historic.
         case get_version (end_lsn - 1) historic of
           None \<Rightarrow> Inr (map_option mem_result in_memory_layer)
         | Some version \<Rightarrow>
             and_then (or_panic KeyNotRepresentable (to_i128 key)) (\<lambda>k.
             select_layer (lc_query ops k (delta_coverage version)) (lc_query ops k (image_coverage version))
               in_memory_layer end_lsn)))"

section \<open>The search over a range of keys\<close>

type_synonym found = "search_result \<rightharpoonup> key_space_accum"

record layer_changes =
  lch_delta :: "(int \<times> persistent_layer_desc option) list"
  lch_image :: "(int \<times> persistent_layer_desc option) list"
  lch_current_delta :: "persistent_layer_desc option"
  lch_current_image :: "persistent_layer_desc option"

datatype next_layer_type = NextDelta int | NextImage int | NextBoth int

fun next_change_at_key :: "next_layer_type \<Rightarrow> pkey" where
  "next_change_at_key (NextDelta at) = from_i128 at"
| "next_change_at_key (NextImage at) = from_i128 at"
| "next_change_at_key (NextBoth at) = from_i128 at"

definition choose_next_layer_type :: "layer_changes \<Rightarrow> next_layer_type option" where
  "choose_next_layer_type c =
     (case (lch_delta c, lch_image c) of
        ([], []) \<Rightarrow> None
      | ((next_delta_at, _) # _, []) \<Rightarrow> Some (NextDelta next_delta_at)
      | ([], (next_image_at, _) # _) \<Rightarrow> Some (NextImage next_image_at)
      | ((next_delta_at, _) # _, (next_image_at, _) # _) \<Rightarrow>
          if next_image_at < next_delta_at then Some (NextImage next_image_at)
          else if next_delta_at < next_image_at then Some (NextDelta next_delta_at)
          else Some (NextBoth next_delta_at))"

fun advance :: "next_layer_type \<Rightarrow> layer_changes \<Rightarrow> lm_panic + layer_changes" where
  "advance (NextDelta at) c =
     (case lch_delta c of
        [] \<Rightarrow> Inl NoNextLayer
      | (_, layer) # rest \<Rightarrow> Inr (c\<lparr>lch_delta := rest, lch_current_delta := layer\<rparr>))"
| "advance (NextImage at) c =
     (case lch_image c of
        [] \<Rightarrow> Inl NoNextLayer
      | (_, layer) # rest \<Rightarrow> Inr (c\<lparr>lch_image := rest, lch_current_image := layer\<rparr>))"
| "advance (NextBoth at) c =
     (case (lch_image c, lch_delta c) of
        ((_, image_layer) # images, (_, delta_layer) # deltas) \<Rightarrow>
          Inr (c\<lparr>lch_image := images, lch_delta := deltas, lch_current_image := image_layer, lch_current_delta := delta_layer\<rparr>)
      | _ \<Rightarrow> Inl NoNextLayer)"

text \<open>\<open>found.entry(search_result).or_default().add_range(range)\<close>\<close>

definition found_add :: "search_result \<Rightarrow> pkey range \<Rightarrow> found \<Rightarrow> lm_panic + found" where
  "found_add sr r f =
     and_then (ksa_add_range r (case f sr of Some a \<Rightarrow> a | None \<Rightarrow> ksa_new)) (\<lambda>a. Inr (f(sr \<mapsto> a)))"

definition pad_range :: "in_memory_desc option \<Rightarrow> pkey range \<Rightarrow> found \<Rightarrow> lm_panic + found" where
  "pad_range in_memory_layer key_range f =
     (if key_less (fst key_range) (snd key_range)
      then case in_memory_layer of
             Some inmem \<Rightarrow> found_add (mem_result inmem) key_range f
           | None \<Rightarrow> Inr f
      else Inr f)"

definition add_range :: "in_memory_desc option \<Rightarrow> lsn \<Rightarrow> layer_changes \<Rightarrow> pkey range \<Rightarrow> found \<Rightarrow> lm_panic + found" where
  "add_range in_memory_layer end_lsn c covered_range f =
     and_then (select_layer (lch_current_delta c) (lch_current_image c) in_memory_layer end_lsn) (\<lambda>selected.
       case selected of
         Some sr \<Rightarrow> found_add sr covered_range f
       | None \<Rightarrow> pad_range in_memory_layer covered_range f)"

definition changes_left :: "layer_changes \<Rightarrow> nat" where
  "changes_left c = length (lch_delta c) + length (lch_image c)"

lemma advance_left: "advance t c = Inr c' \<Longrightarrow> changes_left c' < changes_left c"
  by (cases t) (auto simp: changes_left_def split: list.splits)

function collect_loop ::
  "in_memory_desc option \<Rightarrow> lsn \<Rightarrow> pkey \<Rightarrow> pkey \<Rightarrow> layer_changes \<Rightarrow> found \<Rightarrow> lm_panic + found" where
  "collect_loop in_memory_layer end_lsn range_end current_range_start c f =
     (if key_less current_range_start range_end then
        case choose_next_layer_type c of
          Some t \<Rightarrow>
            (let current_range_end = next_change_at_key t
             in case add_range in_memory_layer end_lsn c (current_range_start, current_range_end) f of
                  Inl p \<Rightarrow> Inl p
                | Inr f' \<Rightarrow>
                    (case advance t c of
                       Inl p \<Rightarrow> Inl p
                     | Inr c' \<Rightarrow> collect_loop in_memory_layer end_lsn range_end current_range_end c' f'))
        | None \<Rightarrow>
            (case add_range in_memory_layer end_lsn c (current_range_start, range_end) f of
               Inl p \<Rightarrow> Inl p
             | Inr f' \<Rightarrow> collect_loop in_memory_layer end_lsn range_end range_end c f')
      else Inr f)"
  by pat_completeness auto
termination
  by (relation "measure (\<lambda>(_, _, range_end, start, c, _). 2 * changes_left c + (if key_less start range_end then 1 else 0))")
     (auto dest!: advance_left simp: key_less_def)

definition collect ::
  "pkey range \<Rightarrow> lsn \<Rightarrow> in_memory_desc option \<Rightarrow> layer_changes \<Rightarrow> lm_panic + found" where
  "collect key_range end_lsn in_memory_layer c =
     (case choose_next_layer_type c of
        None \<Rightarrow> pad_range in_memory_layer key_range Map.empty
      | Some layer_type \<Rightarrow>
          if \<not> key_less (next_change_at_key layer_type) (snd key_range)
          then pad_range in_memory_layer key_range Map.empty
          else
            let coverage_start = next_change_at_key layer_type
            in and_then (pad_range in_memory_layer (fst key_range, coverage_start) Map.empty) (\<lambda>f.
               and_then (advance layer_type c) (\<lambda>c.
               collect_loop in_memory_layer end_lsn (snd key_range) coverage_start c f)))"

definition map_to_in_memory_layer :: "in_memory_desc option \<Rightarrow> pkey range \<Rightarrow> lm_panic + found" where
  "map_to_in_memory_layer in_memory_layer r =
     (case in_memory_layer of
        Some inmem \<Rightarrow> and_then (ksa_add_range r ksa_new) (\<lambda>a. Inr [mem_result inmem \<mapsto> a])
      | None \<Rightarrow> Inr Map.empty)"

definition range_search :: "'m layer_ops \<Rightarrow> pkey range \<Rightarrow> lsn \<Rightarrow> 'm layer_map \<Rightarrow> lm_panic + found" where
  "range_search ops key_range end_lsn lm =
     (let in_memory_layer = search_in_memory_layer end_lsn lm
      in and_then (bc_get (lm_historic lm)) (\<lambda>historic.
         case get_version (end_lsn - 1) historic of
           None \<Rightarrow> map_to_in_memory_layer in_memory_layer key_range
         | Some version \<Rightarrow>
             and_then (or_panic KeyNotRepresentable (to_i128 (fst key_range))) (\<lambda>start.
             and_then (or_panic KeyNotRepresentable (to_i128 (snd key_range))) (\<lambda>stop.
             collect key_range end_lsn in_memory_layer
               \<lparr>lch_delta = range_overlaps ops (start, stop) (delta_coverage version),
                lch_image = range_overlaps ops (start, stop) (image_coverage version),
                lch_current_delta = None, lch_current_image = None\<rparr>))))"

section \<open>Queries of the images\<close>

definition layer_covers :: "lsn \<Rightarrow> persistent_layer_desc option \<Rightarrow> bool" where
  "layer_covers since layer = (case layer of Some l \<Rightarrow> since \<le> fst (pl_lsn_range l) | None \<Rightarrow> False)"

definition image_layer_exists :: "'m layer_ops \<Rightarrow> pkey range \<Rightarrow> lsn range \<Rightarrow> 'm layer_map \<Rightarrow> lm_panic + bool" where
  "image_layer_exists ops key lsns lm =
     (if \<not> key_less (fst key) (snd key) then Inr True
      else
        and_then (bc_get (lm_historic lm)) (\<lambda>historic.
        case get_version (snd lsns - 1) historic of
          None \<Rightarrow> Inr False
        | Some version \<Rightarrow>
            and_then (or_panic KeyNotRepresentable (to_i128 (fst key))) (\<lambda>start.
            and_then (or_panic KeyNotRepresentable (to_i128 (snd key))) (\<lambda>stop.
            if \<not> layer_covers (fst lsns) (lc_query ops start (image_coverage version)) then Inr False
            else Inr (list_all (\<lambda>(_, change_val). layer_covers (fst lsns) change_val)
                        (lc_range ops (start, stop) (image_coverage version)))))))"

fun coverage_intervals ::
  "int \<Rightarrow> persistent_layer_desc option \<Rightarrow> (int \<times> persistent_layer_desc option) list \<Rightarrow> int
     \<Rightarrow> (pkey range \<times> persistent_layer_desc option) list" where
  "coverage_intervals current_key current_val [] stop = [((from_i128 current_key, from_i128 stop), current_val)]"
| "coverage_intervals current_key current_val ((change_key, change_val) # rest) stop =
     ((from_i128 current_key, from_i128 change_key), current_val) # coverage_intervals change_key change_val rest stop"

definition lm_image_coverage ::
  "'m layer_ops \<Rightarrow> pkey range \<Rightarrow> lsn \<Rightarrow> 'm layer_map \<Rightarrow> lm_panic + (pkey range \<times> persistent_layer_desc option) list" where
  "lm_image_coverage ops key_range l lm =
     and_then (bc_get (lm_historic lm)) (\<lambda>historic.
     case get_version l historic of
       None \<Rightarrow> Inr []
     | Some version \<Rightarrow>
         and_then (or_panic KeyNotRepresentable (to_i128 (fst key_range))) (\<lambda>start.
         and_then (or_panic KeyNotRepresentable (to_i128 (snd key_range))) (\<lambda>stop.
         Inr (coverage_intervals start (lc_query ops start (image_coverage version))
                (lc_range ops (start, stop) (image_coverage version)) stop))))"

definition iter_historic_layers :: "'m layer_map \<Rightarrow> lm_panic + persistent_layer_desc list" where
  "iter_historic_layers lm = bc_iter (lm_historic lm)"

definition lm_in_memory_layer :: "in_memory_desc \<Rightarrow> 'm layer_map \<Rightarrow> in_memory_layer option" where
  "lm_in_memory_layer desc lm =
     (case imd_handle desc of
        OpenLayer \<Rightarrow> open_layer lm
      | FrozenLayer idx \<Rightarrow> if idx < length (frozen_layers lm) then Some (frozen_layers lm ! idx) else None)"

section \<open>The height of the deltas\<close>

definition is_reimage_worthy :: "persistent_layer_desc \<Rightarrow> pkey range \<Rightarrow> bool" where
  "is_reimage_worthy layer partition_range \<longleftrightarrow>
     \<not> is_l0 (pl_key_range layer) (pl_is_delta layer) \<or> partition_range = (KEY_MIN, KEY_MAX)"

text \<open>One part of the coverage: \<open>below\<close> counts the deltas under the layer of the part.\<close>

definition stacked_here ::
  "(pkey range \<Rightarrow> lsn range \<Rightarrow> nat option \<Rightarrow> lm_panic + nat) \<Rightarrow> pkey range \<Rightarrow> lsn range \<Rightarrow> nat option
     \<Rightarrow> int range \<times> persistent_layer_desc option \<Rightarrow> nat \<Rightarrow> lm_panic + nat" where
  "stacked_here below key lsns limit part max_stacked_deltas =
     (case snd part of
        None \<Rightarrow> Inr max_stacked_deltas
      | Some val \<Rightarrow>
          if fst lsns < snd (pl_lsn_range val) then
            let kr = (from_i128 (fst (fst part)), from_i128 (snd (fst part)));
                lr = (fst lsns, fst (pl_lsn_range val))
            in if key_less (fst kr) (snd kr) then
                 let base_count = (if is_reimage_worthy val key then 1 else 0)
                 in and_then (below kr lr (map_option (\<lambda>l. l - base_count) limit)) (\<lambda>underneath.
                    Inr (max max_stacked_deltas (base_count + underneath)))
               else Inr max_stacked_deltas
          else Inr max_stacked_deltas)"

fun coverage_parts ::
  "int \<Rightarrow> persistent_layer_desc option \<Rightarrow> (int \<times> persistent_layer_desc option) list \<Rightarrow> int
     \<Rightarrow> (int range \<times> persistent_layer_desc option) list" where
  "coverage_parts current_key current_val [] stop = [((current_key, stop), current_val)]"
| "coverage_parts current_key current_val ((change_key, change_val) # rest) stop =
     ((current_key, change_key), current_val) # coverage_parts change_key change_val rest stop"

fun stacked_parts ::
  "(pkey range \<Rightarrow> lsn range \<Rightarrow> nat option \<Rightarrow> lm_panic + nat) \<Rightarrow> pkey range \<Rightarrow> lsn range \<Rightarrow> nat option
     \<Rightarrow> (int range \<times> persistent_layer_desc option) list \<Rightarrow> nat \<Rightarrow> lm_panic + nat" where
  "stacked_parts below key lsns limit [] n = Inr n"
| "stacked_parts below key lsns limit (part # parts) n =
     and_then (stacked_here below key lsns limit part n) (stacked_parts below key lsns limit parts)"

text \<open>The depth of the recursion is bounded by a number of frames; every step down lowers the end of the LSN range.\<close>

fun count_deltas :: "nat \<Rightarrow> 'm layer_ops \<Rightarrow> 'm layer_map \<Rightarrow> pkey range \<Rightarrow> lsn range \<Rightarrow> nat option \<Rightarrow> lm_panic + nat" where
  "count_deltas 0 ops lm key lsns limit = Inl StackOverflow"
| "count_deltas (Suc frames) ops lm key lsns limit =
     (if \<not> fst lsns < snd lsns \<or> \<not> key_less (fst key) (snd key) \<or> limit = Some 0 then Inr 0
      else
        and_then (bc_get (lm_historic lm)) (\<lambda>historic.
        case get_version (snd lsns - 1) historic of
          None \<Rightarrow> Inr 0
        | Some version \<Rightarrow>
            and_then (or_panic KeyNotRepresentable (to_i128 (fst key))) (\<lambda>start.
            and_then (or_panic KeyNotRepresentable (to_i128 (snd key))) (\<lambda>stop.
            stacked_parts (count_deltas frames ops lm) key lsns limit
              (coverage_parts start (lc_query ops start (delta_coverage version))
                (lc_range ops (start, stop) (delta_coverage version)) stop) 0))))"

end
