(* ===== verification/Layer_Search.thy ===== *)
theory Layer_Search
  imports Layer_Map
begin

text \<open>
  What the queries of the layer map return, for every map that batches of updates lead to:
  the search at a key as a selection among the topmost layers, its progress towards the
  newest image below an LSN, and the images that garbage collection relies on.
\<close>

section \<open>Maps that updates lead to\<close>

text \<open>A layer covers some keys and some LSNs above zero; an image covers one LSN.\<close>

definition desc_ok :: "persistent_layer_desc \<Rightarrow> bool" where
  "desc_ok d \<longleftrightarrow>
     (case (to_i128 (fst (pl_key_range d)), to_i128 (snd (pl_key_range d))) of
        (Some start, Some stop) \<Rightarrow> start < stop
      | _ \<Rightarrow> False)
     \<and> 0 < fst (pl_lsn_range d) \<and> fst (pl_lsn_range d) < snd (pl_lsn_range d)
     \<and> (\<not> pl_is_delta d \<longrightarrow> snd (pl_lsn_range d) = fst (pl_lsn_range d) + 1)"

fun update_ok :: "lm_update \<Rightarrow> bool" where
  "update_ok (InsertHistoric d) = desc_ok d"
| "update_ok (RemoveHistoric d) = desc_ok d"

text \<open>The in-memory layers are those of the timeline, set from outside.\<close>

inductive lm_reachable :: "'m layer_ops \<Rightarrow> 'm layer_map \<Rightarrow> bool" for ops where
  lm_init: "lm_reachable ops (lm_default ops)"
| lm_batch: "lm_reachable ops lm \<Longrightarrow> list_all update_ok us \<Longrightarrow> batch_update ops us lm = Inr lm' \<Longrightarrow> lm_reachable ops lm'"
| lm_memory: "lm_reachable ops lm \<Longrightarrow> lm_reachable ops (lm\<lparr>open_layer := l, next_open_layer_at := at, frozen_layers := ls\<rparr>)"

definition entry_ok :: "layer_key \<Rightarrow> persistent_layer_desc \<Rightarrow> bool" where
  "entry_ok l d \<longleftrightarrow> layer_key_from d = Inr l \<and> desc_ok d"

definition lm_ok :: "'m layer_ops \<Rightarrow> 'm layer_map \<Rightarrow> bool" where
  "lm_ok ops lm \<longleftrightarrow>
     bc_ok ops (lm_historic lm) \<and> (\<forall>l d. (l, Some d) \<in> set (bc_buffer (lm_historic lm)) \<longrightarrow> entry_ok l d)
     \<and> (\<forall>l d. (l, d) \<in> set (bc_layers (lm_historic lm)) \<longrightarrow> entry_ok l d)"

lemma layer_key_fields:
  assumes "desc_ok d"
  obtains l where "layer_key_from d = Inr l" "lk_ok l" "lk_lsn l = pl_lsn_range d" "is_image l = (\<not> pl_is_delta d)"
    "to_i128 (fst (pl_key_range d)) = Some (fst (lk_key l))" "to_i128 (snd (pl_key_range d)) = Some (snd (lk_key l))"
proof -
  obtain a b where ab: "to_i128 (fst (pl_key_range d)) = Some a" "to_i128 (snd (pl_key_range d)) = Some b" "a < b"
    using assms by (auto simp: desc_ok_def split: option.splits)
  show ?thesis
    by (rule that [of "LayerKey (a, b) (pl_lsn_range d) (\<not> pl_is_delta d)"])
       (use assms ab in \<open>auto simp: layer_key_from_def or_panic_def lk_ok_def desc_ok_def\<close>)
qed

lemma apply_all_entries:
  "om_ok ls \<Longrightarrow> (l, d) \<in> set (fold bc_apply es ls) \<Longrightarrow> (l, Some d) \<in> set es \<or> (l, d) \<in> set ls"
proof (induction es arbitrary: ls)
  case (Cons e es)
  then have "(l, Some d) \<in> set es \<or> (l, d) \<in> set (bc_apply e ls)" using Cons.IH [of "bc_apply e ls"] by (simp add: apply_ok)
  moreover have "(l, d) \<in> set (bc_apply e ls) \<Longrightarrow> (l, Some d) = e \<or> (l, d) \<in> set ls"
    using Cons.prems(1) by (cases e) (auto simp: bc_apply_def om_remove_def set_om_insert split: option.splits)
  ultimately show ?case by auto
qed simp

lemma insert_ok:
  assumes "lm_ok ops lm" "desc_ok d" "insert_historic_noflush d lm = Inr lm'"
  shows "lm_ok ops lm'"
proof -
  obtain l where l: "layer_key_from d = Inr l" "lk_ok l" using assms(2) by (rule layer_key_fields)
  have h: "lm_historic lm' = bc_insert l d (lm_historic lm)" using assms(3) l
    by (auto simp: insert_historic_noflush_def Let_def)
  show ?thesis using assms(1,2) l unfolding lm_ok_def h
    by (auto simp: bc_insert_def bc_ok_def set_om_insert entry_ok_def)
qed

lemma remove_ok:
  assumes "lm_ok ops lm" "desc_ok d" "remove_historic_noflush d lm = Inr lm'"
  shows "lm_ok ops lm'"
proof -
  obtain l where l: "layer_key_from d = Inr l" "lk_ok l" using assms(2) by (rule layer_key_fields)
  have h: "lm_historic lm' = bc_remove l (lm_historic lm)" using assms(3) l
    by (auto simp: remove_historic_noflush_def Let_def split: if_splits)
  show ?thesis using assms(1) l unfolding lm_ok_def h
    by (auto simp: bc_remove_def bc_ok_def set_om_insert)
qed

lemma batch_noflush_ok: "batch_noflush us lm = Inr lm' \<Longrightarrow> lm_ok ops lm \<Longrightarrow> list_all update_ok us \<Longrightarrow> lm_ok ops lm'"
  by (induction us lm rule: batch_noflush.induct) (auto simp: and_then_Inr intro: insert_ok remove_ok)

lemma flush_ok:
  assumes "lm_ok ops lm" "flush_updates ops lm = Inr lm'"
  shows "lm_ok ops lm' \<and> bc_buffer (lm_historic lm') = []"
proof -
  let ?b = "lm_historic lm"
  define ls where "ls = fold bc_apply (bc_buffer ?b) (bc_layers ?b)"
  have b: "bc_ok ops ?b" using assms(1) by (simp add: lm_ok_def)
  have h: "lm_historic lm' = \<lparr>bc_historic = history_of ops ls, bc_buffer = [], bc_layers = ls\<rparr>"
    using assms(2) by (auto simp: flush_updates_def and_then_Inr bc_rebuild_ok [OF b] ls_def Let_def)
  have "entry_ok l d" if "(l, d) \<in> set ls" for l d
    using that assms(1) apply_all_entries [of "bc_layers ?b" l d "bc_buffer ?b"] by (auto simp: lm_ok_def bc_ok_def ls_def)
  moreover have "bc_ok ops (lm_historic lm')"
    using bc_step_ok [OF b, of BcRebuild] by (auto simp: bc_rebuild_ok [OF b] h ls_def Let_def)
  ultimately show ?thesis by (simp add: lm_ok_def h)
qed

lemma reachable_lm_ok: "lm_reachable ops lm \<Longrightarrow> lm_ok ops lm \<and> bc_buffer (lm_historic lm) = []"
proof (induction rule: lm_reachable.induct)
  case lm_init
  show ?case using bc_new_ok(1) [of ops] by (simp add: lm_ok_def lm_default_def) (simp add: bc_new_def)
next
  case (lm_batch lm us lm')
  then show ?case using batch_noflush_ok flush_ok by (auto simp: batch_update_def and_then_Inr) blast+
qed (simp add: lm_ok_def)

section \<open>The topmost layers at a key\<close>

definition live_layers :: "'m layer_map \<Rightarrow> persistent_layer_desc set" where
  "live_layers lm = snd ` set (bc_layers (lm_historic lm))"

definition covers_key :: "persistent_layer_desc \<Rightarrow> int \<Rightarrow> bool" where
  "covers_key d k =
     (case (to_i128 (fst (pl_key_range d)), to_i128 (snd (pl_key_range d))) of
        (Some start, Some stop) \<Rightarrow> start \<le> k \<and> k < stop
      | _ \<Rightarrow> False)"

text \<open>The images or the deltas that start at an LSN or below and cover a key.\<close>

definition readable :: "'m layer_map \<Rightarrow> bool \<Rightarrow> int \<Rightarrow> lsn \<Rightarrow> persistent_layer_desc \<Rightarrow> bool" where
  "readable lm img k s d \<longleftrightarrow>
     d \<in> live_layers lm \<and> pl_is_delta d = (\<not> img) \<and> covers_key d k \<and> fst (pl_lsn_range d) \<le> s"

definition lookup :: "'m layer_map \<Rightarrow> lsn \<Rightarrow> bool \<Rightarrow> int \<Rightarrow> persistent_layer_desc option" where
  "lookup lm s img k =
     map_option snd (best img k (filter (\<lambda>e. lk_start (fst e) \<le> s) (bc_layers (lm_historic lm))))"

lemma entry_fields:
  assumes "entry_ok l d"
  shows "hits img k l \<longleftrightarrow> pl_is_delta d = (\<not> img) \<and> covers_key d k" "lk_lsn l = pl_lsn_range d"
proof -
  obtain l' where "layer_key_from d = Inr l'" "lk_lsn l' = pl_lsn_range d" "is_image l' = (\<not> pl_is_delta d)"
    "to_i128 (fst (pl_key_range d)) = Some (fst (lk_key l'))" "to_i128 (snd (pl_key_range d)) = Some (snd (lk_key l'))"
    using assms layer_key_fields [of d] unfolding entry_ok_def by metis
  then show "hits img k l \<longleftrightarrow> pl_is_delta d = (\<not> img) \<and> covers_key d k" "lk_lsn l = pl_lsn_range d"
    using assms by (auto simp: entry_ok_def hits_def covers_key_def)
qed

lemma readable_entry:
  assumes "lm_ok ops lm"
  shows "readable lm img k s d \<longleftrightarrow> (\<exists>l. (l, d) \<in> set (bc_layers (lm_historic lm)) \<and> lk_start l \<le> s \<and> hits img k l)"
proof -
  have "entry_ok l d" if "(l, d) \<in> set (bc_layers (lm_historic lm))" for l d
    using assms that by (simp add: lm_ok_def)
  note f = entry_fields [OF this]
  have "d \<in> live_layers lm \<longleftrightarrow> (\<exists>l. (l, d) \<in> set (bc_layers (lm_historic lm)))" by (force simp: live_layers_def)
  then show ?thesis by (auto simp: readable_def f)
qed

lemma lookup_None: "lm_ok ops lm \<Longrightarrow> lookup lm s img k = None \<longleftrightarrow> (\<forall>d. \<not> readable lm img k s d)"
  by (auto simp: lookup_def best_None readable_entry)

lemma lookup_Some:
  assumes "lm_ok ops lm" "lookup lm s img k = Some d"
  shows "readable lm img k s d" "readable lm img k s d' \<Longrightarrow> snd (pl_lsn_range d') \<le> snd (pl_lsn_range d)"
proof -
  let ?ls = "filter (\<lambda>e. lk_start (fst e) \<le> s) (bc_layers (lm_historic lm))"
  obtain h where h: "best img k ?ls = Some (h, d)" using assms(2) by (auto simp: lookup_def)
  obtain l where l: "(l, d) \<in> set ?ls" "hits img k l" "snd (lk_lsn l) = h" using best_Some [OF h] by blast
  then show "readable lm img k s d" using assms(1) by (auto simp: readable_entry)
  have ends: "snd (lk_lsn l) = snd (pl_lsn_range d)" if "(l, d) \<in> set ?ls" for l d
    using assms(1) that entry_fields(2) [of l d] by (auto simp: lm_ok_def)
  assume "readable lm img k s d'"
  then obtain l' where "(l', d') \<in> set ?ls" "hits img k l'" using assms(1) by (auto simp: readable_entry)
  then show "snd (pl_lsn_range d') \<le> snd (pl_lsn_range d)" using best_Some [OF h] l ends by fastforce
qed

lemma lm_layers_ok: "lm_ok ops lm \<Longrightarrow> \<forall>e \<in> set (bc_layers (lm_historic lm)). lk_ok (fst e)"
  by (simp add: lm_ok_def bc_ok_def)

lemma lm_history: "lm_ok ops lm \<Longrightarrow> bc_historic (lm_historic lm) = history_of ops (bc_layers (lm_historic lm)) \<and> by_start (bc_layers (lm_historic lm))"
  by (simp add: lm_ok_def bc_ok_def by_start_ok)

lemma version_None: "lm_ok ops lm \<Longrightarrow> get_version s (bc_historic (lm_historic lm)) = None \<Longrightarrow> lookup lm s img k = None"
  using lm_history [of ops lm] by (auto simp: version_history lookup_def Let_def best_def split: if_splits)

locale layer_nodes = node_map ops for ops :: "'m layer_ops"
begin

lemma version_Some:
  assumes "lm_ok ops lm" "get_version s (bc_historic (lm_historic lm)) = Some t"
  shows "lc_ok ops (tuple_side img t)" "map_option snd (lc_covers ops (tuple_side img t) k) = lookup lm s img k"
    "lc_query ops k (tuple_side img t) = lookup lm s img k"
proof -
  let ?ls = "filter (\<lambda>e. lk_start (fst e) \<le> s) (bc_layers (lm_historic lm))"
  have t: "t = tuple_of ops ?ls" using assms lm_history [of ops lm] by (auto simp: version_history Let_def split: if_splits)
  have ok: "\<forall>e \<in> set ?ls. lk_ok (fst e)" using lm_layers_ok [OF assms(1)] by simp
  show "lc_ok ops (tuple_side img t)" "map_option snd (lc_covers ops (tuple_side img t) k) = lookup lm s img k"
    using tuple_of_covers [OF ok] by (simp_all add: t lookup_def)
  then show "lc_query ops k (tuple_side img t) = lookup lm s img k" by (simp add: query_covers)
qed

lemma search_select:
  assumes "lm_ok ops lm" "bc_buffer (lm_historic lm) = []" "to_i128 key = Some k"
  shows "search ops key end_lsn lm =
    select_layer (lookup lm (end_lsn - 1) False k) (lookup lm (end_lsn - 1) True k) (search_in_memory_layer end_lsn lm) end_lsn"
proof (cases "get_version (end_lsn - 1) (bc_historic (lm_historic lm))")
  case None
  then show ?thesis using assms version_None [OF assms(1) None]
    by (cases "search_in_memory_layer end_lsn lm") (simp_all add: search_def bc_get_def select_layer_def)
next
  case (Some t)
  have "lc_query ops k (delta_coverage t) = lookup lm (end_lsn - 1) False k" "lc_query ops k (image_coverage t) = lookup lm (end_lsn - 1) True k"
    using version_Some(3) [OF assms(1) Some, of k False] version_Some(3) [OF assms(1) Some, of k True] by (simp_all add: tuple_side_def)
  then show ?thesis using assms by (simp add: search_def bc_get_def Some or_panic_def)
qed

end

section \<open>The selection among three candidates\<close>

text \<open>The candidates start below the LSN, and the in-memory layer is not older than the delta.\<close>

definition candidates :: "persistent_layer_desc option \<Rightarrow> persistent_layer_desc option \<Rightarrow> in_memory_desc option \<Rightarrow> lsn \<Rightarrow> bool" where
  "candidates delta img inmem e \<longleftrightarrow>
     (\<forall>d. delta = Some d \<longrightarrow> pl_is_delta d \<and> fst (pl_lsn_range d) < e)
     \<and> (\<forall>i. img = Some i \<longrightarrow> \<not> pl_is_delta i \<and> fst (pl_lsn_range i) < e)
     \<and> (\<forall>m. inmem = Some m \<longrightarrow> fst (imd_lsn_range m) < e)
     \<and> (\<forall>d m. delta = Some d \<and> inmem = Some m \<longrightarrow> snd (pl_lsn_range d) \<le> fst (imd_lsn_range m))"

definition one_of :: "persistent_layer_desc option \<Rightarrow> persistent_layer_desc option \<Rightarrow> in_memory_desc option \<Rightarrow> readable_layer \<Rightarrow> bool" where
  "one_of delta img inmem l \<longleftrightarrow>
     (case l of
        PersistentLayer d \<Rightarrow> delta = Some d \<or> img = Some d
      | InMemoryLayer m \<Rightarrow> inmem = Some m)"

fun layer_start :: "readable_layer \<Rightarrow> lsn" where
  "layer_start (PersistentLayer d) = fst (pl_lsn_range d)"
| "layer_start (InMemoryLayer m) = fst (imd_lsn_range m)"

definition good_result :: "persistent_layer_desc option \<Rightarrow> persistent_layer_desc option \<Rightarrow> in_memory_desc option \<Rightarrow> lsn \<Rightarrow> search_result \<Rightarrow> bool" where
  "good_result delta img inmem e r \<longleftrightarrow>
     sr_lsn_floor r < e \<and> layer_start (sr_layer r) \<le> sr_lsn_floor r \<and> one_of delta img inmem (sr_layer r)
     \<and> (\<forall>i. img = Some i \<longrightarrow> r = layer_result i \<or> sr_layer r \<noteq> PersistentLayer i \<and> fst (pl_lsn_range i) < sr_lsn_floor r)"

lemma lsn_next_below:
  "a < e \<Longrightarrow> \<exists>n. lsn_next a = Inr n \<and> a < n \<and> n \<le> e" for a e :: lsn
proof -
  assume "a < e"
  then have "unat a + 1 \<le> unat e" by (simp add: word_less_nat_alt)
  moreover have "unat e < 2 ^ LENGTH(64)" by (rule unsigned_less)
  ultimately have "unat a + unat (1 :: u64) < 2 ^ LENGTH(64)" by simp
  moreover from this have "unat (a + 1) = unat a + 1" by (simp add: unat_word_ariths)
  ultimately show ?thesis using \<open>a < e\<close>
    by (simp add: lsn_next_def or_panic_def lsn_add_def checked_add_def word_less_nat_alt word_le_nat_alt)
qed

lemma select_delta_image_good:
  assumes "pl_is_delta d" "fst (pl_lsn_range d) < e" "\<not> pl_is_delta i" "fst (pl_lsn_range i) < e"
  shows "\<exists>r. select_delta_image d i e = Inr r \<and> good_result (Some d) (Some i) None e r"
proof -
  obtain n where n: "lsn_next (fst (pl_lsn_range i)) = Inr n" "fst (pl_lsn_range i) < n" "n \<le> e"
    using lsn_next_below [OF assms(4)] by blast
  have "d \<noteq> i" using assms by auto
  then show ?thesis using assms n
    by (auto simp: select_delta_image_def Let_def good_result_def one_of_def layer_result_def less_max_iff_disj)
qed

lemma select_image_mem_good:
  assumes "fst (imd_lsn_range m) < e" "\<not> pl_is_delta i" "fst (pl_lsn_range i) < e"
  shows "\<exists>r. select_image_mem i m e = Inr r \<and> good_result None (Some i) (Some m) e r"
proof -
  obtain n where n: "lsn_next (fst (pl_lsn_range i)) = Inr n" "fst (pl_lsn_range i) < n" "n \<le> e"
    using lsn_next_below [OF assms(3)] by blast
  then show ?thesis using assms
    by (auto simp: select_image_mem_def Let_def good_result_def one_of_def layer_result_def less_max_iff_disj)
qed

lemma select_delta_mem_good:
  assumes "fst (imd_lsn_range m) < e" "fst (pl_lsn_range d) < e" "snd (pl_lsn_range d) \<le> fst (imd_lsn_range m)"
  shows "good_result (Some d) None (Some m) e (select_delta_mem d m e)"
  using assms by (auto simp: select_delta_mem_def Let_def good_result_def one_of_def layer_result_def)

lemma select_all_good:
  assumes "pl_is_delta d" "fst (pl_lsn_range d) < e" "\<not> pl_is_delta i" "fst (pl_lsn_range i) < e"
    "fst (imd_lsn_range m) < e" "snd (pl_lsn_range d) \<le> fst (imd_lsn_range m)"
  shows "\<exists>r. select_all d i m e = Inr r \<and> good_result (Some d) (Some i) (Some m) e r"
proof -
  obtain p where p: "select_delta_image d i e = Inr p" "good_result (Some d) (Some i) None e p"
    using select_delta_image_good [OF assms(1-4)] by blast
  then consider "p = layer_result i" | "sr_layer p = PersistentLayer d" "fst (pl_lsn_range i) < sr_lsn_floor p"
    by (auto simp: good_result_def one_of_def split: readable_layer.splits)
  then show ?thesis
  proof cases
    case 1
    obtain r where "select_image_mem i m e = Inr r" "good_result None (Some i) (Some m) e r"
      using select_image_mem_good [OF assms(5,3,4)] by blast
    then show ?thesis using p assms 1
      by (auto simp: select_all_def good_result_def one_of_def layer_result_def less_max_iff_disj le_max_iff_disj split: readable_layer.splits)
  next
    case 2
    then show ?thesis using p select_delta_mem_good [OF assms(5,2,6)] assms
      by (auto simp: select_all_def good_result_def one_of_def layer_result_def less_max_iff_disj le_max_iff_disj split: readable_layer.splits)
  qed
qed

lemma select_layer_good:
  assumes "candidates delta img inmem e"
  shows "\<exists>r. select_layer delta img inmem e = Inr r \<and> (r = None \<longleftrightarrow> delta = None \<and> img = None \<and> inmem = None)
    \<and> (\<forall>sr. r = Some sr \<longrightarrow> good_result delta img inmem e sr)"
proof -
  note kinds = assms [unfolded candidates_def]
  have delta: "pl_is_delta d" "fst (pl_lsn_range d) < e" if "delta = Some d" for d using kinds that by blast+
  have img: "\<not> pl_is_delta i" "fst (pl_lsn_range i) < e" if "img = Some i" for i using kinds that by blast+
  have mem: "fst (imd_lsn_range m) < e" if "inmem = Some m" for m using kinds that by blast
  have newer: "snd (pl_lsn_range d) \<le> fst (imd_lsn_range m)" if "delta = Some d" "inmem = Some m" for d m using kinds that by blast
  note defs = select_layer_def good_result_def one_of_def layer_result_def mem_result_def
  show ?thesis
  proof (cases delta)
    case None
    note d = None
    show ?thesis
    proof (cases img)
      case None
      then show ?thesis using d mem by (cases inmem) (simp_all add: defs)
    next
      case (Some i)
      show ?thesis
      proof (cases inmem)
        case None
        then show ?thesis using d Some img by (simp add: defs)
      next
        case (Some m)
        then show ?thesis using d \<open>img = Some i\<close> img mem select_image_mem_good [of m e i] by (auto simp: select_layer_def)
      qed
    qed
  next
    case (Some d)
    note d = Some
    show ?thesis
    proof (cases img)
      case None
      then show ?thesis using d mem delta newer select_delta_mem_good [of _ e d]
        by (cases inmem) (simp_all add: select_layer_def, simp add: defs)
    next
      case (Some i)
      show ?thesis
      proof (cases inmem)
        case None
        then show ?thesis using d Some delta img select_delta_image_good [of d e i] by (auto simp: select_layer_def)
      next
        case (Some m)
        then show ?thesis using d \<open>img = Some i\<close> delta img mem newer select_all_good [of d e i m] by (auto simp: select_layer_def)
      qed
    qed
  qed
qed

section \<open>The search at a key\<close>

definition memory_layers :: "'m layer_map \<Rightarrow> in_memory_layer set" where
  "memory_layers lm = set_option (open_layer lm) \<union> set (frozen_layers lm)"

text \<open>The in-memory layers hold WAL that is newer than any delta on disk.\<close>

definition memory_newer :: "'m layer_map \<Rightarrow> bool" where
  "memory_newer lm \<longleftrightarrow>
     (\<forall>l \<in> memory_layers lm. 0 < im_start_lsn l
        \<and> (\<forall>d \<in> live_layers lm. pl_is_delta d \<longrightarrow> snd (pl_lsn_range d) \<le> im_start_lsn l))"

lemma in_memory_found:
  assumes "search_in_memory_layer below lm = Some m"
  shows "\<exists>l \<in> memory_layers lm. imd_lsn_range m = im_lsn_range l \<and> im_start_lsn l < below"
proof -
  have frozen: "snd x \<in> memory_layers lm \<and> im_start_lsn (snd x) < below"
    if "find (\<lambda>(idx, l). fst (im_lsn_range l) < below) (rev (enumerate 0 (frozen_layers lm))) = Some x" for x
    using that by (auto simp: find_Some_iff memory_layers_def im_lsn_range_def rev_nth nth_enumerate_eq)
  show ?thesis
  proof (cases "open_layer lm")
    case None
    then show ?thesis using assms frozen by (fastforce simp: search_in_memory_layer_def Let_def)
  next
    case (Some l)
    then show ?thesis using assms frozen
      by (fastforce simp: search_in_memory_layer_def Let_def memory_layers_def im_lsn_range_def split: if_splits)
  qed
qed

lemma below_minus_one: "0 < e \<Longrightarrow> x \<le> e - 1 \<longleftrightarrow> x < e" for x e :: lsn
proof -
  assume "0 < e"
  then have "unat (e - 1) = unat e - 1" by (simp add: unat_sub word_le_nat_alt word_less_nat_alt Suc_le_eq)
  then show ?thesis using \<open>0 < e\<close> by (auto simp: word_le_nat_alt word_less_nat_alt)
qed

lemma readable_desc: "lm_ok ops lm \<Longrightarrow> readable lm img k s d \<Longrightarrow> desc_ok d"
  by (auto simp: readable_def live_layers_def lm_ok_def entry_ok_def)

lemma image_start_le:
  assumes "desc_ok a" "desc_ok b" "\<not> pl_is_delta a" "\<not> pl_is_delta b" "snd (pl_lsn_range a) \<le> snd (pl_lsn_range b)"
  shows "fst (pl_lsn_range a) \<le> fst (pl_lsn_range b)"
proof (rule ccontr)
  assume "\<not> ?thesis"
  then have "fst (pl_lsn_range b) < fst (pl_lsn_range a)" by simp
  moreover have "snd (pl_lsn_range b) = fst (pl_lsn_range b) + 1" "fst (pl_lsn_range a) < snd (pl_lsn_range a)"
    using assms by (auto simp: desc_ok_def)
  ultimately show False using assms(5) lsn_next_below [of "fst (pl_lsn_range b)" "fst (pl_lsn_range a)"]
    by (auto simp: lsn_next_def or_panic_def lsn_add_def checked_add_def split: if_splits)
qed

fun is_image_layer :: "readable_layer \<Rightarrow> bool" where
  "is_image_layer (PersistentLayer d) = (\<not> pl_is_delta d)"
| "is_image_layer (InMemoryLayer m) = False"

definition newest_image :: "'m layer_map \<Rightarrow> int \<Rightarrow> lsn \<Rightarrow> persistent_layer_desc \<Rightarrow> bool" where
  "newest_image lm k s i \<longleftrightarrow> readable lm True k s i \<and> (\<forall>i'. readable lm True k s i' \<longrightarrow> fst (pl_lsn_range i') \<le> fst (pl_lsn_range i))"

lemma lookup_positive: "lm_ok ops lm \<Longrightarrow> lookup lm s img k = Some d \<Longrightarrow> 0 < fst (pl_lsn_range d)"
  using readable_desc lookup_Some(1) by (metis desc_ok_def)

lemma lookup_newest: "lm_ok ops lm \<Longrightarrow> lookup lm s True k = Some i \<Longrightarrow> newest_image lm k s i"
  using lookup_Some [of ops lm s True k i] readable_desc [of ops lm True k s]
  by (auto simp: newest_image_def intro!: image_start_le) (auto simp: readable_def)

definition steps_down :: "'m layer_map \<Rightarrow> int \<Rightarrow> lsn \<Rightarrow> search_result option \<Rightarrow> bool" where
  "steps_down lm k e r \<longleftrightarrow>
     (case r of
        None \<Rightarrow> \<forall>img d. \<not> readable lm img k (e - 1) d
      | Some sr \<Rightarrow>
          0 < sr_lsn_floor sr \<and> sr_lsn_floor sr < e
          \<and> (if is_image_layer (sr_layer sr) then \<exists>i. sr = layer_result i \<and> newest_image lm k (e - 1) i
             else \<forall>i. readable lm True k (e - 1) i \<longrightarrow> fst (pl_lsn_range i) < sr_lsn_floor sr))"

context layer_nodes
begin

lemma lookup_candidates:
  assumes ok: "lm_ok ops lm" and mem: "memory_newer lm" and e: "0 < e"
  shows "candidates (lookup lm (e - 1) False k) (lookup lm (e - 1) True k) (search_in_memory_layer e lm) e"
proof -
  have r: "readable lm img k (e - 1) d" if "lookup lm (e - 1) img k = Some d" for img d
    using lookup_Some(1) [OF ok that] .
  show ?thesis using r [of False] r [of True] mem in_memory_found [of e lm] below_minus_one [OF e]
    unfolding candidates_def readable_def memory_newer_def im_lsn_range_def by fastforce
qed

lemma search_steps_down:
  assumes ok: "lm_ok ops lm" "bc_buffer (lm_historic lm) = []" and mem: "memory_newer lm" and key: "to_i128 key = Some k" and e: "0 < e"
  shows "\<exists>r. search ops key e lm = Inr r \<and> steps_down lm k e r"
proof -
  let ?d = "lookup lm (e - 1) False k" and ?i = "lookup lm (e - 1) True k" and ?m = "search_in_memory_layer e lm"
  obtain r where r: "search ops key e lm = Inr r" "r = None \<longleftrightarrow> ?d = None \<and> ?i = None \<and> ?m = None"
      "\<And>sr. r = Some sr \<Longrightarrow> good_result ?d ?i ?m e sr"
    using select_layer_good [OF lookup_candidates [OF ok(1) mem e]] search_select [OF ok key] by metis
  have "steps_down lm k e r"
  proof (cases r)
    case None
    then have "\<forall>d. \<not> readable lm img k (e - 1) d" for img using r(2) lookup_None [OF ok(1), of "e - 1" img k] by (cases img) auto
    then show ?thesis by (simp add: steps_down_def None)
  next
    case (Some sr)
    note good = r(3) [OF Some, unfolded good_result_def]
    have "0 < layer_start (sr_layer sr)"
      using good lookup_positive [OF ok(1)] mem in_memory_found [of e lm]
      by (cases "sr_layer sr") (auto simp: one_of_def memory_newer_def im_lsn_range_def)
    then have "0 < sr_lsn_floor sr" using good by (meson less_le_trans)
    moreover have "\<exists>i. sr = layer_result i \<and> newest_image lm k (e - 1) i" if is_img: "is_image_layer (sr_layer sr)"
    proof -
      obtain i where i: "sr_layer sr = PersistentLayer i" "\<not> pl_is_delta i" using is_img by (cases "sr_layer sr") auto
      then have "?i = Some i" using good lookup_Some(1) [OF ok(1), of "e - 1" False k i] by (auto simp: one_of_def readable_def)
      then show ?thesis using good i lookup_newest [OF ok(1)] by auto
    qed
    moreover have "fst (pl_lsn_range i) < sr_lsn_floor sr" if not_img: "\<not> is_image_layer (sr_layer sr)" and i: "readable lm True k (e - 1) i" for i
    proof -
      obtain n where n: "?i = Some n" using i lookup_None [OF ok(1), of "e - 1" True k] by (cases ?i) auto
      have new: "newest_image lm k (e - 1) n" by (rule lookup_newest [OF ok(1) n])
      have "sr \<noteq> layer_result n" using not_img new by (auto simp: layer_result_def newest_image_def readable_def)
      then have "fst (pl_lsn_range n) < sr_lsn_floor sr" using good n by auto
      moreover have "fst (pl_lsn_range i) \<le> fst (pl_lsn_range n)" using new i by (simp add: newest_image_def)
      ultimately show ?thesis by simp
    qed
    ultimately show ?thesis using good by (simp add: steps_down_def Some)
  qed
  then show ?thesis using r(1) by blast
qed

end

text \<open>The caller passes the floor of a result as the LSN of the next search, until it has an image or nothing is left.\<close>

fun read_path :: "nat \<Rightarrow> 'm layer_ops \<Rightarrow> 'm layer_map \<Rightarrow> pkey \<Rightarrow> lsn \<Rightarrow> (lm_panic + search_result list) option" where
  "read_path 0 ops lm key e = None"
| "read_path (Suc n) ops lm key e =
     (case search ops key e lm of
        Inl p \<Rightarrow> Some (Inl p)
      | Inr None \<Rightarrow> Some (Inr [])
      | Inr (Some r) \<Rightarrow>
          if is_image_layer (sr_layer r) then Some (Inr [r])
          else map_option (map_sum id (\<lambda>rs. r # rs)) (read_path n ops lm key (sr_lsn_floor r)))"

definition path_ok :: "'m layer_map \<Rightarrow> int \<Rightarrow> lsn \<Rightarrow> search_result list \<Rightarrow> bool" where
  "path_ok lm k e path \<longleftrightarrow>
     sorted_wrt (\<lambda>r r'. sr_lsn_floor r' < sr_lsn_floor r) path \<and> (\<forall>r \<in> set path. sr_lsn_floor r < e)
     \<and> (if \<exists>i. readable lm True k (e - 1) i
        then path \<noteq> [] \<and> (\<exists>i. last path = layer_result i \<and> newest_image lm k (e - 1) i)
        else \<forall>r \<in> set path. \<not> is_image_layer (sr_layer r))"

lemma readable_lower:
  assumes "0 < f" "f < e" "\<forall>i. readable lm True k (e - 1) i \<longrightarrow> fst (pl_lsn_range i) < f"
  shows "readable lm True k (f - 1) i \<longleftrightarrow> readable lm True k (e - 1) i"
proof -
  have "0 < e" using assms(1,2) by simp
  then show ?thesis using assms below_minus_one [of e] below_minus_one [of f] unfolding readable_def by (metis order.strict_trans)
qed

context layer_nodes
begin

lemma read_path_ok:
  assumes ok: "lm_ok ops lm" "bc_buffer (lm_historic lm) = []" and mem: "memory_newer lm" and key: "to_i128 key = Some k"
  shows "0 < e \<Longrightarrow> unat e \<le> n \<Longrightarrow> \<exists>path. read_path n ops lm key e = Some (Inr path) \<and> path_ok lm k e path"
proof (induction n arbitrary: e)
  case 0
  then show ?case by (simp add: word_less_nat_alt)
next
  case (Suc n)
  obtain r where r: "search ops key e lm = Inr r" "steps_down lm k e r"
    using search_steps_down [OF ok mem key Suc.prems(1)] by blast
  show ?case
  proof (cases r)
    case None
    then show ?thesis using r by (simp add: path_ok_def steps_down_def)
  next
    case (Some sr)
    let ?f = "sr_lsn_floor sr"
    show ?thesis
    proof (cases "is_image_layer (sr_layer sr)")
      case True
      then show ?thesis using r Some by (auto simp: path_ok_def steps_down_def newest_image_def)
    next
      case False
      have f: "0 < ?f" "?f < e" "\<forall>i. readable lm True k (e - 1) i \<longrightarrow> fst (pl_lsn_range i) < ?f"
        using r(2) False by (auto simp: Some steps_down_def)
      obtain path where p: "read_path n ops lm key ?f = Some (Inr path)" "path_ok lm k ?f path"
        using Suc.IH [OF f(1)] f(2) Suc.prems(2) by (auto simp: word_less_nat_alt)
      have same: "newest_image lm k (?f - 1) i \<longleftrightarrow> newest_image lm k (e - 1) i" for i
        by (simp add: newest_image_def readable_lower [OF f])
      have "path_ok lm k e (sr # path)" using p(2) f(2) False less_trans [of _ ?f e]
        unfolding path_ok_def readable_lower [OF f] same by (auto split: if_splits)
      then show ?thesis using r(1) False p(1) by (simp add: Some)
    qed
  qed
qed

end

section \<open>Images over a range of keys\<close>

text \<open>An image that covers a key and starts within a range of LSNs.\<close>

definition image_between :: "'m layer_map \<Rightarrow> lsn range \<Rightarrow> int \<Rightarrow> bool" where
  "image_between lm lsns k \<longleftrightarrow>
     (\<exists>i \<in> live_layers lm. \<not> pl_is_delta i \<and> covers_key i k \<and> fst lsns \<le> fst (pl_lsn_range i) \<and> fst (pl_lsn_range i) < snd lsns)"

lemma layer_covers_lookup:
  assumes "lm_ok ops lm" "0 < snd lsns"
  shows "layer_covers (fst lsns) (lookup lm (snd lsns - 1) True k) \<longleftrightarrow> image_between lm lsns k"
proof -
  have between: "image_between lm lsns k \<longleftrightarrow> (\<exists>i. readable lm True k (snd lsns - 1) i \<and> fst lsns \<le> fst (pl_lsn_range i))"
    using below_minus_one [OF assms(2)] by (auto simp: image_between_def readable_def)
  show ?thesis
  proof (cases "lookup lm (snd lsns - 1) True k")
    case None
    then show ?thesis using lookup_None [OF assms(1), of "snd lsns - 1" True k] by (simp add: between layer_covers_def)
  next
    case (Some i)
    have "newest_image lm k (snd lsns - 1) i" by (rule lookup_newest [OF assms(1) Some])
    then show ?thesis unfolding between Some layer_covers_def newest_image_def by (auto intro: order_trans)
  qed
qed

context layer_nodes
begin

lemma image_layer_exists_iff:
  assumes ok: "lm_ok ops lm" "bc_buffer (lm_historic lm) = []" and lsns: "0 < snd lsns"
      and key: "key_less (fst key) (snd key)" "to_i128 (fst key) = Some a" "to_i128 (snd key) = Some b" "a < b"
  shows "image_layer_exists ops key lsns lm = Inr (\<forall>k. a \<le> k \<and> k < b \<longrightarrow> image_between lm lsns k)"
proof (cases "get_version (snd lsns - 1) (bc_historic (lm_historic lm))")
  case None
  have "\<not> image_between lm lsns a"
    using layer_covers_lookup [OF ok(1) lsns, of a] version_None [OF ok(1) None, of True a] by (simp add: layer_covers_def)
  then show ?thesis using key ok(2) by (auto simp: image_layer_exists_def bc_get_def None)
next
  case (Some t)
  let ?m = "image_coverage t" and ?P = "\<lambda>n. layer_covers (fst lsns) (map_option snd n)"
  have side: "tuple_side True t = ?m" by (simp add: tuple_side_def)
  have m: "lc_ok ops ?m" using version_Some(1) [OF ok(1) Some, of True] by (simp add: side)
  have cover: "?P (lc_covers ops ?m k) \<longleftrightarrow> image_between lm lsns k" for k
    using version_Some(2) [OF ok(1) Some, of True k] layer_covers_lookup [OF ok(1) lsns, of k] by (simp add: side)
  have "(\<forall>k. a \<le> k \<and> k < b \<longrightarrow> ?P (lc_covers ops ?m k)) \<longleftrightarrow>
      ?P (lc_covers ops ?m a) \<and> (\<forall>e \<in> set (om_range a b (omo_entries ops ?m)). ?P (snd e))"
    unfolding lc_covers_def using m key(4) by (intro cov_all_range) (simp_all add: lc_ok_def)
  moreover have "list_all (\<lambda>(_, v). layer_covers (fst lsns) v) (lc_range ops (a, b) ?m) \<longleftrightarrow>
      (\<forall>e \<in> set (om_range a b (omo_entries ops ?m)). ?P (snd e))"
    by (auto simp: lc_range_def list_all_iff)
  ultimately show ?thesis using key ok(2) query_covers [OF m, of a]
    by (auto simp: image_layer_exists_def bc_get_def Some or_panic_def cover)
qed

end

interpretation layer_lists: layer_nodes list_ops
  by unfold_locales

end
