(* ===== verification/Layer_Range.thy ===== *)
theory Layer_Range
  imports Layer_Search
begin

text \<open>
  The search over a range of keys: the sweep over the changes of the two coverages gives each
  key the result of the search at that key, and the accumulated ranges never come out of order.
  The division of a range by its newest images, and the count of stacked deltas, which ends
  and respects its limit.
\<close>

section \<open>Keys and positions\<close>

definition pos_ok :: "int \<Rightarrow> bool" where
  "pos_ok x \<longleftrightarrow> 0 \<le> x \<and> x < 2 ^ 127"

lemma key_less_pos: "pos_ok x \<Longrightarrow> pos_ok y \<Longrightarrow> key_less (from_i128 x) (from_i128 y) \<longleftrightarrow> x < y"
  using i128_of_less [of "from_i128 x" "from_i128 y"] by (simp add: pos_ok_def i128_of_from)

lemma from_i128_inj: "pos_ok x \<Longrightarrow> pos_ok y \<Longrightarrow> from_i128 x = from_i128 y \<longleftrightarrow> x = y"
  by (metis pos_ok_def i128_of_from(1))

lemma range_contains_pos:
  "pos_ok x \<Longrightarrow> pos_ok y \<Longrightarrow> pos_ok z \<Longrightarrow> range_contains (from_i128 y, from_i128 z) (from_i128 x) \<longleftrightarrow> y \<le> x \<and> x < z"
  by (simp add: range_contains_def key_less_pos not_less)

lemma to_i128_from: "pos_ok x \<Longrightarrow> to_i128 (from_i128 x) = Some x"
  using i128_of_from [of x] by (auto simp: pos_ok_def to_i128_def is_i128_representable_def key_canonical_def)

section \<open>Accumulated ranges\<close>

definition ksa_has :: "key_space_accum \<Rightarrow> pkey \<Rightarrow> bool" where
  "ksa_has a k \<longleftrightarrow> (\<exists>r \<in> set (to_keyspace a). range_contains r k)"

definition ksa_upto :: "int \<Rightarrow> key_space_accum \<Rightarrow> bool" where
  "ksa_upto c a \<longleftrightarrow>
     (case ksa_accum a of
        None \<Rightarrow> True
      | Some r \<Rightarrow> \<exists>y z. r = (from_i128 y, from_i128 z) \<and> pos_ok y \<and> pos_ok z \<and> y \<le> z \<and> z \<le> c)"

lemma ksa_new_empty: "ksa_upto c ksa_new" "\<not> ksa_has ksa_new k"
  by (simp_all add: ksa_upto_def ksa_has_def ksa_new_def to_keyspace_def)

lemma ksa_upto_mono: "ksa_upto c a \<Longrightarrow> c \<le> c' \<Longrightarrow> ksa_upto c' a"
  by (fastforce simp: ksa_upto_def split: option.splits)

lemma ksa_upto_Some:
  "ksa_accum a = Some (from_i128 y, from_i128 z) \<Longrightarrow> pos_ok y \<Longrightarrow> pos_ok z \<Longrightarrow> ksa_upto c a \<longleftrightarrow> y \<le> z \<and> z \<le> c"
  by (auto simp: ksa_upto_def from_i128_inj)

lemma ksa_add_range_ok:
  assumes a: "ksa_upto c a" and c: "pos_ok c" "pos_ok c'" "c \<le> c'"
  shows "\<exists>a'. ksa_add_range (from_i128 c, from_i128 c') a = Inr a' \<and> ksa_upto c' a'
    \<and> (\<forall>x. pos_ok x \<longrightarrow> ksa_has a' (from_i128 x) = (ksa_has a (from_i128 x) \<or> c \<le> x \<and> x < c'))"
proof (cases "ksa_accum a")
  case None
  then show ?thesis using c
    by (auto simp: ksa_add_range_def Let_def ksa_upto_Some ksa_has_def to_keyspace_def range_contains_pos)
next
  case (Some r)
  obtain y z where r: "r = (from_i128 y, from_i128 z)" and yz: "pos_ok y" "pos_ok z" "y \<le> z" "z \<le> c"
    using a by (auto simp: ksa_upto_def Some)
  show ?thesis
  proof (cases "c = z")
    case True
    then show ?thesis using c yz
      by (auto simp: ksa_add_range_def Let_def Some r ksa_upto_Some [where y = y] ksa_upto_Some [where y = c] ksa_has_def to_keyspace_def range_contains_pos)
  next
    case False
    then have "from_i128 c \<noteq> from_i128 z" "key_less (from_i128 z) (from_i128 c)"
      using c yz by (auto simp: from_i128_inj key_less_pos)
    then show ?thesis using c yz
      by (auto simp: ksa_add_range_def Let_def Some r ksa_upto_Some [where y = y] ksa_upto_Some [where y = c] ksa_has_def to_keyspace_def range_contains_pos)
  qed
qed

section \<open>The keys found so far\<close>

text \<open>\<open>sel\<close> gives the result of each position; the map has it for the positions from \<open>lo\<close> to \<open>c\<close>.\<close>

definition found_upto :: "(int \<Rightarrow> search_result option) \<Rightarrow> int \<Rightarrow> int \<Rightarrow> found \<Rightarrow> bool" where
  "found_upto sel lo c f \<longleftrightarrow>
     (\<forall>r. case f r of
            None \<Rightarrow> \<forall>x. lo \<le> x \<and> x < c \<longrightarrow> sel x \<noteq> Some r
          | Some a \<Rightarrow> ksa_upto c a \<and> (\<forall>x. pos_ok x \<longrightarrow> ksa_has a (from_i128 x) = (lo \<le> x \<and> x < c \<and> sel x = Some r)))"

lemma found_upto_empty: "found_upto sel lo lo Map.empty"
  by (auto simp: found_upto_def)

lemma found_upto_skip:
  assumes f: "found_upto sel lo c f" and c: "c \<le> c'" and sel: "\<forall>x. c \<le> x \<and> x < c' \<longrightarrow> sel x = None"
  shows "found_upto sel lo c' f"
  unfolding found_upto_def
proof
  fix r
  have old: "lo \<le> x \<and> x < c \<and> sel x = Some r \<longleftrightarrow> lo \<le> x \<and> x < c' \<and> sel x = Some r" for x
    using sel [rule_format, of x] c by (cases "x < c") auto
  show "case f r of None \<Rightarrow> \<forall>x. lo \<le> x \<and> x < c' \<longrightarrow> sel x \<noteq> Some r
      | Some a \<Rightarrow> ksa_upto c' a \<and> (\<forall>x. pos_ok x \<longrightarrow> ksa_has a (from_i128 x) = (lo \<le> x \<and> x < c' \<and> sel x = Some r))"
    using f [unfolded found_upto_def, rule_format, of r] old ksa_upto_mono [OF _ c] by (cases "f r") auto
qed

lemma found_add_ok:
  assumes f: "found_upto sel lo c f" and c: "pos_ok c" "pos_ok c'" "lo \<le> c" "c \<le> c'"
      and sel: "\<forall>x. c \<le> x \<and> x < c' \<longrightarrow> sel x = Some sr"
  shows "\<exists>f'. found_add sr (from_i128 c, from_i128 c') f = Inr f' \<and> found_upto sel lo c' f'"
proof -
  define a where "a = (case f sr of Some a \<Rightarrow> a | None \<Rightarrow> ksa_new)"
  have at: "ksa_upto c a" "\<And>x. pos_ok x \<Longrightarrow> ksa_has a (from_i128 x) = (lo \<le> x \<and> x < c \<and> sel x = Some sr)"
    using f [unfolded found_upto_def, rule_format, of sr] ksa_new_empty by (auto simp: a_def split: option.splits)
  obtain a' where a': "ksa_add_range (from_i128 c, from_i128 c') a = Inr a'" "ksa_upto c' a'"
      "\<And>x. pos_ok x \<Longrightarrow> ksa_has a' (from_i128 x) = (ksa_has a (from_i128 x) \<or> c \<le> x \<and> x < c')"
    using ksa_add_range_ok [OF at(1) c(1,2,4)] by blast
  have "found_upto sel lo c' (f(sr \<mapsto> a'))"
    unfolding found_upto_def
  proof
    fix r
    show "case (f(sr \<mapsto> a')) r of None \<Rightarrow> \<forall>x. lo \<le> x \<and> x < c' \<longrightarrow> sel x \<noteq> Some r
      | Some a \<Rightarrow> ksa_upto c' a \<and> (\<forall>x. pos_ok x \<longrightarrow> ksa_has a (from_i128 x) = (lo \<le> x \<and> x < c' \<and> sel x = Some r))"
    proof (cases "r = sr")
      case True
      have "(lo \<le> x \<and> x < c \<and> sel x = Some sr \<or> c \<le> x \<and> x < c') = (lo \<le> x \<and> x < c' \<and> sel x = Some sr)" for x
        using sel [rule_format, of x] c by (cases "x < c") auto
      then show ?thesis using True a' at(2) by simp
    next
      case False
      have old: "lo \<le> x \<and> x < c \<and> sel x = Some r \<longleftrightarrow> lo \<le> x \<and> x < c' \<and> sel x = Some r" for x
        using sel [rule_format, of x] c False by (cases "x < c") auto
      show ?thesis using f [unfolded found_upto_def, rule_format, of r] old False ksa_upto_mono [OF _ c(4)] by (cases "f r") auto
    qed
  qed
  then show ?thesis using a'(1) by (simp add: found_add_def a_def)
qed

lemma pad_range_ok:
  assumes "found_upto sel lo c f" "pos_ok c" "pos_ok c'" "lo \<le> c" "c \<le> c'"
      and sel: "\<forall>x. c \<le> x \<and> x < c' \<longrightarrow> sel x = map_option mem_result inmem"
  shows "\<exists>f'. pad_range inmem (from_i128 c, from_i128 c') f = Inr f' \<and> found_upto sel lo c' f'"
proof (cases "inmem = None \<or> c = c'")
  case True
  then have "\<forall>x. c \<le> x \<and> x < c' \<longrightarrow> sel x = None" using sel by auto
  then show ?thesis using True found_upto_skip [OF assms(1,5)] assms(2,3) by (auto simp: pad_range_def key_less_pos)
next
  case False
  then obtain m where "inmem = Some m" "c < c'" using assms(5) by auto
  then show ?thesis using found_add_ok [OF assms(1-5), of "mem_result m"] sel assms(2,3) by (simp add: pad_range_def key_less_pos)
qed

lemma select_None: "select_layer d i m e = Inr None \<Longrightarrow> m = None"
  by (cases m) (auto simp: select_layer_def and_then_Inr split: option.splits if_splits)

lemma add_range_ok:
  assumes "found_upto sel lo c f" "pos_ok c" "pos_ok c'" "lo \<le> c" "c \<le> c'"
      and s: "select_layer (lch_current_delta ch) (lch_current_image ch) inmem e = Inr s"
      and sel: "\<forall>x. c \<le> x \<and> x < c' \<longrightarrow> sel x = s"
  shows "\<exists>f'. add_range inmem e ch (from_i128 c, from_i128 c') f = Inr f' \<and> found_upto sel lo c' f'"
proof (cases s)
  case None
  then show ?thesis using select_None s sel pad_range_ok [OF assms(1-5), of inmem] by (simp add: add_range_def)
next
  case (Some sr)
  then show ?thesis using s sel found_add_ok [OF assms(1-5), of sr] by (simp add: add_range_def)
qed

section \<open>The sweep\<close>

declare collect_loop.simps [simp del]

text \<open>The changes left from a position on, and the layers in force there.\<close>

definition changes_from :: "(int \<Rightarrow> persistent_layer_desc option) \<Rightarrow> (int \<Rightarrow> persistent_layer_desc option) \<Rightarrow> int \<Rightarrow> int \<Rightarrow> layer_changes \<Rightarrow> bool" where
  "changes_from delta img c hi ch \<longleftrightarrow>
     om_ok (lch_delta ch) \<and> om_ok (lch_image ch) \<and> (\<forall>e \<in> set (lch_delta ch) \<union> set (lch_image ch). c < fst e \<and> fst e < hi)
     \<and> (\<forall>x. c \<le> x \<and> x < hi \<longrightarrow> cov (lch_current_delta ch) (lch_delta ch) x = delta x \<and> cov (lch_current_image ch) (lch_image ch) x = img x)"

lemma choose_None: "choose_next_layer_type ch = None \<longleftrightarrow> lch_delta ch = [] \<and> lch_image ch = []"
  by (auto simp: choose_next_layer_type_def split: list.splits)

text \<open>The next change is the first of both lists, and advancing over it leaves the coverage from there on as it was.\<close>

lemma choose_advance:
  assumes ok: "om_ok (lch_delta ch)" "om_ok (lch_image ch)" and t: "choose_next_layer_type ch = Some t"
  shows "\<exists>n ch'. next_change_at_key t = from_i128 n \<and> advance t ch = Inr ch'
    \<and> n \<in> fst ` (set (lch_delta ch) \<union> set (lch_image ch)) \<and> (\<forall>e \<in> set (lch_delta ch) \<union> set (lch_image ch). n \<le> fst e)
    \<and> om_ok (lch_delta ch') \<and> om_ok (lch_image ch') \<and> (\<forall>e \<in> set (lch_delta ch') \<union> set (lch_image ch'). n < fst e)
    \<and> set (lch_delta ch') \<subseteq> set (lch_delta ch) \<and> set (lch_image ch') \<subseteq> set (lch_image ch)
    \<and> (\<forall>x. n \<le> x \<longrightarrow> cov (lch_current_delta ch') (lch_delta ch') x = cov (lch_current_delta ch) (lch_delta ch) x
          \<and> cov (lch_current_image ch') (lch_image ch') x = cov (lch_current_image ch) (lch_image ch) x)"
proof (cases "lch_delta ch")
  case Nil
  then obtain k v rest where i: "lch_image ch = (k, v) # rest" "t = NextImage k"
    using t by (auto simp: choose_next_layer_type_def split: list.splits)
  then show ?thesis using ok Nil by (intro exI [of _ k]) force
next
  case (Cons d ds)
  obtain k v where d: "d = (k, v)" by (cases d)
  show ?thesis
  proof (cases "lch_image ch")
    case Nil
    then show ?thesis using ok t Cons by (intro exI [of _ k]) (force simp: choose_next_layer_type_def d)
  next
    case (Cons i rest)
    obtain k' v' where i: "i = (k', v')" by (cases i)
    note lists = \<open>lch_delta ch = d # ds\<close> Cons
    consider "k' < k" | "k < k'" | "k = k'" by linarith
    then show ?thesis
    proof cases
      case 1
      then show ?thesis using ok t lists by (intro exI [of _ k']) (force simp: choose_next_layer_type_def d i)
    next
      case 2
      then show ?thesis using ok t lists by (intro exI [of _ k]) (force simp: choose_next_layer_type_def d i)
    next
      case 3
      then show ?thesis using ok t lists by (intro exI [of _ k]) (force simp: choose_next_layer_type_def d i)
    qed
  qed
qed

lemma changes_advance:
  assumes ch: "changes_from delta img c hi ch" and t: "choose_next_layer_type ch = Some t"
  obtains n ch' where "next_change_at_key t = from_i128 n" "advance t ch = Inr ch'" "c < n" "n < hi" "changes_from delta img n hi ch'"
    "\<forall>x. c \<le> x \<and> x < n \<longrightarrow> delta x = lch_current_delta ch \<and> img x = lch_current_image ch"
proof -
  note ch = ch [unfolded changes_from_def]
  obtain n ch' where n: "next_change_at_key t = from_i128 n" "advance t ch = Inr ch'"
      "n \<in> fst ` (set (lch_delta ch) \<union> set (lch_image ch))" "\<forall>e \<in> set (lch_delta ch) \<union> set (lch_image ch). n \<le> fst e"
      "om_ok (lch_delta ch')" "om_ok (lch_image ch')" "\<forall>e \<in> set (lch_delta ch') \<union> set (lch_image ch'). n < fst e"
      "set (lch_delta ch') \<subseteq> set (lch_delta ch)" "set (lch_image ch') \<subseteq> set (lch_image ch)"
      "\<forall>x. n \<le> x \<longrightarrow> cov (lch_current_delta ch') (lch_delta ch') x = cov (lch_current_delta ch) (lch_delta ch) x
          \<and> cov (lch_current_image ch') (lch_image ch') x = cov (lch_current_image ch) (lch_image ch) x"
    using choose_advance [OF _ _ t] ch by blast
  have between: "c < n" "n < hi" using n(3) ch by auto
  have "delta x = lch_current_delta ch \<and> img x = lch_current_image ch" if "c \<le> x" "x < n" for x
  proof -
    have "cov (lch_current_delta ch) (lch_delta ch) x = lch_current_delta ch" "cov (lch_current_image ch) (lch_image ch) x = lch_current_image ch"
      using n(4) that(2) by (intro cov_below; force)+
    then show ?thesis using ch that between by auto
  qed
  moreover have "changes_from delta img n hi ch'"
    unfolding changes_from_def using n(5-10) ch between by auto
  ultimately show ?thesis using that [OF n(1,2) between] by blast
qed

lemma collect_loop_ok:
  assumes "pos_ok lo" "pos_ok hi"
      and sel: "\<And>x. lo \<le> x \<Longrightarrow> x < hi \<Longrightarrow> select_layer (delta x) (img x) inmem e = Inr (sel x)"
  shows "lo \<le> c \<Longrightarrow> c \<le> hi \<Longrightarrow> changes_from delta img c hi ch \<Longrightarrow> found_upto sel lo c f \<Longrightarrow>
    \<exists>f'. collect_loop inmem e (from_i128 hi) (from_i128 c) ch f = Inr f' \<and> found_upto sel lo hi f'"
proof (induction "changes_left ch" arbitrary: c ch f rule: less_induct)
  case less
  have c: "pos_ok c" using assms(1,2) less.prems by (simp add: pos_ok_def)
  show ?case
  proof (cases "c < hi")
    case False
    then show ?thesis using less.prems assms(2) by (subst collect_loop.simps) (simp add: key_less_pos)
  next
    case True
    then have go: "key_less (from_i128 c) (from_i128 hi)" "\<not> key_less (from_i128 hi) (from_i128 hi)"
      using c assms(2) by (simp_all add: key_less_pos)
    show ?thesis
    proof (cases "choose_next_layer_type ch")
      case None
      then have "\<forall>x. c \<le> x \<and> x < hi \<longrightarrow> delta x = lch_current_delta ch \<and> img x = lch_current_image ch"
        using less.prems(3) by (auto simp: choose_None changes_from_def)
      then have "\<forall>x. c \<le> x \<and> x < hi \<longrightarrow> select_layer (lch_current_delta ch) (lch_current_image ch) inmem e = Inr (sel x)"
        using sel less.prems(1) by (metis order_trans)
      then obtain f' where "add_range inmem e ch (from_i128 c, from_i128 hi) f = Inr f'" "found_upto sel lo hi f'"
        using add_range_ok [OF less.prems(4) c assms(2) less.prems(1,2), of ch inmem e "sel c"] True
        by (metis Inr_inject order_refl)
      then show ?thesis using go None by (subst collect_loop.simps) (simp add: collect_loop.simps [of _ _ "from_i128 hi" "from_i128 hi"])
    next
      case (Some t)
      obtain n ch' where n: "next_change_at_key t = from_i128 n" "advance t ch = Inr ch'" "c < n" "n < hi" "changes_from delta img n hi ch'"
          "\<forall>x. c \<le> x \<and> x < n \<longrightarrow> delta x = lch_current_delta ch \<and> img x = lch_current_image ch"
        using changes_advance [OF less.prems(3) Some] by metis
      have pn: "pos_ok n" using n(3,4) c assms(2) by (simp add: pos_ok_def)
      have "\<forall>x. c \<le> x \<and> x < n \<longrightarrow> select_layer (lch_current_delta ch) (lch_current_image ch) inmem e = Inr (sel x)"
        using n(4,6) sel less.prems(1) by (metis order_trans less_trans)
      then obtain f' where f': "add_range inmem e ch (from_i128 c, from_i128 n) f = Inr f'" "found_upto sel lo n f'"
        using add_range_ok [OF less.prems(4) c pn less.prems(1), of ch inmem e "sel c"] n(3)
        by (metis Inr_inject order_refl less_imp_le)
      have "\<exists>f''. collect_loop inmem e (from_i128 hi) (from_i128 n) ch' f' = Inr f'' \<and> found_upto sel lo hi f''"
        using less.hyps [OF advance_left [OF n(2)] _ _ n(5) f'(2)] less.prems(1) n(3,4) by simp
      then show ?thesis using go Some n(1,2) f'(1) by (subst collect_loop.simps) (simp add: Let_def)
    qed
  qed
qed

lemma collect_ok:
  assumes p: "pos_ok lo" "pos_ok hi" "lo < hi"
      and ds: "om_ok ds" "\<forall>e \<in> set ds. lo \<le> fst e \<and> fst e < hi" and imgs: "om_ok imgs" "\<forall>e \<in> set imgs. lo \<le> fst e \<and> fst e < hi"
      and sel: "\<And>x. lo \<le> x \<Longrightarrow> x < hi \<Longrightarrow> select_layer (cov None ds x) (cov None imgs x) inmem e = Inr (sel x)"
  shows "\<exists>f. collect (from_i128 lo, from_i128 hi) e inmem
      \<lparr>lch_delta = ds, lch_image = imgs, lch_current_delta = None, lch_current_image = None\<rparr> = Inr f \<and> found_upto sel lo hi f"
proof -
  let ?ch = "\<lparr>lch_delta = ds, lch_image = imgs, lch_current_delta = None, lch_current_image = None\<rparr>"
  let ?delta = "cov None ds" and ?img = "cov None imgs"
  have from_before: "changes_from ?delta ?img (lo - 1) hi ?ch" using ds imgs by (force simp: changes_from_def)
  have memory: "select_layer None None inmem e = Inr (map_option mem_result inmem)" by (cases inmem) (simp_all add: select_layer_def)
  have pad: "sel x = map_option mem_result inmem" if "lo \<le> x" "x < hi" "?delta x = None" "?img x = None" for x
    using sel [OF that(1,2)] that(3,4) memory by (metis Inr_inject)
  show ?thesis
  proof (cases "choose_next_layer_type ?ch")
    case None
    then have "\<forall>x. lo \<le> x \<and> x < hi \<longrightarrow> sel x = map_option mem_result inmem" using pad by (auto simp: choose_None)
    then show ?thesis using pad_range_ok [OF found_upto_empty p(1,2), of sel inmem] p(3) None by (simp add: collect_def)
  next
    case (Some t)
    obtain n ch' where n: "next_change_at_key t = from_i128 n" "advance t ?ch = Inr ch'" "lo - 1 < n" "n < hi" "changes_from ?delta ?img n hi ch'"
        "\<forall>x. lo - 1 \<le> x \<and> x < n \<longrightarrow> ?delta x = None \<and> ?img x = None"
      using changes_advance [OF from_before Some] by auto
    have pn: "pos_ok n" using n(3,4) p by (simp add: pos_ok_def)
    have "\<forall>x. lo \<le> x \<and> x < n \<longrightarrow> sel x = map_option mem_result inmem" using n(4,6) pad by auto
    then obtain f where f: "pad_range inmem (from_i128 lo, from_i128 n) Map.empty = Inr f" "found_upto sel lo n f"
      using pad_range_ok [OF found_upto_empty p(1) pn, of sel inmem] n(3) by auto
    have "key_less (from_i128 n) (from_i128 hi)" using n(4) pn p by (simp add: key_less_pos)
    moreover have "\<exists>f'. collect_loop inmem e (from_i128 hi) (from_i128 n) ch' f = Inr f' \<and> found_upto sel lo hi f'"
      using collect_loop_ok [OF p(1,2) sel _ _ n(5) f(2)] n(3,4) by simp
    ultimately show ?thesis using Some n(1,2) f(1) by (simp add: collect_def Let_def)
  qed
qed

context layer_nodes
begin

lemma range_search_ok:
  assumes ok: "lm_ok ops lm" "bc_buffer (lm_historic lm) = []" and mem: "memory_newer lm" and e: "0 < e"
      and p: "pos_ok lo" "pos_ok hi" "lo < hi"
      and sel: "\<And>x. lo \<le> x \<Longrightarrow> x < hi \<Longrightarrow> search ops (from_i128 x) e lm = Inr (sel x)"
  shows "\<exists>f. range_search ops (from_i128 lo, from_i128 hi) e lm = Inr f \<and> found_upto sel lo hi f"
proof -
  let ?m = "search_in_memory_layer e lm"
  have px: "pos_ok x" if "lo \<le> x" "x < hi" for x using that p by (simp add: pos_ok_def)
  have at: "select_layer (lookup lm (e - 1) False x) (lookup lm (e - 1) True x) ?m e = Inr (sel x)" if "lo \<le> x" "x < hi" for x
    using sel [OF that] search_select [OF ok to_i128_from [OF px [OF that]]] by simp
  show ?thesis
  proof (cases "get_version (e - 1) (bc_historic (lm_historic lm))")
    case None
    have "\<forall>x. lo \<le> x \<and> x < hi \<longrightarrow> sel x = map_option mem_result ?m"
      using at version_None [OF ok(1) None] by (cases ?m) (auto simp: select_layer_def)
    then have "\<exists>f. pad_range ?m (from_i128 lo, from_i128 hi) Map.empty = Inr f \<and> found_upto sel lo hi f"
      using pad_range_ok [OF found_upto_empty p(1,2), of sel ?m] p(3) by simp
    moreover have "map_to_in_memory_layer ?m (from_i128 lo, from_i128 hi) = pad_range ?m (from_i128 lo, from_i128 hi) Map.empty"
      using p by (cases ?m) (simp_all add: map_to_in_memory_layer_def pad_range_def found_add_def key_less_pos)
    ultimately show ?thesis using ok(2) by (simp add: range_search_def bc_get_def None)
  next
    case (Some t)
    let ?ov = "\<lambda>img. range_overlaps ops (lo, hi) (tuple_side img t)"
    note ov = range_overlaps_covers [OF version_Some(1) [OF ok(1) Some] p(3)]
    have "cov None (?ov img) x = lookup lm (e - 1) img x" if "lo \<le> x" "x < hi" for img x
      using ov(3) [OF that] version_Some(3) [OF ok(1) Some] by simp
    then have "\<exists>f. collect (from_i128 lo, from_i128 hi) e ?m
        \<lparr>lch_delta = ?ov False, lch_image = ?ov True, lch_current_delta = None, lch_current_image = None\<rparr> = Inr f \<and> found_upto sel lo hi f"
      using at by (intro collect_ok p ov) simp
    then show ?thesis using ok(2) to_i128_from [OF p(1)] to_i128_from [OF p(2)]
      by (simp add: range_search_def bc_get_def Some or_panic_def tuple_side_def)
  qed
qed

end

section \<open>The division of a range by its images\<close>

lemma coverage_intervals_ends:
  "(r, u) \<in> set (coverage_intervals c v cs hi) \<Longrightarrow> om_ok cs \<Longrightarrow> \<forall>e \<in> set cs. c \<le> fst e \<and> fst e < hi \<Longrightarrow> pos_ok c \<Longrightarrow> pos_ok hi \<Longrightarrow>
     \<exists>y z. r = (from_i128 y, from_i128 z) \<and> pos_ok y \<and> pos_ok z \<and> c \<le> y"
proof (induction cs arbitrary: c v)
  case (Cons a cs)
  obtain k w where a: "a = (k, w)" by (cases a)
  have p: "pos_ok k" "c \<le> k" "\<forall>e \<in> set cs. k \<le> fst e \<and> fst e < hi" "om_ok cs"
    using Cons.prems by (auto simp: a pos_ok_def intro: less_imp_le)
  consider "r = (from_i128 c, from_i128 k)" | "(r, u) \<in> set (coverage_intervals k w cs hi)" using Cons.prems(1) by (auto simp: a)
  then show ?case
  proof cases
    case 1
    then show ?thesis using Cons.prems(4) p by blast
  next
    case 2
    then have "\<exists>y z. r = (from_i128 y, from_i128 z) \<and> pos_ok y \<and> pos_ok z \<and> k \<le> y"
      using Cons.IH [of k w] Cons.prems(5) p by simp
    then show ?thesis using p(2) order_trans by blast
  qed
qed auto

lemma coverage_intervals_cov:
  assumes "om_ok cs" "\<forall>e \<in> set cs. c \<le> fst e \<and> fst e < hi" "pos_ok c" "pos_ok hi" "c \<le> x" "x < hi"
  shows "(\<exists>r. (r, cov v cs x) \<in> set (coverage_intervals c v cs hi) \<and> range_contains r (from_i128 x))
    \<and> (\<forall>r w. (r, w) \<in> set (coverage_intervals c v cs hi) \<and> range_contains r (from_i128 x) \<longrightarrow> w = cov v cs x)"
  using assms
proof (induction cs arbitrary: c v)
  case Nil
  then have "pos_ok x" by (simp add: pos_ok_def)
  then show ?case using Nil by (simp add: range_contains_pos)
next
  case (Cons e cs)
  obtain k w where e: "e = (k, w)" by (cases e)
  have k: "c \<le> k" "k < hi" "pos_ok k" "pos_ok x" using Cons.prems by (auto simp: e pos_ok_def)
  have rest: "om_ok cs" "\<forall>e \<in> set cs. k \<le> fst e \<and> fst e < hi" using Cons.prems by (auto simp: e intro: less_imp_le)
  have first: "range_contains (from_i128 c, from_i128 k) (from_i128 x) \<longleftrightarrow> x < k"
    using range_contains_pos [OF k(4) Cons.prems(3) k(3)] Cons.prems(5) by simp
  show ?case
  proof (cases "x < k")
    case True
    have "\<not> range_contains r (from_i128 x)" if r: "(r, u) \<in> set (coverage_intervals k w cs hi)" for r u
    proof -
      obtain y z where "r = (from_i128 y, from_i128 z)" "pos_ok y" "pos_ok z" "k \<le> y"
        using coverage_intervals_ends [OF r rest k(3) Cons.prems(4)] by blast
      then show ?thesis using True k(4) by (simp add: range_contains_pos)
    qed
    then show ?thesis using True first by (auto simp: e)
  next
    case False
    then have "(\<exists>r. (r, cov w cs x) \<in> set (coverage_intervals k w cs hi) \<and> range_contains r (from_i128 x))
        \<and> (\<forall>r u. (r, u) \<in> set (coverage_intervals k w cs hi) \<and> range_contains r (from_i128 x) \<longrightarrow> u = cov w cs x)"
      using Cons.prems k rest by (intro Cons.IH) simp_all
    then show ?thesis using False first by (auto simp: e)
  qed
qed

context layer_nodes
begin

lemma lc_range_covers:
  assumes "lc_ok ops m" "lo \<le> x" "x < hi"
  shows "om_ok (lc_range ops (lo, hi) m)" "\<forall>e \<in> set (lc_range ops (lo, hi) m). lo \<le> fst e \<and> fst e < hi"
    "cov (lc_query ops lo m) (lc_range ops (lo, hi) m) x = lc_query ops x m"
proof -
  let ?es = "omo_entries ops m"
  have ok: "om_ok ?es" using assms(1) by (simp add: lc_ok_def)
  have keys: "map fst (lc_range ops (lo, hi) m) = map fst (om_range lo hi ?es)" by (auto simp: lc_range_def)
  then show "om_ok (lc_range ops (lo, hi) m)" using om_ok_range [OF ok, of lo hi] by (simp add: om_ok_def)
  show "\<forall>e \<in> set (lc_range ops (lo, hi) m). lo \<le> fst e \<and> fst e < hi" by (auto simp: lc_range_def om_range_def)
  show "cov (lc_query ops lo m) (lc_range ops (lo, hi) m) x = lc_query ops x m"
    using cov_range [OF ok assms(2,3), of None]
    by (simp add: query_covers [OF assms(1)] lc_covers_def lc_range_def cov_map)
qed

text \<open>Every key of the range is in an interval, and the intervals it is in have its newest image.\<close>

lemma image_coverage_newest:
  assumes ok: "lm_ok ops lm" "bc_buffer (lm_historic lm) = []" and v: "get_version l (bc_historic (lm_historic lm)) = Some t"
      and p: "pos_ok lo" "pos_ok hi" "lo \<le> x" "x < hi"
  shows "\<exists>ivs. lm_image_coverage ops (from_i128 lo, from_i128 hi) l lm = Inr ivs
    \<and> (\<exists>r. (r, lookup lm l True x) \<in> set ivs \<and> range_contains r (from_i128 x))
    \<and> (\<forall>r w. (r, w) \<in> set ivs \<and> range_contains r (from_i128 x) \<longrightarrow> w = lookup lm l True x)"
proof -
  let ?m = "image_coverage t"
  have m: "lc_ok ops ?m" "lc_query ops y ?m = lookup lm l True y" for y
    using version_Some(3) [OF ok(1) v, of y True] version_Some(1) [OF ok(1) v, of True] by (simp_all add: tuple_side_def)
  note cs = lc_range_covers [OF m(1) p(3,4)]
  show ?thesis using coverage_intervals_cov [OF cs(1,2) p, of "lc_query ops lo ?m"] cs(3) m(2) ok(2) v to_i128_from [OF p(1)] to_i128_from [OF p(2)]
    by (simp add: lm_image_coverage_def bc_get_def or_panic_def)
qed

end

section \<open>The count of stacked deltas\<close>

lemma coverage_parts_in:
  assumes "(r, u) \<in> set (coverage_parts c v cs hi)" "om_ok cs" "\<forall>e \<in> set cs. c \<le> fst e \<and> fst e < hi" "c \<le> hi"
  shows "c \<le> fst r \<and> fst r \<le> snd r \<and> snd r \<le> hi \<and> (u = v \<or> u \<in> snd ` set cs)"
  using assms
proof (induction cs arbitrary: c v)
  case (Cons a cs)
  obtain k w where a: "a = (k, w)" by (cases a)
  have p: "c \<le> k" "k \<le> hi" "\<forall>e \<in> set cs. k \<le> fst e \<and> fst e < hi" "om_ok cs" using Cons.prems by (auto simp: a intro: less_imp_le)
  consider "r = (c, k)" "u = v" | "(r, u) \<in> set (coverage_parts k w cs hi)" using Cons.prems(1) by (auto simp: a)
  then show ?case
  proof cases
    case 2
    then show ?thesis using Cons.IH [of k w] p by (force simp: a)
  qed (use p in auto)
qed auto

text \<open>What the count under a part has to return, and that the counts of all parts then stay within the limit.\<close>

definition within :: "nat option \<Rightarrow> nat \<Rightarrow> bool" where
  "within limit n \<longleftrightarrow> (case limit of None \<Rightarrow> True | Some l \<Rightarrow> n \<le> l)"

lemma stacked_parts_ends:
  assumes below: "\<And>r val lim. (r, Some val) \<in> set parts \<Longrightarrow> \<exists>n. below (from_i128 (fst r), from_i128 (snd r)) (fst lsns, fst (pl_lsn_range val)) lim = Inr n \<and> within lim n"
      and "limit \<noteq> Some 0" "within limit n"
  shows "\<exists>n'. stacked_parts below key lsns limit parts n = Inr n' \<and> within limit n'"
  using assms
proof (induction parts arbitrary: n)
  case (Cons part parts)
  obtain r u where part: "part = (r, u)" by (cases part)
  have "\<exists>n'. stacked_here below key lsns limit part n = Inr n' \<and> within limit n'"
  proof (cases u)
    case None
    then show ?thesis using Cons.prems by (simp add: part stacked_here_def)
  next
    case (Some val)
    define base where "base = (if is_reimage_worthy val key then 1 else 0 :: nat)"
    obtain m where "below (from_i128 (fst r), from_i128 (snd r)) (fst lsns, fst (pl_lsn_range val)) (map_option (\<lambda>l. l - base) limit) = Inr m"
        "within (map_option (\<lambda>l. l - base) limit) m"
      using Cons.prems(1) [of r val] by (auto simp: part Some)
    moreover from this have "within limit (max n (base + m))"
      using Cons.prems(2,3) by (auto simp: within_def base_def split: option.splits)
    ultimately show ?thesis using Cons.prems(3) by (simp add: part Some stacked_here_def base_def [symmetric] Let_def)
  qed
  then obtain n' where "stacked_here below key lsns limit part n = Inr n'" "within limit n'" by blast
  then show ?case using Cons.IH [of n'] Cons.prems by auto
qed simp

context layer_nodes
begin

lemma count_deltas_ends:
  assumes ok: "lm_ok ops lm" "bc_buffer (lm_historic lm) = []"
  shows "pos_ok lo \<Longrightarrow> pos_ok hi \<Longrightarrow> unat (snd lsns) < frames \<Longrightarrow>
    \<exists>n. count_deltas frames ops lm (from_i128 lo, from_i128 hi) lsns limit = Inr n \<and> within limit n"
proof (induction frames arbitrary: lo hi lsns limit)
  case (Suc frames)
  have zero: "within limit 0" by (simp add: within_def split: option.split)
  show ?case
  proof (cases "fst lsns < snd lsns \<and> lo < hi \<and> limit \<noteq> Some 0 \<and> get_version (snd lsns - 1) (bc_historic (lm_historic lm)) \<noteq> None")
    case False
    then show ?thesis using zero ok(2) Suc.prems(1,2) by (auto simp: key_less_pos bc_get_def)
  next
    case True
    then obtain t where t: "get_version (snd lsns - 1) (bc_historic (lm_historic lm)) = Some t" by auto
    let ?m = "delta_coverage t" and ?key = "(from_i128 lo, from_i128 hi)"
    let ?parts = "coverage_parts lo (lc_query ops lo ?m) (lc_range ops (lo, hi) ?m) hi"
    have pos: "0 < snd lsns" using True by (metis word_gt_0 word_not_simps(1))
    have m: "lc_ok ops ?m" "lc_query ops y ?m = lookup lm (snd lsns - 1) False y" for y
      using version_Some(3) [OF ok(1) t, of y False] version_Some(1) [OF ok(1) t, of False] by (simp_all add: tuple_side_def)
    have starts: "fst (pl_lsn_range d) < snd lsns" if "lc_query ops y ?m = Some d" for y d
      using that m(2) lookup_Some(1) [OF ok(1)] below_minus_one [OF pos] by (fastforce simp: readable_def)
    note cs = lc_range_covers [OF m(1), of lo lo hi]
    have val: "fst (pl_lsn_range d) < snd lsns \<and> pos_ok (fst r) \<and> pos_ok (snd r)" if "(r, Some d) \<in> set ?parts" for r d
    proof -
      have part: "lo \<le> fst r \<and> fst r \<le> snd r \<and> snd r \<le> hi"
          "Some d = lc_query ops lo ?m \<or> Some d \<in> snd ` set (lc_range ops (lo, hi) ?m)"
        using coverage_parts_in [OF that] cs(1,2) True by auto
      have "\<exists>y. lc_query ops y ?m = Some d"
        using part(2)
      proof
        assume "Some d \<in> snd ` set (lc_range ops (lo, hi) ?m)"
        then obtain y where y: "(y, Some d) \<in> set (lc_range ops (lo, hi) ?m)" by force
        then have "lo \<le> y" "y < hi" using cs(2) True by auto
        then have "lc_query ops y ?m = Some d" using lc_range_covers [OF m(1), of lo y hi] cov_at [OF _ y] by metis
        then show ?thesis ..
      qed auto
      then show ?thesis using starts part(1) Suc.prems(1,2) by (auto simp: pos_ok_def)
    qed
    have "\<exists>n. count_deltas frames ops lm (from_i128 (fst r), from_i128 (snd r)) (fst lsns, fst (pl_lsn_range d)) lim = Inr n \<and> within lim n"
      if "(r, Some d) \<in> set ?parts" for r d lim
      using val [OF that] Suc.prems(3) by (intro Suc.IH) (auto simp: word_less_nat_alt)
    then have "\<exists>n. stacked_parts (count_deltas frames ops lm) ?key lsns limit ?parts 0 = Inr n \<and> within limit n"
      using True zero by (intro stacked_parts_ends) auto
    then show ?thesis using True t ok(2) Suc.prems(1,2) to_i128_from by (simp add: key_less_pos bc_get_def or_panic_def)
  qed
qed simp

end

end
