(* ===== verification/Layer_Claims.thy ===== *)
theory Layer_Claims
  imports Layer_Range
begin

text \<open>
  The properties of the layer map, each for every persistent map that keeps its entries in
  order, and a small timeline at which they are applied: an image, a delta above part of it
  and an open layer.
\<close>

section \<open>Helpers\<close>

lemma bc_run_append: "bc_run ops (us @ vs) b = (case bc_run ops us b of Inl p \<Rightarrow> Inl p | Inr b' \<Rightarrow> bc_run ops vs b')"
  by (induction us arbitrary: b) (auto split: sum.split)

text \<open>The layer that a version of the history gives at a key, in terms of the layers there are.\<close>

definition version_gives ::
  "('v, 'm) node_ops \<Rightarrow> (layer_key \<rightharpoonup> 'v) \<Rightarrow> u64 \<Rightarrow> bool \<Rightarrow> int \<Rightarrow> 'm historic_coverage \<Rightarrow> bool" where
  "version_gives ops m s img k h \<longleftrightarrow>
     (case get_version s h of
        None \<Rightarrow> \<forall>l \<in> dom m. s < lk_start l
      | Some t \<Rightarrow>
          (case lc_query ops k (tuple_side img t) of
             None \<Rightarrow> \<forall>l \<in> dom m. \<not> (lk_start l \<le> s \<and> hits img k l)
           | Some v \<Rightarrow>
               \<exists>l. m l = Some v \<and> lk_start l \<le> s \<and> hits img k l
                 \<and> (\<forall>l' \<in> dom m. lk_start l' \<le> s \<and> hits img k l' \<longrightarrow> snd (lk_lsn l') \<le> snd (lk_lsn l))))"

lemma om_ok_map_of: "om_ok es \<Longrightarrow> map_of es k = Some v \<longleftrightarrow> (k, v) \<in> set es"
  by (induction es) (force split: if_splits)+

lemma history_gives:
  assumes "ordered_map ops" and b: "bc_ok ops b"
  shows "version_gives ops (map_of (bc_layers b)) s img k (bc_historic b)"
proof -
  have "node_map ops" using assms(1) by (simp add: node_map_def)
  note query = node_map.query_best [OF this]
  let ?ls = "bc_layers b" and ?seen = "filter (\<lambda>e. lk_start (fst e) \<le> s) (bc_layers b)"
  have ok: "om_ok ?ls" "by_start ?ls" "\<forall>e \<in> set ?seen. lk_ok (fst e)" "bc_historic b = history_of ops ?ls"
    using b by (auto simp: bc_ok_def by_start_ok)
  have dom: "l \<in> dom (map_of ?ls) \<longleftrightarrow> (\<exists>v. (l, v) \<in> set ?ls)" for l using om_ok_map_of [OF ok(1)] by (auto simp: dom_def)
  show ?thesis
  proof (cases "?seen = []")
    case True
    then have "get_version s (bc_historic b) = None" using ok(2,4) by (simp add: version_history)
    then show ?thesis using True dom by (force simp: version_gives_def filter_empty_conv not_le)
  next
    case False
    then have v: "get_version s (bc_historic b) = Some (tuple_of ops ?seen)" using ok(2,4) by (simp add: version_history)
    show ?thesis
    proof (cases "best img k ?seen")
      case None
      then have "\<forall>e \<in> set ?seen. \<not> hits img k (fst e)" by (simp only: best_None)
      then show ?thesis using v dom None query [OF ok(3), of k img] by (fastforce simp: version_gives_def)
    next
      case (Some n)
      obtain h w where n: "n = (h, w)" by (cases n)
      note top = best_Some [OF Some [unfolded n]]
      obtain l where l: "(l, w) \<in> set ?seen" "hits img k l" "snd (lk_lsn l) = h" using top by blast
      have "lc_query ops k (tuple_side img (tuple_of ops ?seen)) = Some w" using query [OF ok(3), of k img] Some n by simp
      moreover have "map_of ?ls l = Some w" "lk_start l \<le> s" using l(1) om_ok_map_of [OF ok(1)] by auto
      moreover have "snd (lk_lsn l') \<le> snd (lk_lsn l)" if "l' \<in> dom (map_of ?ls)" "lk_start l' \<le> s" "hits img k l'" for l'
        using that dom top l(3) by force
      ultimately show ?thesis using v l(2) by (auto simp: version_gives_def)
    qed
  qed
qed

section \<open>The history of the layers\<close>

text \<open>
  C12: Whatever layers are inserted and removed, in whatever order and with rebuilds wherever,
  a rebuild succeeds and its history is the one that inserting the present layers into an empty
  history gives; a version of it returns, at every key, a layer that is present, covers the
  key and starts at the LSN or below, the one that ends last, and none only if there is none.
\<close>

theorem layer_history:
  assumes "ordered_map ops" and "list_all bc_op_ok us"
  shows "\<exists>b. bc_run ops (us @ [BcRebuild]) (bc_new ops) = Inr b \<and> bc_get b = Inr (bc_historic b)
    \<and> map_of (bc_layers b) = live us \<and> hc_insert_all ops (bc_layers b) (hc_new ops) = Inr (bc_historic b)
    \<and> (\<forall>s img k. version_gives ops (live us) s img k (bc_historic b))"
proof -
  obtain b where b: "bc_run ops us (bc_new ops) = Inr b" "bc_ok ops b" "bc_live b = live us"
    using bc_run_ok [OF bc_new_ok(1) assms(2)] by (auto simp: live_def bc_new_ok(2))
  obtain b' where b': "bc_rebuild ops b = Inr b'" "bc_ok ops b'" "bc_live b' = live us"
    using bc_step_ok [OF b(2), of BcRebuild] b(3) by auto
  have empty: "bc_buffer b' = []" using b'(1) bc_rebuild_ok [OF b(2)] by (auto simp: Let_def)
  have layers: "map_of (bc_layers b') = live us" using b'(3) empty by (simp add: bc_live_def)
  have built: "bc_historic b' = history_of ops (bc_layers b')" "by_start (bc_layers b')" using b'(2) by (auto simp: bc_ok_def by_start_ok)
  have "hc_new ops = history_of ops []" by (simp add: hc_new_def history_of_def)
  then have "hc_insert_all ops (bc_layers b') (hc_new ops) = Inr (bc_historic b')"
    using history_append [of "[]" "bc_layers b'" ops] built by simp
  moreover have "bc_run ops (us @ [BcRebuild]) (bc_new ops) = Inr b'" using b(1) b'(1) by (simp add: bc_run_append)
  ultimately show ?thesis
    using empty layers history_gives [OF assms(1) b'(2)] by (auto simp: bc_get_def)
qed

theorem layer_history_witness:
  "\<exists>b t. bc_run list_ops [BcInsert (LayerKey (0, 5) (100, 101) True) ''base'', BcRebuild, BcInsert (LayerKey (3, 9) (90, 91) True) ''older'', BcRebuild]
      (bc_new list_ops) = Inr b
    \<and> get_version 120 (bc_historic b) = Some t \<and> lc_query list_ops 4 (image_coverage t) = Some ''base''
    \<and> version_gives list_ops (live [BcInsert (LayerKey (0, 5) (100, 101) True) ''base'', BcRebuild, BcInsert (LayerKey (3, 9) (90, 91) True) ''older''])
        120 True 4 (bc_historic b)"
proof -
  let ?us = "[BcInsert (LayerKey (0, 5) (100, 101) True) ''base'', BcRebuild, BcInsert (LayerKey (3, 9) (90, 91) True) ''older'']"
  have "ordered_map list_ops" by (rule entry_lists.ordered_map_axioms)
  moreover have "list_all bc_op_ok ?us" by code_simp
  ultimately obtain b where b: "bc_run list_ops (?us @ [BcRebuild]) (bc_new list_ops) = Inr b"
      "\<forall>s img k. version_gives list_ops (live ?us) s img k (bc_historic b)"
    using layer_history [of list_ops ?us] by blast
  have "map_option (\<lambda>t. lc_query list_ops 4 (image_coverage t)) (get_version 120 (bc_historic (projr (bc_run list_ops (?us @ [BcRebuild]) (bc_new list_ops)))))
      = Some (Some ''base'')"
    by code_simp
  then obtain t where "get_version 120 (bc_historic b) = Some t" "lc_query list_ops 4 (image_coverage t) = Some ''base''"
    using b(1) by auto
  then show ?thesis using b by auto
qed

section \<open>A sample timeline\<close>

definition sample_pkey :: "u32 \<Rightarrow> pkey" where
  "sample_pkey n = mk_key 0 0 0 0 0 n"

definition sample_tenant :: tenant_shard_id where
  "sample_tenant = \<lparr>tsi_tenant_id = replicate 16 7, tsi_number = 0, tsi_count = 0\<rparr>"

definition sample_image :: persistent_layer_desc where
  "sample_image = projr (new_img sample_tenant (replicate 16 1) (sample_pkey 0, sample_pkey 100) 16 8192)"

definition sample_delta :: persistent_layer_desc where
  "sample_delta = new_delta sample_tenant (replicate 16 1) (sample_pkey 50, sample_pkey 150) (20, 40) 8192"

definition sample_updates :: "lm_update list" where
  "sample_updates = [InsertHistoric sample_delta, InsertHistoric sample_image]"

definition sample_map :: "(int \<times> persistent_layer_desc node) list layer_map" where
  "sample_map = (projr (batch_update list_ops sample_updates (lm_default list_ops)))
     \<lparr>open_layer := Some \<lparr>im_start_lsn = 40, im_end_lsn = None\<rparr>, next_open_layer_at := None, frozen_layers := []\<rparr>"

lemma sample_batch:
  "case batch_update list_ops sample_updates (lm_default list_ops) of
     Inl _ \<Rightarrow> False
   | Inr lm \<Rightarrow> map snd (bc_layers (lm_historic lm)) = [sample_image, sample_delta]"
  by code_simp

lemma sample_reachable: "lm_reachable list_ops sample_map"
proof -
  have "list_all update_ok sample_updates" by code_simp
  moreover have "batch_update list_ops sample_updates (lm_default list_ops) = Inr (projr (batch_update list_ops sample_updates (lm_default list_ops)))"
    using sample_batch by (auto split: sum.splits)
  ultimately show ?thesis unfolding sample_map_def by (intro lm_memory) (rule lm_batch [OF lm_init])
qed

lemma sample_live: "live_layers sample_map = {sample_image, sample_delta}"
proof -
  have "set (map snd (bc_layers (lm_historic sample_map))) = set [sample_image, sample_delta]"
    using sample_batch by (auto simp: sample_map_def split: sum.splits)
  then show ?thesis by (simp add: live_layers_def)
qed

lemma sample_fields:
  "pl_is_delta sample_image = False" "pl_lsn_range sample_image = (16, 17)" "pl_is_delta sample_delta = True" "pl_lsn_range sample_delta = (20, 40)"
  by code_simp+

lemma sample_memory: "open_layer sample_map = Some \<lparr>im_start_lsn = 40, im_end_lsn = None\<rparr>" "frozen_layers sample_map = []"
  by (simp_all add: sample_map_def)

lemma sample_newer: "memory_newer sample_map"
  by (simp add: memory_newer_def sample_live memory_layers_def sample_fields sample_memory)

lemma sample_covers: "covers_key sample_image k \<longleftrightarrow> 0 \<le> k \<and> k < 100"
proof -
  have "to_i128 (fst (pl_key_range sample_image)) = Some 0" "to_i128 (snd (pl_key_range sample_image)) = Some 100" by code_simp+
  then show ?thesis by (simp add: covers_key_def)
qed

section \<open>Failing updates\<close>

definition l0_copies :: "persistent_layer_desc \<Rightarrow> 'm layer_map \<Rightarrow> nat" where
  "l0_copies d lm = length (filter (\<lambda>other. desc_key other = desc_key d) (l0_delta_layers lm))"

definition removal_fails :: "persistent_layer_desc \<Rightarrow> 'm layer_map \<Rightarrow> bool" where
  "removal_fails d lm \<longleftrightarrow> is_l0 (pl_key_range d) (pl_is_delta d) \<and> l0_copies d lm \<noteq> 1"

lemma insert_succeeds: "desc_ok d \<Longrightarrow> \<exists>lm'. insert_historic_noflush d lm = Inr lm'"
  by (rule layer_key_fields) (auto simp: insert_historic_noflush_def Let_def)

lemma remove_result:
  assumes "desc_ok d"
  shows "if removal_fails d lm then remove_historic_noflush d lm = Inl L0LayerLost else \<exists>lm'. remove_historic_noflush d lm = Inr lm'"
proof -
  have "length (filter (\<lambda>other. desc_key other \<noteq> desc_key d) (l0_delta_layers lm)) + l0_copies d lm = length (l0_delta_layers lm)"
    using sum_length_filter_compl [of "\<lambda>other. desc_key other = desc_key d" "l0_delta_layers lm"] by (simp add: l0_copies_def)
  then have "length (filter (\<lambda>other. desc_key other \<noteq> desc_key d) (l0_delta_layers lm)) + 1 = length (l0_delta_layers lm) \<longleftrightarrow> l0_copies d lm = 1"
    by linarith
  moreover obtain l where "layer_key_from d = Inr l" using assms by (rule layer_key_fields)
  ultimately show ?thesis by (auto simp: remove_historic_noflush_def removal_fails_def Let_def)
qed

definition fails_at :: "lm_update list \<Rightarrow> 'm layer_map \<Rightarrow> bool" where
  "fails_at us lm \<longleftrightarrow> (\<exists>us1 d us2 lm1. us = us1 @ RemoveHistoric d # us2 \<and> batch_noflush us1 lm = Inr lm1 \<and> removal_fails d lm1)"

lemma fails_at_Nil: "\<not> fails_at [] lm"
  by (simp add: fails_at_def)

lemma fails_at_insert: "insert_historic_noflush d lm = Inr lm' \<Longrightarrow> fails_at (InsertHistoric d # us) lm \<longleftrightarrow> fails_at us lm'"
proof
  assume i: "insert_historic_noflush d lm = Inr lm'"
  assume "fails_at (InsertHistoric d # us) lm"
  then obtain us1 x us2 lm1 where u: "InsertHistoric d # us = us1 @ RemoveHistoric x # us2" "batch_noflush us1 lm = Inr lm1" "removal_fails x lm1"
    by (auto simp: fails_at_def)
  then obtain us1' where "us1 = InsertHistoric d # us1'" by (cases us1) auto
  then show "fails_at us lm'" using u i by (auto simp: fails_at_def)
next
  assume i: "insert_historic_noflush d lm = Inr lm'" and "fails_at us lm'"
  then obtain us1 x us2 lm1 where "us = us1 @ RemoveHistoric x # us2" "batch_noflush us1 lm' = Inr lm1" "removal_fails x lm1"
    by (auto simp: fails_at_def)
  then show "fails_at (InsertHistoric d # us) lm" using i unfolding fails_at_def
    by (intro exI [of _ "InsertHistoric d # us1"]) auto
qed

lemma fails_at_remove:
  assumes "desc_ok d"
  shows "fails_at (RemoveHistoric d # us) lm \<longleftrightarrow> removal_fails d lm \<or> (\<exists>lm'. remove_historic_noflush d lm = Inr lm' \<and> fails_at us lm')"
proof
  assume "fails_at (RemoveHistoric d # us) lm"
  then obtain us1 x us2 lm1 where u: "RemoveHistoric d # us = us1 @ RemoveHistoric x # us2" "batch_noflush us1 lm = Inr lm1" "removal_fails x lm1"
    by (auto simp: fails_at_def)
  show "removal_fails d lm \<or> (\<exists>lm'. remove_historic_noflush d lm = Inr lm' \<and> fails_at us lm')"
  proof (cases us1)
    case Nil
    then show ?thesis using u by auto
  next
    case (Cons y us1')
    then obtain lm' where "remove_historic_noflush d lm = Inr lm'" "batch_noflush us1' lm' = Inr lm1" "us = us1' @ RemoveHistoric x # us2"
      using u by (auto simp: and_then_Inr)
    then show ?thesis using u(3) unfolding fails_at_def by blast
  qed
next
  assume "removal_fails d lm \<or> (\<exists>lm'. remove_historic_noflush d lm = Inr lm' \<and> fails_at us lm')"
  then show "fails_at (RemoveHistoric d # us) lm"
  proof
    assume "removal_fails d lm"
    then show ?thesis unfolding fails_at_def by (intro exI [of _ "[]"]) auto
  next
    assume "\<exists>lm'. remove_historic_noflush d lm = Inr lm' \<and> fails_at us lm'"
    then obtain lm' us1 x us2 lm1 where "remove_historic_noflush d lm = Inr lm'" "us = us1 @ RemoveHistoric x # us2"
        "batch_noflush us1 lm' = Inr lm1" "removal_fails x lm1"
      by (auto simp: fails_at_def)
    then show ?thesis unfolding fails_at_def by (intro exI [of _ "RemoveHistoric d # us1"]) auto
  qed
qed

lemma batch_noflush_result:
  "list_all update_ok us \<Longrightarrow> if fails_at us lm then batch_noflush us lm = Inl L0LayerLost else \<exists>lm'. batch_noflush us lm = Inr lm'"
proof (induction us lm rule: batch_noflush.induct)
  case (2 d us lm)
  obtain lm' where "insert_historic_noflush d lm = Inr lm'" using insert_succeeds [of d lm] 2(2) by auto
  then show ?case using 2 by (simp add: fails_at_insert)
next
  case (3 d us lm)
  then have d: "desc_ok d" by simp
  show ?case
  proof (cases "removal_fails d lm")
    case True
    then show ?thesis using remove_result [OF d, of lm] by (simp add: fails_at_remove [OF d])
  next
    case False
    then obtain lm' where "remove_historic_noflush d lm = Inr lm'" using remove_result [OF d, of lm] by auto
    then show ?thesis using 3 False by (simp add: fails_at_remove [OF d])
  qed
qed (simp add: fails_at_Nil)

text \<open>
  C25: A batch of updates of the layer map fails in one way only: when it removes an L0 delta of
  which the list of L0 layers does not hold exactly one copy at that point of the batch. It
  is so for a layer that is not there and for one that was inserted twice. Every other
  batch succeeds, its rebuild included.
\<close>

theorem batch_fails_on_l0:
  assumes "lm_reachable ops lm" and "list_all update_ok us"
  shows "if fails_at us lm then batch_update ops us lm = Inl L0LayerLost else \<exists>lm'. batch_update ops us lm = Inr lm'"
proof (cases "fails_at us lm")
  case True
  then show ?thesis using batch_noflush_result [OF assms(2), of lm] by (simp add: batch_update_def)
next
  case False
  then obtain lm1 where lm1: "batch_noflush us lm = Inr lm1" using batch_noflush_result [OF assms(2), of lm] by auto
  have "lm_ok ops lm1" using batch_noflush_ok [OF lm1 _ assms(2)] reachable_lm_ok [OF assms(1)] by blast
  then have "bc_ok ops (lm_historic lm1)" by (simp add: lm_ok_def)
  then show ?thesis using False lm1 by (simp add: batch_update_def flush_updates_def bc_rebuild_ok Let_def)
qed

definition sample_l0 :: persistent_layer_desc where
  "sample_l0 = new_delta sample_tenant (replicate 16 1) (KEY_MIN, KEY_MAX) (40, 48) 8192"

theorem batch_fails_on_l0_witness:
  "batch_update list_ops [InsertHistoric sample_l0, InsertHistoric sample_l0, RemoveHistoric sample_l0] (lm_default list_ops) = Inl L0LayerLost"
proof -
  let ?us = "[InsertHistoric sample_l0, InsertHistoric sample_l0]"
  have "list_all update_ok [InsertHistoric sample_l0, InsertHistoric sample_l0, RemoveHistoric sample_l0]" by code_simp
  moreover have "case batch_noflush ?us (lm_default list_ops) of Inl _ \<Rightarrow> False | Inr lm \<Rightarrow> removal_fails sample_l0 lm" by code_simp
  then obtain lm1 where "batch_noflush ?us (lm_default list_ops) = Inr lm1" "removal_fails sample_l0 lm1" by (auto split: sum.splits)
  then have "fails_at (?us @ RemoveHistoric sample_l0 # []) (lm_default list_ops)" unfolding fails_at_def by blast
  ultimately show ?thesis using batch_fails_on_l0 [OF lm_init, of "?us @ [RemoveHistoric sample_l0]" list_ops] by simp
qed

section \<open>The search at a key\<close>

text \<open>
  C13: Reading a key downwards from an LSN, each search at the floor of the one before, ends:
  after at most as many searches as the LSN, with strictly falling floors, the last layer is the
  newest image of the key below the LSN if it has one, so that no image is passed over, and
  without one no image is returned. It holds for every map that batches of updates lead to, as
  long as the in-memory layers are newer than the deltas on disk.
\<close>

theorem search_reaches_image:
  assumes "ordered_map ops" and "lm_reachable ops lm" and "memory_newer lm" and "to_i128 key = Some k" and "0 < e"
  shows "\<exists>path. read_path (unat e) ops lm key e = Some (Inr path) \<and> path_ok lm k e path"
proof -
  have "layer_nodes ops" using assms(1) by (simp add: layer_nodes_def node_map_def)
  then show ?thesis
    using layer_nodes.read_path_ok [of ops lm key k e "unat e"] reachable_lm_ok [OF assms(2)] assms(3-5) by simp
qed

theorem search_reaches_image_witness:
  "\<exists>path. read_path 64 list_ops sample_map (sample_pkey 60) 64 = Some (Inr path) \<and> path \<noteq> [] \<and> last path = layer_result sample_image
    \<and> path_ok sample_map 60 64 path"
proof -
  have "to_i128 (sample_pkey 60) = Some 60" by code_simp
  then obtain path where p: "read_path (unat (64 :: u64)) list_ops sample_map (sample_pkey 60) 64 = Some (Inr path)" "path_ok sample_map 60 64 path"
    using search_reaches_image [OF entry_lists.ordered_map_axioms sample_reachable sample_newer, of "sample_pkey 60" 60 64] by auto
  have "readable sample_map True 60 (64 - 1) i \<longleftrightarrow> i = sample_image" for i
    using sample_covers [of 60] by (auto simp: readable_def sample_live sample_fields)
  then have "path \<noteq> []" "last path = layer_result sample_image" using p(2) by (auto simp: path_ok_def newest_image_def)
  then show ?thesis using p by auto
qed

section \<open>Images for garbage collection\<close>

text \<open>
  C15: \<open>image_layer_exists\<close>, on which the deletion of an old layer depends, returns true exactly
  if every key of the range is covered by an image whose LSN is in the range of LSNs.
\<close>

theorem image_layer_exists_correct:
  assumes "ordered_map ops" and "lm_reachable ops lm" and "0 < snd lsns"
      and "key_less (fst key) (snd key)" and "to_i128 (fst key) = Some a" and "to_i128 (snd key) = Some b" and "a < b"
  shows "image_layer_exists ops key lsns lm = Inr (\<forall>k. a \<le> k \<and> k < b \<longrightarrow> image_between lm lsns k)"
proof -
  have "layer_nodes ops" using assms(1) by (simp add: layer_nodes_def node_map_def)
  then show ?thesis
    using layer_nodes.image_layer_exists_iff [of ops lm lsns key a b] reachable_lm_ok [OF assms(2)] assms(3-7) by simp
qed

theorem image_layer_exists_correct_witness:
  "image_layer_exists list_ops (sample_pkey 0, sample_pkey 100) (10, 20) sample_map = Inr True
   \<and> image_layer_exists list_ops (sample_pkey 0, sample_pkey 101) (10, 20) sample_map = Inr False"
proof -
  have keys: "to_i128 (sample_pkey 0) = Some 0" "to_i128 (sample_pkey 100) = Some 100" "to_i128 (sample_pkey 101) = Some 101"
      "key_less (sample_pkey 0) (sample_pkey 100)" "key_less (sample_pkey 0) (sample_pkey 101)"
    by code_simp+
  have between: "image_between sample_map (10, 20) k \<longleftrightarrow> 0 \<le> k \<and> k < 100" for k
    using sample_covers [of k] by (auto simp: image_between_def sample_live sample_fields)
  note exists = image_layer_exists_correct [OF entry_lists.ordered_map_axioms sample_reachable]
  have "image_layer_exists list_ops (sample_pkey 0, sample_pkey 100) (10, 20) sample_map = Inr True"
    using exists [of "(10, 20)" "(sample_pkey 0, sample_pkey 100)" 0 100] keys by (simp add: between)
  moreover have "\<not> (\<forall>k. 0 \<le> k \<and> k < (101 :: int) \<longrightarrow> 0 \<le> k \<and> k < 100)" by (auto intro!: exI [of _ 100])
  then have "image_layer_exists list_ops (sample_pkey 0, sample_pkey 101) (10, 20) sample_map = Inr False"
    using exists [of "(10, 20)" "(sample_pkey 0, sample_pkey 101)" 0 101] keys by (simp add: between)
  ultimately show ?thesis by blast
qed

section \<open>The search over a range\<close>

text \<open>
  C14: The search over a range of keys does not fail and agrees with the search at each key of
  the range: a key is among the keys found for a result exactly if the search at the key gives
  that result.
\<close>

theorem range_search_agrees:
  assumes "ordered_map ops" and "lm_reachable ops lm" and "memory_newer lm" and "0 < e"
      and "key_canonical start" and "key_canonical stop" and "key_less start stop"
  shows "\<exists>f. range_search ops (start, stop) e lm = Inr f
    \<and> (\<forall>key r. key_canonical key \<and> range_contains (start, stop) key \<longrightarrow>
          ((\<exists>a. f r = Some a \<and> ksa_has a key) \<longleftrightarrow> search ops key e lm = Inr (Some r)))"
proof -
  have nodes: "layer_nodes ops" using assms(1) by (simp add: layer_nodes_def node_map_def)
  have ok: "lm_ok ops lm" "bc_buffer (lm_historic lm) = []" using reachable_lm_ok [OF assms(2)] by auto
  have pos: "pos_ok (i128_of k)" for k using i128_of_bounds [of k] by (simp add: pos_ok_def)
  define sel where "sel x = projr (search ops (from_i128 x) e lm)" for x
  have sel: "search ops (from_i128 x) e lm = Inr (sel x)" if "pos_ok x" for x
    using layer_nodes.search_steps_down [OF nodes ok assms(3) to_i128_from [OF that] assms(4)] by (auto simp: sel_def)
  let ?lo = "i128_of start" and ?hi = "i128_of stop"
  have ends: "from_i128 ?lo = start" "from_i128 ?hi = stop" "?lo < ?hi"
    using assms(5-7) by (simp_all add: from_i128_of i128_of_less)
  have "search ops (from_i128 x) e lm = Inr (sel x)" if "?lo \<le> x" "x < ?hi" for x
    using that pos [of start] pos [of stop] by (intro sel) (simp add: pos_ok_def)
  then obtain f where f: "range_search ops (start, stop) e lm = Inr f" "found_upto sel ?lo ?hi f"
    using layer_nodes.range_search_ok [OF nodes ok assms(3,4) pos pos ends(3)] unfolding ends(1,2) by blast
  have "(\<exists>a. f r = Some a \<and> ksa_has a key) \<longleftrightarrow> search ops key e lm = Inr (Some r)"
    if key: "key_canonical key" "range_contains (start, stop) key" for key r
  proof -
    have k: "from_i128 (i128_of key) = key" "?lo \<le> i128_of key" "i128_of key < ?hi"
      using key assms(5,6) by (simp_all add: from_i128_of range_contains_def i128_of_less not_less)
    show ?thesis using f(2) [unfolded found_upto_def, rule_format, of r] pos [of key] k sel [OF pos, of key]
      by (cases "f r") auto
  qed
  then show ?thesis using f(1) by blast
qed

theorem range_search_agrees_witness:
  "\<exists>f a r. range_search list_ops (sample_pkey 0, sample_pkey 200) 30 sample_map = Inr f
     \<and> search list_ops (sample_pkey 60) 30 sample_map = Inr (Some r) \<and> sr_layer r = PersistentLayer sample_delta
     \<and> f r = Some a \<and> ksa_has a (sample_pkey 60)"
proof -
  have keys: "key_canonical (sample_pkey 0)" "key_canonical (sample_pkey 200)" "key_canonical (sample_pkey 60)"
      "key_less (sample_pkey 0) (sample_pkey 200)" "range_contains (sample_pkey 0, sample_pkey 200) (sample_pkey 60)"
    by code_simp+
  let ?r = "\<lparr>sr_layer = PersistentLayer sample_delta, sr_lsn_floor = 20\<rparr>"
  have "search list_ops (sample_pkey 60) 30 sample_map = Inr (Some ?r)" by code_simp
  moreover obtain f where f: "range_search list_ops (sample_pkey 0, sample_pkey 200) 30 sample_map = Inr f"
      "\<forall>key r. key_canonical key \<and> range_contains (sample_pkey 0, sample_pkey 200) key \<longrightarrow>
          ((\<exists>a. f r = Some a \<and> ksa_has a key) \<longleftrightarrow> search list_ops key 30 sample_map = Inr (Some r))"
    using range_search_agrees [OF entry_lists.ordered_map_axioms sample_reachable sample_newer _ keys(1,2,4), of 30] by auto
  moreover have "\<exists>a. f ?r = Some a \<and> ksa_has a (sample_pkey 60)" using f(2) keys calculation(1) by blast
  ultimately show ?thesis by force
qed

section \<open>The count of stacked deltas\<close>

text \<open>
  C0: Counting the deltas stacked over a range of keys ends, with a recursion no deeper than the
  end of the range of LSNs, whatever layers the map has, and with a limit the count does not
  exceed it.
\<close>

theorem count_deltas_bounded:
  assumes "ordered_map ops" and "lm_reachable ops lm" and "key_canonical start" and "key_canonical stop"
      and "unat (snd lsns) < frames"
  shows "\<exists>n. count_deltas frames ops lm (start, stop) lsns limit = Inr n \<and> within limit n"
proof -
  have nodes: "layer_nodes ops" using assms(1) by (simp add: layer_nodes_def node_map_def)
  have ok: "lm_ok ops lm" "bc_buffer (lm_historic lm) = []" using reachable_lm_ok [OF assms(2)] by auto
  have pos: "pos_ok (i128_of k)" for k using i128_of_bounds [of k] by (simp add: pos_ok_def)
  show ?thesis
    using layer_nodes.count_deltas_ends [OF nodes ok pos pos assms(5), of start stop limit] assms(3,4) by (simp add: from_i128_of)
qed

theorem count_deltas_bounded_witness:
  "\<exists>n. count_deltas 65 list_ops sample_map (sample_pkey 0, sample_pkey 200) (10, 64) (Some 3) = Inr n \<and> n \<le> 3"
proof -
  have "key_canonical (sample_pkey 0)" "key_canonical (sample_pkey 200)" by code_simp+
  then show ?thesis
    using count_deltas_bounded [OF entry_lists.ordered_map_axioms sample_reachable, of "sample_pkey 0" "sample_pkey 200" "(10, 64)" 65 "Some 3"]
    by (simp add: within_def)
qed

end
