(* ===== verification/Spec2Isabelle.thy ===== *)
theory Spec2Isabelle
  imports Membership Term_History Sk_Refine Wire_Sample Wp_Sample Layer_Claims
begin

text \<open>
  Models of the core of the Neon storage system and what is proved of them.
\<close>

end
